(* ===== verification/Prelude.thy ===== *)
theory Prelude
  imports Main "HOL-Library.Word"
begin

text \<open>
  What every component of the development shares.

  \<^item> The result type of code that can raise: \<open>elog(ERROR, ...)\<close> leaves every caller by a
    long jump, so a computation that may raise has the type \<open>'e + 'a\<close> with \<open>Inl\<close> for the
    error.  \<open>bind_res\<close> sequences two such computations and \<open>map_res\<close> is a loop over an array
    whose body may raise; the lemmas on them carry the loops of the components.
  \<^item> The C library functions that the sources call on strings: \<open>strstr\<close>, the \<open>%d\<close> of
    \<open>snprintf\<close>, and the directives of \<open>sscanf\<close> (white space, literals, \<open>%s\<close>, \<open>%d\<close>, \<open>%X\<close>).
  \<^item> The integer conversions of C on fixed-width values.
\<close>

section \<open>Named collections\<close>

named_theorems res_simps \<open>equations of the result combinators\<close>
named_theorems c_string \<open>facts on the C string functions\<close>

section \<open>Computations that may raise\<close>

definition bind_res :: "'e + 'a \<Rightarrow> ('a \<Rightarrow> 'e + 'b) \<Rightarrow> 'e + 'b" where
  "bind_res r f = (case r of Inl e \<Rightarrow> Inl e | Inr x \<Rightarrow> f x)"

fun map_res :: "('a \<Rightarrow> 'e + 'b) \<Rightarrow> 'a list \<Rightarrow> 'e + 'b list" where
  "map_res f [] = Inr []"
| "map_res f (x # xs) =
     (case f x of
        Inl e \<Rightarrow> Inl e
      | Inr y \<Rightarrow> (case map_res f xs of Inl e \<Rightarrow> Inl e | Inr ys \<Rightarrow> Inr (y # ys)))"

fun map_res_idx :: "(nat \<Rightarrow> 'a \<Rightarrow> 'e + 'b) \<Rightarrow> nat \<Rightarrow> 'a list \<Rightarrow> 'e + 'b list" where
  "map_res_idx f i [] = Inr []"
| "map_res_idx f i (x # xs) =
     (case f i x of
        Inl e \<Rightarrow> Inl e
      | Inr y \<Rightarrow> (case map_res_idx f (Suc i) xs of Inl e \<Rightarrow> Inl e | Inr ys \<Rightarrow> Inr (y # ys)))"

lemma bind_res_simps [simp, res_simps]:
  "bind_res (Inl e) f = Inl e"
  "bind_res (Inr x) f = f x"
  by (simp_all add: bind_res_def)

lemma bind_res_Inr_iff [res_simps]:
  "bind_res r f = Inr y \<longleftrightarrow> (\<exists>x. r = Inr x \<and> f x = Inr y)"
  by (cases r) simp_all

lemma bind_res_Inl_iff [res_simps]:
  "bind_res r f = Inl e \<longleftrightarrow> r = Inl e \<or> (\<exists>x. r = Inr x \<and> f x = Inl e)"
  by (cases r) simp_all

lemma bind_res_InrE:
  assumes "bind_res r f = Inr y"
  obtains x where "r = Inr x" and "f x = Inr y"
  using assms by (auto simp: bind_res_Inr_iff)

lemma bind_res_InlE:
  assumes "bind_res r f = Inl e"
  obtains (here) "r = Inl e" | (later) x where "r = Inr x" and "f x = Inl e"
  using assms by (auto simp: bind_res_Inl_iff)

text \<open>
  A loop over an array relates every element to its result by whatever relation the body
  establishes; an error of the loop is an error of the body at one of the elements.
\<close>

lemma map_res_all2:
  assumes "map_res f xs = Inr ys" and "\<And>x y. x \<in> set xs \<Longrightarrow> f x = Inr y \<Longrightarrow> R x y"
  shows "list_all2 R xs ys"
  using assms
proof (induction xs arbitrary: ys)
  case (Cons x xs)
  then show ?case by (auto split: sum.splits)
qed simp

lemma map_res_Inl:
  assumes "map_res f xs = Inl e"
  obtains x where "x \<in> set xs" and "f x = Inl e"
  using assms by (induction xs) (auto split: sum.splits)

lemma map_res_idx_all2:
  assumes "map_res_idx f i xs = Inr ys" and "\<And>j x y. x \<in> set xs \<Longrightarrow> f j x = Inr y \<Longrightarrow> R x y"
  shows "list_all2 R xs ys"
  using assms
proof (induction xs arbitrary: i ys)
  case (Cons x xs)
  then show ?case by (auto split: sum.splits)
qed simp

lemma map_res_idx_Inl:
  assumes "map_res_idx f i xs = Inl e"
  obtains j x where "x \<in> set xs" and "f j x = Inl e"
proof -
  have "\<exists>j x. x \<in> set xs \<and> f j x = Inl e" using assms
  proof (induction xs arbitrary: i)
    case (Cons x xs)
    then show ?case by (fastforce split: sum.splits)
  qed simp
  with that show thesis by blast
qed

lemma map_res_idx_nth:
  assumes "map_res_idx f i xs = Inr ys" and "k < length xs"
  shows "f (i + k) (xs ! k) = Inr (ys ! k)"
  using assms
proof (induction xs arbitrary: i k ys)
  case (Cons x xs)
  then show ?case by (cases k) (fastforce split: sum.splits)+
qed simp

lemma map_res_idx_total:
  assumes "\<And>j x. x \<in> set xs \<Longrightarrow> \<exists>y. f j x = Inr y"
  shows "\<exists>ys. map_res_idx f i xs = Inr ys"
  using assms
proof (induction xs arbitrary: i)
  case (Cons x xs)
  then obtain y ys where "f i x = Inr y" "map_res_idx f (Suc i) xs = Inr ys" by fastforce
  then show ?case by simp
qed simp

lemma map_res_idx_id:
  assumes "\<And>j x. x \<in> set xs \<Longrightarrow> f j x = Inr x"
  shows "map_res_idx f i xs = Inr xs"
  using assms by (induction xs arbitrary: i) simp_all

text \<open>Relations that hold element by element compose along successive loops.\<close>

lemma list_all2_comp:
  assumes "list_all2 R xs ys" and "list_all2 S ys zs" and "\<And>x y z. R x y \<Longrightarrow> S y z \<Longrightarrow> T x z"
  shows "list_all2 T xs zs"
  using assms by (rule list_all2_trans [rotated])

lemma list_all2_list_all:
  assumes "list_all2 R xs ys" and "list_all P xs" and "\<And>x y. R x y \<Longrightarrow> P x \<Longrightarrow> Q y"
  shows "list_all Q ys"
  using assms by (induction rule: list_all2_induct) auto

section \<open>C integer conversions\<close>

lemma unat_of_nat_less: "n < 2 ^ LENGTH('a :: len) \<Longrightarrow> unat (of_nat n :: 'a word) = n"
  by (simp add: unsigned_of_nat take_bit_nat_eq_self)

text \<open>
  \<open>(int) x\<close> for a 64-bit \<open>x\<close>: the low 32 bits, read as a signed value (the conversion every
  supported compiler performs).
\<close>

definition c_int :: "64 word \<Rightarrow> int" where
  "c_int x = sint (ucast x :: 32 word)"

section \<open>C strings\<close>

definition is_space :: "char \<Rightarrow> bool" where
  "is_space c \<longleftrightarrow> c \<in> {CHR '' '', CHR 0x09, CHR 0x0A, CHR 0x0B, CHR 0x0C, CHR 0x0D}"

text \<open>\<open>strstr\<close>: the suffix of the haystack at the first occurrence of the needle.\<close>

fun strstr :: "string \<Rightarrow> string \<Rightarrow> string option" where
  "strstr [] n = (if n = [] then Some [] else None)"
| "strstr (c # cs) n =
     (if take (length n) (c # cs) = n then Some (c # cs) else strstr cs n)"

text \<open>\<open>strncmp(s, lit, strlen(lit)) == 0\<close>: the string starts with the literal.\<close>

definition starts_with :: "string \<Rightarrow> string \<Rightarrow> bool" where
  "starts_with s lit \<longleftrightarrow> take (length lit) s = lit"

subsection \<open>Printing\<close>

definition digit_char :: "nat \<Rightarrow> char" where
  "digit_char d = char_of (48 + d)"

fun print_nat :: "nat \<Rightarrow> string" where
  "print_nat n = (if n < 10 then [digit_char n] else print_nat (n div 10) @ [digit_char (n mod 10)])"

definition print_int :: "int \<Rightarrow> string" where
  "print_int i = (if i < 0 then CHR ''-'' # print_nat (nat (- i)) else print_nat (nat i))"

subsection \<open>Scanning\<close>

definition skip_space :: "string \<Rightarrow> string" where
  "skip_space s = dropWhile is_space s"

text \<open>A literal of a \<open>sscanf\<close> format: it must match exactly.\<close>

definition scan_lit :: "string \<Rightarrow> string \<Rightarrow> string option" where
  "scan_lit lit s = (if starts_with s lit then Some (drop (length lit) s) else None)"

text \<open>\<open>%s\<close>: white space is skipped, then a non-empty run of other characters is taken.\<close>

definition scan_word :: "string \<Rightarrow> (string \<times> string) option" where
  "scan_word s =
     (let t = skip_space s; w = takeWhile (\<lambda>c. \<not> is_space c) t
      in if w = [] then None else Some (w, dropWhile (\<lambda>c. \<not> is_space c) t))"

definition is_digit :: "char \<Rightarrow> bool" where
  "is_digit c \<longleftrightarrow> 48 \<le> (of_char c :: nat) \<and> (of_char c :: nat) \<le> 57"

definition digit_val :: "char \<Rightarrow> nat" where
  "digit_val c = of_char c - 48"

definition digits_val :: "string \<Rightarrow> nat" where
  "digits_val ds = foldl (\<lambda>acc c. 10 * acc + digit_val c) 0 ds"

definition scan_nat :: "string \<Rightarrow> (nat \<times> string) option" where
  "scan_nat s =
     (let ds = takeWhile is_digit s
      in if ds = [] then None else Some (digits_val ds, dropWhile is_digit s))"

text \<open>
  \<open>%d\<close>: white space is skipped, an optional sign, then decimal digits.  (A value outside the
  range of \<open>int\<close> is undefined behaviour in C; the scanner returns the number itself.)
\<close>

definition scan_int :: "string \<Rightarrow> (int \<times> string) option" where
  "scan_int s =
     (case skip_space s of
        [] \<Rightarrow> None
      | c # cs \<Rightarrow>
          if c = CHR ''-'' then map_option (\<lambda>(n, r). (- int n, r)) (scan_nat cs)
          else if c = CHR ''+'' then map_option (\<lambda>(n, r). (int n, r)) (scan_nat cs)
          else map_option (\<lambda>(n, r). (int n, r)) (scan_nat (c # cs)))"

definition hex_val :: "char \<Rightarrow> nat option" where
  "hex_val c =
     (let k = (of_char c :: nat)
      in if 48 \<le> k \<and> k \<le> 57 then Some (k - 48)
         else if 65 \<le> k \<and> k \<le> 70 then Some (k - 55)
         else if 97 \<le> k \<and> k \<le> 102 then Some (k - 87)
         else None)"

fun hex_digits :: "string \<Rightarrow> nat list \<times> string" where
  "hex_digits [] = ([], [])"
| "hex_digits (c # cs) =
     (case hex_val c of
        None \<Rightarrow> ([], c # cs)
      | Some d \<Rightarrow> (let (ds, r) = hex_digits cs in (d # ds, r)))"

text \<open>
  \<open>%X\<close> into a \<open>uint32\<close>: white space is skipped, an optional \<open>0x\<close> prefix, then hexadecimal
  digits.  The number is read as an \<open>unsigned long\<close>, which saturates, and stored in 32 bits.
\<close>

definition scan_hex :: "string \<Rightarrow> (32 word \<times> string) option" where
  "scan_hex s =
     (let t = skip_space s;
          t' = (if starts_with t ''0x'' \<or> starts_with t ''0X'' then drop 2 t else t);
          (ds, r) = hex_digits t'
      in if ds = [] then None
         else Some (word_of_nat (min (foldl (\<lambda>acc d. 16 * acc + d) 0 ds) (2 ^ 64 - 1)), r))"

lemma sint_of_int32: "i \<in> {- (2 ^ 31)..<2 ^ 31} \<Longrightarrow> sint (of_int i :: 32 word) = i"
  by (simp add: signed_take_bit_int_eq_self_iff sint_sbintrunc')

subsection \<open>Printed numbers are scanned back\<close>

lemma is_digit_char: "d < 10 \<Longrightarrow> is_digit (digit_char d)" "d < 10 \<Longrightarrow> digit_val (digit_char d) = d"
  by (simp_all add: is_digit_def digit_char_def digit_val_def)

declare print_nat.simps [simp del]

lemma print_nat_digits: "print_nat n \<noteq> [] \<and> list_all is_digit (print_nat n)"
  by (induction n rule: print_nat.induct) (subst print_nat.simps, simp add: is_digit_char)+

lemma digits_val_snoc: "digits_val (ds @ [c]) = 10 * digits_val ds + digit_val c"
  by (simp add: digits_val_def)

lemma digits_val_print: "digits_val (print_nat n) = n"
proof (induction n rule: print_nat.induct)
  case (1 n)
  show ?case
  proof (cases "n < 10")
    case True
    then show ?thesis by (subst print_nat.simps) (simp add: digits_val_def is_digit_char)
  next
    case False
    with 1 show ?thesis by (subst print_nat.simps) (simp add: digits_val_snoc is_digit_char)
  qed
qed

lemma print_nat_length: "n < 10 ^ Suc k \<Longrightarrow> length (print_nat n) \<le> Suc k"
proof (induction k arbitrary: n)
  case 0
  then show ?case by (subst print_nat.simps) simp
next
  case (Suc k)
  then have "length (print_nat (n div 10)) \<le> Suc k" by (intro Suc.IH) (simp add: less_mult_imp_div_less)
  then show ?case by (subst print_nat.simps) simp
qed

lemma takeWhile_stop: "list_all P xs \<Longrightarrow> ys = [] \<or> \<not> P (hd ys) \<Longrightarrow> takeWhile P (xs @ ys) = xs"
  by (induction xs) (auto simp: takeWhile_eq_Nil_iff)

lemma dropWhile_stop: "list_all P xs \<Longrightarrow> ys = [] \<or> \<not> P (hd ys) \<Longrightarrow> dropWhile P (xs @ ys) = ys"
  by (induction xs) (auto simp: dropWhile_eq_self_iff)

lemma scan_print_nat:
  assumes "r = [] \<or> \<not> is_digit (hd r)"
  shows "scan_nat (print_nat n @ r) = Some (n, r)"
  using print_nat_digits [of n] takeWhile_stop [of is_digit "print_nat n" r]
    dropWhile_stop [of is_digit "print_nat n" r] assms
  by (simp add: scan_nat_def Let_def digits_val_print)

lemma digit_no_space: "is_digit c \<Longrightarrow> \<not> is_space c \<and> c \<noteq> CHR ''-'' \<and> c \<noteq> CHR ''+''"
  by (auto simp: is_digit_def is_space_def)

lemma scan_print_int:
  assumes "r = [] \<or> \<not> is_digit (hd r)"
  shows "scan_int (print_int i @ r) = Some (i, r)"
proof (cases "i < 0")
  case True
  have "\<not> is_space CHR ''-''" by (simp add: is_space_def)
  with True scan_print_nat [OF assms] show ?thesis
    by (simp add: scan_int_def print_int_def skip_space_def)
next
  case False
  obtain c cs where pn: "print_nat (nat i) = c # cs" and "is_digit c"
    using print_nat_digits [of "nat i"] by (cases "print_nat (nat i)") auto
  with False digit_no_space [of c] scan_print_nat [OF assms, of "nat i"] show ?thesis
    by (simp add: scan_int_def print_int_def skip_space_def)
qed

lemma print_int_length:
  assumes "i \<in> {- (2 ^ 31)..<2 ^ 31}"
  shows "length (print_int i) \<le> 11"
proof -
  have "length (print_nat (nat \<bar>i\<bar>)) \<le> Suc 9" using assms by (intro print_nat_length) auto
  then show ?thesis by (cases "i < 0") (simp_all add: print_int_def)
qed

end
