(* ===== verification/Fts_Config.thy ===== *)
theory Fts_Config
  imports Prelude
begin

text \<open>
  The data the parts of the fault tolerance service (FTS) share: the rows of
  \<open>gp_segment_configuration\<close> (\<open>GpSegConfigEntry\<close>), the shared-memory status array that the
  dispatcher reads (\<open>FtsProbeInfo\<close>), the response and the message format that the prober and
  the segments exchange, and the catalog update \<open>probeWalRepUpdateConfig\<close>.
\<close>

unbundle bit_operations_syntax

section \<open>Segment configuration\<close>

abbreviation (input) GP_SEGMENT_CONFIGURATION_ROLE_PRIMARY :: char where
  "GP_SEGMENT_CONFIGURATION_ROLE_PRIMARY \<equiv> CHR ''p''"

abbreviation (input) GP_SEGMENT_CONFIGURATION_ROLE_MIRROR :: char where
  "GP_SEGMENT_CONFIGURATION_ROLE_MIRROR \<equiv> CHR ''m''"

abbreviation (input) GP_SEGMENT_CONFIGURATION_STATUS_UP :: char where
  "GP_SEGMENT_CONFIGURATION_STATUS_UP \<equiv> CHR ''u''"

abbreviation (input) GP_SEGMENT_CONFIGURATION_STATUS_DOWN :: char where
  "GP_SEGMENT_CONFIGURATION_STATUS_DOWN \<equiv> CHR ''d''"

abbreviation (input) GP_SEGMENT_CONFIGURATION_MODE_INSYNC :: char where
  "GP_SEGMENT_CONFIGURATION_MODE_INSYNC \<equiv> CHR ''s''"

abbreviation (input) GP_SEGMENT_CONFIGURATION_MODE_NOTINSYNC :: char where
  "GP_SEGMENT_CONFIGURATION_MODE_NOTINSYNC \<equiv> CHR ''n''"

record GpSegConfigEntry =
  gsc_dbid :: int
  gsc_segindex :: int
  gsc_role :: char
  gsc_preferred_role :: char
  gsc_mode :: char
  gsc_status :: char
  gsc_port :: int
  gsc_hostname :: string
  gsc_address :: string
  gsc_datadir :: string
  gsc_hostip :: "string option"

definition SEGMENT_IS_ACTIVE_MIRROR :: "GpSegConfigEntry \<Rightarrow> bool" where
  "SEGMENT_IS_ACTIVE_MIRROR p \<longleftrightarrow> gsc_role p = GP_SEGMENT_CONFIGURATION_ROLE_MIRROR"

definition SEGMENT_IS_ACTIVE_PRIMARY :: "GpSegConfigEntry \<Rightarrow> bool" where
  "SEGMENT_IS_ACTIVE_PRIMARY p \<longleftrightarrow> gsc_role p = GP_SEGMENT_CONFIGURATION_ROLE_PRIMARY"

definition SEGMENT_IS_ALIVE :: "GpSegConfigEntry \<Rightarrow> bool" where
  "SEGMENT_IS_ALIVE p \<longleftrightarrow> gsc_status p = GP_SEGMENT_CONFIGURATION_STATUS_UP"

definition SEGMENT_IS_IN_SYNC :: "GpSegConfigEntry \<Rightarrow> bool" where
  "SEGMENT_IS_IN_SYNC p \<longleftrightarrow> gsc_mode p = GP_SEGMENT_CONFIGURATION_MODE_INSYNC"

definition SEGMENT_IS_NOT_INSYNC :: "GpSegConfigEntry \<Rightarrow> bool" where
  "SEGMENT_IS_NOT_INSYNC p \<longleftrightarrow> gsc_mode p = GP_SEGMENT_CONFIGURATION_MODE_NOTINSYNC"

text \<open>
  \<open>CdbComponentDatabases\<close>, the fields the prober reads: the segment rows (the length of the
  array is \<open>total_segment_dbs\<close>) and the number of distinct content ids.
\<close>

record CdbComponentDatabases =
  segment_db_info :: "GpSegConfigEntry list"
  total_segments :: int

section \<open>Shared-memory status\<close>

abbreviation (input) FTS_STATUS_DOWN :: "8 word" where
  "FTS_STATUS_DOWN \<equiv> 1"

definition FTS_STATUS_IS_DOWN :: "8 word \<Rightarrow> bool" where
  "FTS_STATUS_IS_DOWN st \<longleftrightarrow> st AND FTS_STATUS_DOWN \<noteq> 0"

definition FTS_STATUS_SET_DOWN :: "8 word \<Rightarrow> 8 word" where
  "FTS_STATUS_SET_DOWN st = st OR FTS_STATUS_DOWN"

definition FTS_STATUS_SET_UP :: "8 word \<Rightarrow> 8 word" where
  "FTS_STATUS_SET_UP st = st AND NOT FTS_STATUS_DOWN"

record FtsProbeInfo =
  fpi_status_version :: "8 word"
  fpi_status :: "int \<Rightarrow> 8 word"
  fpi_start_count :: "32 word"
  fpi_done_count :: "32 word"

section \<open>Messages\<close>

abbreviation (input) FTS_MSG_PROBE :: string where
  "FTS_MSG_PROBE \<equiv> ''PROBE''"

abbreviation (input) FTS_MSG_SYNCREP_OFF :: string where
  "FTS_MSG_SYNCREP_OFF \<equiv> ''SYNCREP_OFF''"

abbreviation (input) FTS_MSG_PROMOTE :: string where
  "FTS_MSG_PROMOTE \<equiv> ''PROMOTE''"

abbreviation (input) FTS_MSG_MAX_LEN :: nat where
  "FTS_MSG_MAX_LEN \<equiv> 100"

text \<open>
  \<open>FTS_MSG_FORMAT\<close> printed by \<open>snprintf\<close> into a buffer of \<open>FTS_MSG_MAX_LEN\<close> bytes, the last of
  which holds the terminator, and scanned by \<open>sscanf\<close> (three conversions, or failure).
\<close>

definition fts_msg_print :: "string \<Rightarrow> int \<Rightarrow> int \<Rightarrow> string" where
  "fts_msg_print t d c =
     take (FTS_MSG_MAX_LEN - 1)
       (t @ '' dbid='' @ print_int d @ '' contid='' @ print_int c)"

definition fts_msg_scan :: "string \<Rightarrow> (string \<times> int \<times> int) option" where
  "fts_msg_scan s =
     (case scan_word s of None \<Rightarrow> None | Some (t, s1) \<Rightarrow>
      (case scan_lit ''dbid='' (skip_space s1) of None \<Rightarrow> None | Some s2 \<Rightarrow>
       (case scan_int s2 of None \<Rightarrow> None | Some (d, s3) \<Rightarrow>
        (case scan_lit ''contid='' (skip_space s3) of None \<Rightarrow> None | Some s4 \<Rightarrow>
         (case scan_int s4 of None \<Rightarrow> None | Some (c, s5) \<Rightarrow> Some (t, d, c))))))"

abbreviation (input) Natts_fts_message_response :: int where
  "Natts_fts_message_response \<equiv> 5"

abbreviation (input) FTS_MESSAGE_RESPONSE_NTUPLES :: int where
  "FTS_MESSAGE_RESPONSE_NTUPLES \<equiv> 1"

record FtsResponse =
  fr_IsMirrorUp :: bool
  fr_IsInSync :: bool
  fr_IsSyncRepEnabled :: bool
  fr_IsRoleMirror :: bool
  fr_RequestRetry :: bool

section \<open>The catalog\<close>

text \<open>
  The errors that leave the prober.  The first group is raised by the FTS code itself, the
  second reports what the operating system, libpq or the catalog returned.
\<close>

datatype FtsMessageState =
    FTS_PROBE_SEGMENT
  | FTS_SYNCREP_OFF_SEGMENT
  | FTS_PROMOTE_SEGMENT
  | FTS_PROBE_RETRY_WAIT
  | FTS_SYNCREP_OFF_RETRY_WAIT
  | FTS_PROMOTE_RETRY_WAIT
  | FTS_PROBE_SUCCESS
  | FTS_SYNCREP_OFF_SUCCESS
  | FTS_PROMOTE_SUCCESS
  | FTS_PROBE_FAILED
  | FTS_SYNCREP_OFF_FAILED
  | FTS_PROMOTE_FAILED
  | FTS_RESPONSE_PROCESSED

datatype fts_error =
    NoNextSuccessState FtsMessageState
  | NoNextFailedState FtsMessageState
  | InvalidInternalState FtsMessageState
  | CannotCreateConnection
  | InvalidConnectPoll
  | PollFailed
  | CannotFindDbid int

text \<open>
  The catalog tables FTS writes, and the shared status.  A history row is kept as its dbid and
  description; its timestamp column does not take part in anything.
\<close>

record fts_catalog =
  gp_segment_configuration :: "GpSegConfigEntry list"
  gp_configuration_history :: "(int \<times> string) list"
  ftsProbeInfo :: FtsProbeInfo

definition status_char :: "bool \<Rightarrow> char" where
  "status_char alive =
     (if alive then GP_SEGMENT_CONFIGURATION_STATUS_UP else GP_SEGMENT_CONFIGURATION_STATUS_DOWN)"

definition mode_char :: "bool \<Rightarrow> char" where
  "mode_char insync =
     (if insync then GP_SEGMENT_CONFIGURATION_MODE_INSYNC
      else GP_SEGMENT_CONFIGURATION_MODE_NOTINSYNC)"

definition history_desc :: "int \<Rightarrow> int \<Rightarrow> char \<Rightarrow> bool \<Rightarrow> bool \<Rightarrow> string" where
  "history_desc dbid segindex role alive insync =
     ''FTS: update role, status, and mode for dbid '' @ print_int dbid @
     '' with contentid '' @ print_int segindex @ '' to '' @ [role] @ '', '' @
     [status_char alive] @ '', and '' @ [mode_char insync]"

text \<open>
  The row a unique index scan on dbid finds is replaced by its modified copy; the other rows
  stay.
\<close>

fun update_config_row ::
  "int \<Rightarrow> (GpSegConfigEntry \<Rightarrow> GpSegConfigEntry) \<Rightarrow> GpSegConfigEntry list \<Rightarrow>
   GpSegConfigEntry list option" where
  "update_config_row d f [] = None"
| "update_config_row d f (r # rs) =
     (if gsc_dbid r = d then Some (f r # rs)
      else map_option ((#) r) (update_config_row d f rs))"

definition probeWalRepUpdateConfig ::
  "int \<Rightarrow> int \<Rightarrow> char \<Rightarrow> bool \<Rightarrow> bool \<Rightarrow> fts_catalog \<Rightarrow> fts_error + fts_catalog" where
  "probeWalRepUpdateConfig dbid segindex role IsSegmentAlive IsInSync cat =
     (let cat1 = cat\<lparr>gp_configuration_history :=
                   gp_configuration_history cat
                   @ [(dbid, history_desc dbid segindex role IsSegmentAlive IsInSync)]\<rparr>
      in case update_config_row dbid
                (\<lambda>r. r\<lparr>gsc_role := role,
                       gsc_status := status_char IsSegmentAlive,
                       gsc_mode := mode_char IsInSync\<rparr>)
                (gp_segment_configuration cat1) of
           None \<Rightarrow> Inl (CannotFindDbid dbid)
         | Some rows \<Rightarrow> Inr (cat1\<lparr>gp_segment_configuration := rows\<rparr>))"

end
