(* ===== verification/Fts_Probe.thy ===== *)
theory Fts_Probe
  imports Fts_Config
begin

text \<open>
  The prober (\<open>src/backend/fts/ftsprobe.c\<close>): one probe cycle over the primary-mirror pairs.
  Every pair has a \<open>fts_segment_info\<close> whose \<open>state\<close> moves through the message states; one
  iteration of the loop connects, polls, sends, receives, retries and processes responses.

  libpq, the kernel's \<open>poll\<close> and the clock are the environment: what their calls return during
  one iteration is a value of type \<open>cycle_io\<close>, about which nothing is assumed.  A libpq call
  that may change the connection object returns the new object.  The \<open>Assert\<close>s of the source
  are not part of the definitions; several of them are theorems below.
\<close>

unbundle bit_operations_syntax

section \<open>State\<close>

datatype PMRestartState =
    PM_NOT_IN_RESTART
  | PM_IN_RESETTING
  | PM_IN_RECOVERY_MAKING_PROGRESS
  | PM_IN_RECOVERY_NOT_MAKING_PROGRESS

definition IsFtsMessageStateSuccess :: "FtsMessageState \<Rightarrow> bool" where
  "IsFtsMessageStateSuccess st \<longleftrightarrow>
     st = FTS_PROBE_SUCCESS \<or> st = FTS_SYNCREP_OFF_SUCCESS \<or> st = FTS_PROMOTE_SUCCESS"

definition IsFtsMessageStateFailed :: "FtsMessageState \<Rightarrow> bool" where
  "IsFtsMessageStateFailed st \<longleftrightarrow>
     st = FTS_PROBE_FAILED \<or> st = FTS_SYNCREP_OFF_FAILED \<or> st = FTS_PROMOTE_FAILED"

record fts_result =
  res_dbid :: int
  isPrimaryAlive :: bool
  isMirrorAlive :: bool
  isInSync :: bool
  isSyncRepEnabled :: bool
  isRoleMirror :: bool
  retryRequested :: bool

definition zero_result :: fts_result where
  "zero_result =
     \<lparr>res_dbid = 0, isPrimaryAlive = False, isMirrorAlive = False, isInSync = False,
      isSyncRepEnabled = False, isRoleMirror = False, retryRequested = False\<rparr>"

subsection \<open>libpq objects as the prober sees them\<close>

datatype ConnStatusType =
    CONNECTION_OK
  | CONNECTION_BAD
  | CONNECTION_STARTED
  | CONNECTION_MADE
  | CONNECTION_AWAITING_RESPONSE
  | CONNECTION_AUTH_OK
  | CONNECTION_SETENV
  | CONNECTION_SSL_STARTUP
  | CONNECTION_NEEDED
  | CONNECTION_CHECK_WRITABLE
  | CONNECTION_CONSUME
  | CONNECTION_GSS_STARTUP

datatype PGAsyncStatusType =
    PGASYNC_IDLE
  | PGASYNC_BUSY
  | PGASYNC_READY
  | PGASYNC_COPY_IN
  | PGASYNC_COPY_OUT
  | PGASYNC_COPY_BOTH

datatype PostgresPollingStatusType =
    PGRES_POLLING_FAILED
  | PGRES_POLLING_READING
  | PGRES_POLLING_WRITING
  | PGRES_POLLING_OK
  | PGRES_POLLING_ACTIVE

datatype ExecStatusType =
    PGRES_EMPTY_QUERY
  | PGRES_COMMAND_OK
  | PGRES_TUPLES_OK
  | PGRES_COPY_OUT
  | PGRES_COPY_IN
  | PGRES_BAD_RESPONSE
  | PGRES_NONFATAL_ERROR
  | PGRES_FATAL_ERROR
  | PGRES_COPY_BOTH
  | PGRES_SINGLE_TUPLE

record pg_conn =
  pgc_status :: ConnStatusType
  pgc_asyncStatus :: PGAsyncStatusType
  pgc_errorMessage :: string

definition PQstatus :: "pg_conn option \<Rightarrow> ConnStatusType" where
  "PQstatus c = (case c of None \<Rightarrow> CONNECTION_BAD | Some k \<Rightarrow> pgc_status k)"

definition PQerrorMessage :: "pg_conn option \<Rightarrow> string" where
  "PQerrorMessage c =
     (case c of None \<Rightarrow> ''connection pointer is NULL'' @ [CHR 0x0A]
              | Some k \<Rightarrow> pgc_errorMessage k)"

text \<open>A result: its status, its shape, and the first byte of each column of its first row.\<close>

record PGresult =
  pgr_status :: ExecStatusType
  pgr_ntuples :: int
  pgr_nfields :: int
  pgr_value :: "nat \<Rightarrow> 8 word"

subsection \<open>Poll events\<close>

abbreviation (input) POLLIN :: "16 word" where "POLLIN \<equiv> 0x001"
abbreviation (input) POLLOUT :: "16 word" where "POLLOUT \<equiv> 0x004"
abbreviation (input) POLLERR :: "16 word" where "POLLERR \<equiv> 0x008"
abbreviation (input) POLLHUP :: "16 word" where "POLLHUP \<equiv> 0x010"

type_synonym pg_time = "64 word"

record fts_segment_info =
  primary_cdbinfo :: GpSegConfigEntry
  mirror_cdbinfo :: GpSegConfigEntry
  fsi_result :: fts_result
  fsi_state :: FtsMessageState
  poll_events :: "16 word"
  poll_revents :: "16 word"
  fd_index :: int
  startTime :: pg_time
  retryStartTime :: pg_time
  probe_errno :: int
  fsi_conn :: "pg_conn option"
  retry_count :: int
  xlogrecptr :: "64 word"
  restart_state :: PMRestartState
  timeout_count :: int

record fts_context =
  num_pairs :: int
  perSegInfos :: "fts_segment_info list"

text \<open>The configuration variables the prober reads.\<close>

record fts_guc =
  gp_fts_probe_retries :: int
  gp_fts_probe_timeout :: int

subsection \<open>The environment of one iteration\<close>

record seg_io =
  io_connectStart :: "string \<Rightarrow> pg_conn option"
  io_startTime :: pg_time
  io_connectPoll :: "PostgresPollingStatusType \<times> pg_conn"
  io_sendQuery :: "string \<Rightarrow> bool \<times> pg_conn"
  io_consumeInput :: "bool \<times> pg_conn"
  io_isBusy :: "bool \<times> pg_conn"
  io_getResult :: "PGresult option \<times> pg_conn"

record cycle_io =
  cio_seg :: "nat \<Rightarrow> seg_io"
  cio_nready :: int
  cio_eintr :: bool
  cio_revents :: "nat \<Rightarrow> 16 word"
  cio_poll_now :: pg_time
  cio_retry_now :: pg_time

section \<open>Operations\<close>

fun FtsGetPeerSegment :: "GpSegConfigEntry list \<Rightarrow> int \<Rightarrow> int \<Rightarrow> GpSegConfigEntry option" where
  "FtsGetPeerSegment [] content dbid = None"
| "FtsGetPeerSegment (segInfo # rest) content dbid =
     (if gsc_segindex segInfo = content \<and> gsc_dbid segInfo \<noteq> dbid then Some segInfo
      else FtsGetPeerSegment rest content dbid)"

fun nextSuccessState :: "FtsMessageState \<Rightarrow> fts_error + FtsMessageState" where
  "nextSuccessState FTS_PROBE_SEGMENT = Inr FTS_PROBE_SUCCESS"
| "nextSuccessState FTS_SYNCREP_OFF_SEGMENT = Inr FTS_SYNCREP_OFF_SUCCESS"
| "nextSuccessState FTS_PROMOTE_SEGMENT = Inr FTS_PROMOTE_SUCCESS"
| "nextSuccessState st = Inl (NoNextSuccessState st)"

fun nextFailedState :: "FtsMessageState \<Rightarrow> fts_error + FtsMessageState" where
  "nextFailedState FTS_PROBE_SEGMENT = Inr FTS_PROBE_FAILED"
| "nextFailedState FTS_SYNCREP_OFF_SEGMENT = Inr FTS_SYNCREP_OFF_FAILED"
| "nextFailedState FTS_PROMOTE_SEGMENT = Inr FTS_PROMOTE_FAILED"
| "nextFailedState FTS_PROBE_FAILED = Inr FTS_PROBE_FAILED"
| "nextFailedState FTS_SYNCREP_OFF_FAILED = Inr FTS_SYNCREP_OFF_FAILED"
| "nextFailedState FTS_PROMOTE_FAILED = Inr FTS_PROMOTE_FAILED"
| "nextFailedState FTS_PROBE_RETRY_WAIT = Inr FTS_PROBE_FAILED"
| "nextFailedState FTS_SYNCREP_OFF_RETRY_WAIT = Inr FTS_SYNCREP_OFF_FAILED"
| "nextFailedState FTS_PROMOTE_RETRY_WAIT = Inr FTS_PROMOTE_FAILED"
| "nextFailedState st = Inl (NoNextFailedState st)"

definition fail_segment :: "fts_segment_info \<Rightarrow> fts_error + fts_segment_info" where
  "fail_segment info =
     (case nextFailedState (fsi_state info) of
        Inl e \<Rightarrow> Inl e | Inr st \<Rightarrow> Inr (info\<lparr>fsi_state := st\<rparr>))"

definition allDone :: "fts_segment_info list \<Rightarrow> bool" where
  "allDone infos \<longleftrightarrow> list_all (\<lambda>i. fsi_state i = FTS_RESPONSE_PROCESSED) infos"

definition fts_conninfo :: "GpSegConfigEntry \<Rightarrow> string" where
  "fts_conninfo c =
     take 1023 (''host='' @ (case gsc_hostip c of None \<Rightarrow> '''' | Some h \<Rightarrow> h) @
                '' port='' @ print_int (gsc_port c) @ '' gpconntype='' @ ''fts'')"

definition ftsConnectStart :: "seg_io \<Rightarrow> fts_segment_info \<Rightarrow> fts_error + bool \<times> fts_segment_info" where
  "ftsConnectStart io info =
     (case io_connectStart io (fts_conninfo (primary_cdbinfo info)) of
        None \<Rightarrow> Inl CannotCreateConnection
      | Some c \<Rightarrow>
          let info1 = info\<lparr>fsi_conn := Some c\<rparr>
          in if pgc_status c = CONNECTION_BAD then Inr (False, info1)
             else Inr (True, info1\<lparr>poll_events := poll_events info1 OR POLLOUT,
                                   startTime := io_startTime io\<rparr>))"

abbreviation (input) POSTMASTER_IN_STARTUP_MSG :: string where
  "POSTMASTER_IN_STARTUP_MSG \<equiv> ''the database system is starting up''"

abbreviation (input) POSTMASTER_IN_RESET_MSG :: string where
  "POSTMASTER_IN_RESET_MSG \<equiv> ''the database system is resetting''"

abbreviation (input) POSTMASTER_IN_RECOVERY_MSG :: string where
  "POSTMASTER_IN_RECOVERY_MSG \<equiv> ''the database system is in recovery mode''"

abbreviation (input) POSTMASTER_IN_RECOVERY_DETAIL_MSG :: string where
  "POSTMASTER_IN_RECOVERY_DETAIL_MSG \<equiv> ''last replayed record at''"

text \<open>The two hexadecimal halves of the replayed position, as \<open>sscanf\<close> reads them.\<close>

definition scan_recovery_detail :: "string \<Rightarrow> (32 word \<times> 32 word) option" where
  "scan_recovery_detail ptr =
     (case scan_lit POSTMASTER_IN_RECOVERY_DETAIL_MSG ptr of None \<Rightarrow> None | Some s1 \<Rightarrow>
      (case scan_hex (skip_space s1) of None \<Rightarrow> None | Some (hi, s2) \<Rightarrow>
       (case scan_lit ''/'' s2 of None \<Rightarrow> None | Some s3 \<Rightarrow>
        (case scan_hex s3 of None \<Rightarrow> None | Some (lo, s4) \<Rightarrow> Some (hi, lo)))))"

definition checkIfFailedDueToNormalRestart :: "fts_segment_info \<Rightarrow> fts_segment_info" where
  "checkIfFailedDueToNormalRestart info =
     (let msg = PQerrorMessage (fsi_conn info)
      in if strstr msg POSTMASTER_IN_RECOVERY_MSG \<noteq> None \<or>
            strstr msg POSTMASTER_IN_STARTUP_MSG \<noteq> None
         then (case strstr msg POSTMASTER_IN_RECOVERY_DETAIL_MSG of
                 None \<Rightarrow> info
               | Some ptr \<Rightarrow>
                   (case scan_recovery_detail ptr of
                      None \<Rightarrow> info
                    | Some (tmp_xlogid, tmp_xrecoff) \<Rightarrow>
                        let tmpptr = push_bit 32 (ucast tmp_xlogid) OR ucast tmp_xrecoff
                        in if tmpptr \<le> xlogrecptr info
                           then info\<lparr>restart_state := PM_IN_RECOVERY_NOT_MAKING_PROGRESS\<rparr>
                           else info\<lparr>restart_state := PM_IN_RECOVERY_MAKING_PROGRESS,
                                     xlogrecptr := tmpptr\<rparr>))
         else if strstr msg POSTMASTER_IN_RESET_MSG \<noteq> None
         then info\<lparr>restart_state := PM_IN_RESETTING\<rparr>
         else info)"

definition is_message_state :: "FtsMessageState \<Rightarrow> bool" where
  "is_message_state st \<longleftrightarrow>
     st = FTS_PROBE_SEGMENT \<or> st = FTS_SYNCREP_OFF_SEGMENT \<or> st = FTS_PROMOTE_SEGMENT"

text \<open>The body of the loop of \<open>ftsConnect\<close> for one pair.\<close>

definition ftsConnect_seg :: "seg_io \<Rightarrow> fts_segment_info \<Rightarrow> fts_error + fts_segment_info" where
  "ftsConnect_seg io info =
     (if fsi_conn info \<noteq> None \<and> PQstatus (fsi_conn info) = CONNECTION_OK then Inr info
      else if is_message_state (fsi_state info) then
        (let info = info\<lparr>restart_state := PM_NOT_IN_RESTART\<rparr>
         in if fsi_conn info = None then
              (case ftsConnectStart io info of
                 Inl e \<Rightarrow> Inl e
               | Inr (started, info) \<Rightarrow> if started then Inr info else fail_segment info)
            else if poll_revents info AND (POLLOUT OR POLLIN) \<noteq> 0 then
              (let (polled, c) = io_connectPoll io; info = info\<lparr>fsi_conn := Some c\<rparr>
               in case polled of
                    PGRES_POLLING_OK \<Rightarrow> Inr (info\<lparr>poll_events := POLLOUT\<rparr>)
                  | PGRES_POLLING_READING \<Rightarrow>
                      Inr (info\<lparr>poll_events := poll_events info OR POLLIN\<rparr>)
                  | PGRES_POLLING_WRITING \<Rightarrow>
                      Inr (info\<lparr>poll_events := poll_events info OR POLLOUT\<rparr>)
                  | PGRES_POLLING_FAILED \<Rightarrow>
                      (case fail_segment info of
                         Inl e \<Rightarrow> Inl e
                       | Inr info \<Rightarrow> Inr (checkIfFailedDueToNormalRestart info))
                  | _ \<Rightarrow> Inl InvalidConnectPoll)
            else Inr info)
      else Inr info)"

definition ftsConnect :: "cycle_io \<Rightarrow> fts_segment_info list \<Rightarrow> fts_error + fts_segment_info list" where
  "ftsConnect cio infos = map_res_idx (\<lambda>i. ftsConnect_seg (cio_seg cio i)) 0 infos"

definition ftsCheckTimeout ::
  "fts_guc \<Rightarrow> pg_time \<Rightarrow> fts_segment_info \<Rightarrow> fts_error + fts_segment_info" where
  "ftsCheckTimeout guc now info =
     (if \<not> IsFtsMessageStateSuccess (fsi_state info) \<and>
         c_int (now - startTime info) > gp_fts_probe_timeout guc
      then fail_segment (info\<lparr>timeout_count := 0\<rparr>)
      else Inr info)"

definition to_be_polled :: "fts_segment_info \<Rightarrow> bool" where
  "to_be_polled info \<longleftrightarrow> poll_events info AND (POLLIN OR POLLOUT) \<noteq> 0"

text \<open>
  The first loop of \<open>ftsPoll\<close> fills the \<open>PollFds\<close> array (of which only the requested events are
  kept: the descriptor is the connection's socket) and gives each polled pair its index.
\<close>

fun ftsPoll_fill ::
  "nat \<Rightarrow> fts_segment_info list \<Rightarrow> fts_segment_info list \<times> 16 word list" where
  "ftsPoll_fill nfds [] = ([], [])"
| "ftsPoll_fill nfds (info # infos) =
     (if to_be_polled info
      then (let (infos', fds) = ftsPoll_fill (Suc nfds) infos
            in (info\<lparr>fd_index := int nfds\<rparr> # infos', poll_events info # fds))
      else (let (infos', fds) = ftsPoll_fill nfds infos
            in (info\<lparr>fd_index := -1\<rparr> # infos', fds)))"

text \<open>The body of the second loop of \<open>ftsPoll\<close> for one pair.\<close>

definition ftsPoll_seg ::
  "fts_guc \<Rightarrow> cycle_io \<Rightarrow> fts_segment_info \<Rightarrow> fts_error + fts_segment_info" where
  "ftsPoll_seg guc cio info =
     (if to_be_polled info then
        (let info = info\<lparr>poll_revents := cio_revents cio (nat (fd_index info))\<rparr>;
             r = (if poll_revents info AND poll_events info \<noteq> 0
                  then Inr (info\<lparr>poll_events := 0\<rparr>)
                  else if poll_revents info AND (POLLHUP OR POLLERR) \<noteq> 0
                  then fail_segment info
                  else if poll_revents info \<noteq> 0
                  then fail_segment info
                  else Inr info)
         in case r of
              Inl e \<Rightarrow> Inl e
            | Inr info \<Rightarrow>
                ftsCheckTimeout guc (cio_poll_now cio)
                  (if \<not> IsFtsMessageStateSuccess (fsi_state info) \<and> cio_nready cio = 0
                   then info\<lparr>timeout_count := timeout_count info + 1\<rparr> else info))
      else Inr info)"

definition ftsPoll ::
  "fts_guc \<Rightarrow> cycle_io \<Rightarrow> fts_segment_info list \<Rightarrow> fts_error + fts_segment_info list" where
  "ftsPoll guc cio infos =
     (let (infos', fds) = ftsPoll_fill 0 infos
      in if fds = [] then Inr infos'
         else if cio_nready cio < 0 \<and> \<not> cio_eintr cio then Inl PollFailed
         else map_res (ftsPoll_seg guc cio) infos')"

definition fts_message_type :: "FtsMessageState \<Rightarrow> string" where
  "fts_message_type st =
     (if st = FTS_PROBE_SEGMENT then FTS_MSG_PROBE
      else if st = FTS_SYNCREP_OFF_SEGMENT then FTS_MSG_SYNCREP_OFF
      else FTS_MSG_PROMOTE)"

definition ftsSend_seg :: "seg_io \<Rightarrow> fts_segment_info \<Rightarrow> fts_error + fts_segment_info" where
  "ftsSend_seg io info =
     (if is_message_state (fsi_state info) then
        (if PQstatus (fsi_conn info) \<noteq> CONNECTION_OK \<or>
            map_option pgc_asyncStatus (fsi_conn info) \<noteq> Some PGASYNC_IDLE \<or>
            poll_revents info AND POLLOUT = 0
         then Inr info
         else
           let message = fts_msg_print (fts_message_type (fsi_state info))
                           (gsc_dbid (primary_cdbinfo info)) (gsc_segindex (primary_cdbinfo info));
               (sent, c) = io_sendQuery io message;
               info = info\<lparr>fsi_conn := Some c\<rparr>
           in if sent then Inr (info\<lparr>poll_events := POLLIN\<rparr>) else fail_segment info)
      else Inr info)"

definition ftsSend :: "cycle_io \<Rightarrow> fts_segment_info list \<Rightarrow> fts_error + fts_segment_info list" where
  "ftsSend cio infos = map_res_idx (\<lambda>i. ftsSend_seg (cio_seg cio i)) 0 infos"

definition probeRecordResponse :: "PGresult \<Rightarrow> fts_segment_info \<Rightarrow> fts_segment_info" where
  "probeRecordResponse r info =
     info\<lparr>fsi_result := (fsi_result info)
       \<lparr>isPrimaryAlive := True,
        isMirrorAlive := pgr_value r 0 \<noteq> 0,
        isInSync := pgr_value r 1 \<noteq> 0,
        isSyncRepEnabled := pgr_value r 2 \<noteq> 0,
        isRoleMirror := pgr_value r 3 \<noteq> 0,
        retryRequested := pgr_value r 4 \<noteq> 0\<rparr>\<rparr>"

definition ftsReceive_seg :: "seg_io \<Rightarrow> fts_segment_info \<Rightarrow> fts_error + fts_segment_info" where
  "ftsReceive_seg io info =
     (if is_message_state (fsi_state info) then
        (if PQstatus (fsi_conn info) \<noteq> CONNECTION_OK \<or> poll_revents info AND POLLIN = 0
         then Inr info
         else
           let (consumed, c) = io_consumeInput io; info = info\<lparr>fsi_conn := Some c\<rparr>
           in if \<not> consumed then fail_segment info
              else
                let (busy, c) = io_isBusy io; info = info\<lparr>fsi_conn := Some c\<rparr>
                in if busy then Inr info
                   else
                     let (result, c) = io_getResult io; info = info\<lparr>fsi_conn := Some c\<rparr>
                     in case result of
                          None \<Rightarrow> fail_segment info
                        | Some r \<Rightarrow>
                            if PQstatus (fsi_conn info) = CONNECTION_BAD then fail_segment info
                            else if pgr_status r \<noteq> PGRES_TUPLES_OK then fail_segment info
                            else if pgr_nfields r \<noteq> Natts_fts_message_response \<or>
                                    pgr_ntuples r \<noteq> FTS_MESSAGE_RESPONSE_NTUPLES
                            then fail_segment info
                            else
                              (case nextSuccessState (fsi_state info) of
                                 Inl e \<Rightarrow> Inl e
                               | Inr st \<Rightarrow> Inr ((probeRecordResponse r info)\<lparr>fsi_state := st\<rparr>)))
      else Inr info)"

definition ftsReceive :: "cycle_io \<Rightarrow> fts_segment_info list \<Rightarrow> fts_error + fts_segment_info list" where
  "ftsReceive cio infos = map_res_idx (\<lambda>i. ftsReceive_seg (cio_seg cio i)) 0 infos"

definition retryForFtsFailed :: "fts_guc \<Rightarrow> pg_time \<Rightarrow> fts_segment_info \<Rightarrow> fts_segment_info" where
  "retryForFtsFailed guc now info =
     (if retry_count info = gp_fts_probe_retries guc then info
      else info\<lparr>retry_count := retry_count info + 1,
                fsi_state :=
                  (if fsi_state info = FTS_PROBE_SUCCESS \<or> fsi_state info = FTS_PROBE_FAILED
                   then FTS_PROBE_RETRY_WAIT
                   else if fsi_state info = FTS_SYNCREP_OFF_FAILED
                   then FTS_SYNCREP_OFF_RETRY_WAIT
                   else FTS_PROMOTE_RETRY_WAIT),
                retryStartTime := now,
                fsi_conn := None,
                poll_events := 0,
                poll_revents := 0,
                fsi_result := zero_result\<rparr>)"

definition processRetry_seg :: "fts_guc \<Rightarrow> pg_time \<Rightarrow> fts_segment_info \<Rightarrow> fts_segment_info" where
  "processRetry_seg guc now info =
     (if fsi_state info = FTS_PROBE_SUCCESS then
        (if \<not> (retryRequested (fsi_result info) \<and> SEGMENT_IS_ALIVE (mirror_cdbinfo info))
         then info else retryForFtsFailed guc now info)
      else if IsFtsMessageStateFailed (fsi_state info) then retryForFtsFailed guc now info
      else if fsi_state info = FTS_PROBE_RETRY_WAIT \<or>
              fsi_state info = FTS_SYNCREP_OFF_RETRY_WAIT \<or>
              fsi_state info = FTS_PROMOTE_RETRY_WAIT then
        (if c_int (now - retryStartTime info) < 1 then info
         else info\<lparr>fsi_state :=
                (if fsi_state info = FTS_PROBE_RETRY_WAIT then FTS_PROBE_SEGMENT
                 else if fsi_state info = FTS_SYNCREP_OFF_RETRY_WAIT
                 then FTS_SYNCREP_OFF_SEGMENT
                 else FTS_PROMOTE_SEGMENT)\<rparr>)
      else info)"

definition processRetry :: "fts_guc \<Rightarrow> cycle_io \<Rightarrow> fts_segment_info list \<Rightarrow> fts_segment_info list" where
  "processRetry guc cio infos = map (processRetry_seg guc (cio_retry_now cio)) infos"

definition ftsResponseReady :: "fts_segment_info \<Rightarrow> bool" where
  "ftsResponseReady info \<longleftrightarrow>
     IsFtsMessageStateSuccess (fsi_state info) \<or> IsFtsMessageStateFailed (fsi_state info)"

text \<open>The in-memory status of one dbid after the catalog change.\<close>

definition set_fts_status :: "int \<Rightarrow> bool \<Rightarrow> fts_catalog \<Rightarrow> fts_catalog" where
  "set_fts_status dbid alive cat =
     (let pi = ftsProbeInfo cat; st = fpi_status pi
      in cat\<lparr>ftsProbeInfo := pi\<lparr>fpi_status :=
           st(dbid := (if alive then FTS_STATUS_SET_UP (st dbid)
                       else FTS_STATUS_SET_DOWN (st dbid)))\<rparr>\<rparr>)"

definition updateConfiguration ::
  "GpSegConfigEntry \<Rightarrow> GpSegConfigEntry \<Rightarrow> char \<Rightarrow> char \<Rightarrow> bool \<Rightarrow> bool \<Rightarrow> bool \<Rightarrow>
   fts_catalog \<Rightarrow> fts_error + bool \<times> fts_catalog" where
  "updateConfiguration primary mirror newPrimaryRole newMirrorRole
       IsInSync IsPrimaryAlive IsMirrorAlive cat =
     (let modeChange = (IsInSync \<noteq> SEGMENT_IS_IN_SYNC primary);
          UpdatePrimary = (IsPrimaryAlive \<noteq> SEGMENT_IS_ALIVE primary \<or> modeChange);
          UpdateMirror = (IsMirrorAlive \<noteq> SEGMENT_IS_ALIVE mirror \<or> modeChange);
          UpdateNeeded = (UpdatePrimary \<or> UpdateMirror)
      in if UpdateNeeded then
           bind_res
             (if UpdatePrimary
              then probeWalRepUpdateConfig (gsc_dbid primary) (gsc_segindex primary)
                     newPrimaryRole IsPrimaryAlive IsInSync cat
              else Inr cat)
             (\<lambda>cat. bind_res
               (if UpdateMirror
                then probeWalRepUpdateConfig (gsc_dbid mirror) (gsc_segindex mirror)
                       newMirrorRole IsMirrorAlive IsInSync cat
                else Inr cat)
               (\<lambda>cat. Inr (True,
                  set_fts_status (gsc_dbid mirror) IsMirrorAlive
                    (set_fts_status (gsc_dbid primary) IsPrimaryAlive cat))))
         else Inr (False, cat))"

text \<open>
  \<open>processResponse\<close> for one pair.  \<open>response_transition\<close> is the switch on the state: the new
  state, whether the two references are swapped, and the catalog with its update flag.
\<close>

definition close_and_reset :: "fts_segment_info \<Rightarrow> fts_segment_info" where
  "close_and_reset info =
     info\<lparr>fsi_result := zero_result, fsi_conn := None, poll_events := 0, poll_revents := 0,
          retry_count := 0, timeout_count := 0\<rparr>"

definition processResponse_probe_success ::
  "fts_segment_info \<Rightarrow> bool \<Rightarrow> bool \<Rightarrow> bool \<Rightarrow> fts_catalog \<Rightarrow>
   fts_error + bool \<times> fts_segment_info \<times> fts_catalog" where
  "processResponse_probe_success info IsPrimaryAlive IsMirrorAlive IsInSync cat =
     (let primary = primary_cdbinfo info; mirror = mirror_cdbinfo info
      in if isSyncRepEnabled (fsi_result info) \<and> \<not> IsMirrorAlive then
           (if \<not> retryRequested (fsi_result info) then
              bind_res (updateConfiguration primary mirror
                          GP_SEGMENT_CONFIGURATION_ROLE_PRIMARY
                          GP_SEGMENT_CONFIGURATION_ROLE_MIRROR
                          IsInSync IsPrimaryAlive IsMirrorAlive cat)
                (\<lambda>(upd, cat). Inr (upd, info\<lparr>fsi_state := FTS_SYNCREP_OFF_SEGMENT\<rparr>, cat))
            else Inr (False, info\<lparr>fsi_state := FTS_RESPONSE_PROCESSED\<rparr>, cat))
         else if isRoleMirror (fsi_result info) then
           Inr (False, info\<lparr>fsi_state := FTS_PROMOTE_SEGMENT\<rparr>, cat)
         else
           bind_res (updateConfiguration primary mirror
                       GP_SEGMENT_CONFIGURATION_ROLE_PRIMARY
                       GP_SEGMENT_CONFIGURATION_ROLE_MIRROR
                       IsInSync IsPrimaryAlive IsMirrorAlive cat)
             (\<lambda>(upd, cat). Inr (upd, info\<lparr>fsi_state := FTS_RESPONSE_PROCESSED\<rparr>, cat)))"

definition processResponse_probe_failed ::
  "fts_segment_info \<Rightarrow> bool \<Rightarrow> bool \<Rightarrow> bool \<Rightarrow> fts_catalog \<Rightarrow>
   fts_error + bool \<times> fts_segment_info \<times> fts_catalog" where
  "processResponse_probe_failed info IsPrimaryAlive IsMirrorAlive IsInSync cat =
     (let primary = primary_cdbinfo info; mirror = mirror_cdbinfo info
      in if restart_state info = PM_IN_RESETTING then
           Inr (False, info\<lparr>fsi_state := FTS_RESPONSE_PROCESSED\<rparr>, cat)
         else if restart_state info = PM_IN_RECOVERY_MAKING_PROGRESS then
           Inr (False, info\<lparr>fsi_state := FTS_RESPONSE_PROCESSED\<rparr>, cat)
         else if SEGMENT_IS_IN_SYNC mirror then
           bind_res (updateConfiguration primary mirror
                       GP_SEGMENT_CONFIGURATION_ROLE_MIRROR
                       GP_SEGMENT_CONFIGURATION_ROLE_PRIMARY
                       IsInSync IsPrimaryAlive IsMirrorAlive cat)
             (\<lambda>(upd, cat). Inr (upd,
                info\<lparr>fsi_state := FTS_PROMOTE_SEGMENT,
                     primary_cdbinfo := mirror,
                     mirror_cdbinfo := primary\<rparr>, cat))
         else Inr (False, info\<lparr>fsi_state := FTS_RESPONSE_PROCESSED\<rparr>, cat))"

definition processResponse_seg ::
  "fts_segment_info \<Rightarrow> fts_catalog \<Rightarrow> fts_error + bool \<times> fts_segment_info \<times> fts_catalog" where
  "processResponse_seg info cat =
     (if \<not> ftsResponseReady info then Inr (False, info, cat)
      else
        let IsPrimaryAlive = isPrimaryAlive (fsi_result info);
            IsMirrorAlive = (if IsPrimaryAlive then isMirrorAlive (fsi_result info)
                             else SEGMENT_IS_ALIVE (mirror_cdbinfo info));
            IsInSync = (if IsPrimaryAlive then isInSync (fsi_result info) else False);
            processed = Inr (False, info\<lparr>fsi_state := FTS_RESPONSE_PROCESSED\<rparr>, cat)
        in bind_res
             (case fsi_state info of
                FTS_PROBE_SUCCESS \<Rightarrow>
                  processResponse_probe_success info IsPrimaryAlive IsMirrorAlive IsInSync cat
              | FTS_PROBE_FAILED \<Rightarrow>
                  processResponse_probe_failed info IsPrimaryAlive IsMirrorAlive IsInSync cat
              | FTS_SYNCREP_OFF_FAILED \<Rightarrow> processed
              | FTS_PROMOTE_FAILED \<Rightarrow> processed
              | FTS_PROMOTE_SUCCESS \<Rightarrow> processed
              | FTS_SYNCREP_OFF_SUCCESS \<Rightarrow> processed
              | st \<Rightarrow> Inl (InvalidInternalState st))
             (\<lambda>(upd, info, cat). Inr (upd, close_and_reset info, cat)))"

text \<open>The loop: the catalog is threaded through, and it stops when FTS is no longer active.\<close>

fun processResponse ::
  "bool \<Rightarrow> fts_segment_info list \<Rightarrow> fts_catalog \<Rightarrow>
   fts_error + bool \<times> fts_segment_info list \<times> fts_catalog" where
  "processResponse active [] cat = Inr (False, [], cat)"
| "processResponse active (info # infos) cat =
     (if \<not> active then Inr (False, info # infos, cat)
      else bind_res (processResponse_seg info cat) (\<lambda>(upd, info', cat').
             bind_res (processResponse active infos cat') (\<lambda>(upds, infos', cat'').
               Inr (upd \<or> upds, info' # infos', cat''))))"

definition FtsIsSegmentAlive :: "GpSegConfigEntry \<Rightarrow> bool" where
  "FtsIsSegmentAlive segInfo \<longleftrightarrow>
     SEGMENT_IS_ACTIVE_MIRROR segInfo \<and> SEGMENT_IS_ALIVE segInfo \<or>
     SEGMENT_IS_ACTIVE_PRIMARY segInfo"

definition init_segment_info :: "GpSegConfigEntry \<Rightarrow> GpSegConfigEntry \<Rightarrow> fts_segment_info" where
  "init_segment_info primary mirror =
     \<lparr>primary_cdbinfo = primary, mirror_cdbinfo = mirror,
      fsi_result = zero_result\<lparr>res_dbid := gsc_dbid primary\<rparr>,
      fsi_state = FTS_PROBE_SEGMENT, poll_events = 0, poll_revents = 0, fd_index = 0,
      startTime = 0, retryStartTime = 0, probe_errno = 0, fsi_conn = None, retry_count = 0,
      xlogrecptr = 0, restart_state = PM_NOT_IN_RESTART, timeout_count = 0\<rparr>"

text \<open>
  The loop of \<open>FtsWalRepInitProbeContext\<close> over the segment rows: \<open>num_pairs\<close> is decremented for
  every primary without a mirror, and the other primaries fill \<open>perSegInfos\<close> from the front.
\<close>

fun init_probe_loop ::
  "GpSegConfigEntry list \<Rightarrow> GpSegConfigEntry list \<Rightarrow> fts_context \<Rightarrow> fts_context" where
  "init_probe_loop all [] ctx = ctx"
| "init_probe_loop all (seg # segs) ctx =
     (if \<not> SEGMENT_IS_ACTIVE_PRIMARY seg then init_probe_loop all segs ctx
      else case FtsGetPeerSegment all (gsc_segindex seg) (gsc_dbid seg) of
             None \<Rightarrow> init_probe_loop all segs (ctx\<lparr>num_pairs := num_pairs ctx - 1\<rparr>)
           | Some mirror \<Rightarrow>
               init_probe_loop all segs
                 (ctx\<lparr>perSegInfos := perSegInfos ctx @ [init_segment_info seg mirror]\<rparr>))"

definition FtsWalRepInitProbeContext :: "CdbComponentDatabases \<Rightarrow> fts_context" where
  "FtsWalRepInitProbeContext cdbs =
     init_probe_loop (segment_db_info cdbs) (segment_db_info cdbs)
       \<lparr>num_pairs = total_segments cdbs, perSegInfos = []\<rparr>"

section \<open>The probe cycle\<close>

text \<open>One iteration of the loop of \<open>FtsWalRepMessageSegments\<close>.\<close>

definition fts_iteration ::
  "fts_guc \<Rightarrow> bool \<Rightarrow> cycle_io \<Rightarrow> fts_segment_info list \<Rightarrow> fts_catalog \<Rightarrow>
   fts_error + bool \<times> fts_segment_info list \<times> fts_catalog" where
  "fts_iteration guc active cio infos cat =
     bind_res (ftsConnect cio infos) (\<lambda>infos.
     bind_res (ftsPoll guc cio infos) (\<lambda>infos.
     bind_res (ftsSend cio infos) (\<lambda>infos.
     bind_res (ftsReceive cio infos) (\<lambda>infos.
       processResponse active (processRetry guc cio infos) cat))))"

text \<open>
  The loop runs over the environments of the successive iterations.  The last component of the
  result tells whether the loop condition failed (the cycle ended) or the given environments
  were used up.  A cycle that ends because FTS is not active closes the open connections.
\<close>

fun fts_cycle ::
  "fts_guc \<Rightarrow> bool \<Rightarrow> cycle_io list \<Rightarrow> fts_segment_info list \<Rightarrow> fts_catalog \<Rightarrow>
   fts_error + bool \<times> fts_segment_info list \<times> fts_catalog \<times> bool" where
  "fts_cycle guc active cios infos cat =
     (if allDone infos \<or> \<not> active then
        Inr (False, (if active then infos else map (\<lambda>i. i\<lparr>fsi_conn := None\<rparr>) infos), cat, True)
      else case cios of
             [] \<Rightarrow> Inr (False, infos, cat, False)
           | cio # rest \<Rightarrow>
               bind_res (fts_iteration guc active cio infos cat) (\<lambda>(upd, infos', cat').
                 bind_res (fts_cycle guc active rest infos' cat')
                   (\<lambda>(upds, infos'', cat'', ended).
                      Inr (upd \<or> upds, infos'', cat'', ended))))"

definition FtsWalRepMessageSegments ::
  "fts_guc \<Rightarrow> bool \<Rightarrow> cycle_io list \<Rightarrow> CdbComponentDatabases \<Rightarrow> fts_catalog \<Rightarrow>
   fts_error + bool \<times> fts_segment_info list \<times> fts_catalog \<times> bool" where
  "FtsWalRepMessageSegments guc active cios cdbs cat =
     fts_cycle guc active cios (perSegInfos (FtsWalRepInitProbeContext cdbs)) cat"

end
