(* ===== verification/Fts_Probe_Inv.thy ===== *)
theory Fts_Probe_Inv
  imports Fts_Probe
begin

text \<open>
  Invariants of the prober.  \<open>seg_inv\<close> holds of every pair between two iterations; the phases of
  an iteration are related element by element, so that an invariant of the per-pair step
  functions is an invariant of the loops.  From it: which errors an iteration can raise, when a
  mirror is promoted, and a rank that every change of state decreases.
\<close>

unbundle bit_operations_syntax

named_theorems fts_defs \<open>definitions of the per-pair steps\<close>

section \<open>The invariant\<close>

definition is_retry_wait :: "FtsMessageState \<Rightarrow> bool" where
  "is_retry_wait st \<longleftrightarrow>
     st = FTS_PROBE_RETRY_WAIT \<or> st = FTS_SYNCREP_OFF_RETRY_WAIT \<or> st = FTS_PROMOTE_RETRY_WAIT"

definition quiet :: "FtsMessageState \<Rightarrow> bool" where
  "quiet st \<longleftrightarrow> is_retry_wait st \<or> st = FTS_RESPONSE_PROCESSED"

text \<open>
  \<open>mid_inv\<close> holds at every point of the loop: the retry count stays within
  \<open>gp_fts_probe_retries\<close>, and a pair that waits or is done has no connection and no events.
\<close>

definition mid_inv :: "fts_guc \<Rightarrow> fts_segment_info \<Rightarrow> bool" where
  "mid_inv guc info \<longleftrightarrow>
     0 \<le> retry_count info \<and> retry_count info \<le> gp_fts_probe_retries guc \<and>
     (quiet (fsi_state info) \<longrightarrow>
        fsi_conn info = None \<and> poll_events info = 0 \<and> poll_revents info = 0)"

definition pre_inv :: "fts_guc \<Rightarrow> fts_segment_info \<Rightarrow> bool" where
  "pre_inv guc info \<longleftrightarrow> mid_inv guc info \<and> \<not> IsFtsMessageStateSuccess (fsi_state info)"

text \<open>Between iterations no response is pending.\<close>

definition seg_inv :: "fts_guc \<Rightarrow> fts_segment_info \<Rightarrow> bool" where
  "seg_inv guc info \<longleftrightarrow> mid_inv guc info \<and> \<not> ftsResponseReady info"

lemmas state_kind_defs = is_retry_wait_def quiet_def is_message_state_def
  IsFtsMessageStateSuccess_def IsFtsMessageStateFailed_def ftsResponseReady_def

lemmas inv_defs = mid_inv_def pre_inv_def seg_inv_def

lemmas [fts_defs] = ftsConnect_seg_def ftsPoll_seg_def ftsSend_seg_def ftsReceive_seg_def
  ftsCheckTimeout_def processRetry_seg_def retryForFtsFailed_def

lemma seg_inv_pre: "seg_inv guc info \<Longrightarrow> pre_inv guc info"
  by (simp add: inv_defs ftsResponseReady_def)

section \<open>What a communication phase does to a pair\<close>

text \<open>
  Connecting, polling and sending only change the connection's bookkeeping and may fail the pair;
  a quiet pair is left alone.  The relation is transitive, so it also holds of the three phases
  together.
\<close>

definition comm_rel :: "fts_segment_info \<Rightarrow> fts_segment_info \<Rightarrow> bool" where
  "comm_rel i j \<longleftrightarrow>
     retry_count j = retry_count i \<and> primary_cdbinfo j = primary_cdbinfo i \<and>
     mirror_cdbinfo j = mirror_cdbinfo i \<and> fsi_result j = fsi_result i \<and>
     (fsi_state j = fsi_state i \<or> nextFailedState (fsi_state i) = Inr (fsi_state j)) \<and>
     (quiet (fsi_state i) \<longrightarrow>
        fsi_state j = fsi_state i \<and> fsi_conn j = fsi_conn i \<and>
        poll_events j = poll_events i \<and> poll_revents j = poll_revents i)"

text \<open>
  Receiving may also record a response and move the pair to the success state.  \<open>Q\<close> is what is
  known of the responses of the segments (\<open>responses_satisfy\<close>), possibly nothing.
\<close>

definition responses_satisfy :: "(fts_result \<Rightarrow> bool) \<Rightarrow> seg_io \<Rightarrow> bool" where
  "responses_satisfy Q io \<longleftrightarrow>
     (\<forall>r c i. io_getResult io = (Some r, c) \<longrightarrow> Q (fsi_result (probeRecordResponse r i)))"

definition recv_rel ::
  "(fts_result \<Rightarrow> bool) \<Rightarrow> fts_segment_info \<Rightarrow> fts_segment_info \<Rightarrow> bool" where
  "recv_rel Q i j \<longleftrightarrow> comm_rel i j \<or>
     (nextSuccessState (fsi_state i) = Inr (fsi_state j) \<and> retry_count j = retry_count i \<and>
      primary_cdbinfo j = primary_cdbinfo i \<and> mirror_cdbinfo j = mirror_cdbinfo i \<and>
      isPrimaryAlive (fsi_result j) \<and> Q (fsi_result j))"

lemma responses_satisfy_True [simp]: "responses_satisfy (\<lambda>_. True) io"
  by (simp add: responses_satisfy_def)

lemma fail_segment_Inr:
  "fail_segment i = Inr j \<longleftrightarrow>
     (\<exists>st. nextFailedState (fsi_state i) = Inr st \<and> j = i\<lparr>fsi_state := st\<rparr>)"
  by (auto simp: fail_segment_def split: sum.splits)

lemma fail_segment_Inl:
  "fail_segment i = Inl e \<longleftrightarrow> nextFailedState (fsi_state i) = Inl e"
  by (auto simp: fail_segment_def split: sum.splits)

lemma nextFailedState_failed:
  "nextFailedState st = Inr st' \<Longrightarrow> IsFtsMessageStateFailed st'"
  by (cases st) (auto simp: IsFtsMessageStateFailed_def)

lemma nextFailedState_idem:
  "nextFailedState st = Inr st' \<Longrightarrow> nextFailedState st' = Inr st'"
  by (cases st) auto

lemma nextFailedState_Inl:
  "nextFailedState st = Inl e \<Longrightarrow> IsFtsMessageStateSuccess st \<or> st = FTS_RESPONSE_PROCESSED"
  by (cases st) (auto simp: IsFtsMessageStateSuccess_def)

lemma nextSuccessState_Inl: "nextSuccessState st = Inl e \<Longrightarrow> \<not> is_message_state st"
  by (cases st) (auto simp: is_message_state_def)

lemma failed_not_quiet:
  "IsFtsMessageStateFailed st \<Longrightarrow> \<not> quiet st" "IsFtsMessageStateFailed st \<Longrightarrow> \<not> IsFtsMessageStateSuccess st"
  by (auto simp: state_kind_defs)

lemma nextFailedState_not:
  "nextFailedState st = Inr st' \<Longrightarrow> \<not> quiet st' \<and> \<not> IsFtsMessageStateSuccess st'"
  by (blast dest: nextFailedState_failed failed_not_quiet)

lemma message_not_quiet:
  "is_message_state st \<Longrightarrow> \<not> quiet st" "is_message_state st \<Longrightarrow> \<not> IsFtsMessageStateSuccess st"
  "is_message_state st \<Longrightarrow> st \<noteq> FTS_RESPONSE_PROCESSED"
  by (auto simp: state_kind_defs)

lemma polled_not_quiet: "mid_inv guc i \<Longrightarrow> to_be_polled i \<Longrightarrow> \<not> quiet (fsi_state i)"
  by (auto simp: mid_inv_def to_be_polled_def)

lemma comm_rel_refl [simp]: "comm_rel i i"
  by (simp add: comm_rel_def)

lemma comm_rel_trans:
  assumes "comm_rel i j" and "comm_rel j k"
  shows "comm_rel i k"
  using assms nextFailedState_idem unfolding comm_rel_def by metis

lemma comm_rel_fail:
  assumes "fail_segment j = Inr k" and "comm_rel i j" and "\<not> quiet (fsi_state i)"
  shows "comm_rel i k"
  using assms nextFailedState_idem by (fastforce simp: comm_rel_def fail_segment_Inr)

lemma checkIfFailed_frame [simp]:
  "fsi_state (checkIfFailedDueToNormalRestart info) = fsi_state info"
  "retry_count (checkIfFailedDueToNormalRestart info) = retry_count info"
  "primary_cdbinfo (checkIfFailedDueToNormalRestart info) = primary_cdbinfo info"
  "mirror_cdbinfo (checkIfFailedDueToNormalRestart info) = mirror_cdbinfo info"
  "fsi_result (checkIfFailedDueToNormalRestart info) = fsi_result info"
  by (simp_all add: checkIfFailedDueToNormalRestart_def Let_def split: option.split prod.split)

lemma ftsConnect_seg_comm:
  assumes "ftsConnect_seg io i = Inr j"
  shows "comm_rel i j"
proof (cases "is_message_state (fsi_state i)")
  case True
  then have "\<not> quiet (fsi_state i)" by (rule message_not_quiet)
  with assms True show ?thesis
    by (auto simp: ftsConnect_seg_def ftsConnectStart_def Let_def fail_segment_Inr
          comm_rel_def
          split: if_splits sum.splits option.splits prod.splits PostgresPollingStatusType.splits)
next
  case False
  with assms show ?thesis by (auto simp: ftsConnect_seg_def split: if_splits)
qed

lemma ftsConnect_seg_error:
  assumes "ftsConnect_seg io i = Inl e"
  shows "e = CannotCreateConnection \<or> e = InvalidConnectPoll"
  using assms
  by (auto simp: ftsConnect_seg_def ftsConnectStart_def Let_def fail_segment_Inl
        split: if_splits sum.splits option.splits prod.splits PostgresPollingStatusType.splits
        dest: message_not_quiet dest!: nextFailedState_Inl)

lemma ftsPoll_seg_comm:
  assumes "ftsPoll_seg guc cio i = Inr j" and "mid_inv guc i"
  shows "comm_rel i j"
proof (cases "to_be_polled i")
  case True
  with assms(2) have nq: "\<not> quiet (fsi_state i)" by (rule polled_not_quiet)
  from assms(1) True show ?thesis
    by (auto simp: ftsPoll_seg_def ftsCheckTimeout_def Let_def fail_segment_Inr comm_rel_def nq
          split: if_splits sum.splits dest: nextFailedState_idem)
next
  case False
  with assms(1) show ?thesis by (simp add: ftsPoll_seg_def)
qed

lemma ftsPoll_seg_error:
  assumes "ftsPoll_seg guc cio i = Inl e" and "pre_inv guc i"
  shows False
proof -
  from assms(1) have "to_be_polled i" by (auto simp: ftsPoll_seg_def split: if_splits)
  with assms(2) have "\<not> quiet (fsi_state i)" by (auto simp: pre_inv_def dest: polled_not_quiet)
  with assms show False
    by (auto simp: ftsPoll_seg_def ftsCheckTimeout_def Let_def fail_segment_Inl fail_segment_Inr
          pre_inv_def quiet_def split: if_splits sum.splits
          dest: nextFailedState_Inl nextFailedState_idem)
qed

lemma ftsSend_seg_comm:
  assumes "ftsSend_seg io i = Inr j"
  shows "comm_rel i j"
proof (cases "is_message_state (fsi_state i)")
  case True
  then have nq: "\<not> quiet (fsi_state i)" by (rule message_not_quiet)
  from assms True show ?thesis
    by (auto simp: ftsSend_seg_def Let_def fail_segment_Inr comm_rel_def nq
          split: if_splits prod.splits)
next
  case False
  with assms show ?thesis by (simp add: ftsSend_seg_def)
qed

lemma ftsSend_seg_error: "ftsSend_seg io i \<noteq> Inl e"
  by (auto simp: ftsSend_seg_def Let_def fail_segment_Inl split: if_splits prod.splits
        dest: message_not_quiet dest!: nextFailedState_Inl)

lemma ftsReceive_seg_recv:
  assumes "ftsReceive_seg io i = Inr j" and "responses_satisfy Q io"
  shows "recv_rel Q i j"
proof (cases "is_message_state (fsi_state i)")
  case True
  then have nq: "\<not> quiet (fsi_state i)" by (rule message_not_quiet)
  have Q: "Q (fsi_result (probeRecordResponse r k))" if "io_getResult io = (Some r, c)" for r c k
    using assms(2) that by (simp add: responses_satisfy_def)
  from assms(1) True show ?thesis
    by (auto simp: ftsReceive_seg_def Let_def fail_segment_Inr recv_rel_def comm_rel_def nq
          split: if_splits prod.splits option.splits sum.splits intro: Q)
       (auto simp: probeRecordResponse_def)
next
  case False
  with assms show ?thesis by (simp add: ftsReceive_seg_def recv_rel_def)
qed

lemma ftsReceive_seg_error: "ftsReceive_seg io i \<noteq> Inl e"
  by (auto simp: ftsReceive_seg_def Let_def fail_segment_Inl
        split: if_splits prod.splits option.splits sum.splits
        dest: message_not_quiet nextSuccessState_Inl dest!: nextFailedState_Inl)

section \<open>From pairs to the context\<close>

lemma ftsPoll_fill_all2:
  "list_all2 (\<lambda>i j. \<exists>k. j = i\<lparr>fd_index := k\<rparr>) infos (fst (ftsPoll_fill n infos))"
proof (induction infos arbitrary: n)
  case (Cons i infos)
  then show ?case by (simp add: split_beta) blast
qed simp

lemma comm_rel_fd_index [simp]: "comm_rel i (i\<lparr>fd_index := k\<rparr>)"
  by (simp add: comm_rel_def)

lemma mid_inv_fd_index [simp]: "mid_inv guc (i\<lparr>fd_index := k\<rparr>) = mid_inv guc i"
  by (simp add: mid_inv_def)

lemma pre_inv_fd_index [simp]: "pre_inv guc (i\<lparr>fd_index := k\<rparr>) = pre_inv guc i"
  by (simp add: pre_inv_def)

lemma ftsPoll_fill_pre:
  "list_all (pre_inv guc) infos \<Longrightarrow> list_all (pre_inv guc) (fst (ftsPoll_fill n infos))"
  by (erule list_all2_list_all [OF ftsPoll_fill_all2]) auto

lemma comm_rel_pre: "comm_rel i j \<Longrightarrow> pre_inv guc i \<Longrightarrow> pre_inv guc j"
  by (cases "quiet (fsi_state i)") (auto simp: comm_rel_def inv_defs dest: nextFailedState_not)

lemma ftsConnect_all2:
  "ftsConnect cio infos = Inr infos' \<Longrightarrow> list_all2 comm_rel infos infos'"
  by (auto simp: ftsConnect_def intro: map_res_idx_all2 ftsConnect_seg_comm)

lemma ftsPoll_all2:
  assumes "ftsPoll guc cio infos = Inr infos'" and "list_all (pre_inv guc) infos"
  shows "list_all2 comm_rel infos infos'"
proof -
  let ?fs = "fst (ftsPoll_fill 0 infos)"
  have fill: "list_all2 comm_rel infos ?fs"
    by (rule list_all2_mono [OF ftsPoll_fill_all2]) auto
  have "ftsPoll guc cio infos =
          (if snd (ftsPoll_fill 0 infos) = [] then Inr ?fs
           else if cio_nready cio < 0 \<and> \<not> cio_eintr cio then Inl PollFailed
           else map_res (ftsPoll_seg guc cio) ?fs)"
    by (simp add: ftsPoll_def split_beta)
  with assms(1) consider "infos' = ?fs" | "map_res (ftsPoll_seg guc cio) ?fs = Inr infos'"
    by (metis Inl_Inr_False Inr_inject)
  then show ?thesis
  proof cases
    case 1
    with fill show ?thesis by simp
  next
    case 2
    have "list_all (pre_inv guc) ?fs" by (rule ftsPoll_fill_pre [OF assms(2)])
    then have "\<And>i j. i \<in> set ?fs \<Longrightarrow> ftsPoll_seg guc cio i = Inr j \<Longrightarrow> comm_rel i j"
      by (meson ftsPoll_seg_comm list_all_iff pre_inv_def)
    from map_res_all2 [OF 2 this] have "list_all2 comm_rel ?fs infos'" .
    from fill this comm_rel_trans show ?thesis by (rule list_all2_comp)
  qed
qed

lemma ftsSend_all2: "ftsSend cio infos = Inr infos' \<Longrightarrow> list_all2 comm_rel infos infos'"
  by (auto simp: ftsSend_def intro: map_res_idx_all2 ftsSend_seg_comm)

lemma ftsReceive_all2:
  "ftsReceive cio infos = Inr infos' \<Longrightarrow> (\<And>k. responses_satisfy Q (cio_seg cio k)) \<Longrightarrow>
     list_all2 (recv_rel Q) infos infos'"
  unfolding ftsReceive_def by (erule map_res_idx_all2) (auto intro: ftsReceive_seg_recv)

lemma comm_recv_rel:
  assumes "comm_rel i j" and "recv_rel Q j k"
  shows "recv_rel Q i k"
proof -
  have "nextSuccessState (fsi_state j) = Inr st \<Longrightarrow> fsi_state j = fsi_state i" for st
    using assms(1) by (cases "fsi_state j"; cases "fsi_state i") (auto simp: comm_rel_def)
  with assms show ?thesis
    unfolding recv_rel_def by (metis comm_rel_def comm_rel_trans)
qed

lemma processResponse_ConsE:
  assumes "processResponse True (i # infos) cat = Inr (upd, infos', cat')"
  obtains u j c us js where "processResponse_seg i cat = Inr (u, j, c)"
    and "processResponse True infos c = Inr (us, js, cat')"
    and "infos' = j # js" and "upd = (u \<or> us)"
proof -
  from assms obtain u j c where x: "processResponse_seg i cat = Inr (u, j, c)"
    and r: "bind_res (processResponse True infos c)
              (\<lambda>(us, js, c'). Inr (u \<or> us, j # js, c')) = Inr (upd, infos', cat')"
    by (cases "processResponse_seg i cat") auto
  from r obtain us js where "processResponse True infos c = Inr (us, js, cat')"
    and "infos' = j # js" and "upd = (u \<or> us)"
    by (cases "processResponse True infos c") auto
  with x that show thesis by blast
qed

lemma processResponse_all2:
  assumes "processResponse True infos cat = Inr (upd, infos', cat')"
    and "\<And>i j c u c'. i \<in> set infos \<Longrightarrow> processResponse_seg i c = Inr (u, j, c') \<Longrightarrow> R i j"
  shows "list_all2 R infos infos'"
  using assms
proof (induction infos arbitrary: cat upd infos' cat')
  case (Cons i infos)
  from Cons.prems(1) obtain u j c us js where
      seg: "processResponse_seg i cat = Inr (u, j, c)" and
      rest: "processResponse True infos c = Inr (us, js, cat')" and "infos' = j # js"
    by (rule processResponse_ConsE)
  have "list_all2 R infos js" by (rule Cons.IH [OF rest]) (use Cons.prems(2) in auto)
  with seg \<open>infos' = j # js\<close> Cons.prems(2) [of i] show ?case by auto
qed simp

text \<open>What one iteration does to a pair, whatever the environment.\<close>

definition iter_rel ::
  "fts_guc \<Rightarrow> pg_time \<Rightarrow> (fts_result \<Rightarrow> bool) \<Rightarrow> fts_segment_info \<Rightarrow> fts_segment_info \<Rightarrow> bool" where
  "iter_rel guc now Q i j \<longleftrightarrow>
     (\<exists>a c u c'. recv_rel Q i a \<and> processResponse_seg (processRetry_seg guc now a) c = Inr (u, j, c'))"

lemma fts_iteration_phases:
  assumes "fts_iteration guc active cio infos cat = Inr (upd, infos', cat')"
    and "list_all (seg_inv guc) infos" and "\<And>k. responses_satisfy Q (cio_seg cio k)"
  obtains recvd where "list_all2 (recv_rel Q) infos recvd"
    and "processResponse active (processRetry guc cio recvd) cat = Inr (upd, infos', cat')"
proof -
  from assms(1) obtain a b c d where a: "ftsConnect cio infos = Inr a"
    and b: "ftsPoll guc cio a = Inr b" and c: "ftsSend cio b = Inr c"
    and d: "ftsReceive cio c = Inr d"
    and resp: "processResponse active (processRetry guc cio d) cat = Inr (upd, infos', cat')"
    by (auto simp: fts_iteration_def bind_res_Inr_iff)
  from assms(2) have pre: "list_all (pre_inv guc) infos" by (auto simp: list_all_iff seg_inv_pre)
  note ab = ftsConnect_all2 [OF a]
  have prea: "list_all (pre_inv guc) a" by (rule list_all2_list_all [OF ab pre]) (rule comm_rel_pre)
  have "list_all2 comm_rel infos b"
    by (rule list_all2_comp [OF ab ftsPoll_all2 [OF b prea] comm_rel_trans])
  then have "list_all2 comm_rel infos c"
    by (rule list_all2_comp [OF _ ftsSend_all2 [OF c] comm_rel_trans])
  then have "list_all2 (recv_rel Q) infos d"
    by (rule list_all2_comp [OF _ ftsReceive_all2 [OF d assms(3)] comm_recv_rel])
  with resp that show thesis by blast
qed

lemma fts_iteration_all2:
  assumes "fts_iteration guc True cio infos cat = Inr (upd, infos', cat')"
    and "list_all (seg_inv guc) infos" and "\<And>k. responses_satisfy Q (cio_seg cio k)"
  shows "list_all2 (iter_rel guc (cio_retry_now cio) Q) infos infos'"
proof -
  let ?now = "cio_retry_now cio"
  from assms obtain d where recv: "list_all2 (recv_rel Q) infos d"
    and resp: "processResponse True (processRetry guc cio d) cat = Inr (upd, infos', cat')"
    by (rule fts_iteration_phases)
  have "list_all2 (\<lambda>i j. \<exists>c u c'. processResponse_seg i c = Inr (u, j, c'))
          (processRetry guc cio d) infos'"
    by (rule processResponse_all2 [OF resp]) blast
  then have "list_all2 (\<lambda>i j. \<exists>c u c'. processResponse_seg (processRetry_seg guc ?now i) c = Inr (u, j, c'))
               d infos'"
    by (simp add: processRetry_def list.rel_map)
  then show ?thesis by (rule list_all2_comp [OF recv]) (auto simp: iter_rel_def)
qed

section \<open>One iteration\<close>

lemma nextSuccessState_success:
  "nextSuccessState st = Inr st' \<Longrightarrow> is_message_state st \<and> IsFtsMessageStateSuccess st'"
  by (cases st) (auto simp: is_message_state_def IsFtsMessageStateSuccess_def)

lemma success_not_quiet: "IsFtsMessageStateSuccess st \<Longrightarrow> \<not> quiet st \<and> \<not> IsFtsMessageStateFailed st"
  by (auto simp: state_kind_defs)

lemma recv_rel_mid:
  assumes "recv_rel Q i a" and "seg_inv guc i"
  shows "mid_inv guc a"
proof -
  from assms(2) have pre: "pre_inv guc i" by (rule seg_inv_pre)
  from assms(1) consider "comm_rel i a"
    | "nextSuccessState (fsi_state i) = Inr (fsi_state a)" "retry_count a = retry_count i"
    by (auto simp: recv_rel_def)
  then show ?thesis
  proof cases
    case 1
    from comm_rel_pre [OF this pre] show ?thesis by (simp add: pre_inv_def)
  next
    case 2
    with pre show ?thesis
      by (auto simp: pre_inv_def mid_inv_def dest: nextSuccessState_success success_not_quiet)
  qed
qed

lemma processRetry_seg_mid:
  "mid_inv guc a \<Longrightarrow> mid_inv guc (processRetry_seg guc now a)"
  by (cases "fsi_state a")
     (auto simp: processRetry_seg_def retryForFtsFailed_def mid_inv_def state_kind_defs)

text \<open>The assertion of \<open>processResponse\<close>: a failure is processed only when no retry is left.\<close>

lemma processRetry_seg_failed:
  "IsFtsMessageStateFailed (fsi_state (processRetry_seg guc now a)) \<Longrightarrow>
     processRetry_seg guc now a = a \<and> retry_count a = gp_fts_probe_retries guc"
  by (cases "fsi_state a")
     (auto simp: processRetry_seg_def retryForFtsFailed_def state_kind_defs split: if_splits)

lemma processRetry_seg_success:
  "IsFtsMessageStateSuccess (fsi_state (processRetry_seg guc now a)) \<Longrightarrow>
     processRetry_seg guc now a = a"
  by (cases "fsi_state a")
     (auto simp: processRetry_seg_def retryForFtsFailed_def state_kind_defs split: if_splits)

lemma processRetry_seg_refs [simp]:
  "primary_cdbinfo (processRetry_seg guc now a) = primary_cdbinfo a"
  "mirror_cdbinfo (processRetry_seg guc now a) = mirror_cdbinfo a"
  by (auto simp: processRetry_seg_def retryForFtsFailed_def)

text \<open>The responses, by the state of the pair: what is processed and where the pair goes.\<close>

lemma processResponse_seg_cases:
  assumes "processResponse_seg b c = Inr (u, j, c')"
  obtains
    (skip) "\<not> ftsResponseReady b" "j = b" "c' = c" "\<not> u"
  | (finish) "ftsResponseReady b" "j = close_and_reset (b\<lparr>fsi_state := FTS_RESPONSE_PROCESSED\<rparr>)"
  | (syncrep_off) "fsi_state b = FTS_PROBE_SUCCESS"
      "j = close_and_reset (b\<lparr>fsi_state := FTS_SYNCREP_OFF_SEGMENT\<rparr>)"
      "isSyncRepEnabled (fsi_result b)" "\<not> retryRequested (fsi_result b)"
  | (resend) "fsi_state b = FTS_PROBE_SUCCESS" "isRoleMirror (fsi_result b)"
      "j = close_and_reset (b\<lparr>fsi_state := FTS_PROMOTE_SEGMENT\<rparr>)" "c' = c" "\<not> u"
  | (promote) "fsi_state b = FTS_PROBE_FAILED" "SEGMENT_IS_IN_SYNC (mirror_cdbinfo b)"
      "restart_state b \<noteq> PM_IN_RESETTING" "restart_state b \<noteq> PM_IN_RECOVERY_MAKING_PROGRESS"
      "j = close_and_reset (b\<lparr>fsi_state := FTS_PROMOTE_SEGMENT,
                              primary_cdbinfo := mirror_cdbinfo b,
                              mirror_cdbinfo := primary_cdbinfo b\<rparr>)"
proof (cases "ftsResponseReady b")
  case False
  with assms have "j = b" "c' = c" "\<not> u" by (simp_all add: processResponse_seg_def)
  with False show thesis by (rule skip)
next
  case True
  then consider "fsi_state b = FTS_PROBE_SUCCESS" | "fsi_state b = FTS_PROBE_FAILED"
    | "fsi_state b \<in> {FTS_SYNCREP_OFF_SUCCESS, FTS_PROMOTE_SUCCESS,
                        FTS_SYNCREP_OFF_FAILED, FTS_PROMOTE_FAILED}"
    by (auto simp: state_kind_defs)
  then show thesis
  proof cases
    case 1
    with assms True show thesis
      by (auto simp: processResponse_seg_def processResponse_probe_success_def Let_def
            split: if_splits elim!: bind_res_InrE intro: finish syncrep_off resend)
  next
    case 2
    with assms True show thesis
      by (auto simp: processResponse_seg_def processResponse_probe_failed_def Let_def
            split: if_splits elim!: bind_res_InrE intro: finish promote)
  next
    case 3
    with assms True show thesis
      by (auto simp: processResponse_seg_def Let_def intro: finish)
  qed
qed

lemma close_and_reset_frame [simp]:
  "fsi_state (close_and_reset i) = fsi_state i"
  "primary_cdbinfo (close_and_reset i) = primary_cdbinfo i"
  "mirror_cdbinfo (close_and_reset i) = mirror_cdbinfo i"
  "retry_count (close_and_reset i) = 0"
  "fsi_conn (close_and_reset i) = None"
  "poll_events (close_and_reset i) = 0"
  "poll_revents (close_and_reset i) = 0"
  by (simp_all add: close_and_reset_def)

lemma processResponse_seg_inv:
  assumes "processResponse_seg b c = Inr (u, j, c')" and "mid_inv guc b"
  shows "seg_inv guc j"
  using assms(1)
proof (cases rule: processResponse_seg_cases)
  case skip
  with assms(2) show ?thesis by (simp add: seg_inv_def)
qed (use assms(2) in \<open>auto simp: inv_defs state_kind_defs\<close>)

lemma iter_rel_inv:
  assumes "iter_rel guc now Q i j" and "seg_inv guc i"
  shows "seg_inv guc j"
  using assms by (auto simp: iter_rel_def dest: recv_rel_mid processResponse_seg_inv processRetry_seg_mid)

lemma fts_iteration_inv:
  assumes "fts_iteration guc True cio infos cat = Inr (upd, infos', cat')"
    and "list_all (seg_inv guc) infos"
  shows "list_all (seg_inv guc) infos'"
  using fts_iteration_all2 [OF assms responses_satisfy_True] assms(2) by (rule list_all2_list_all) (rule iter_rel_inv)

subsection \<open>Errors\<close>

definition environment_error :: "fts_error \<Rightarrow> bool" where
  "environment_error e \<longleftrightarrow>
     e \<in> {CannotCreateConnection, InvalidConnectPoll, PollFailed} \<or> (\<exists>d. e = CannotFindDbid d)"

lemma probeWalRepUpdateConfig_error:
  "probeWalRepUpdateConfig d s r a y cat = Inl e \<Longrightarrow> e = CannotFindDbid d"
  by (auto simp: probeWalRepUpdateConfig_def Let_def split: option.splits)

lemma updateConfiguration_error:
  "updateConfiguration p m r1 r2 y a b cat = Inl e \<Longrightarrow> \<exists>d. e = CannotFindDbid d"
  by (auto simp: updateConfiguration_def Let_def bind_res_Inl_iff split: if_splits
        dest: probeWalRepUpdateConfig_error)

lemma processResponse_seg_error:
  assumes "processResponse_seg b c = Inl e"
  shows "\<exists>d. e = CannotFindDbid d"
proof -
  from assms have "ftsResponseReady b" by (auto simp: processResponse_seg_def split: if_splits)
  with assms show ?thesis
    by (auto simp: processResponse_seg_def processResponse_probe_success_def
          processResponse_probe_failed_def Let_def bind_res_Inl_iff state_kind_defs
          split: if_splits dest: updateConfiguration_error)
qed

lemma processResponse_error:
  "processResponse active bs c = Inl e \<Longrightarrow> \<exists>d. e = CannotFindDbid d"
  by (induction bs arbitrary: c)
     (auto simp: bind_res_Inl_iff split: if_splits dest: processResponse_seg_error)

lemma fts_iteration_error:
  assumes "fts_iteration guc active cio infos cat = Inl e" and "list_all (seg_inv guc) infos"
  shows "environment_error e"
proof -
  from assms(2) have pre: "list_all (pre_inv guc) infos" by (auto simp: list_all_iff seg_inv_pre)
  show ?thesis
  proof (cases "ftsConnect cio infos")
    case (Inl e')
    with assms(1) show ?thesis
      by (auto simp: fts_iteration_def ftsConnect_def environment_error_def
            elim!: map_res_idx_Inl dest: ftsConnect_seg_error)
  next
    case a: (Inr a)
    have prea: "list_all (pre_inv guc) a"
      by (rule list_all2_list_all [OF ftsConnect_all2 [OF a] pre]) (rule comm_rel_pre)
    show ?thesis
    proof (cases "ftsPoll guc cio a")
      case (Inl e')
      then have "e' = PollFailed"
        using ftsPoll_fill_pre [OF prea, of 0]
        by (auto simp: ftsPoll_def split_beta Let_def list_all_iff split: if_splits
              elim!: map_res_Inl dest: ftsPoll_seg_error)
      with Inl a assms(1) show ?thesis by (simp add: fts_iteration_def environment_error_def)
    next
      case b: (Inr b)
      obtain c where c: "ftsSend cio b = Inr c"
        using map_res_idx_Inl ftsSend_seg_error by (metis ftsSend_def sum.exhaust_sel)
      obtain d where d: "ftsReceive cio c = Inr d"
        using map_res_idx_Inl ftsReceive_seg_error by (metis ftsReceive_def sum.exhaust_sel)
      from assms(1) have "processResponse active (processRetry guc cio d) cat = Inl e"
        by (simp add: fts_iteration_def a b c d)
      then show ?thesis by (auto simp: environment_error_def dest: processResponse_error)
    qed
  qed
qed

subsection \<open>The whole cycle\<close>

lemma init_segment_info_inv: "0 \<le> gp_fts_probe_retries guc \<Longrightarrow> seg_inv guc (init_segment_info p m)"
  by (simp add: init_segment_info_def inv_defs state_kind_defs)

lemma init_probe_loop_all:
  assumes "\<And>p m. p \<in> set segs \<Longrightarrow> SEGMENT_IS_ACTIVE_PRIMARY p \<Longrightarrow>
             FtsGetPeerSegment all (gsc_segindex p) (gsc_dbid p) = Some m \<Longrightarrow>
             P (init_segment_info p m)"
    and "list_all P (perSegInfos ctx)"
  shows "list_all P (perSegInfos (init_probe_loop all segs ctx))"
  using assms by (induction all segs ctx rule: init_probe_loop.induct) (auto split: option.split)

lemma init_context_inv:
  "0 \<le> gp_fts_probe_retries guc \<Longrightarrow>
     list_all (seg_inv guc) (perSegInfos (FtsWalRepInitProbeContext cdbs))"
  unfolding FtsWalRepInitProbeContext_def
  by (rule init_probe_loop_all) (auto intro: init_segment_info_inv)

declare fts_cycle.simps [simp del]

text \<open>
  Induction over a probe cycle: a property of the pairs and the catalog that every iteration
  keeps holds at the end of every cycle.
\<close>

lemma fts_cycle_invariant:
  assumes "fts_cycle guc active cios infos cat = Inr (upd, infos', cat', ended)"
    and "list_all (seg_inv guc) infos" and "I infos cat" and "active"
    and step: "\<And>cio is c u is' c'. cio \<in> set cios \<Longrightarrow> list_all (seg_inv guc) is \<Longrightarrow> I is c \<Longrightarrow>
           fts_iteration guc True cio is c = Inr (u, is', c') \<Longrightarrow> I is' c'"
  shows "I infos' cat' \<and> list_all (seg_inv guc) infos' \<and> (ended \<longrightarrow> allDone infos')"
  using assms
proof (induction cios arbitrary: infos cat upd)
  case Nil
  then show ?case by (auto simp: fts_cycle.simps split: if_splits)
next
  case (Cons cio cios)
  show ?case
  proof (cases "allDone infos")
    case True
    with Cons.prems show ?thesis by (auto simp: fts_cycle.simps)
  next
    case False
    with Cons.prems(1,4) obtain u is' c' us where
        it: "fts_iteration guc True cio infos cat = Inr (u, is', c')" and
        rest: "fts_cycle guc active cios is' c' = Inr (us, infos', cat', ended)"
      by (cases "fts_iteration guc True cio infos cat")
         (auto simp: fts_cycle.simps [of _ _ "_ # _"] elim!: bind_res_InrE)
    from it Cons.prems(2) have "list_all (seg_inv guc) is'" by (rule fts_iteration_inv)
    moreover from it Cons.prems have "I is' c'" by (meson list.set_intros(1))
    ultimately show ?thesis
      by (rule Cons.IH [OF rest _ _ Cons.prems(4)]) (meson Cons.prems(5) list.set_intros(2))
  qed
qed

lemma fts_cycle_error:
  assumes "fts_cycle guc active cios infos cat = Inl e" and "list_all (seg_inv guc) infos"
  shows "environment_error e"
  using assms
proof (induction cios arbitrary: infos cat)
  case Nil
  then show ?case by (auto simp: fts_cycle.simps split: if_splits)
next
  case (Cons cio cios)
  from Cons.prems(1) have "\<not> (allDone infos \<or> \<not> active)"
    by (auto simp: fts_cycle.simps [of _ _ "_ # _"] split: if_splits)
  with Cons.prems(1) consider "fts_iteration guc True cio infos cat = Inl e"
    | u is' c' where "fts_iteration guc True cio infos cat = Inr (u, is', c')"
        "fts_cycle guc active cios is' c' = Inl e"
    by (cases "fts_iteration guc True cio infos cat")
       (auto simp: fts_cycle.simps [of _ _ "_ # _"] elim!: bind_res_InlE)
  then show ?case
  proof cases
    case 1
    then show ?thesis using Cons.prems(2) by (rule fts_iteration_error)
  next
    case 2
    from fts_iteration_inv [OF 2(1) Cons.prems(2)] 2(2) show ?thesis by (rule Cons.IH [rotated])
  qed
qed

section \<open>Progress\<close>

text \<open>
  The rank of a pair: within a message phase every attempt goes from the message state to a
  failed state and, one retry later, to the wait state; the phases only go from probing to one
  of the follow-up messages and from there to the final state.
\<close>

definition fts_rank :: "fts_guc \<Rightarrow> fts_segment_info \<Rightarrow> nat" where
  "fts_rank guc i =
     (let attempts = 3 * nat (gp_fts_probe_retries guc - retry_count i);
          phase = 3 * (nat (gp_fts_probe_retries guc) + 1)
      in case fsi_state i of
           FTS_RESPONSE_PROCESSED \<Rightarrow> 0
         | FTS_PROBE_RETRY_WAIT \<Rightarrow> phase + attempts + 3
         | FTS_PROBE_SEGMENT \<Rightarrow> phase + attempts + 2
         | FTS_PROBE_SUCCESS \<Rightarrow> phase + attempts + 1
         | FTS_PROBE_FAILED \<Rightarrow> phase + attempts + 1
         | st \<Rightarrow> attempts + (if is_retry_wait st then 3 else if is_message_state st then 2 else 1))"

lemma comm_rel_rank:
  assumes "comm_rel i j"
  shows "fts_rank guc j \<le> fts_rank guc i \<and> (fsi_state j \<noteq> fsi_state i \<longrightarrow> fts_rank guc j < fts_rank guc i)"
  using assms
  by (cases "fsi_state i"; cases "fsi_state j")
     (auto simp: comm_rel_def fts_rank_def Let_def state_kind_defs)

lemma recv_rel_rank:
  assumes "recv_rel Q i j"
  shows "fts_rank guc j \<le> fts_rank guc i \<and> (fsi_state j \<noteq> fsi_state i \<longrightarrow> fts_rank guc j < fts_rank guc i)"
proof (cases "comm_rel i j")
  case True
  then show ?thesis by (rule comm_rel_rank)
next
  case False
  with assms have "nextSuccessState (fsi_state i) = Inr (fsi_state j)" "retry_count j = retry_count i"
    by (auto simp: recv_rel_def)
  then show ?thesis
    by (cases "fsi_state i"; cases "fsi_state j") (auto simp: fts_rank_def Let_def state_kind_defs)
qed

lemma processRetry_seg_rank:
  fixes now :: pg_time
  assumes "mid_inv guc a"
  defines "b \<equiv> processRetry_seg guc now a"
  shows "fts_rank guc b \<le> fts_rank guc a \<and> (fsi_state b \<noteq> fsi_state a \<longrightarrow> fts_rank guc b < fts_rank guc a)"
proof -
  have left: "retry_count a \<noteq> gp_fts_probe_retries guc \<Longrightarrow>
      nat (gp_fts_probe_retries guc - retry_count a) =
      Suc (nat (gp_fts_probe_retries guc - (retry_count a + 1)))"
    using assms(1) unfolding mid_inv_def by linarith
  show ?thesis
    by (cases "fsi_state a")
       (auto simp: b_def processRetry_seg_def retryForFtsFailed_def fts_rank_def Let_def
          state_kind_defs left)
qed

lemma processResponse_seg_rank:
  assumes "processResponse_seg b c = Inr (u, j, c')" and "mid_inv guc b"
  shows "fts_rank guc j \<le> fts_rank guc b \<and> (fsi_state j \<noteq> fsi_state b \<longrightarrow> fts_rank guc j < fts_rank guc b)"
  using assms(1)
proof (cases rule: processResponse_seg_cases)
  case finish
  then have "fts_rank guc b > 0"
    by (cases "fsi_state b") (auto simp: fts_rank_def Let_def state_kind_defs)
  with finish show ?thesis by (simp add: fts_rank_def)
qed (use assms(2) in \<open>auto simp: fts_rank_def Let_def state_kind_defs mid_inv_def\<close>)

lemma iter_rel_rank:
  assumes "iter_rel guc now Q i j" and "seg_inv guc i"
  shows "fts_rank guc j \<le> fts_rank guc i \<and> (fsi_state j \<noteq> fsi_state i \<longrightarrow> fts_rank guc j < fts_rank guc i)"
proof -
  from assms(1) obtain a c u c' where a: "recv_rel Q i a"
    and r: "processResponse_seg (processRetry_seg guc now a) c = Inr (u, j, c')"
    by (auto simp: iter_rel_def)
  let ?b = "processRetry_seg guc now a"
  from a assms(2) have ma: "mid_inv guc a" by (rule recv_rel_mid)
  note steps = recv_rel_rank [OF a, of guc] processRetry_seg_rank [OF ma, of now]
    processResponse_seg_rank [OF r processRetry_seg_mid [OF ma]]
  then have "fsi_state j \<noteq> fsi_state i \<Longrightarrow>
      fsi_state a \<noteq> fsi_state i \<or> fsi_state ?b \<noteq> fsi_state a \<or> fsi_state j \<noteq> fsi_state ?b"
    by auto
  with steps show ?thesis by linarith
qed

text \<open>The states of the context at the start of the successive iterations of a cycle.\<close>

fun fts_trace ::
  "fts_guc \<Rightarrow> cycle_io list \<Rightarrow> fts_segment_info list \<Rightarrow> fts_catalog \<Rightarrow> fts_segment_info list list" where
  "fts_trace guc [] infos cat = [infos]"
| "fts_trace guc (cio # cios) infos cat =
     infos # (if allDone infos then []
              else case fts_iteration guc True cio infos cat of
                     Inl e \<Rightarrow> []
                   | Inr (u, infos', cat') \<Rightarrow> fts_trace guc cios infos' cat')"

lemma fts_trace_Cons: "\<exists>tr. fts_trace guc cios infos cat = infos # tr"
  by (cases cios) simp_all

lemma fts_trace_changes:
  assumes "list_all (seg_inv guc) infos" and "k < length infos"
  shows "length (remdups_adj (map (\<lambda>is. fsi_state (is ! k)) (fts_trace guc cios infos cat)))
           \<le> Suc (fts_rank guc (infos ! k))"
  using assms
proof (induction cios arbitrary: infos cat)
  case (Cons cio cios)
  show ?case
  proof (cases "allDone infos")
    case False
    show ?thesis
    proof (cases "fts_iteration guc True cio infos cat")
      case (Inr r)
      obtain u infos' cat' where r: "r = (u, infos', cat')" by (cases r)
      with Inr have it: "fts_iteration guc True cio infos cat = Inr (u, infos', cat')" by simp
      note all2 = fts_iteration_all2 [OF it Cons.prems(1) responses_satisfy_True]
      from all2 Cons.prems(2) have k': "k < length infos'" by (simp add: list_all2_lengthD)
      from all2 Cons.prems(2) have "iter_rel guc (cio_retry_now cio) (\<lambda>_. True) (infos ! k) (infos' ! k)"
        by (rule list_all2_nthD)
      moreover have "seg_inv guc (infos ! k)" using Cons.prems by (simp add: list_all_length)
      ultimately have rank: "fts_rank guc (infos' ! k) \<le> fts_rank guc (infos ! k)"
        "fsi_state (infos' ! k) \<noteq> fsi_state (infos ! k) \<longrightarrow>
           fts_rank guc (infos' ! k) < fts_rank guc (infos ! k)"
        using iter_rel_rank by blast+
      obtain tr where tr: "fts_trace guc cios infos' cat' = infos' # tr"
        using fts_trace_Cons by blast
      have "length (remdups_adj (map (\<lambda>is. fsi_state (is ! k)) (infos' # tr)))
              \<le> Suc (fts_rank guc (infos' ! k))"
        using Cons.IH [OF fts_iteration_inv [OF it Cons.prems(1)] k', of cat'] by (simp only: tr)
      with rank False it tr show ?thesis by (auto simp: Inr r)
    qed (use False in simp)
  qed simp
qed simp

end
