(* ===== verification/Fts_Catalog.thy ===== *)
theory Fts_Catalog
  imports Fts_Probe_Inv
begin

text \<open>
  The catalog under the prober.  The interface the prober relies on (look a dbid up, write role,
  status and mode of a dbid) is the locale \<open>segment_catalog\<close>; \<open>probeWalRepUpdateConfig\<close> over
  \<open>gp_segment_configuration\<close> interprets it.  On top of it: what \<open>updateConfiguration\<close> leaves in
  the catalog and in shared memory, and the invariant that every content keeps exactly one
  primary, marked up, through a whole probe cycle.
\<close>

unbundle bit_operations_syntax

section \<open>The interface\<close>

definition written_row :: "char \<Rightarrow> bool \<Rightarrow> bool \<Rightarrow> GpSegConfigEntry \<Rightarrow> GpSegConfigEntry" where
  "written_row ro alive insync r =
     r\<lparr>gsc_role := ro, gsc_status := status_char alive, gsc_mode := mode_char insync\<rparr>"

locale segment_catalog =
  fixes row :: "'c \<Rightarrow> int \<Rightarrow> GpSegConfigEntry option"
    and put :: "int \<Rightarrow> int \<Rightarrow> char \<Rightarrow> bool \<Rightarrow> bool \<Rightarrow> 'c \<Rightarrow> fts_error + 'c"
  assumes put_Inr: "put d s ro a y c = Inr c' \<Longrightarrow>
            row c' = (row c)(d := map_option (written_row ro a y) (row c d))"
    and put_defined: "row c d = Some r \<Longrightarrow> \<exists>c'. put d s ro a y c = Inr c'"
    and put_undefined: "row c d = None \<Longrightarrow> put d s ro a y c = Inl (CannotFindDbid d)"
begin

lemma put_iff: "(\<exists>c'. put d s ro a y c = Inr c') \<longleftrightarrow> row c d \<noteq> None"
  using put_defined put_undefined by (metis Inl_Inr_False not_None_eq)

lemma put_keeps_dom:
  assumes "put d s ro a y c = Inr c'"
  shows "dom (row c') = dom (row c)"
  using put_Inr [OF assms] by (auto simp: dom_def)

lemma put_put:
  assumes "put d s ro a y c = Inr c1" and "put d' s' ro' a' y' c1 = Inr c2" and "d \<noteq> d'"
  shows "row c2 = (row c)(d := map_option (written_row ro a y) (row c d),
                          d' := map_option (written_row ro' a' y') (row c d'))"
  using put_Inr [OF assms(1)] put_Inr [OF assms(2)] assms(3) by auto

lemma put_put_defined:
  assumes "row c d \<noteq> None" and "row c d' \<noteq> None"
  obtains c1 c2 where "put d s ro a y c = Inr c1" and "put d' s' ro' a' y' c1 = Inr c2"
proof -
  from assms(1) obtain c1 where c1: "put d s ro a y c = Inr c1" using put_iff by blast
  then have "row c1 d' \<noteq> None" using put_Inr [OF c1] assms by auto
  then obtain c2 where "put d' s' ro' a' y' c1 = Inr c2" using put_iff by blast
  with c1 that show thesis by blast
qed

end

section \<open>The catalog table implements it\<close>

definition catalog_row :: "fts_catalog \<Rightarrow> int \<Rightarrow> GpSegConfigEntry option" where
  "catalog_row cat d = find (\<lambda>r. gsc_dbid r = d) (gp_segment_configuration cat)"

lemma update_config_row_None:
  "update_config_row d f rs = None \<longleftrightarrow> find (\<lambda>r. gsc_dbid r = d) rs = None"
  by (induction rs) auto

lemma update_config_row_Some:
  assumes "update_config_row d f rs = Some rs'" and "\<And>r. gsc_dbid (f r) = gsc_dbid r"
  shows "find (\<lambda>r. gsc_dbid r = e) rs' =
           (if e = d then map_option f (find (\<lambda>r. gsc_dbid r = d) rs)
            else find (\<lambda>r. gsc_dbid r = e) rs)"
  using assms by (induction rs arbitrary: rs') (auto split: if_splits)

lemma written_row_simps [simp]:
  "gsc_dbid (written_row ro a y r) = gsc_dbid r"
  "gsc_segindex (written_row ro a y r) = gsc_segindex r"
  "gsc_role (written_row ro a y r) = ro"
  "gsc_status (written_row ro a y r) = status_char a"
  "gsc_mode (written_row ro a y r) = mode_char y"
  by (simp_all add: written_row_def)

lemma probeWalRepUpdateConfig_alt:
  "probeWalRepUpdateConfig d s ro a y cat =
     (case update_config_row d (written_row ro a y) (gp_segment_configuration cat) of
        None \<Rightarrow> Inl (CannotFindDbid d)
      | Some rows \<Rightarrow>
          Inr (cat\<lparr>gp_configuration_history := gp_configuration_history cat
                     @ [(d, history_desc d s ro a y)],
                   gp_segment_configuration := rows\<rparr>))"
proof -
  have "(\<lambda>r. r\<lparr>gsc_role := ro, gsc_status := status_char a, gsc_mode := mode_char y\<rparr>) =
          written_row ro a y"
    by (simp add: written_row_def fun_eq_iff)
  then show ?thesis by (simp add: probeWalRepUpdateConfig_def Let_def split: option.split)
qed

interpretation sc: segment_catalog catalog_row probeWalRepUpdateConfig
proof
  fix d s ro a y c c'
  assume "probeWalRepUpdateConfig d s ro a y c = Inr c'"
  then show "catalog_row c' = (catalog_row c)(d := map_option (written_row ro a y) (catalog_row c d))"
    by (auto simp: probeWalRepUpdateConfig_alt catalog_row_def fun_eq_iff
          update_config_row_Some [OF _ written_row_simps(1)] split: option.splits)
next
  fix d s ro a y c r
  assume "catalog_row c d = Some r"
  then have "update_config_row d (written_row ro a y) (gp_segment_configuration c) \<noteq> None"
    by (simp add: catalog_row_def update_config_row_None)
  then show "\<exists>c'. probeWalRepUpdateConfig d s ro a y c = Inr c'"
    by (auto simp: probeWalRepUpdateConfig_alt)
next
  fix d s ro a y c
  assume "catalog_row c d = None"
  then show "probeWalRepUpdateConfig d s ro a y c = Inl (CannotFindDbid d)"
    by (simp add: catalog_row_def probeWalRepUpdateConfig_alt
          flip: update_config_row_None [of d "written_row ro a y"])
qed

lemma catalog_row_set_fts_status [simp]: "catalog_row (set_fts_status d a cat) = catalog_row cat"
  by (simp add: catalog_row_def set_fts_status_def Let_def fun_eq_iff)

section \<open>What an update leaves behind\<close>

text \<open>
  A primary-mirror pair as the catalog keeps it: one row has each role, both have the same mode,
  the primary is up, and a pair in sync has its mirror up too.
\<close>

definition pair_ok :: "GpSegConfigEntry \<Rightarrow> GpSegConfigEntry \<Rightarrow> bool" where
  "pair_ok p m \<longleftrightarrow>
     gsc_role p = GP_SEGMENT_CONFIGURATION_ROLE_PRIMARY \<and>
     gsc_role m = GP_SEGMENT_CONFIGURATION_ROLE_MIRROR \<and>
     gsc_segindex p = gsc_segindex m \<and> gsc_dbid p \<noteq> gsc_dbid m \<and>
     gsc_mode p = gsc_mode m \<and>
     gsc_mode p \<in> {GP_SEGMENT_CONFIGURATION_MODE_INSYNC, GP_SEGMENT_CONFIGURATION_MODE_NOTINSYNC} \<and>
     gsc_status p = GP_SEGMENT_CONFIGURATION_STATUS_UP \<and>
     gsc_status m \<in> {GP_SEGMENT_CONFIGURATION_STATUS_UP, GP_SEGMENT_CONFIGURATION_STATUS_DOWN} \<and>
     (gsc_mode p = GP_SEGMENT_CONFIGURATION_MODE_INSYNC \<longrightarrow>
        gsc_status m = GP_SEGMENT_CONFIGURATION_STATUS_UP)"

text \<open>One of the two dbids is the primary of a proper pair and the other its mirror.\<close>

definition content_ok :: "fts_catalog \<Rightarrow> int \<Rightarrow> int \<Rightarrow> bool" where
  "content_ok cat d1 d2 \<longleftrightarrow>
     (case (catalog_row cat d1, catalog_row cat d2) of
        (Some r1, Some r2) \<Rightarrow> pair_ok r1 r2 \<or> pair_ok r2 r1
      | _ \<Rightarrow> False)"

lemmas segment_defs = SEGMENT_IS_ALIVE_def SEGMENT_IS_IN_SYNC_def SEGMENT_IS_NOT_INSYNC_def
  SEGMENT_IS_ACTIVE_PRIMARY_def SEGMENT_IS_ACTIVE_MIRROR_def status_char_def mode_char_def

definition update_primary :: "GpSegConfigEntry \<Rightarrow> bool \<Rightarrow> bool \<Rightarrow> bool" where
  "update_primary p insync alive \<longleftrightarrow>
     alive \<noteq> SEGMENT_IS_ALIVE p \<or> insync \<noteq> SEGMENT_IS_IN_SYNC p"

definition update_mirror :: "GpSegConfigEntry \<Rightarrow> GpSegConfigEntry \<Rightarrow> bool \<Rightarrow> bool \<Rightarrow> bool" where
  "update_mirror p m insync malive \<longleftrightarrow>
     malive \<noteq> SEGMENT_IS_ALIVE m \<or> insync \<noteq> SEGMENT_IS_IN_SYNC p"

lemma updateConfiguration_alt:
  "updateConfiguration p m r1 r2 y a b cat =
     (if update_primary p y a \<or> update_mirror p m y b then
        bind_res
          (if update_primary p y a
           then probeWalRepUpdateConfig (gsc_dbid p) (gsc_segindex p) r1 a y cat else Inr cat)
          (\<lambda>cat. bind_res
            (if update_mirror p m y b
             then probeWalRepUpdateConfig (gsc_dbid m) (gsc_segindex m) r2 b y cat else Inr cat)
            (\<lambda>cat. Inr (True,
               set_fts_status (gsc_dbid m) b (set_fts_status (gsc_dbid p) a cat))))
      else Inr (False, cat))"
  unfolding updateConfiguration_def update_primary_def update_mirror_def Let_def by (rule refl)

text \<open>The rows after \<open>updateConfiguration\<close>, for any answer of the probe.\<close>

lemma updateConfiguration_updated:
  assumes "updateConfiguration p m r1 r2 y a b cat = Inr (upd, cat')"
  shows "upd = (update_primary p y a \<or> update_mirror p m y b)"
  using assms
  by (auto simp: updateConfiguration_alt split: if_splits elim!: bind_res_InrE)

lemma updateConfiguration_rows:
  assumes "updateConfiguration p m r1 r2 y a b cat = Inr (upd, cat')" and "gsc_dbid p \<noteq> gsc_dbid m"
  shows "catalog_row cat' = (catalog_row cat)
           (gsc_dbid p := (if update_primary p y a
                           then map_option (written_row r1 a y) (catalog_row cat (gsc_dbid p))
                           else catalog_row cat (gsc_dbid p)),
            gsc_dbid m := (if update_mirror p m y b
                           then map_option (written_row r2 b y) (catalog_row cat (gsc_dbid m))
                           else catalog_row cat (gsc_dbid m)))"
  using assms
  by (auto simp: updateConfiguration_alt split: if_splits elim!: bind_res_InrE
        dest!: sc.put_Inr intro!: ext)

text \<open>It cannot fail when both rows are in the catalog.\<close>

lemma updateConfiguration_total:
  assumes "catalog_row cat (gsc_dbid p) \<noteq> None" and "catalog_row cat (gsc_dbid m) \<noteq> None"
  shows "\<exists>upd cat'. updateConfiguration p m r1 r2 y a b cat = Inr (upd, cat')"
proof -
  have one: "\<exists>c1. (if U then probeWalRepUpdateConfig d s r x y c else Inr c) = Inr c1 \<and>
               dom (catalog_row c1) = dom (catalog_row c)"
    if "catalog_row c d \<noteq> None" for U d s r x y c
    using that sc.put_iff [of d s r x y c] sc.put_keeps_dom by auto
  from one [OF assms(1)] obtain c1 where
      c1: "(if update_primary p y a
            then probeWalRepUpdateConfig (gsc_dbid p) (gsc_segindex p) r1 a y cat
            else Inr cat) = Inr c1" and "dom (catalog_row c1) = dom (catalog_row cat)"
    by blast
  with assms(2) have "catalog_row c1 (gsc_dbid m) \<noteq> None" by blast
  from one [OF this] obtain c2 where
      c2: "(if update_mirror p m y b
            then probeWalRepUpdateConfig (gsc_dbid m) (gsc_segindex m) r2 b y c1
            else Inr c1) = Inr c2"
    by blast
  from c1 c2 show ?thesis
    by (cases "update_primary p y a"; cases "update_mirror p m y b")
       (auto simp: updateConfiguration_alt)
qed

text \<open>The shared status array agrees with the catalog on the dbids of an updated pair.\<close>

lemma FTS_STATUS_IS_DOWN_bit: "FTS_STATUS_IS_DOWN st \<longleftrightarrow> bit st 0"
  by (simp add: FTS_STATUS_IS_DOWN_def and_one_eq bit_0 mod_2_eq_odd)

lemma FTS_STATUS_laws [simp]:
  "\<not> FTS_STATUS_IS_DOWN (FTS_STATUS_SET_UP st)"
  "FTS_STATUS_IS_DOWN (FTS_STATUS_SET_DOWN st)"
  by (simp_all add: FTS_STATUS_IS_DOWN_bit FTS_STATUS_SET_UP_def FTS_STATUS_SET_DOWN_def bit_simps)

lemma updateConfiguration_status:
  assumes "updateConfiguration p m r1 r2 y a b cat = Inr (True, cat')" and "gsc_dbid p \<noteq> gsc_dbid m"
  shows "FTS_STATUS_IS_DOWN (fpi_status (ftsProbeInfo cat') (gsc_dbid p)) = (\<not> a)"
    and "FTS_STATUS_IS_DOWN (fpi_status (ftsProbeInfo cat') (gsc_dbid m)) = (\<not> b)"
  using assms
  by (auto simp: updateConfiguration_alt Let_def set_fts_status_def split: if_splits
        elim!: bind_res_InrE)

section \<open>One primary per content, through the cycle\<close>

definition is_probing :: "FtsMessageState \<Rightarrow> bool" where
  "is_probing st \<longleftrightarrow>
     st \<in> {FTS_PROBE_SEGMENT, FTS_PROBE_RETRY_WAIT, FTS_PROBE_SUCCESS, FTS_PROBE_FAILED}"

abbreviation pdbid :: "fts_segment_info \<Rightarrow> int" where
  "pdbid i \<equiv> gsc_dbid (primary_cdbinfo i)"

abbreviation mdbid :: "fts_segment_info \<Rightarrow> int" where
  "mdbid i \<equiv> gsc_dbid (mirror_cdbinfo i)"

text \<open>
  How the catalog and a pair of the context are linked: while the pair is being probed, its rows
  are still those read at the start of the cycle; later the rows form a proper pair.
\<close>

definition linked :: "fts_catalog \<Rightarrow> fts_segment_info \<Rightarrow> bool" where
  "linked cat i \<longleftrightarrow>
     (if is_probing (fsi_state i)
      then catalog_row cat (pdbid i) = Some (primary_cdbinfo i) \<and>
           catalog_row cat (mdbid i) = Some (mirror_cdbinfo i) \<and>
           pair_ok (primary_cdbinfo i) (mirror_cdbinfo i)
      else content_ok cat (pdbid i) (mdbid i))"

text \<open>A pair whose response is processed: what the code asserts of the recorded result.\<close>

definition result_ok :: "fts_segment_info \<Rightarrow> bool" where
  "result_ok i \<longleftrightarrow>
     (fsi_state i = FTS_PROBE_SUCCESS \<longrightarrow>
        isPrimaryAlive (fsi_result i) \<and>
        (isInSync (fsi_result i) \<longrightarrow> isMirrorAlive (fsi_result i))) \<and>
     (fsi_state i = FTS_PROBE_FAILED \<longrightarrow> \<not> isPrimaryAlive (fsi_result i))"

lemma content_ok_commute: "content_ok cat d1 d2 \<longleftrightarrow> content_ok cat d2 d1"
  by (auto simp: content_ok_def split: option.splits)

lemma linked_content: "linked cat i \<Longrightarrow> content_ok cat (pdbid i) (mdbid i)"
  by (auto simp: linked_def content_ok_def split: if_splits)

lemma linked_frame:
  "linked cat i \<Longrightarrow> catalog_row cat' (pdbid i) = catalog_row cat (pdbid i) \<Longrightarrow>
     catalog_row cat' (mdbid i) = catalog_row cat (mdbid i) \<Longrightarrow> linked cat' i"
  by (simp add: linked_def content_ok_def split: if_splits)

lemma pair_ok_after_success:
  assumes "pair_ok p m" and "y \<longrightarrow> b"
  shows "pair_ok (if update_primary p y True
                  then written_row GP_SEGMENT_CONFIGURATION_ROLE_PRIMARY True y p else p)
                 (if update_mirror p m y b
                  then written_row GP_SEGMENT_CONFIGURATION_ROLE_MIRROR b y m else m)"
  using assms
  by (auto simp: pair_ok_def update_primary_def update_mirror_def segment_defs)

lemma pair_ok_after_failover:
  assumes "pair_ok p m" and "SEGMENT_IS_IN_SYNC m"
  shows "update_primary p False False" and "update_mirror p m False (SEGMENT_IS_ALIVE m)"
    and "pair_ok (written_row GP_SEGMENT_CONFIGURATION_ROLE_PRIMARY (SEGMENT_IS_ALIVE m) False m)
                 (written_row GP_SEGMENT_CONFIGURATION_ROLE_MIRROR False False p)"
  using assms
  by (auto simp: pair_ok_def update_primary_def update_mirror_def segment_defs)

lemma updateConfiguration_frame:
  assumes "updateConfiguration p m r1 r2 y a b cat = Inr (upd, cat')"
    and "gsc_dbid p \<noteq> gsc_dbid m" and "d \<noteq> gsc_dbid p" and "d \<noteq> gsc_dbid m"
  shows "catalog_row cat' d = catalog_row cat d"
  using updateConfiguration_rows [OF assms(1,2)] assms(3,4) by simp

lemma updateConfiguration_success_content:
  assumes "updateConfiguration p m GP_SEGMENT_CONFIGURATION_ROLE_PRIMARY
             GP_SEGMENT_CONFIGURATION_ROLE_MIRROR y True b cat = Inr (upd, cat')"
    and "catalog_row cat (gsc_dbid p) = Some p" and "catalog_row cat (gsc_dbid m) = Some m"
    and "pair_ok p m" and "y \<longrightarrow> b"
  shows "content_ok cat' (gsc_dbid p) (gsc_dbid m)"
proof -
  from assms(4) have "gsc_dbid p \<noteq> gsc_dbid m" by (simp add: pair_ok_def)
  from updateConfiguration_rows [OF assms(1) this] this assms(2,3)
    pair_ok_after_success [OF assms(4,5)]
  show ?thesis
    by (cases "update_primary p y True"; cases "update_mirror p m y b") (simp_all add: content_ok_def)
qed

lemma updateConfiguration_failover_content:
  assumes "updateConfiguration p m GP_SEGMENT_CONFIGURATION_ROLE_MIRROR
             GP_SEGMENT_CONFIGURATION_ROLE_PRIMARY False False (SEGMENT_IS_ALIVE m) cat = Inr (upd, cat')"
    and "catalog_row cat (gsc_dbid p) = Some p" and "catalog_row cat (gsc_dbid m) = Some m"
    and "pair_ok p m" and "SEGMENT_IS_IN_SYNC m"
  shows "content_ok cat' (gsc_dbid m) (gsc_dbid p)"
proof -
  from assms(4) have "gsc_dbid p \<noteq> gsc_dbid m" by (simp add: pair_ok_def)
  from updateConfiguration_rows [OF assms(1) this] this assms(2,3)
    pair_ok_after_failover [OF assms(4,5)]
  show ?thesis by (simp add: content_ok_def)
qed

text \<open>Processing the response of one pair keeps it linked and touches no other dbid.\<close>

lemma processResponse_seg_linked:
  assumes "processResponse_seg b cat = Inr (u, j, cat')" and "linked cat b" and "result_ok b"
  shows "linked cat' j"
    and "\<And>d. d \<noteq> pdbid b \<Longrightarrow> d \<noteq> mdbid b \<Longrightarrow> catalog_row cat' d = catalog_row cat d"
    and "{pdbid j, mdbid j} = {pdbid b, mdbid b}"
proof -
  let ?p = "primary_cdbinfo b" and ?m = "mirror_cdbinfo b"
  have "linked cat' j \<and> {pdbid j, mdbid j} = {pdbid b, mdbid b} \<and>
        (\<forall>d. d \<noteq> pdbid b \<longrightarrow> d \<noteq> mdbid b \<longrightarrow> catalog_row cat' d = catalog_row cat d)"
  proof (cases "ftsResponseReady b \<and> is_probing (fsi_state b)")
    case False
    with assms show ?thesis
      by (cases "fsi_state b")
         (auto simp: processResponse_seg_def Let_def state_kind_defs is_probing_def linked_def)
  next
    case True
    with assms(2) have rows: "catalog_row cat (pdbid b) = Some ?p" "catalog_row cat (mdbid b) = Some ?m"
      and pair: "pair_ok ?p ?m" by (auto simp: linked_def)
    from pair have ne: "pdbid b \<noteq> mdbid b" by (simp add: pair_ok_def)
    note success = updateConfiguration_success_content [OF _ rows pair]
    note failover = updateConfiguration_failover_content [OF _ rows pair]
    note frame = updateConfiguration_frame [OF _ ne]
    have noupd: "content_ok cat (pdbid b) (mdbid b)" by (rule linked_content [OF assms(2)])
    from True consider (s) "fsi_state b = FTS_PROBE_SUCCESS" | (f) "fsi_state b = FTS_PROBE_FAILED"
      by (auto simp: state_kind_defs is_probing_def)
    then show ?thesis
    proof cases
      case s
      with assms(3) have "isPrimaryAlive (fsi_result b)"
        "isInSync (fsi_result b) \<longrightarrow> isMirrorAlive (fsi_result b)" by (simp_all add: result_ok_def)
      with assms(1) True s noupd show ?thesis
        by (auto simp: processResponse_seg_def processResponse_probe_success_def Let_def
              linked_def is_probing_def split: if_splits elim!: bind_res_InrE
              dest: success frame)
    next
      case f
      with assms(3) have "\<not> isPrimaryAlive (fsi_result b)" by (simp add: result_ok_def)
      with assms(1) True f noupd show ?thesis
        by (auto simp: processResponse_seg_def processResponse_probe_failed_def Let_def
              linked_def is_probing_def split: if_splits elim!: bind_res_InrE
              dest: failover frame)
    qed
  qed
  then show "linked cat' j"
    and "\<And>d. d \<noteq> pdbid b \<Longrightarrow> d \<noteq> mdbid b \<Longrightarrow> catalog_row cat' d = catalog_row cat d"
    and "{pdbid j, mdbid j} = {pdbid b, mdbid b}" by auto
qed

text \<open>The dbids of the context, and the loop over it.\<close>

definition refs :: "fts_segment_info list \<Rightarrow> int list" where
  "refs infos = concat (map (\<lambda>i. [pdbid i, mdbid i]) infos)"

abbreviation pair_ids :: "fts_segment_info \<Rightarrow> int set" where
  "pair_ids i \<equiv> {pdbid i, mdbid i}"

lemma set_refs: "set (refs infos) = \<Union> (set (map pair_ids infos))"
  by (auto simp: refs_def)

lemma refs_simps [simp]:
  "refs [] = []" "refs (i # infos) = pdbid i # mdbid i # refs infos"
  by (simp_all add: refs_def)

lemma linked_outside:
  assumes "list_all (linked cat) infos" and "\<And>d. d \<in> set (refs infos) \<Longrightarrow> catalog_row cat' d = catalog_row cat d"
  shows "list_all (linked cat') infos"
  using assms by (induction infos) (auto intro: linked_frame)

lemma processResponse_linked:
  assumes "processResponse True bs cat = Inr (u, js, cat')"
    and "list_all (linked cat) bs" and "list_all result_ok bs" and "distinct (refs bs)"
  shows "list_all (linked cat') js \<and> distinct (refs js) \<and> map pair_ids js = map pair_ids bs \<and>
         (\<forall>d. d \<notin> set (refs bs) \<longrightarrow> catalog_row cat' d = catalog_row cat d)"
  using assms
proof (induction bs arbitrary: cat u js)
  case (Cons b bs)
  from Cons.prems(1) obtain v j c us ks where
      seg: "processResponse_seg b cat = Inr (v, j, c)" and
      rest: "processResponse True bs c = Inr (us, ks, cat')" and js: "js = j # ks"
    by (rule processResponse_ConsE)
  from Cons.prems have lb: "linked cat b" and rb: "result_ok b" by simp_all
  note one = processResponse_seg_linked [OF seg lb rb]
  have "catalog_row c d = catalog_row cat d" if "d \<in> set (refs bs)" for d
    by (rule one(2)) (use that Cons.prems(4) in auto)
  with Cons.prems(2) have "list_all (linked c) bs" by (auto intro: linked_outside)
  from Cons.IH [OF rest this] Cons.prems
  have IH: "list_all (linked cat') ks" "distinct (refs ks)" "map pair_ids ks = map pair_ids bs"
    "\<And>d. d \<notin> set (refs bs) \<Longrightarrow> catalog_row cat' d = catalog_row c d"
    by auto
  then have same: "set (refs ks) = set (refs bs)" by (simp only: set_refs)
  from one(3) Cons.prems(4) have dj: "pdbid j \<notin> set (refs bs)" "mdbid j \<notin> set (refs bs)"
    "pdbid j \<noteq> mdbid j" by (auto simp: doubleton_eq_iff)
  have "linked cat' j" by (rule linked_frame [OF one(1)]) (use dj IH(4) in auto)
  with IH same dj one(2,3) js show ?case by auto
qed simp

text \<open>The message phases do not change which pairs are being probed.\<close>

lemma linked_same_phase:
  "linked cat i \<Longrightarrow> is_probing (fsi_state j) = is_probing (fsi_state i) \<Longrightarrow>
     primary_cdbinfo j = primary_cdbinfo i \<Longrightarrow> mirror_cdbinfo j = mirror_cdbinfo i \<Longrightarrow> linked cat j"
  by (simp add: linked_def)

lemma recv_rel_refs:
  "recv_rel Q i a \<Longrightarrow> primary_cdbinfo a = primary_cdbinfo i \<and> mirror_cdbinfo a = mirror_cdbinfo i"
  by (auto simp: recv_rel_def comm_rel_def)

lemma recv_rel_phase: "recv_rel Q i a \<Longrightarrow> is_probing (fsi_state a) = is_probing (fsi_state i)"
  by (cases "fsi_state i"; cases "fsi_state a") (auto simp: recv_rel_def comm_rel_def is_probing_def)

lemma processRetry_seg_phase:
  "is_probing (fsi_state (processRetry_seg guc now a)) = is_probing (fsi_state a)"
  by (cases "fsi_state a")
     (auto simp: processRetry_seg_def retryForFtsFailed_def state_kind_defs is_probing_def)

lemma retried_linked:
  assumes "recv_rel Q i a" and "linked cat i"
  shows "linked cat (processRetry_seg guc now a)"
  by (rule linked_same_phase [OF assms(2)])
     (use recv_rel_refs [OF assms(1)] recv_rel_phase [OF assms(1)] processRetry_seg_phase in auto)

text \<open>Between iterations no result is recorded; a response that is processed is the one just read.\<close>

definition no_result :: "fts_segment_info \<Rightarrow> bool" where
  "no_result i \<longleftrightarrow> \<not> isPrimaryAlive (fsi_result i)"

definition response_consistent :: "fts_result \<Rightarrow> bool" where
  "response_consistent r \<longleftrightarrow> (isInSync r \<longrightarrow> isMirrorAlive r)"

lemma retried_result_ok:
  assumes "recv_rel response_consistent i a" and "seg_inv guc i" and "no_result i"
  shows "result_ok (processRetry_seg guc now a)"
proof -
  let ?b = "processRetry_seg guc now a"
  have ready: "fsi_state ?b = FTS_PROBE_SUCCESS \<or> fsi_state ?b = FTS_PROBE_FAILED \<Longrightarrow> ?b = a"
    using processRetry_seg_success processRetry_seg_failed by (auto simp: state_kind_defs)
  have "fsi_state a = FTS_PROBE_FAILED \<Longrightarrow> \<not> isPrimaryAlive (fsi_result a)"
    using assms by (cases "fsi_state i") (auto simp: recv_rel_def comm_rel_def no_result_def)
  moreover have "fsi_state a = FTS_PROBE_SUCCESS \<Longrightarrow>
      isPrimaryAlive (fsi_result a) \<and> response_consistent (fsi_result a)"
    using assms(1,2) by (cases "fsi_state i") (auto simp: recv_rel_def comm_rel_def seg_inv_def state_kind_defs)
  ultimately show ?thesis
    using ready by (auto simp: result_ok_def response_consistent_def)
qed

lemma zero_result_alive [simp]: "\<not> isPrimaryAlive zero_result"
  by (simp add: zero_result_def)

lemma processRetry_seg_no_result:
  assumes "recv_rel Q i a" and "no_result i" and "\<not> ftsResponseReady (processRetry_seg guc now a)"
  shows "no_result (processRetry_seg guc now a)"
proof -
  have "no_result a" if "\<not> IsFtsMessageStateSuccess (fsi_state a)"
    using assms(1,2) that nextSuccessState_success by (auto simp: recv_rel_def comm_rel_def no_result_def)
  with assms(3) show ?thesis
    by (cases "fsi_state a")
       (auto simp: processRetry_seg_def retryForFtsFailed_def no_result_def state_kind_defs)
qed

lemma iter_rel_no_result:
  assumes "iter_rel guc now Q i j" and "no_result i"
  shows "no_result j"
proof -
  from assms(1) obtain a c u c' where a: "recv_rel Q i a"
    and r: "processResponse_seg (processRetry_seg guc now a) c = Inr (u, j, c')"
    by (auto simp: iter_rel_def)
  from r show ?thesis
  proof (cases rule: processResponse_seg_cases)
    case skip
    with processRetry_seg_no_result [OF a assms(2)] show ?thesis by blast
  qed (simp_all add: no_result_def close_and_reset_def)
qed

definition cycle_inv :: "int set list \<Rightarrow> fts_segment_info list \<Rightarrow> fts_catalog \<Rightarrow> bool" where
  "cycle_inv D infos cat \<longleftrightarrow>
     list_all (linked cat) infos \<and> list_all no_result infos \<and> distinct (refs infos) \<and>
     map pair_ids infos = D"

lemma list_all2_refs:
  "list_all2 (\<lambda>i j. pdbid j = pdbid i \<and> mdbid j = mdbid i) xs ys \<Longrightarrow>
     refs ys = refs xs \<and> map pair_ids ys = map pair_ids xs"
  by (induction rule: list_all2_induct) auto

text \<open>The pairs of an iteration when their responses are processed.\<close>

lemma fts_iteration_ready:
  assumes it: "fts_iteration guc True cio infos cat = Inr (upd, infos', cat')"
    and inv: "list_all (seg_inv guc) infos" and cyc: "cycle_inv D infos cat"
    and resp: "\<And>k. responses_satisfy response_consistent (cio_seg cio k)"
  obtains b where "processResponse True b cat = Inr (upd, infos', cat')" and "list_all (linked cat) b"
    and "list_all result_ok b" and "distinct (refs b)" and "map pair_ids b = D"
proof -
  from it inv resp obtain d where recv: "list_all2 (recv_rel response_consistent) infos d"
    and pr: "processResponse True (processRetry guc cio d) cat = Inr (upd, infos', cat')"
    by (rule fts_iteration_phases)
  let ?b = "processRetry guc cio d"
  have rel: "list_all2 (\<lambda>i b. \<exists>a. recv_rel response_consistent i a \<and>
                b = processRetry_seg guc (cio_retry_now cio) a) infos ?b"
    using recv by (auto simp: processRetry_def list.rel_map elim: list_all2_mono)
  from cyc have lk: "list_all (linked cat) infos" and nr: "list_all no_result infos"
    by (simp_all add: cycle_inv_def)
  have lb: "list_all (linked cat) ?b"
    by (rule list_all2_list_all [OF rel lk]) (auto intro: retried_linked)
  have both: "list_all (\<lambda>i. seg_inv guc i \<and> no_result i) infos" using inv nr by (simp add: list_all_iff)
  have rb: "list_all result_ok ?b"
    by (rule list_all2_list_all [OF rel both]) (auto intro: retried_result_ok)
  have "refs ?b = refs infos \<and> map pair_ids ?b = map pair_ids infos"
    by (rule list_all2_refs [OF list_all2_mono [OF rel]]) (auto dest!: recv_rel_refs)
  with pr lb rb cyc show thesis by (intro that [of ?b]) (auto simp: cycle_inv_def)
qed

lemma fts_iteration_cycle_inv:
  assumes it: "fts_iteration guc True cio infos cat = Inr (upd, infos', cat')"
    and inv: "list_all (seg_inv guc) infos" and cyc: "cycle_inv D infos cat"
    and resp: "\<And>k. responses_satisfy response_consistent (cio_seg cio k)"
  shows "cycle_inv D infos' cat'"
proof -
  from it inv cyc resp obtain b where b: "processResponse True b cat = Inr (upd, infos', cat')"
    "list_all (linked cat) b" "list_all result_ok b" "distinct (refs b)" "map pair_ids b = D"
    by (rule fts_iteration_ready)
  from processResponse_linked [OF b(1-4)] b(5)
  have "list_all (linked cat') infos'" "distinct (refs infos')" "map pair_ids infos' = D" by auto
  moreover have nr: "list_all no_result infos" using cyc by (simp add: cycle_inv_def)
  have "list_all no_result infos'"
    by (rule list_all2_list_all [OF fts_iteration_all2 [OF it inv resp] nr]) (rule iter_rel_no_result)
  ultimately show ?thesis by (simp add: cycle_inv_def)
qed

subsection \<open>The context at the start of a cycle\<close>

definition has_peer :: "GpSegConfigEntry list \<Rightarrow> GpSegConfigEntry \<Rightarrow> bool" where
  "has_peer all p \<longleftrightarrow> FtsGetPeerSegment all (gsc_segindex p) (gsc_dbid p) \<noteq> None"

definition peer_of :: "GpSegConfigEntry list \<Rightarrow> GpSegConfigEntry \<Rightarrow> GpSegConfigEntry" where
  "peer_of all p = the (FtsGetPeerSegment all (gsc_segindex p) (gsc_dbid p))"

lemma init_probe_loop_eq:
  "perSegInfos (init_probe_loop all segs ctx) =
     perSegInfos ctx @ map (\<lambda>p. init_segment_info p (peer_of all p))
       (filter (\<lambda>p. SEGMENT_IS_ACTIVE_PRIMARY p \<and> has_peer all p) segs)"
  "num_pairs (init_probe_loop all segs ctx) =
     num_pairs ctx - int (length (filter (\<lambda>p. SEGMENT_IS_ACTIVE_PRIMARY p \<and> \<not> has_peer all p) segs))"
  by (induction all segs ctx rule: init_probe_loop.induct)
     (auto simp: has_peer_def peer_of_def split: option.split)

lemma FtsGetPeerSegment_Some:
  "FtsGetPeerSegment all content dbid = Some m \<Longrightarrow>
     m \<in> set all \<and> gsc_segindex m = content \<and> gsc_dbid m \<noteq> dbid"
  by (induction all) (auto split: if_splits)

lemma FtsGetPeerSegment_None:
  "FtsGetPeerSegment all content dbid = None \<longleftrightarrow>
     (\<forall>m \<in> set all. gsc_segindex m = content \<longrightarrow> gsc_dbid m = dbid)"
  by (induction all) auto

text \<open>
  A cluster as the prober reads it: the rows are those of the catalog, the dbids are distinct,
  a content has one primary, and a primary with a peer forms a proper pair with it.
\<close>

definition cluster_ok :: "CdbComponentDatabases \<Rightarrow> fts_catalog \<Rightarrow> bool" where
  "cluster_ok cdbs cat \<longleftrightarrow>
     (let segs = segment_db_info cdbs; prim = filter SEGMENT_IS_ACTIVE_PRIMARY segs
      in distinct (map gsc_dbid segs) \<and>
         (\<forall>r \<in> set segs. catalog_row cat (gsc_dbid r) = Some r) \<and>
         distinct (map gsc_segindex prim) \<and>
         (\<forall>p \<in> set prim. has_peer segs p \<longrightarrow> pair_ok p (peer_of segs p)))"

lemma distinct_pairs:
  assumes "distinct ps" and "inj_on f (set ps)" and "\<forall>p \<in> set ps. \<forall>q \<in> set ps. p \<noteq> f q"
  shows "distinct (concat (map (\<lambda>p. [p, f p]) ps))"
  using assms
proof (induction ps)
  case (Cons p ps)
  have elems: "set (concat (map (\<lambda>p. [p, f p]) ps)) = set ps \<union> f ` set ps" by auto
  from Cons.prems(2) Cons.prems(1) have fresh: "f p \<notin> f ` set ps" by (simp add: inj_on_insert)
  from Cons.prems(3) have "p \<notin> f ` set ps" "f p \<notin> set ps" "p \<noteq> f p" by (auto 0 2)
  with Cons elems fresh show ?case by (simp add: inj_on_insert)
qed simp

lemma distinct_refs_pairs:
  assumes "distinct ps" and "inj_on gsc_dbid (set ps \<union> f ` set ps)" and "inj_on f (set ps)"
    and "\<forall>p \<in> set ps. \<forall>q \<in> set ps. p \<noteq> f q"
  shows "distinct (refs (map (\<lambda>p. init_segment_info p (f p)) ps))"
proof -
  have "refs (map (\<lambda>p. init_segment_info p (f p)) ps) =
          map gsc_dbid (concat (map (\<lambda>p. [p, f p]) ps))"
    by (induction ps) (simp_all add: init_segment_info_def)
  moreover have "set (concat (map (\<lambda>p. [p, f p]) ps)) = set ps \<union> f ` set ps" by auto
  ultimately show ?thesis
    using distinct_pairs [OF assms(1,3,4)] assms(2) by (simp add: distinct_map)
qed

lemma cluster_ok_init:
  assumes "cluster_ok cdbs cat"
  defines "infos \<equiv> perSegInfos (FtsWalRepInitProbeContext cdbs)"
  shows "cycle_inv (map pair_ids infos) infos cat"
proof -
  let ?segs = "segment_db_info cdbs"
  let ?ps = "filter (\<lambda>p. SEGMENT_IS_ACTIVE_PRIMARY p \<and> has_peer ?segs p) ?segs"
  let ?f = "peer_of ?segs"
  have infos: "infos = map (\<lambda>p. init_segment_info p (?f p)) ?ps"
    by (simp add: infos_def FtsWalRepInitProbeContext_def init_probe_loop_eq)
  from assms(1) have dd: "distinct (map gsc_dbid ?segs)"
    and rows: "\<And>r. r \<in> set ?segs \<Longrightarrow> catalog_row cat (gsc_dbid r) = Some r"
    and ds: "distinct (map gsc_segindex (filter SEGMENT_IS_ACTIVE_PRIMARY ?segs))"
    and pairs: "\<And>p. p \<in> set ?ps \<Longrightarrow> pair_ok p (?f p)"
    by (auto simp: cluster_ok_def Let_def)
  have peer: "?f p \<in> set ?segs \<and> gsc_segindex (?f p) = gsc_segindex p" if "p \<in> set ?ps" for p
    using that FtsGetPeerSegment_Some [of ?segs "gsc_segindex p" "gsc_dbid p"]
    by (auto simp: has_peer_def peer_of_def)
  have one: "p = q" if "p \<in> set ?ps" "q \<in> set ?ps" "gsc_segindex p = gsc_segindex q" for p q
    using ds that by (auto simp: distinct_map inj_on_def)
  have "distinct (refs infos)"
    unfolding infos
  proof (rule distinct_refs_pairs)
    show "distinct ?ps" using dd by (simp add: distinct_map)
    have sub: "set ?ps \<union> ?f ` set ?ps \<subseteq> set ?segs" using peer by auto
    show "inj_on gsc_dbid (set ?ps \<union> ?f ` set ?ps)"
      using dd sub by (meson distinct_map inj_on_subset)
    show "inj_on ?f (set ?ps)" using one peer by (intro inj_onI) metis
    have "p \<noteq> ?f q" if "p \<in> set ?ps" "q \<in> set ?ps" for p q
      using pairs [OF that(1)] pairs [OF that(2)] by (auto simp: pair_ok_def)
    then show "\<forall>p \<in> set ?ps. \<forall>q \<in> set ?ps. p \<noteq> ?f q" by blast
  qed
  moreover have "linked cat (init_segment_info p (?f p))" if "p \<in> set ?ps" for p
    using that rows peer pairs by (simp add: linked_def init_segment_info_def is_probing_def)
  ultimately show ?thesis
    by (auto simp: cycle_inv_def infos list_all_iff no_result_def init_segment_info_def)
qed

section \<open>A concrete cluster\<close>

text \<open>One content with a primary (dbid 2) and a mirror (dbid 3) in sync, for the witnesses.\<close>

definition ex_row :: "int \<Rightarrow> char \<Rightarrow> GpSegConfigEntry" where
  "ex_row d r = \<lparr>gsc_dbid = d, gsc_segindex = 0, gsc_role = r, gsc_preferred_role = r,
     gsc_mode = CHR ''s'', gsc_status = CHR ''u'', gsc_port = 6000 + d, gsc_hostname = ''h'',
     gsc_address = ''h'', gsc_datadir = ''/d'', gsc_hostip = Some ''10.0.0.1''\<rparr>"

definition ex_cdbs :: CdbComponentDatabases where
  "ex_cdbs = \<lparr>segment_db_info = [ex_row 2 CHR ''p'', ex_row 3 CHR ''m''], total_segments = 1\<rparr>"

definition ex_cat :: fts_catalog where
  "ex_cat = \<lparr>gp_segment_configuration = [ex_row 2 CHR ''p'', ex_row 3 CHR ''m''],
     gp_configuration_history = [],
     ftsProbeInfo = \<lparr>fpi_status_version = 1, fpi_status = (\<lambda>_. 0), fpi_start_count = 1,
                     fpi_done_count = 0\<rparr>\<rparr>"

definition ex_bad :: pg_conn where
  "ex_bad = \<lparr>pgc_status = CONNECTION_BAD, pgc_asyncStatus = PGASYNC_IDLE,
             pgc_errorMessage = ''refused''\<rparr>"

text \<open>No segment can be reached.\<close>

definition ex_down :: cycle_io where
  "ex_down = \<lparr>cio_seg = (\<lambda>_. \<lparr>io_connectStart = (\<lambda>_. Some ex_bad), io_startTime = 0,
       io_connectPoll = (PGRES_POLLING_FAILED, ex_bad), io_sendQuery = (\<lambda>_. (False, ex_bad)),
       io_consumeInput = (False, ex_bad), io_isBusy = (False, ex_bad),
       io_getResult = (None, ex_bad)\<rparr>),
     cio_nready = 0, cio_eintr = False, cio_revents = (\<lambda>_. 0), cio_poll_now = 0,
     cio_retry_now = 0\<rparr>"

definition ex_guc :: fts_guc where
  "ex_guc = \<lparr>gp_fts_probe_retries = 0, gp_fts_probe_timeout = 20\<rparr>"

definition ex_run :: "fts_error + bool \<times> fts_segment_info list \<times> fts_catalog \<times> bool" where
  "ex_run = FtsWalRepMessageSegments ex_guc True [ex_down, ex_down] ex_cdbs ex_cat"

lemmas fts_exec = FtsWalRepMessageSegments_def FtsWalRepInitProbeContext_def init_segment_info_def
  fts_iteration_def ftsConnect_def ftsPoll_def ftsSend_def ftsReceive_def processRetry_def
  ftsConnect_seg_def ftsConnectStart_def ftsPoll_seg_def ftsCheckTimeout_def ftsSend_seg_def
  ftsReceive_seg_def processRetry_seg_def retryForFtsFailed_def processResponse_seg_def
  processResponse_probe_success_def processResponse_probe_failed_def close_and_reset_def
  updateConfiguration_def set_fts_status_def probeWalRepUpdateConfig_def fail_segment_def
  allDone_def to_be_polled_def PQstatus_def zero_result_def state_kind_defs segment_defs c_int_def

lemmas ex_defs = ex_row_def ex_cdbs_def ex_cat_def ex_bad_def ex_down_def ex_guc_def

lemma ex_run_Inr:
  "ex_run = Inr (fst (projr ex_run), fst (snd (projr ex_run)), fst (snd (snd (projr ex_run))),
                 snd (snd (snd (projr ex_run))))"
proof -
  have "\<not> isl ex_run" by (simp add: ex_run_def ex_defs fts_exec fts_cycle.simps Let_def)
  then show ?thesis by (cases ex_run) auto
qed

lemma ex_cluster_ok: "cluster_ok ex_cdbs ex_cat"
  by code_simp

section \<open>Properties of the prober\<close>

lemma cycle_content:
  assumes "cycle_inv D infos cat" and "{d1, d2} \<in> set D"
  shows "content_ok cat d1 d2"
proof -
  from assms obtain i where i: "i \<in> set infos" "pair_ids i = {d1, d2}"
    by (auto simp: cycle_inv_def)
  with assms(1) have "content_ok cat (pdbid i) (mdbid i)"
    by (auto simp: cycle_inv_def list_all_iff linked_content)
  with i(2) show ?thesis by (auto simp: doubleton_eq_iff content_ok_commute)
qed

text \<open>C9. A probe cycle keeps one live primary per content: whatever the network, the clock and the
  segments do, as long as no segment claims to be in sync with a mirror that is down, after the
  cycle the rows of every primary-mirror pair of the cluster are again a proper pair (one primary,
  marked up, one mirror, the same mode in both rows, in sync only if the mirror is up).\<close>

theorem probe_cycle_keeps_one_primary:
  assumes "0 \<le> gp_fts_probe_retries guc" and "cluster_ok cdbs cat"
    and "\<forall>cio \<in> set cios. \<forall>k. responses_satisfy response_consistent (cio_seg cio k)"
    and "FtsWalRepMessageSegments guc True cios cdbs cat = Inr (upd, infos, cat', ended)"
    and "p \<in> set (segment_db_info cdbs)" and "SEGMENT_IS_ACTIVE_PRIMARY p"
    and "FtsGetPeerSegment (segment_db_info cdbs) (gsc_segindex p) (gsc_dbid p) = Some m"
  shows "content_ok cat' (gsc_dbid p) (gsc_dbid m)"
proof -
  let ?start = "perSegInfos (FtsWalRepInitProbeContext cdbs)"
  have "cycle_inv (map pair_ids ?start) infos cat' \<and> list_all (seg_inv guc) infos \<and>
        (ended \<longrightarrow> allDone infos)"
    using assms(4) [unfolded FtsWalRepMessageSegments_def] init_context_inv [OF assms(1)]
      cluster_ok_init [OF assms(2)] TrueI
    by (rule fts_cycle_invariant) (use assms(3) in \<open>blast intro: fts_iteration_cycle_inv\<close>)
  moreover have "{gsc_dbid p, gsc_dbid m} \<in> set (map pair_ids ?start)"
    using assms(5-7)
    by (auto simp: FtsWalRepInitProbeContext_def init_probe_loop_eq has_peer_def peer_of_def
          init_segment_info_def image_iff intro!: bexI [of _ p])
  ultimately show ?thesis by (blast intro: cycle_content)
qed

theorem probe_cycle_keeps_one_primary_witness:
  "content_ok (fst (snd (snd (projr ex_run)))) 2 3 \<and>
   map_option gsc_role (catalog_row (fst (snd (snd (projr ex_run)))) 3) = Some CHR ''p''"
proof
  have "content_ok (fst (snd (snd (projr ex_run)))) (gsc_dbid (ex_row 2 CHR ''p''))
          (gsc_dbid (ex_row 3 CHR ''m''))"
  proof (rule probe_cycle_keeps_one_primary [OF _ ex_cluster_ok])
    show "FtsWalRepMessageSegments ex_guc True [ex_down, ex_down] ex_cdbs ex_cat =
        Inr (fst (projr ex_run), fst (snd (projr ex_run)), fst (snd (snd (projr ex_run))),
             snd (snd (snd (projr ex_run))))"
      using ex_run_Inr by (simp only: ex_run_def)
  qed (simp_all add: ex_defs segment_defs responses_satisfy_def)
  then show "content_ok (fst (snd (snd (projr ex_run)))) 2 3" by (simp add: ex_row_def)
  show "map_option gsc_role (catalog_row (fst (snd (snd (projr ex_run)))) 3) = Some CHR ''p''"
    by (simp add: ex_run_def ex_defs fts_exec fts_cycle.simps Let_def catalog_row_def)
qed

text \<open>C25. The prober never reaches one of its own internal errors: whatever the environment does, a
  probe cycle raises only errors that libpq, the kernel or the catalog caused (no connection object,
  an undocumented answer of \<open>PQconnectPoll\<close>, a failing \<open>poll\<close>, a dbid that is not in the catalog);
  the errors "cannot determine next success/failed state" and "invalid internal state" do not
  occur.\<close>

theorem probe_cycle_errors:
  assumes "0 \<le> gp_fts_probe_retries guc"
    and "FtsWalRepMessageSegments guc active cios cdbs cat = Inl e"
  shows "environment_error e"
  using assms(2) [unfolded FtsWalRepMessageSegments_def] init_context_inv [OF assms(1)]
  by (rule fts_cycle_error)

text \<open>The environment of the witness: libpq cannot allocate a connection object.\<close>

definition ex_nomem :: cycle_io where
  "ex_nomem = ex_down\<lparr>cio_seg := (\<lambda>k. (cio_seg ex_down k)\<lparr>io_connectStart := (\<lambda>_. None)\<rparr>)\<rparr>"

theorem probe_cycle_errors_witness:
  "FtsWalRepMessageSegments ex_guc True [ex_nomem] ex_cdbs ex_cat = Inl CannotCreateConnection \<and>
   environment_error CannotCreateConnection"
proof -
  have "FtsWalRepMessageSegments ex_guc True [ex_nomem] ex_cdbs ex_cat = Inl CannotCreateConnection"
    by (simp add: ex_nomem_def ex_defs fts_exec fts_cycle.simps Let_def)
  with probe_cycle_errors [OF _ this] show ?thesis by (simp add: ex_guc_def)
qed





end
