(* ===== verification/Fts_Liveness.thy ===== *)
theory Fts_Liveness
  imports Fts_Catalog
begin

text \<open>
  Progress of the prober: the poll array, the number of state changes of a pair in a cycle, the end
  of a cycle when no segment can be reached, and the one situation in which a cycle does not end, a
  response that stays incomplete.
\<close>

unbundle bit_operations_syntax

section \<open>The poll array\<close>

lemma ftsPoll_fill_length:
  "length (fst (ftsPoll_fill n infos)) = length infos"
  "length (snd (ftsPoll_fill n infos)) = length (filter to_be_polled infos)"
  by (induction infos arbitrary: n) (simp_all add: split_beta)

lemma ftsPoll_fill_index:
  assumes "k < length infos"
  shows "fd_index (fst (ftsPoll_fill n infos) ! k) =
           (if to_be_polled (infos ! k)
            then int (n + length (filter to_be_polled (take k infos))) else -1)"
  using assms
proof (induction infos arbitrary: n k)
  case (Cons i infos)
  then show ?case by (cases k) (auto simp: split_beta)
qed simp

lemma ftsPoll_fill_events:
  "snd (ftsPoll_fill n infos) = map poll_events (filter to_be_polled infos)"
  by (induction infos arbitrary: n) (simp_all add: split_beta)

lemma filter_nth_take:
  assumes "k < length xs" and "P (xs ! k)"
  shows "length (filter P (take k xs)) < length (filter P xs) \<and>
         filter P xs ! length (filter P (take k xs)) = xs ! k"
proof -
  have "filter P xs = filter P (take k xs) @ xs ! k # filter P (drop (Suc k) xs)"
    using assms by (subst id_take_nth_drop [OF assms(1)]) simp
  then show ?thesis by simp
qed

section \<open>A cycle in which no segment can be reached\<close>









text \<open>The responses can be processed as long as the rows of the pairs are in the catalog.\<close>

definition catalog_dbids :: "fts_catalog \<Rightarrow> int list" where
  "catalog_dbids cat = map gsc_dbid (gp_segment_configuration cat)"





lemma set_fts_status_dbids [simp]: "catalog_dbids (set_fts_status d a cat) = catalog_dbids cat"
  by (simp add: catalog_dbids_def set_fts_status_def Let_def)











section \<open>A response that stays incomplete\<close>

text \<open>
  A pair that has sent its message and read a part of the answer: \<open>ftsPoll\<close> has cleared
  \<open>poll_events\<close> when the socket became readable, and \<open>ftsReceive\<close> leaves it cleared when libpq
  needs more data.
\<close>

definition busy_conn :: "pg_conn \<Rightarrow> bool" where
  "busy_conn c \<longleftrightarrow> pgc_status c = CONNECTION_OK \<and> pgc_asyncStatus c = PGASYNC_BUSY"

definition partly_answered :: "fts_segment_info \<Rightarrow> bool" where
  "partly_answered i \<longleftrightarrow>
     is_message_state (fsi_state i) \<and> (\<exists>c. fsi_conn i = Some c \<and> busy_conn c) \<and>
     poll_events i = 0 \<and> poll_revents i AND POLLIN \<noteq> 0"

text \<open>The segment sends nothing more: libpq reads successfully and stays busy.\<close>

definition silent :: "seg_io \<Rightarrow> bool" where
  "silent io \<longleftrightarrow> fst (io_consumeInput io) \<and> fst (io_isBusy io) \<and>
     busy_conn (snd (io_consumeInput io)) \<and> busy_conn (snd (io_isBusy io))"

lemma partly_answered_seg:
  assumes "partly_answered i" and "silent io"
  shows "ftsConnect_seg io i = Inr i" and "\<not> to_be_polled i" and "ftsSend_seg io i = Inr i"
    and "ftsReceive_seg io i = Inr (i\<lparr>fsi_conn := Some (snd (io_isBusy io))\<rparr>)"
  using assms
  by (auto simp: partly_answered_def silent_def busy_conn_def ftsConnect_seg_def PQstatus_def
        to_be_polled_def ftsSend_seg_def ftsReceive_seg_def split_beta Let_def)

lemma message_no_retry:
  assumes "is_message_state (fsi_state i)"
  shows "processRetry_seg guc now i = i" and "\<not> ftsResponseReady i"
  using assms by (auto simp: processRetry_seg_def state_kind_defs)

lemma ftsPoll_unpolled:
  assumes "ftsPoll guc cio infos = Inr infos'" and "k < length infos" and "\<not> to_be_polled (infos ! k)"
  shows "infos' ! k = (infos ! k)\<lparr>fd_index := -1\<rparr> \<and> length infos' = length infos"
proof -
  let ?fs = "fst (ftsPoll_fill 0 infos)"
  have "\<exists>n. ?fs ! k = (infos ! k)\<lparr>fd_index := n\<rparr>"
    using ftsPoll_fill_all2 [of infos 0] assms(2) by (rule list_all2_nthD)
  then obtain n where n: "?fs ! k = (infos ! k)\<lparr>fd_index := n\<rparr>" by blast
  have "n = -1" using ftsPoll_fill_index [OF assms(2), of 0] assms(3) unfolding n by simp
  with n have k: "?fs ! k = (infos ! k)\<lparr>fd_index := -1\<rparr>" by simp
  have "ftsPoll guc cio infos =
          (if snd (ftsPoll_fill 0 infos) = [] then Inr ?fs
           else if cio_nready cio < 0 \<and> \<not> cio_eintr cio then Inl PollFailed
           else map_res (ftsPoll_seg guc cio) ?fs)"
    by (simp add: ftsPoll_def split_beta)
  with assms(1) consider "infos' = ?fs" | "map_res (ftsPoll_seg guc cio) ?fs = Inr infos'"
    by (metis Inl_Inr_False Inr_inject)
  then show ?thesis
  proof cases
    case 1
    with k show ?thesis by (simp add: ftsPoll_fill_length)
  next
    case 2
    have "list_all2 (\<lambda>i j. \<not> to_be_polled i \<longrightarrow> j = i) ?fs infos'"
      by (rule map_res_all2 [OF 2], intro impI) (simp add: ftsPoll_seg_def)
    moreover have "\<not> to_be_polled (?fs ! k)" using k assms(3) by (simp add: to_be_polled_def)
    ultimately have "infos' ! k = ?fs ! k" "length infos' = length ?fs"
      using assms(2) by (simp_all add: list_all2_conv_all_nth ftsPoll_fill_length)
    with k show ?thesis by (simp add: ftsPoll_fill_length)
  qed
qed

lemma partly_answered_iteration:
  assumes it: "fts_iteration guc True cio infos cat = Inr (u, infos', cat')"
    and k: "k < length infos" and i: "partly_answered (infos ! k)" and s: "silent (cio_seg cio k)"
  shows "k < length infos' \<and> partly_answered (infos' ! k) \<and>
         fsi_state (infos' ! k) = fsi_state (infos ! k)"
proof -
  from it obtain a b c d where a: "map_res_idx (\<lambda>i. ftsConnect_seg (cio_seg cio i)) 0 infos = Inr a"
    and b: "ftsPoll guc cio a = Inr b"
    and c: "map_res_idx (\<lambda>i. ftsSend_seg (cio_seg cio i)) 0 b = Inr c"
    and d: "map_res_idx (\<lambda>i. ftsReceive_seg (cio_seg cio i)) 0 c = Inr d"
    and resp: "processResponse True (processRetry guc cio d) cat = Inr (u, infos', cat')"
    by (auto simp: fts_iteration_def bind_res_Inr_iff ftsConnect_def ftsSend_def ftsReceive_def)
  have len: "length a = length infos" "length c = length b" "length d = length c"
    using map_res_idx_all2 [OF a, of "\<lambda>_ _. True"] map_res_idx_all2 [OF c, of "\<lambda>_ _. True"]
      map_res_idx_all2 [OF d, of "\<lambda>_ _. True"] by (simp_all add: list_all2_lengthD)
  note seg = partly_answered_seg [OF _ s]
  from map_res_idx_nth [OF a k] seg(1) [OF i] have ka: "a ! k = infos ! k" by simp
  let ?b = "(infos ! k)\<lparr>fd_index := -1\<rparr>"
  have kb: "b ! k = ?b" "length b = length infos"
    using ftsPoll_unpolled [OF b] k len ka seg(2) [OF i] by simp_all
  have pb: "partly_answered ?b" using i by (simp add: partly_answered_def)
  have kc: "c ! k = ?b" using map_res_idx_nth [OF c, of k] seg(3) [OF pb] kb k by simp
  let ?d = "?b\<lparr>fsi_conn := Some (snd (io_isBusy (cio_seg cio k)))\<rparr>"
  have kd: "d ! k = ?d" using map_res_idx_nth [OF d, of k] seg(4) [OF pb] kb kc len k by simp
  have pd: "partly_answered ?d" using pb s by (auto simp: partly_answered_def silent_def)
  then have "is_message_state (fsi_state ?d)" unfolding partly_answered_def by blast
  then have quiet: "processRetry_seg guc (cio_retry_now cio) ?d = ?d" "\<not> ftsResponseReady ?d"
    by (rule message_no_retry)+
  have all2: "list_all2 (\<lambda>i j. \<not> ftsResponseReady i \<longrightarrow> j = i) (processRetry guc cio d) infos'"
    by (rule processResponse_all2 [OF resp]) (auto simp: processResponse_seg_def)
  have "k < length d" using k kb(2) len by simp
  then have nth: "processRetry guc cio d ! k = processRetry_seg guc (cio_retry_now cio) (d ! k)"
    and len': "k < length (processRetry guc cio d)"
    by (simp_all add: processRetry_def)
  from nth have nth': "processRetry guc cio d ! k = ?d" by (simp only: kd quiet(1))
  have "infos' ! k = ?d" using list_all2_nthD [OF all2 len'] quiet(2) unfolding nth' by blast
  moreover have "k < length infos'" using list_all2_lengthD [OF all2] len' by simp
  ultimately show ?thesis using pd by simp
qed



section \<open>Properties\<close>






text \<open>\<open>ftsPoll\<close> uses its array soundly: it asks the kernel about at most as many descriptors as there
  are pairs; every polled pair has an index within the array, the array entry there requests this
  pair's events, and no two polled pairs share an index; the other pairs have index -1.\<close>

theorem poll_array_sound:
  assumes "ftsPoll_fill 0 infos = (infos', fds)"
  shows "length infos' = length infos \<and> length fds \<le> length infos \<and>
    (\<forall>k < length infos.
       (if to_be_polled (infos ! k)
        then 0 \<le> fd_index (infos' ! k) \<and> fd_index (infos' ! k) < int (length fds) \<and>
             fds ! nat (fd_index (infos' ! k)) = poll_events (infos ! k)
        else fd_index (infos' ! k) = -1)) \<and>
    (\<forall>j < length infos. \<forall>k < length infos. j < k \<and> to_be_polled (infos ! j) \<and> to_be_polled (infos ! k) \<longrightarrow>
       fd_index (infos' ! j) < fd_index (infos' ! k))"
proof -
  have f: "infos' = fst (ftsPoll_fill 0 infos)" "fds = map poll_events (filter to_be_polled infos)"
    using assms ftsPoll_fill_events [of 0 infos] by simp_all
  have idx: "fd_index (infos' ! k) =
      (if to_be_polled (infos ! k) then int (length (filter to_be_polled (take k infos))) else -1)"
    if "k < length infos" for k
    using ftsPoll_fill_index [OF that, of 0] f(1) by simp
  have less: "length (filter to_be_polled (take j infos)) < length (filter to_be_polled (take k infos))"
    if "j < k" "k < length infos" "to_be_polled (infos ! j)" for j k
    using filter_nth_take [of j "take k infos" to_be_polled] that by (simp add: min_def)
  have "length infos' = length infos" "length fds \<le> length infos"
    using f ftsPoll_fill_length(1) [of 0 infos] by simp_all
  moreover have "fd_index (infos' ! j) < fd_index (infos' ! k)"
    if "j < k" "k < length infos" "to_be_polled (infos ! j)" "to_be_polled (infos ! k)" for j k
    using idx [of j] idx [of k] less [OF that(1-3)] that by simp
  moreover have "0 \<le> fd_index (infos' ! k) \<and> fd_index (infos' ! k) < int (length fds) \<and>
      fds ! nat (fd_index (infos' ! k)) = poll_events (infos ! k)"
    if "k < length infos" "to_be_polled (infos ! k)" for k
    using idx [OF that(1)] filter_nth_take [of k infos to_be_polled] that f(2) by simp
  ultimately show ?thesis using idx by auto
qed

theorem poll_array_sound_witness:
  "length (snd (ftsPoll_fill 0 ex_infos)) \<le> length ex_infos"
  using poll_array_sound [of ex_infos "fst (ftsPoll_fill 0 ex_infos)" "snd (ftsPoll_fill 0 ex_infos)"]
  by simp

text \<open>The effect of a failover.  For a pair whose probe failed finally, that is not restarting and
  whose mirror is in sync, processing the response succeeds and reports a change; the old primary
  becomes a mirror that is down, the old mirror the primary that is up, both not in sync, no other
  row changes; the shared status array shows the old primary down and the new one up; and the pair
  goes on to send the promote message to the new primary over a new connection.\<close>

theorem failover_effect:
  assumes "linked cat i" and "fsi_state i = FTS_PROBE_FAILED" and "\<not> isPrimaryAlive (fsi_result i)"
    and "restart_state i \<notin> {PM_IN_RESETTING, PM_IN_RECOVERY_MAKING_PROGRESS}"
    and "SEGMENT_IS_IN_SYNC (mirror_cdbinfo i)"
  shows "\<exists>j cat'. processResponse_seg i cat = Inr (True, j, cat') \<and>
    catalog_row cat' = (catalog_row cat)
      (pdbid i \<mapsto> (primary_cdbinfo i)\<lparr>gsc_role := GP_SEGMENT_CONFIGURATION_ROLE_MIRROR,
                 gsc_status := GP_SEGMENT_CONFIGURATION_STATUS_DOWN,
                 gsc_mode := GP_SEGMENT_CONFIGURATION_MODE_NOTINSYNC\<rparr>,
       mdbid i \<mapsto> (mirror_cdbinfo i)\<lparr>gsc_role := GP_SEGMENT_CONFIGURATION_ROLE_PRIMARY,
                 gsc_status := GP_SEGMENT_CONFIGURATION_STATUS_UP,
                 gsc_mode := GP_SEGMENT_CONFIGURATION_MODE_NOTINSYNC\<rparr>) \<and>
    FTS_STATUS_IS_DOWN (fpi_status (ftsProbeInfo cat') (pdbid i)) \<and>
    \<not> FTS_STATUS_IS_DOWN (fpi_status (ftsProbeInfo cat') (mdbid i)) \<and>
    fsi_state j = FTS_PROMOTE_SEGMENT \<and> primary_cdbinfo j = mirror_cdbinfo i \<and>
    mirror_cdbinfo j = primary_cdbinfo i \<and> fsi_conn j = None \<and> retry_count j = 0"
proof -
  let ?p = "primary_cdbinfo i" and ?m = "mirror_cdbinfo i"
  from assms(1,2) have rows: "catalog_row cat (pdbid i) = Some ?p" "catalog_row cat (mdbid i) = Some ?m"
    and pair: "pair_ok ?p ?m" by (simp_all add: linked_def is_probing_def)
  from pair have ne: "pdbid i \<noteq> mdbid i" by (simp add: pair_ok_def)
  from pair assms(5) have alive: "SEGMENT_IS_ALIVE ?m" by (auto simp: pair_ok_def segment_defs)
  note upd = pair_ok_after_failover(1,2) [OF pair assms(5)]
  have "catalog_row cat (pdbid i) \<noteq> None" "catalog_row cat (mdbid i) \<noteq> None" using rows by simp_all
  from updateConfiguration_total [OF this] obtain u cat' where
      run: "updateConfiguration ?p ?m GP_SEGMENT_CONFIGURATION_ROLE_MIRROR
              GP_SEGMENT_CONFIGURATION_ROLE_PRIMARY False False True cat = Inr (u, cat')" by blast
  from updateConfiguration_updated [OF run] upd have u by blast
  with run have run': "updateConfiguration ?p ?m GP_SEGMENT_CONFIGURATION_ROLE_MIRROR
              GP_SEGMENT_CONFIGURATION_ROLE_PRIMARY False False True cat = Inr (True, cat')" by simp
  have "processResponse_seg i cat = Inr (True, close_and_reset (i\<lparr>fsi_state := FTS_PROMOTE_SEGMENT,
          primary_cdbinfo := ?m, mirror_cdbinfo := ?p\<rparr>), cat')"
    using assms(2-5) alive run'
    by (simp add: processResponse_seg_def processResponse_probe_failed_def state_kind_defs)
  moreover note updateConfiguration_rows [OF run ne] updateConfiguration_status [OF run' ne]
  ultimately show ?thesis
    using rows upd alive
    by (simp add: close_and_reset_def written_row_def status_char_def mode_char_def)
qed

definition ex_failed :: fts_segment_info where
  "ex_failed = (init_segment_info (ex_row 2 CHR ''p'') (ex_row 3 CHR ''m''))\<lparr>fsi_state := FTS_PROBE_FAILED\<rparr>"

theorem failover_effect_witness:
  "\<exists>j cat'. processResponse_seg ex_failed ex_cat = Inr (True, j, cat') \<and> fsi_state j = FTS_PROMOTE_SEGMENT"
proof -
  have "linked ex_cat ex_failed"
    by (simp add: linked_def is_probing_def ex_failed_def init_segment_info_def catalog_row_def ex_defs
          pair_ok_def)
  from failover_effect [OF this] show ?thesis
    by (auto simp: ex_failed_def init_segment_info_def zero_result_def ex_defs SEGMENT_IS_IN_SYNC_def)
qed

text \<open>A primary that is resetting, or that is in recovery and replayed more than at the last probe, is
  never failed over, and neither is one whose mirror is not in sync: the final failure of its probe
  leaves the catalog and the references as they are and ends the pair's part in the cycle.\<close>

theorem no_failover:
  assumes "fsi_state i = FTS_PROBE_FAILED"
    and "restart_state i \<in> {PM_IN_RESETTING, PM_IN_RECOVERY_MAKING_PROGRESS} \<or>
         \<not> SEGMENT_IS_IN_SYNC (mirror_cdbinfo i)"
  shows "\<exists>j. processResponse_seg i cat = Inr (False, j, cat) \<and> fsi_state j = FTS_RESPONSE_PROCESSED \<and>
    primary_cdbinfo j = primary_cdbinfo i \<and> mirror_cdbinfo j = mirror_cdbinfo i \<and> fsi_conn j = None"
  using assms
  by (cases "restart_state i")
     (auto simp: processResponse_seg_def processResponse_probe_failed_def state_kind_defs
        close_and_reset_def)

theorem no_failover_witness:
  "\<exists>j. processResponse_seg (ex_failed\<lparr>restart_state := PM_IN_RESETTING\<rparr>) ex_cat = Inr (False, j, ex_cat)"
  using no_failover [of "ex_failed\<lparr>restart_state := PM_IN_RESETTING\<rparr>" ex_cat]
  by (auto simp: ex_failed_def)

text \<open>When a probe cycle ends, every pair has been processed and no connection is left open.\<close>

theorem cycle_end_state:
  assumes "0 \<le> gp_fts_probe_retries guc"
    and "FtsWalRepMessageSegments guc True cios cdbs cat = Inr (upd, infos, cat', True)"
  shows "allDone infos \<and> list_all (\<lambda>i. fsi_conn i = None \<and> poll_events i = 0) infos"
proof -
  have "True \<and> list_all (seg_inv guc) infos \<and> (True \<longrightarrow> allDone infos)"
    using assms(2) [unfolded FtsWalRepMessageSegments_def] init_context_inv [OF assms(1)] TrueI TrueI
    by (rule fts_cycle_invariant)
  then show ?thesis by (auto simp: allDone_def list_all_iff inv_defs quiet_def)
qed

theorem cycle_end_state_witness:
  "allDone (fst (snd (projr ex_run)))"
proof -
  have "snd (snd (snd (projr ex_run)))"
    by (simp add: ex_run_def ex_defs fts_exec fts_cycle.simps Let_def)
  with ex_run_Inr have "ex_run = Inr (fst (projr ex_run), fst (snd (projr ex_run)),
      fst (snd (snd (projr ex_run))), True)" by simp
  moreover have "0 \<le> gp_fts_probe_retries ex_guc" by (simp add: ex_guc_def)
  ultimately show ?thesis
    using cycle_end_state [of ex_guc "[ex_down, ex_down]" ex_cdbs ex_cat]
    unfolding ex_run_def by blast
qed

text \<open>C29. A response that stays incomplete is never timed out.  When a segment has answered only a part
  (libpq is still busy after reading), the pair is no longer polled and its timeout is no longer
  checked: however many iterations follow and whatever the clock shows, the pair stays in its
  message state and the cycle does not end.  The comment at \<open>ftsCheckTimeout\<close> says that a timeout
  occurs when the configured seconds have passed without a response.\<close>

theorem incomplete_response_never_times_out:
  assumes "list_all (seg_inv guc) infos" and "k < length infos" and "partly_answered (infos ! k)"
    and "\<forall>cio \<in> set cios. silent (cio_seg cio k)"
    and "fts_cycle guc True cios infos cat = Inr (upd, infos', cat', ended)"
  shows "\<not> ended \<and> fsi_state (infos' ! k) = fsi_state (infos ! k)"
proof -
  let ?I = "\<lambda>is c. k < length is \<and> partly_answered (is ! k) \<and> fsi_state (is ! k) = fsi_state (infos ! k)"
  have start: "?I infos cat" using assms(2,3) by simp
  have "?I infos' cat' \<and> list_all (seg_inv guc) infos' \<and> (ended \<longrightarrow> allDone infos')"
    using assms(5,1) start TrueI
    by (rule fts_cycle_invariant [where I = ?I])
       (use assms(4) partly_answered_iteration in \<open>metis (no_types, lifting)\<close>)
  then show ?thesis
    by (auto simp: allDone_def list_all_length partly_answered_def is_message_state_def)
qed

text \<open>Reading a part of the answer leads to this situation.\<close>

definition ex_busy :: pg_conn where
  "ex_busy = \<lparr>pgc_status = CONNECTION_OK, pgc_asyncStatus = PGASYNC_BUSY, pgc_errorMessage = ''''\<rparr>"

definition ex_sent :: fts_segment_info where
  "ex_sent = (init_segment_info (ex_row 2 CHR ''p'') (ex_row 3 CHR ''m''))
     \<lparr>fsi_conn := Some ex_busy, poll_events := POLLIN\<rparr>"

definition ex_silent :: "pg_time \<Rightarrow> cycle_io" where
  "ex_silent t = ex_down\<lparr>cio_seg := (\<lambda>k. (cio_seg ex_down k)\<lparr>io_consumeInput := (True, ex_busy),
       io_isBusy := (True, ex_busy)\<rparr>),
     cio_nready := 1, cio_revents := (\<lambda>_. POLLIN), cio_poll_now := t, cio_retry_now := t\<rparr>"

definition ex_partly :: "fts_segment_info list" where
  "ex_partly = fst (snd (projr (fts_iteration ex_guc True (ex_silent 1) [ex_sent] ex_cat)))"

lemma ex_partly_eq: "ex_partly = [ex_sent\<lparr>poll_events := 0, poll_revents := POLLIN, fd_index := 0\<rparr>]"
  by (simp add: ex_partly_def ex_silent_def ex_sent_def ex_busy_def ex_defs fts_exec Let_def)

theorem incomplete_response_never_times_out_witness:
  "\<exists>upd infos' cat'. fts_cycle ex_guc True [ex_silent 1000, ex_silent 2000] ex_partly ex_cat =
     Inr (upd, infos', cat', False) \<and> fsi_state (infos' ! 0) = FTS_PROBE_SEGMENT"
proof -
  have part: "partly_answered (ex_partly ! 0)"
    by (simp add: ex_partly_eq partly_answered_def ex_sent_def init_segment_info_def ex_busy_def
          busy_conn_def is_message_state_def)
  have inv: "list_all (seg_inv ex_guc) ex_partly"
    by (simp add: ex_partly_eq ex_sent_def inv_defs init_segment_info_def state_kind_defs ex_guc_def)
  have silent: "\<forall>cio \<in> set [ex_silent 1000, ex_silent 2000]. silent (cio_seg cio 0)"
    by (simp add: silent_def ex_silent_def busy_conn_def ex_busy_def)
  have "\<not> isl (fts_cycle ex_guc True [ex_silent 1000, ex_silent 2000] ex_partly ex_cat)"
    by (simp add: ex_partly_eq ex_silent_def ex_sent_def ex_busy_def ex_defs fts_exec Let_def
          fts_cycle.simps)
  then obtain upd infos' cat' ended where
      run: "fts_cycle ex_guc True [ex_silent 1000, ex_silent 2000] ex_partly ex_cat =
            Inr (upd, infos', cat', ended)"
    by (cases "fts_cycle ex_guc True [ex_silent 1000, ex_silent 2000] ex_partly ex_cat") auto
  have "fsi_state (ex_partly ! 0) = FTS_PROBE_SEGMENT" "0 < length ex_partly"
    by (simp_all add: ex_partly_eq ex_sent_def init_segment_info_def)
  with incomplete_response_never_times_out [OF inv _ part silent run] run show ?thesis by auto
qed

end
