(* ===== verification/Fts_Replication.thy ===== *)
theory Fts_Replication
  imports Fts_Probe
begin

text \<open>
  The segment side of mirror tracking, \<open>gp_replication.c\<close>: the table of replication states that the
  wal senders keep, the decision whether the mirror counts as up, in sync, or within its grace
  period, and the switch of synchronous replication.  Shared memory is a record that every operation
  returns updated; the clock is an argument.
\<close>

unbundle bit_operations_syntax

section \<open>Shared state of a segment\<close>

datatype WalSndState =
    WALSNDSTATE_STARTUP
  | WALSNDSTATE_BACKUP
  | WALSNDSTATE_CATCHUP
  | WALSNDSTATE_STREAMING
  | WALSNDSTATE_STOPPING

record WalSnd =
  ws_pid :: int
  ws_state :: WalSndState
  ws_write :: "64 word"
  caughtup_within_range :: bool
  is_for_gp_walreceiver :: bool

record FTSReplicationStatus =
  frs_name :: string
  frs_in_use :: bool
  con_attempt_count :: "32 word"
  replica_disconnected_at :: pg_time

text \<open>
  The array has \<open>max_replication_status\<close> slots (one in the code); \<open>WalSndCtl\<close> has
  \<open>max_wal_senders\<close> entries.  \<open>gp_replication_conf\<close> is the persistent value of
  \<open>synchronous_standby_names\<close>, and \<open>reload_signals\<close> counts the reload requests to the postmaster.
\<close>

record wal_shmem =
  replications :: "FTSReplicationStatus list"
  walsnds :: "WalSnd list"
  sync_standbys_defined :: bool
  gp_replication_conf :: string
  reload_signals :: nat

record rep_guc =
  gp_fts_replication_attempt_count :: int
  gp_fts_mark_mirror_down_grace_period :: int
  PMAcceptingConnectionsStartTime :: pg_time

datatype rep_error = TooManyStandbyConnections

abbreviation (input) NAMEDATALEN :: nat where "NAMEDATALEN \<equiv> 64"

abbreviation (input) GP_WALRECEIVER_APPNAME :: string where
  "GP_WALRECEIVER_APPNAME \<equiv> ''gp_walreceiver''"

section \<open>The table of replication states\<close>

text \<open>
  The loop of \<open>FTSReplicationStatusCreateIfNotExist\<close>: whether a slot has the name (the first
  \<open>NAMEDATALEN\<close> characters are compared), else the first free slot.
\<close>

fun find_status_slot ::
  "string \<Rightarrow> nat \<Rightarrow> nat option \<Rightarrow> FTSReplicationStatus list \<Rightarrow> bool \<times> nat option" where
  "find_status_slot app_name i free [] = (False, free)"
| "find_status_slot app_name i free (slot # slots) =
     (if frs_in_use slot then
        (if take NAMEDATALEN app_name = take NAMEDATALEN (frs_name slot) then (True, free)
         else find_status_slot app_name (Suc i) free slots)
      else find_status_slot app_name (Suc i) (if free = None then Some i else free) slots)"

definition FTSReplicationStatusCreateIfNotExist ::
  "string \<Rightarrow> string \<Rightarrow> wal_shmem \<Rightarrow> rep_error + wal_shmem" where
  "FTSReplicationStatusCreateIfNotExist application_name app_name shm =
     (case find_status_slot app_name 0 None (replications shm) of
        (True, _) \<Rightarrow> Inr shm
      | (False, Some i) \<Rightarrow>
          Inr (shm\<lparr>replications := (replications shm)[i :=
            \<lparr>frs_name = take (NAMEDATALEN - 1) application_name, frs_in_use = True,
             con_attempt_count = 0, replica_disconnected_at = 0\<rparr>]\<rparr>)
      | (False, None) \<Rightarrow> Inl TooManyStandbyConnections)"

definition FTSReplicationStatusDrop :: "string \<Rightarrow> wal_shmem \<Rightarrow> wal_shmem" where
  "FTSReplicationStatusDrop app_name shm =
     shm\<lparr>replications := map (\<lambda>slot.
       if frs_in_use slot \<and> app_name = frs_name slot
       then slot\<lparr>frs_in_use := False, frs_name := ''''\<rparr> else slot) (replications shm)\<rparr>"

text \<open>A pointer into the array is the index of the slot; \<open>None\<close> is the null pointer.\<close>

fun retrieve_slot :: "string \<Rightarrow> nat \<Rightarrow> FTSReplicationStatus list \<Rightarrow> nat option" where
  "retrieve_slot app_name i [] = None"
| "retrieve_slot app_name i (slot # slots) =
     (if frs_in_use slot \<and> app_name = frs_name slot then Some i
      else retrieve_slot app_name (Suc i) slots)"

definition RetrieveFTSReplicationStatus :: "string \<Rightarrow> wal_shmem \<Rightarrow> nat option" where
  "RetrieveFTSReplicationStatus app_name shm = retrieve_slot app_name 0 (replications shm)"

definition update_status ::
  "nat option \<Rightarrow> (FTSReplicationStatus \<Rightarrow> FTSReplicationStatus) \<Rightarrow> wal_shmem \<Rightarrow> wal_shmem" where
  "update_status p f shm =
     (case p of
        None \<Rightarrow> shm
      | Some i \<Rightarrow> shm\<lparr>replications := (replications shm)[i := f (replications shm ! i)]\<rparr>)"

definition FTSReplicationStatusMarkDisconnect :: "pg_time \<Rightarrow> nat option \<Rightarrow> wal_shmem \<Rightarrow> wal_shmem" where
  "FTSReplicationStatusMarkDisconnect now p shm =
     update_status p (\<lambda>s. s\<lparr>con_attempt_count := con_attempt_count s + 1,
                            replica_disconnected_at := now\<rparr>) shm"

definition FTSReplicationStatusClearAttempts :: "nat option \<Rightarrow> wal_shmem \<Rightarrow> wal_shmem" where
  "FTSReplicationStatusClearAttempts p shm = update_status p (\<lambda>s. s\<lparr>con_attempt_count := 0\<rparr>) shm"

definition FTSReplicationStatusClearDisconnectTime :: "nat option \<Rightarrow> wal_shmem \<Rightarrow> wal_shmem" where
  "FTSReplicationStatusClearDisconnectTime p shm =
     update_status p (\<lambda>s. s\<lparr>replica_disconnected_at := 0\<rparr>) shm"

definition FTSReplicationStatusRetrieveAttempts :: "nat option \<Rightarrow> wal_shmem \<Rightarrow> 32 word" where
  "FTSReplicationStatusRetrieveAttempts p shm =
     (case p of None \<Rightarrow> 0 | Some i \<Rightarrow> con_attempt_count (replications shm ! i))"

definition FTSReplicationStatusRetrieveDisconnectTime :: "nat option \<Rightarrow> wal_shmem \<Rightarrow> pg_time" where
  "FTSReplicationStatusRetrieveDisconnectTime p shm =
     (case p of None \<Rightarrow> 0 | Some i \<Rightarrow> replica_disconnected_at (replications shm ! i))"

definition is_mirror_up :: "WalSnd \<Rightarrow> bool" where
  "is_mirror_up walsender \<longleftrightarrow>
     ws_pid walsender \<noteq> 0 \<and>
     (ws_state walsender = WALSNDSTATE_CATCHUP \<and> ws_write walsender \<noteq> 0 \<or>
      ws_state walsender = WALSNDSTATE_STREAMING)"

definition FTSReplicationStatusUpdateForWalState ::
  "pg_time \<Rightarrow> WalSnd \<Rightarrow> string \<Rightarrow> WalSndState \<Rightarrow> wal_shmem \<Rightarrow> wal_shmem" where
  "FTSReplicationStatusUpdateForWalState now MyWalSnd app_name st shm =
     (let p = RetrieveFTSReplicationStatus app_name shm
      in if is_mirror_up MyWalSnd then
           (let shm = FTSReplicationStatusClearDisconnectTime p shm
            in if st = WALSNDSTATE_STREAMING then FTSReplicationStatusClearAttempts p shm else shm)
         else if FTSReplicationStatusRetrieveDisconnectTime p shm = 0
         then FTSReplicationStatusMarkDisconnect now p shm
         else shm)"

definition FTSReplicationStatusMarkDisconnectForReplication ::
  "pg_time \<Rightarrow> string \<Rightarrow> wal_shmem \<Rightarrow> wal_shmem" where
  "FTSReplicationStatusMarkDisconnectForReplication now app_name shm =
     FTSReplicationStatusMarkDisconnect now (RetrieveFTSReplicationStatus app_name shm) shm"

definition FTSGetReplicationDisconnectTime :: "rep_guc \<Rightarrow> string \<Rightarrow> wal_shmem \<Rightarrow> pg_time" where
  "FTSGetReplicationDisconnectTime guc app_name shm =
     (let p = RetrieveFTSReplicationStatus app_name shm
      in if p \<noteq> None \<and>
            FTSReplicationStatusRetrieveAttempts p shm
              \<le> word_of_int (gp_fts_replication_attempt_count guc)
         then FTSReplicationStatusRetrieveDisconnectTime p shm
         else 0)"

section \<open>The status of the mirror\<close>

definition is_probe_retry_needed :: "rep_guc \<Rightarrow> pg_time \<Rightarrow> wal_shmem \<Rightarrow> bool" where
  "is_probe_retry_needed guc now shm =
     (let disc = FTSGetReplicationDisconnectTime guc GP_WALRECEIVER_APPNAME shm;
          start = PMAcceptingConnectionsStartTime guc;
          delta = now - (if sint disc > sint start then disc else start)
      in sint delta < gp_fts_mark_mirror_down_grace_period guc \<and> sint delta \<ge> 0)"

text \<open>
  \<open>GetMirrorStatus\<close> looks at the first wal sender that serves a mirror; the result is the response
  and \<open>*ready_for_syncrep\<close>.
\<close>

definition GetMirrorStatus ::
  "rep_guc \<Rightarrow> pg_time \<Rightarrow> wal_shmem \<Rightarrow> FtsResponse \<Rightarrow> FtsResponse \<times> bool" where
  "GetMirrorStatus guc now shm response =
     (let (up, sync, ready) =
            (case find is_for_gp_walreceiver (walsnds shm) of
               None \<Rightarrow> (False, False, False)
             | Some ws \<Rightarrow>
                 (let is_up = is_mirror_up ws; is_streaming = (ws_state ws = WALSNDSTATE_STREAMING)
                  in (is_up, is_up \<and> is_streaming,
                      is_up \<and> (ws_state ws = WALSNDSTATE_STREAMING \<or>
                                ws_state ws = WALSNDSTATE_CATCHUP \<and> caughtup_within_range ws))))
      in (response\<lparr>fr_IsMirrorUp := up, fr_IsInSync := sync,
                   fr_IsSyncRepEnabled := sync_standbys_defined shm,
                   fr_RequestRetry := (\<not> up \<and> is_probe_retry_needed guc now shm)\<rparr>, ready))"

definition SetSyncStandbysDefined :: "wal_shmem \<Rightarrow> wal_shmem" where
  "SetSyncStandbysDefined shm =
     (if \<not> sync_standbys_defined shm
      then shm\<lparr>gp_replication_conf := ''*'', reload_signals := Suc (reload_signals shm)\<rparr>
      else shm)"

definition UnsetSyncStandbysDefined :: "wal_shmem \<Rightarrow> wal_shmem" where
  "UnsetSyncStandbysDefined shm =
     FTSReplicationStatusDrop GP_WALRECEIVER_APPNAME
       (if sync_standbys_defined shm
        then shm\<lparr>gp_replication_conf := '''', reload_signals := Suc (reload_signals shm)\<rparr>
        else shm)"

section \<open>The interface of the table\<close>

text \<open>
  What the wal senders and the probe handler rely on: a table of named states with creation (once),
  removal, and update of a named state.  \<open>valid\<close> are the names that fit.
\<close>

definition fresh_status :: "string \<Rightarrow> FTSReplicationStatus" where
  "fresh_status n = \<lparr>frs_name = n, frs_in_use = True, con_attempt_count = 0, replica_disconnected_at = 0\<rparr>"

definition disconnect :: "pg_time \<Rightarrow> FTSReplicationStatus \<Rightarrow> FTSReplicationStatus" where
  "disconnect now s = s\<lparr>con_attempt_count := con_attempt_count s + 1, replica_disconnected_at := now\<rparr>"

locale status_table =
  fixes inv :: "'c \<Rightarrow> bool"
    and valid :: "string \<Rightarrow> bool"
    and status :: "'c \<Rightarrow> string \<Rightarrow> FTSReplicationStatus option"
    and create :: "string \<Rightarrow> 'c \<Rightarrow> rep_error + 'c"
    and remove :: "string \<Rightarrow> 'c \<Rightarrow> 'c"
    and mark :: "pg_time \<Rightarrow> string \<Rightarrow> 'c \<Rightarrow> 'c"
  assumes create_new: "inv c \<Longrightarrow> valid n \<Longrightarrow> status c n = None \<Longrightarrow> create n c = Inr c' \<Longrightarrow>
            status c' = (status c)(n \<mapsto> fresh_status n) \<and> inv c'"
    and create_old: "inv c \<Longrightarrow> valid n \<Longrightarrow> status c n \<noteq> None \<Longrightarrow> create n c = Inr c"
    and remove: "inv c \<Longrightarrow> status (remove n c) = (status c)(n := None) \<and> inv (remove n c)"
    and mark: "inv c \<Longrightarrow>
            status (mark t n c) = (status c)(n := map_option (disconnect t) (status c n)) \<and> inv (mark t n c)"
begin

lemma create_idem:
  assumes "inv c" and "valid n" and "create n c = Inr c'"
  shows "create n c' = Inr c'"
proof (cases "status c n")
  case None
  from create_new [OF assms(1,2) None assms(3)] show ?thesis
    by (intro create_old assms(2)) auto
next
  case (Some s)
  with create_old [OF assms(1,2)] assms(3) show ?thesis by simp
qed

text \<open>After a number of failed connections the state counts them and has the time of the last.\<close>

lemma marks_status:
  assumes "inv c" and "status c n = Some s"
  shows "inv (fold (\<lambda>t. mark t n) ts c) \<and>
         status (fold (\<lambda>t. mark t n) ts c) n =
           Some (s\<lparr>con_attempt_count := con_attempt_count s + of_nat (length ts),
                   replica_disconnected_at := last (replica_disconnected_at s # ts)\<rparr>)"
  using assms
proof (induction ts arbitrary: c s)
  case (Cons t ts)
  from mark [OF Cons.prems(1), of t n] Cons.prems(2)
  have "inv (mark t n c)" "status (mark t n c) n = Some (disconnect t s)" by simp_all
  from Cons.IH [OF this] show ?case by (simp add: disconnect_def add.assoc)
qed simp

lemma removed_marks:
  assumes "inv c"
  shows "status (fold (\<lambda>t. mark t n) ts (remove n c)) n = None"
proof -
  have "inv c' \<Longrightarrow> status c' n = None \<Longrightarrow> status (fold (\<lambda>t. mark t n) ts c') n = None" for c'
    by (induction ts arbitrary: c') (simp_all add: mark)
  then show ?thesis using remove [OF assms, of n] by simp
qed

end

text \<open>The array of slots implements it.\<close>

definition rep_inv :: "wal_shmem \<Rightarrow> bool" where
  "rep_inv shm \<longleftrightarrow> (\<forall>s \<in> set (replications shm). frs_in_use s \<longrightarrow> length (frs_name s) < NAMEDATALEN)"

definition status_of :: "wal_shmem \<Rightarrow> string \<Rightarrow> FTSReplicationStatus option" where
  "status_of shm n = find (\<lambda>s. frs_in_use s \<and> n = frs_name s) (replications shm)"

abbreviation named :: "string \<Rightarrow> FTSReplicationStatus \<Rightarrow> bool" where
  "named n \<equiv> \<lambda>s. frs_in_use s \<and> n = frs_name s"

lemma retrieve_slot_None: "retrieve_slot n i slots = None \<longleftrightarrow> find (named n) slots = None"
  by (induction slots arbitrary: i) auto

lemma retrieve_slot_Some:
  assumes "retrieve_slot n i slots = Some j"
  obtains xs s ys where "slots = xs @ s # ys" and "j = i + length xs" and "named n s"
    and "\<forall>x \<in> set xs. \<not> named n x"
  using assms
proof (induction slots arbitrary: i thesis)
  case (Cons slot slots)
  show ?case
  proof (cases "named n slot")
    case True
    with Cons.prems show ?thesis by (intro Cons.prems(1) [of "[]"]) auto
  next
    case False
    with Cons.prems(2) have "retrieve_slot n (Suc i) slots = Some j" by auto
    then obtain xs s ys where "slots = xs @ s # ys" "j = Suc i + length xs" "named n s"
      "\<forall>x \<in> set xs. \<not> named n x" using Cons.IH by metis
    with False show ?thesis by (intro Cons.prems(1) [of "slot # xs"]) auto
  qed
qed simp

lemma find_skip: "\<forall>x \<in> set xs. \<not> P x \<Longrightarrow> find P (xs @ ys) = find P ys"
  by (induction xs) auto

lemma find_other: "\<not> P s \<Longrightarrow> \<not> P s' \<Longrightarrow> find P (xs @ s' # ys) = find P (xs @ s # ys)"
  by (induction xs) auto

lemma find_replace:
  assumes "\<forall>x \<in> set xs. \<not> named n x" and "named n s'" and "frs_in_use s \<longrightarrow> frs_name s = n"
  shows "find (named m) (xs @ s' # ys) = (if m = n then Some s' else find (named m) (xs @ s # ys))"
proof (cases "m = n")
  case True
  with assms show ?thesis by (simp add: find_skip)
next
  case False
  with assms(2,3) have "\<not> named m s" "\<not> named m s'" by auto
  then have "find (named m) (xs @ s' # ys) = find (named m) (xs @ s # ys)" by (rule find_other)
  with False show ?thesis by simp
qed

lemma status_of_update:
  assumes "\<And>s. frs_in_use (f s) = frs_in_use s" and "\<And>s. frs_name (f s) = frs_name s"
  shows "status_of (update_status (RetrieveFTSReplicationStatus n shm) f shm) =
           (status_of shm)(n := map_option f (status_of shm n))"
proof (cases "RetrieveFTSReplicationStatus n shm")
  case None
  then have "status_of shm n = None"
    by (simp add: RetrieveFTSReplicationStatus_def retrieve_slot_None status_of_def)
  with None show ?thesis by (auto simp: update_status_def)
next
  case (Some j)
  then obtain xs s ys where slots: "replications shm = xs @ s # ys" "j = length xs"
    and s: "named n s" "\<forall>x \<in> set xs. \<not> named n x"
    unfolding RetrieveFTSReplicationStatus_def by (auto elim: retrieve_slot_Some)
  have "named n (f s)" using s(1) assms by simp
  from find_replace [OF s(2) this, of s] s
  have "find (named m) (xs @ f s # ys) = (if m = n then Some (f s) else find (named m) (xs @ s # ys))"
    for m by blast
  moreover have "replications (update_status (RetrieveFTSReplicationStatus n shm) f shm) = xs @ f s # ys"
    using slots by (simp add: Some update_status_def)
  moreover have "find (named n) (xs @ s # ys) = Some s" using s by (simp add: find_skip)
  ultimately show ?thesis by (simp add: status_of_def slots(1) fun_eq_iff)
qed

lemma rep_inv_update:
  assumes "\<And>s. frs_in_use (f s) = frs_in_use s" and "\<And>s. frs_name (f s) = frs_name s" and "rep_inv shm"
  shows "rep_inv (update_status (RetrieveFTSReplicationStatus n shm) f shm)"
proof (cases "RetrieveFTSReplicationStatus n shm")
  case (Some j)
  then obtain xs s ys where "replications shm = xs @ s # ys" "j = length xs"
    unfolding RetrieveFTSReplicationStatus_def by (auto elim: retrieve_slot_Some)
  with Some assms show ?thesis by (auto simp: rep_inv_def update_status_def)
qed (use assms in \<open>simp add: update_status_def\<close>)

lemma find_status_slot_exists:
  assumes "\<forall>s \<in> set slots. frs_in_use s \<longrightarrow> length (frs_name s) < NAMEDATALEN" and "length n < NAMEDATALEN"
  shows "fst (find_status_slot n i free slots) \<longleftrightarrow> find (named n) slots \<noteq> None"
  using assms by (induction n i free slots rule: find_status_slot.induct) auto

lemma find_status_slot_free:
  assumes "find_status_slot n i None slots = (False, Some j)"
  obtains xs s ys where "slots = xs @ s # ys" and "j = i + length xs" and "\<not> frs_in_use s"
  using assms
proof (induction slots arbitrary: i thesis)
  case (Cons slot slots)
  have keep: "find_status_slot n i' (Some k) slots = (False, Some j) \<Longrightarrow> j = k" for i' k slots
    by (induction slots arbitrary: i') (auto split: if_splits)
  show ?case
  proof (cases "frs_in_use slot")
    case True
    with Cons.prems(2) have "find_status_slot n (Suc i) None slots = (False, Some j)"
      by (auto split: if_splits)
    then obtain xs s ys where "slots = xs @ s # ys" "j = Suc i + length xs" "\<not> frs_in_use s"
      using Cons.IH by metis
    then show ?thesis by (intro Cons.prems(1) [of "slot # xs"]) auto
  next
    case False
    with Cons.prems(2) keep have "j = i" by simp
    with False show ?thesis by (intro Cons.prems(1) [of "[]"]) auto
  qed
qed simp

abbreviation valid_name :: "string \<Rightarrow> bool" where
  "valid_name n \<equiv> length n < NAMEDATALEN"

interpretation rs: status_table rep_inv valid_name status_of
  "\<lambda>n. FTSReplicationStatusCreateIfNotExist n n" FTSReplicationStatusDrop
  FTSReplicationStatusMarkDisconnectForReplication
proof unfold_locales
  fix c c' n t
  assume inv: "rep_inv c"
  then have small: "\<forall>s \<in> set (replications c). frs_in_use s \<longrightarrow> length (frs_name s) < NAMEDATALEN"
    by (simp add: rep_inv_def)
  show "status_of (FTSReplicationStatusMarkDisconnectForReplication t n c) =
      (status_of c)(n := map_option (disconnect t) (status_of c n)) \<and>
      rep_inv (FTSReplicationStatusMarkDisconnectForReplication t n c)"
    unfolding FTSReplicationStatusMarkDisconnectForReplication_def
      FTSReplicationStatusMarkDisconnect_def disconnect_def [abs_def]
    using inv by (intro conjI status_of_update rep_inv_update) auto
  have "find (named m) (map (\<lambda>s. if frs_in_use s \<and> n = frs_name s
      then s\<lparr>frs_in_use := False, frs_name := ''''\<rparr> else s) slots) =
      (if m = n then None else find (named m) slots)" for m slots
    by (induction slots) auto
  then show "status_of (FTSReplicationStatusDrop n c) = (status_of c)(n := None) \<and>
      rep_inv (FTSReplicationStatusDrop n c)"
    using inv by (auto simp: status_of_def FTSReplicationStatusDrop_def rep_inv_def fun_eq_iff)
  assume valid: "valid_name n"
  note exists = find_status_slot_exists [OF small valid, of 0 None]
  show "status_of c n \<noteq> None \<Longrightarrow> FTSReplicationStatusCreateIfNotExist n n c = Inr c"
    using exists by (auto simp: FTSReplicationStatusCreateIfNotExist_def status_of_def
        split: prod.split bool.split)
  assume none: "status_of c n = None" and create: "FTSReplicationStatusCreateIfNotExist n n c = Inr c'"
  from exists none have "\<not> fst (find_status_slot n 0 None (replications c))"
    by (simp add: status_of_def)
  with create obtain j where slot: "find_status_slot n 0 None (replications c) = (False, Some j)"
    and c': "c' = c\<lparr>replications := (replications c)[j := fresh_status n]\<rparr>"
    using valid by (auto simp: FTSReplicationStatusCreateIfNotExist_def fresh_status_def
        split: prod.splits bool.splits option.splits)
  from slot obtain xs s ys where slots: "replications c = xs @ s # ys" "j = length xs" "\<not> frs_in_use s"
    by (auto elim: find_status_slot_free)
  have "\<forall>x \<in> set xs. \<not> named n x" using none by (auto simp: status_of_def slots find_None_iff)
  from find_replace [OF this, of "fresh_status n" s] slots(3)
  have "find (named m) (xs @ fresh_status n # ys) =
      (if m = n then Some (fresh_status n) else find (named m) (xs @ s # ys))" for m
    by (simp add: fresh_status_def)
  then show "status_of c' = (status_of c)(n \<mapsto> fresh_status n) \<and> rep_inv c'"
    using inv valid slots
    by (auto simp: c' status_of_def rep_inv_def fun_eq_iff fresh_status_def)
qed

section \<open>What the probe handler reports of the mirror\<close>

lemma RetrieveFTSReplicationStatus_status:
  "status_of shm n = map_option ((!) (replications shm)) (RetrieveFTSReplicationStatus n shm)"
proof (cases "RetrieveFTSReplicationStatus n shm")
  case None
  then show ?thesis by (simp add: RetrieveFTSReplicationStatus_def retrieve_slot_None status_of_def)
next
  case (Some j)
  then obtain xs s ys where "replications shm = xs @ s # ys" "j = length xs" "named n s"
    "\<forall>x \<in> set xs. \<not> named n x"
    unfolding RetrieveFTSReplicationStatus_def by (auto elim: retrieve_slot_Some)
  then have "status_of shm n = Some (replications shm ! j)" by (simp add: status_of_def find_skip)
  then show ?thesis by (simp add: Some)
qed

lemma FTSGetReplicationDisconnectTime_status:
  "FTSGetReplicationDisconnectTime guc n shm =
     (case status_of shm n of
        None \<Rightarrow> 0
      | Some s \<Rightarrow> if con_attempt_count s \<le> word_of_int (gp_fts_replication_attempt_count guc)
                  then replica_disconnected_at s else 0)"
  unfolding RetrieveFTSReplicationStatus_status
  by (cases "RetrieveFTSReplicationStatus n shm")
     (simp_all add: FTSGetReplicationDisconnectTime_def FTSReplicationStatusRetrieveAttempts_def
        FTSReplicationStatusRetrieveDisconnectTime_def)

lemma marks_walsnds [simp]:
  "walsnds (fold (\<lambda>t. FTSReplicationStatusMarkDisconnectForReplication t n) ts shm) = walsnds shm"
  by (induction ts arbitrary: shm)
     (simp_all add: FTSReplicationStatusMarkDisconnectForReplication_def
        FTSReplicationStatusMarkDisconnect_def update_status_def split: option.split)

definition mirror_up :: "wal_shmem \<Rightarrow> bool" where
  "mirror_up shm \<longleftrightarrow> (\<exists>ws. find is_for_gp_walreceiver (walsnds shm) = Some ws \<and> is_mirror_up ws)"

lemma GetMirrorStatus_fields:
  "fr_IsMirrorUp (fst (GetMirrorStatus guc now shm r)) = mirror_up shm"
  "fr_RequestRetry (fst (GetMirrorStatus guc now shm r)) =
     (\<not> mirror_up shm \<and> is_probe_retry_needed guc now shm)"
  "fr_IsSyncRepEnabled (fst (GetMirrorStatus guc now shm r)) = sync_standbys_defined shm"
  "fr_IsRoleMirror (fst (GetMirrorStatus guc now shm r)) = fr_IsRoleMirror r"
  "fr_IsInSync (fst (GetMirrorStatus guc now shm r)) \<Longrightarrow> mirror_up shm"
  "snd (GetMirrorStatus guc now shm r) \<Longrightarrow> mirror_up shm"
  by (auto simp: GetMirrorStatus_def mirror_up_def Let_def split: option.splits)

definition mirror_status :: FTSReplicationStatus where
  "mirror_status = fresh_status GP_WALRECEIVER_APPNAME"

section \<open>Properties\<close>

text \<open>C33. A mirror whose replication keeps failing is reported down without further grace.  When the wal
  sender of the mirror was disconnected more often in a row than
  \<open>gp_fts_replication_attempt_count\<close> (and fewer than 2^32 times), and the postmaster accepts
  connections for at least the grace period, a probe reports the mirror down and does not ask for a
  retry, however recent the last disconnection is.\<close>

theorem repeated_failures_end_grace:
  assumes "rep_inv shm" and "status_of shm GP_WALRECEIVER_APPNAME = Some s"
    and "\<not> mirror_up shm"
    and "0 \<le> gp_fts_replication_attempt_count guc"
    and "gp_fts_replication_attempt_count guc < int (unat (con_attempt_count s) + length ts)"
    and "unat (con_attempt_count s) + length ts < 2 ^ 32"
    and "0 \<le> sint (PMAcceptingConnectionsStartTime guc)"
    and "gp_fts_mark_mirror_down_grace_period guc \<le> sint (now - PMAcceptingConnectionsStartTime guc)"
  defines "shm' \<equiv> fold (\<lambda>t. FTSReplicationStatusMarkDisconnectForReplication t GP_WALRECEIVER_APPNAME) ts shm"
  shows "\<not> fr_IsMirrorUp (fst (GetMirrorStatus guc now shm' r)) \<and>
         \<not> fr_RequestRetry (fst (GetMirrorStatus guc now shm' r))"
proof -
  let ?n = "unat (con_attempt_count s) + length ts"
  obtain s' where s': "status_of shm' GP_WALRECEIVER_APPNAME = Some s'"
    "con_attempt_count s' = con_attempt_count s + of_nat (length ts)"
    using rs.marks_status [OF assms(1,2), of ts] by (auto simp: shm'_def)
  have "con_attempt_count s' = of_nat ?n" using s'(2) by simp
  then have "unat (con_attempt_count s') = ?n"
    using unat_of_nat_less [of ?n, where 'a = 32] assms(6) by simp
  moreover have "unat (word_of_int (gp_fts_replication_attempt_count guc) :: 32 word)
      \<le> nat (gp_fts_replication_attempt_count guc)"
    by (simp add: unsigned_of_int nat_le_eq_zle take_bit_int_less_eq_self_iff assms(4))
  moreover have "nat (gp_fts_replication_attempt_count guc) < ?n"
    using assms(4,5) by (simp only: nat_less_iff)
  ultimately have "\<not> con_attempt_count s' \<le> word_of_int (gp_fts_replication_attempt_count guc)"
    unfolding word_le_nat_alt by linarith
  then have "FTSGetReplicationDisconnectTime guc GP_WALRECEIVER_APPNAME shm' = 0"
    by (simp add: FTSGetReplicationDisconnectTime_status s'(1))
  with assms(7,8) have "\<not> is_probe_retry_needed guc now shm'"
    by (simp add: is_probe_retry_needed_def Let_def)
  moreover have "\<not> mirror_up shm'" using assms(3) by (simp add: mirror_up_def shm'_def)
  ultimately show ?thesis by (simp add: GetMirrorStatus_fields)
qed

definition ex_shm :: wal_shmem where
  "ex_shm = \<lparr>replications = [mirror_status], walsnds = [], sync_standbys_defined = True,
             gp_replication_conf = ''*'', reload_signals = 0\<rparr>"

definition ex_response :: FtsResponse where
  "ex_response = \<lparr>fr_IsMirrorUp = False, fr_IsInSync = False, fr_IsSyncRepEnabled = False,
     fr_IsRoleMirror = False, fr_RequestRetry = False\<rparr>"

definition ex_rep_guc :: rep_guc where
  "ex_rep_guc = \<lparr>gp_fts_replication_attempt_count = 2, gp_fts_mark_mirror_down_grace_period = 30,
                 PMAcceptingConnectionsStartTime = 1000\<rparr>"

lemma ex_shm_ok:
  "rep_inv ex_shm" "status_of ex_shm GP_WALRECEIVER_APPNAME = Some mirror_status" "\<not> mirror_up ex_shm"
  by (simp_all add: rep_inv_def ex_shm_def mirror_status_def fresh_status_def status_of_def mirror_up_def)

theorem repeated_failures_end_grace_witness:
  "\<not> fr_RequestRetry (fst (GetMirrorStatus ex_rep_guc 2000
      (fold (\<lambda>t. FTSReplicationStatusMarkDisconnectForReplication t GP_WALRECEIVER_APPNAME)
         [1990, 1995, 1999] ex_shm) ex_response))"
  using repeated_failures_end_grace [OF ex_shm_ok, of ex_rep_guc "[1990, 1995, 1999]" 2000 ex_response]
  by (simp add: ex_rep_guc_def mirror_status_def fresh_status_def)

text \<open>During the grace period after a disconnection the probe is asked to retry instead of reporting
  the mirror as lost: when the last disconnection is not before the start of the postmaster, fewer
  than the grace period's seconds ago, and the number of attempts is within the limit, a mirror that
  is not up gives a response that requests a retry.\<close>

theorem grace_period_requests_retry:
  assumes "status_of shm GP_WALRECEIVER_APPNAME = Some s" and "\<not> mirror_up shm"
    and "con_attempt_count s \<le> word_of_int (gp_fts_replication_attempt_count guc)"
    and "sint (PMAcceptingConnectionsStartTime guc) \<le> sint (replica_disconnected_at s)"
    and "0 \<le> sint (now - replica_disconnected_at s)"
    and "sint (now - replica_disconnected_at s) < gp_fts_mark_mirror_down_grace_period guc"
  shows "fr_RequestRetry (fst (GetMirrorStatus guc now shm r)) \<and>
         \<not> fr_IsMirrorUp (fst (GetMirrorStatus guc now shm r))"
proof -
  have "FTSGetReplicationDisconnectTime guc GP_WALRECEIVER_APPNAME shm = replica_disconnected_at s"
    using assms(1,3) by (simp add: FTSGetReplicationDisconnectTime_status)
  moreover have "(if sint (replica_disconnected_at s) > sint (PMAcceptingConnectionsStartTime guc)
      then replica_disconnected_at s else PMAcceptingConnectionsStartTime guc) = replica_disconnected_at s"
    using assms(4) signed_word_eqI [of "PMAcceptingConnectionsStartTime guc" "replica_disconnected_at s"]
    by (cases "sint (PMAcceptingConnectionsStartTime guc) = sint (replica_disconnected_at s)") simp_all
  ultimately have "is_probe_retry_needed guc now shm"
    using assms(5,6) by (simp only: is_probe_retry_needed_def Let_def simp_thms)
  with assms(2) show ?thesis by (simp add: GetMirrorStatus_fields)
qed

theorem grace_period_requests_retry_witness:
  "fr_RequestRetry (fst (GetMirrorStatus ex_rep_guc 2000
     (ex_shm\<lparr>replications := [mirror_status\<lparr>con_attempt_count := 1, replica_disconnected_at := 1990\<rparr>]\<rparr>)
     ex_response))"
  using grace_period_requests_retry [of
      "ex_shm\<lparr>replications := [mirror_status\<lparr>con_attempt_count := 1, replica_disconnected_at := 1990\<rparr>]\<rparr>"
      "mirror_status\<lparr>con_attempt_count := 1, replica_disconnected_at := 1990\<rparr>" ex_rep_guc 2000 ex_response]
  by (simp add: status_of_def mirror_up_def ex_shm_def mirror_status_def fresh_status_def ex_rep_guc_def)

end
