(* ===== verification/Pq_Protocol.thy ===== *)
theory Pq_Protocol
  imports Prelude
begin

text \<open>
  Messages between backends and libpq clients: the writers of \<open>pqformat.c\<close> and \<open>pqformat.h\<close>, the
  backend readers of \<open>pqformat.c\<close>, and the client readers of \<open>fe-misc.c\<close> and
  \<open>fe-protocol3.c\<close>.  A message body is a byte list; a reader has the buffer and its cursor.  Both
  kinds of reader implement the interface \<open>byte_reader\<close>, from which the round trips follow.
\<close>

unbundle bit_operations_syntax

type_synonym byte = "8 word"

section \<open>Network byte order\<close>

text \<open>The memory image of \<open>pg_hton16\<close>, \<open>pg_hton32\<close> and \<open>pg_hton64\<close>: the most significant byte first.\<close>

definition hton16 :: "16 word \<Rightarrow> byte list" where
  "hton16 w = [ucast (drop_bit 8 w), ucast w]"

definition hton32 :: "32 word \<Rightarrow> byte list" where
  "hton32 w = [ucast (drop_bit 24 w), ucast (drop_bit 16 w), ucast (drop_bit 8 w), ucast w]"

definition hton64 :: "64 word \<Rightarrow> byte list" where
  "hton64 w = hton32 (ucast (drop_bit 32 w)) @ hton32 (ucast w)"

fun ntoh :: "byte list \<Rightarrow> nat" where
  "ntoh [] = 0"
| "ntoh (b # bs) = unat b * 256 ^ length bs + ntoh bs"

text \<open>The bytes of a C string up to its terminator.\<close>

definition byte_of :: "char \<Rightarrow> byte" where
  "byte_of c = of_nat (of_char c)"

definition bytes_of :: "string \<Rightarrow> byte list" where
  "bytes_of s = map byte_of s"

definition c_str :: "byte list \<Rightarrow> byte list" where
  "c_str bs = takeWhile (\<lambda>b. b \<noteq> 0) bs"

datatype pq_error =
    UnsupportedIntegerSize int
  | NoDataLeft
  | InsufficientData
  | InvalidString
  | InvalidMessageFormat

section \<open>Writing a message\<close>

record StringInfo =
  sid_msgtype :: char
  sid_data :: "byte list"

definition pq_beginmessage :: "char \<Rightarrow> StringInfo" where
  "pq_beginmessage msgtype = \<lparr>sid_msgtype = msgtype, sid_data = []\<rparr>"

definition pq_sendbytes :: "byte list \<Rightarrow> StringInfo \<Rightarrow> StringInfo" where
  "pq_sendbytes bs buf = buf\<lparr>sid_data := sid_data buf @ bs\<rparr>"

definition pq_sendint8 :: "8 word \<Rightarrow> StringInfo \<Rightarrow> StringInfo" where
  "pq_sendint8 i buf = pq_sendbytes [i] buf"

definition pq_sendint16 :: "16 word \<Rightarrow> StringInfo \<Rightarrow> StringInfo" where
  "pq_sendint16 i buf = pq_sendbytes (hton16 i) buf"

definition pq_sendint32 :: "32 word \<Rightarrow> StringInfo \<Rightarrow> StringInfo" where
  "pq_sendint32 i buf = pq_sendbytes (hton32 i) buf"

definition pq_sendint64 :: "64 word \<Rightarrow> StringInfo \<Rightarrow> StringInfo" where
  "pq_sendint64 i buf = pq_sendbytes (hton64 i) buf"

definition pq_sendint :: "32 word \<Rightarrow> int \<Rightarrow> StringInfo \<Rightarrow> pq_error + StringInfo" where
  "pq_sendint i b buf =
     (if b = 1 then Inr (pq_sendint8 (ucast i) buf)
      else if b = 2 then Inr (pq_sendint16 (ucast i) buf)
      else if b = 4 then Inr (pq_sendint32 i buf)
      else Inl (UnsupportedIntegerSize b))"

text \<open>
  \<open>conv\<close> stands for \<open>pg_server_to_client\<close>; when it returns its argument nothing is converted.
\<close>

definition pq_sendstring :: "(byte list \<Rightarrow> byte list) \<Rightarrow> byte list \<Rightarrow> StringInfo \<Rightarrow> StringInfo" where
  "pq_sendstring conv str buf = pq_sendbytes (c_str (conv (c_str str)) @ [0]) buf"

definition pq_send_ascii_string :: "byte list \<Rightarrow> StringInfo \<Rightarrow> StringInfo" where
  "pq_send_ascii_string str buf =
     pq_sendbytes (map (\<lambda>ch. if bit ch 7 then 0x3F else ch) (c_str str) @ [0]) buf"

text \<open>What \<open>pq_endmessage\<close> puts on the wire: \<open>socket_putmessage\<close> of protocol 3.\<close>

definition socket_putmessage :: "char \<Rightarrow> byte list \<Rightarrow> byte list" where
  "socket_putmessage msgtype s =
     (if msgtype = CHR 0x00 then [] else [byte_of msgtype]) @
     hton32 (of_nat (length s + 4)) @ s"

definition pq_endmessage :: "StringInfo \<Rightarrow> byte list" where
  "pq_endmessage buf = socket_putmessage (sid_msgtype buf) (sid_data buf)"

section \<open>Reading a message in the backend\<close>

record msg =
  msg_data :: "byte list"
  msg_cursor :: nat

definition pq_getmsgbyte :: "msg \<Rightarrow> pq_error + byte \<times> msg" where
  "pq_getmsgbyte m =
     (if msg_cursor m \<ge> length (msg_data m) then Inl NoDataLeft
      else Inr (msg_data m ! msg_cursor m, m\<lparr>msg_cursor := msg_cursor m + 1\<rparr>))"

definition pq_copymsgbytes :: "int \<Rightarrow> msg \<Rightarrow> pq_error + byte list \<times> msg" where
  "pq_copymsgbytes datalen m =
     (if datalen < 0 \<or> datalen > int (length (msg_data m)) - int (msg_cursor m)
      then Inl InsufficientData
      else Inr (take (nat datalen) (drop (msg_cursor m) (msg_data m)),
                m\<lparr>msg_cursor := msg_cursor m + nat datalen\<rparr>))"

definition pq_getmsgbytes :: "int \<Rightarrow> msg \<Rightarrow> pq_error + byte list \<times> msg" where
  "pq_getmsgbytes datalen m = pq_copymsgbytes datalen m"

definition pq_getmsgint :: "int \<Rightarrow> msg \<Rightarrow> pq_error + 32 word \<times> msg" where
  "pq_getmsgint b m =
     (if b = 1 \<or> b = 2 \<or> b = 4
      then bind_res (pq_copymsgbytes b m) (\<lambda>(bs, m). Inr (of_nat (ntoh bs), m))
      else Inl (UnsupportedIntegerSize b))"

definition pq_getmsgint64 :: "msg \<Rightarrow> pq_error + 64 word \<times> msg" where
  "pq_getmsgint64 m = bind_res (pq_copymsgbytes 8 m) (\<lambda>(bs, m). Inr (of_nat (ntoh bs), m))"

text \<open>
  The buffer has a trailing null byte after the message, so \<open>strlen\<close> from the cursor stops at the
  end of the data at the latest.
\<close>

definition pq_getmsgrawstring :: "msg \<Rightarrow> pq_error + byte list \<times> msg" where
  "pq_getmsgrawstring m =
     (let str = c_str (drop (msg_cursor m) (msg_data m)); slen = length str
      in if msg_cursor m + slen \<ge> length (msg_data m) then Inl InvalidString
         else Inr (str, m\<lparr>msg_cursor := msg_cursor m + slen + 1\<rparr>))"

definition pq_getmsgend :: "msg \<Rightarrow> pq_error + unit" where
  "pq_getmsgend m =
     (if msg_cursor m \<noteq> length (msg_data m) then Inl InvalidMessageFormat else Inr ())"

section \<open>Reading a message in libpq\<close>

text \<open>
  The input buffer of a connection: \<open>inStart\<close> is the start of the unconsumed data, \<open>inCursor\<close> the
  next byte to parse, and \<open>inEnd\<close> the length of the list.  Not enough data is \<open>None\<close> (\<open>EOF\<close>).
\<close>

record pg_input =
  inBuffer :: "byte list"
  inStart :: nat
  inCursor :: nat

abbreviation inEnd :: "('a :: type) pg_input_scheme \<Rightarrow> nat" where
  "inEnd c \<equiv> length (inBuffer c)"

definition pqGetc :: "('a :: type) pg_input_scheme \<Rightarrow> (byte \<times> 'a pg_input_scheme) option" where
  "pqGetc c =
     (if inCursor c \<ge> inEnd c then None
      else Some (inBuffer c ! inCursor c, c\<lparr>inCursor := inCursor c + 1\<rparr>))"

definition pqGets :: "('a :: type) pg_input_scheme \<Rightarrow> (byte list \<times> 'a pg_input_scheme) option" where
  "pqGets c =
     (let s = c_str (drop (inCursor c) (inBuffer c)); cur = inCursor c + length s
      in if cur \<ge> inEnd c then None else Some (s, c\<lparr>inCursor := cur + 1\<rparr>))"

definition pqGetnchar :: "nat \<Rightarrow> ('a :: type) pg_input_scheme \<Rightarrow> (byte list \<times> 'a pg_input_scheme) option" where
  "pqGetnchar len c =
     (if int len > int (inEnd c) - int (inCursor c) then None
      else Some (take len (drop (inCursor c) (inBuffer c)), c\<lparr>inCursor := inCursor c + len\<rparr>))"

definition pqSkipnchar :: "nat \<Rightarrow> ('a :: type) pg_input_scheme \<Rightarrow> 'a pg_input_scheme option" where
  "pqSkipnchar len c =
     (if int len > int (inEnd c) - int (inCursor c) then None
      else Some (c\<lparr>inCursor := inCursor c + len\<rparr>))"

text \<open>A 2-byte integer is read as unsigned, a 4-byte integer as a signed \<open>int\<close>.\<close>

definition pqGetInt :: "nat \<Rightarrow> ('a :: type) pg_input_scheme \<Rightarrow> (int \<times> 'a pg_input_scheme) option" where
  "pqGetInt bytes c =
     (if bytes = 2 then
        (if inCursor c + 2 > inEnd c then None
         else Some (int (ntoh (take 2 (drop (inCursor c) (inBuffer c)))),
                    c\<lparr>inCursor := inCursor c + 2\<rparr>))
      else if bytes = 4 then
        (if inCursor c + 4 > inEnd c then None
         else Some (sint (of_nat (ntoh (take 4 (drop (inCursor c) (inBuffer c)))) :: 32 word),
                    c\<lparr>inCursor := inCursor c + 4\<rparr>))
      else None)"

section \<open>Lemmas on bytes and byte order\<close>

lemma byte_of_eq_iff [simp]: "byte_of c = byte_of d \<longleftrightarrow> c = d"
proof -
  have "unat (byte_of x) = of_char x" for x
    by (simp add: byte_of_def unat_of_nat take_bit_eq_mod)
  then show ?thesis by (metis of_char_eq_iff)
qed

lemma ntoh_append: "ntoh (xs @ ys) = ntoh xs * 256 ^ length ys + ntoh ys"
  by (induction xs) (simp_all add: power_add algebra_simps)

lemma hton_length [simp]: "length (hton16 a) = 2" "length (hton32 b) = 4" "length (hton64 c) = 8"
  by (simp_all add: hton16_def hton32_def hton64_def)

lemma unat_shift: "unat (drop_bit n w) = unat w div 2 ^ n" for w :: "'a :: len word"
  by (subst unat_drop_bit_eq) (simp add: drop_bit_eq_div)

lemma unat_byte: "unat (ucast w :: byte) = unat w mod 256" for w :: "'a :: len word"
  by (simp add: unsigned_ucast_eq take_bit_eq_mod)

lemma ntoh_hton16 [simp]: "ntoh (hton16 w) = unat w"
proof -
  have "unat w < 65536" using unsigned_less [of w, where 'a = nat] by simp
  then have "unat w div 256 < 256" by simp
  then show ?thesis by (simp add: hton16_def unat_byte unat_shift)
qed

lemma four_digits:
  "x div 16777216 * 16777216 + (x div 65536 mod 256 * 65536 + (x div 256 mod 256 * 256 + x mod 256)) =
     (x :: nat)"
proof -
  have "x div 65536 = x div 256 div 256" "x div 16777216 = x div 65536 div 256"
    by (simp_all flip: div_mult2_eq)
  then show ?thesis
    using div_mult_mod_eq [of x 256] div_mult_mod_eq [of "x div 256" 256]
      div_mult_mod_eq [of "x div 65536" 256] by linarith
qed

lemma ntoh_hton32 [simp]: "ntoh (hton32 w) = unat w"
proof -
  have "unat w < 4294967296" using unsigned_less [of w, where 'a = nat] by simp
  then show ?thesis by (simp add: hton32_def unat_byte unat_shift four_digits)
qed

lemma ntoh_hton64 [simp]: "ntoh (hton64 w) = unat w"
proof -
  have "unat w < 18446744073709551616" using unsigned_less [of w, where 'a = nat] by simp
  then have "unat w div 4294967296 < 4294967296" by simp
  then show ?thesis
    by (simp add: hton64_def ntoh_append unsigned_ucast_eq unat_shift take_bit_nat_eq_self
          take_bit_eq_mod [of 32 "unat w"])
qed

section \<open>The interface of a reader\<close>

text \<open>
  \<open>rest\<close> is what has not been read of a state with the invariant; \<open>getn\<close> reads exactly so many
  bytes or reports that there are not enough; \<open>gets\<close> reads a terminated string.
\<close>

locale byte_reader =
  fixes inv :: "'s \<Rightarrow> bool"
    and rest :: "'s \<Rightarrow> byte list"
    and getn :: "nat \<Rightarrow> 's \<Rightarrow> (byte list \<times> 's) option"
    and gets :: "'s \<Rightarrow> (byte list \<times> 's) option"
  assumes getn_Some: "inv s \<Longrightarrow> n \<le> length (rest s) \<Longrightarrow>
            \<exists>s'. getn n s = Some (take n (rest s), s') \<and> rest s' = drop n (rest s) \<and> inv s'"
    and getn_None: "inv s \<Longrightarrow> length (rest s) < n \<Longrightarrow> getn n s = None"
    and gets_Some: "inv s \<Longrightarrow> 0 \<in> set (rest s) \<Longrightarrow>
            \<exists>s'. gets s = Some (c_str (rest s), s') \<and>
                 rest s' = drop (length (c_str (rest s)) + 1) (rest s) \<and> inv s'"
    and gets_None: "inv s \<Longrightarrow> 0 \<notin> set (rest s) \<Longrightarrow> gets s = None"
begin

lemma getn_append:
  assumes "inv s" and "rest s = bs @ r" and "length bs = n"
  obtains s' where "getn n s = Some (bs, s')" and "rest s' = r" and "inv s'"
  using getn_Some [of s n] assms by auto

lemma gets_append:
  assumes "inv s" and "rest s = bs @ 0 # r" and "0 \<notin> set bs"
  obtains s' where "gets s = Some (bs, s')" and "rest s' = r" and "inv s'"
proof -
  have "c_str (rest s) = bs" using assms by (simp add: c_str_def takeWhile_append)
  with gets_Some [of s] assms that show thesis by auto
qed

lemma getn_iff: "inv s \<Longrightarrow> getn n s \<noteq> None \<longleftrightarrow> n \<le> length (rest s)"
  using getn_Some [of s n] getn_None [of s n] by (cases "n \<le> length (rest s)") auto

end

text \<open>Both readers implement it.\<close>

definition msg_inv :: "msg \<Rightarrow> bool" where
  "msg_inv m \<longleftrightarrow> msg_cursor m \<le> length (msg_data m)"

definition msg_rest :: "msg \<Rightarrow> byte list" where
  "msg_rest m = drop (msg_cursor m) (msg_data m)"

definition res_option :: "'e + 'a \<Rightarrow> 'a option" where
  "res_option r = (case r of Inl e \<Rightarrow> None | Inr x \<Rightarrow> Some x)"

lemma c_str_length: "0 \<in> set bs \<longleftrightarrow> length (c_str bs) < length bs"
  by (induction bs) (auto simp: c_str_def)

interpretation be: byte_reader msg_inv msg_rest
  "\<lambda>n m. res_option (pq_copymsgbytes (int n) m)" "\<lambda>m. res_option (pq_getmsgrawstring m)"
proof unfold_locales
  fix m :: msg and n
  assume inv: "msg_inv m"
  show "n \<le> length (msg_rest m) \<Longrightarrow>
      \<exists>s'. res_option (pq_copymsgbytes (int n) m) = Some (take n (msg_rest m), s') \<and>
           msg_rest s' = drop n (msg_rest m) \<and> msg_inv s'"
    using inv by (auto simp: msg_inv_def msg_rest_def res_option_def pq_copymsgbytes_def add.commute)
  show "length (msg_rest m) < n \<Longrightarrow> res_option (pq_copymsgbytes (int n) m) = None"
    using inv by (auto simp: msg_inv_def msg_rest_def res_option_def pq_copymsgbytes_def)
  show "0 \<in> set (msg_rest m) \<Longrightarrow>
      \<exists>s'. res_option (pq_getmsgrawstring m) = Some (c_str (msg_rest m), s') \<and>
           msg_rest s' = drop (length (c_str (msg_rest m)) + 1) (msg_rest m) \<and> msg_inv s'"
    using inv
    by (auto simp: c_str_length msg_inv_def msg_rest_def res_option_def pq_getmsgrawstring_def Let_def
          add.commute add.left_commute)
  show "0 \<notin> set (msg_rest m) \<Longrightarrow> res_option (pq_getmsgrawstring m) = None"
    using inv
    by (auto simp: c_str_length msg_inv_def msg_rest_def res_option_def pq_getmsgrawstring_def Let_def)
qed

definition in_inv :: "('a :: type) pg_input_scheme \<Rightarrow> bool" where
  "in_inv c \<longleftrightarrow> inCursor c \<le> inEnd c"

definition in_rest :: "('a :: type) pg_input_scheme \<Rightarrow> byte list" where
  "in_rest c = drop (inCursor c) (inBuffer c)"

interpretation fe: byte_reader in_inv in_rest pqGetnchar pqGets
proof unfold_locales
  fix c :: "'a pg_input_scheme" and n
  assume inv: "in_inv c"
  show "n \<le> length (in_rest c) \<Longrightarrow>
      \<exists>s'. pqGetnchar n c = Some (take n (in_rest c), s') \<and>
           in_rest s' = drop n (in_rest c) \<and> in_inv s'"
    using inv by (auto simp: in_inv_def in_rest_def pqGetnchar_def add.commute)
  show "length (in_rest c) < n \<Longrightarrow> pqGetnchar n c = None"
    using inv by (auto simp: in_inv_def in_rest_def pqGetnchar_def)
  show "0 \<in> set (in_rest c) \<Longrightarrow>
      \<exists>s'. pqGets c = Some (c_str (in_rest c), s') \<and>
           in_rest s' = drop (length (c_str (in_rest c)) + 1) (in_rest c) \<and> in_inv s'"
    using inv
    by (auto simp: c_str_length in_inv_def in_rest_def pqGets_def Let_def add.commute add.left_commute)
  show "0 \<notin> set (in_rest c) \<Longrightarrow> pqGets c = None"
    using inv by (auto simp: c_str_length in_inv_def in_rest_def pqGets_def Let_def)
qed

end
