(* ===== verification/Pq_Client.thy ===== *)
theory Pq_Client
  imports Pq_Protocol Fts_Probe
begin

text \<open>
  The part of libpq that turns the input of a connection into a result: the message loop of
  \<open>pqParseInput3\<close> with the handlers of row descriptions, data rows, command completion and
  ready-for-query, for a simple query (no Describe, no single-row mode) with memory available.
  Messages of other kinds are handed back (\<open>OtherMessage\<close>).
\<close>

section \<open>Results and connections\<close>

record PGresAttDesc =
  att_name :: "byte list"
  att_tableid :: int
  att_columnid :: int
  att_format :: int
  att_typid :: int
  att_typlen :: int
  att_atttypmod :: int

record pq_result =
  resultStatus :: ExecStatusType
  attDescs :: "PGresAttDesc list"
  res_tuples :: "byte list option list list"
  res_errMsg :: string
  cmdStatus :: "byte list"

datatype PGTransactionStatusType = PQTRANS_IDLE | PQTRANS_ACTIVE | PQTRANS_INTRANS | PQTRANS_INERROR | PQTRANS_UNKNOWN

record pq_conn = pg_input +
  pqc_result :: "pq_result option"
  pqc_asyncStatus :: PGAsyncStatusType
  pqc_status :: ConnStatusType
  pqc_xactStatus :: PGTransactionStatusType
  pqc_errorMessage :: string

definition PQmakeEmptyPGresult :: "ExecStatusType \<Rightarrow> string \<Rightarrow> pq_result" where
  "PQmakeEmptyPGresult st msg =
     \<lparr>resultStatus = st, attDescs = [], res_tuples = [], res_errMsg = msg, cmdStatus = []\<rparr>"

text \<open>
  \<open>pqSaveErrorResult\<close> after \<open>printfPQExpBuffer\<close> of the message: a new error result, or the message
  appended to the error that is already there.
\<close>

definition pqSaveErrorResult :: "string \<Rightarrow> pq_conn \<Rightarrow> pq_conn" where
  "pqSaveErrorResult errmsg conn =
     (let conn = conn\<lparr>pqc_errorMessage := errmsg\<rparr>
      in case pqc_result conn of
           Some r \<Rightarrow>
             if resultStatus r = PGRES_FATAL_ERROR
             then conn\<lparr>pqc_result := Some (r\<lparr>res_errMsg := res_errMsg r @ errmsg\<rparr>)\<rparr>
             else conn\<lparr>pqc_result := Some (PQmakeEmptyPGresult PGRES_FATAL_ERROR errmsg)\<rparr>
         | None \<Rightarrow> conn\<lparr>pqc_result := Some (PQmakeEmptyPGresult PGRES_FATAL_ERROR errmsg)\<rparr>)"

text \<open>The \<open>advance_and_error\<close> exit of the row readers.\<close>

definition advance_and_error :: "int \<Rightarrow> string \<Rightarrow> pq_conn \<Rightarrow> pq_conn" where
  "advance_and_error msgLength errmsg conn =
     (pqSaveErrorResult errmsg (conn\<lparr>pqc_result := None\<rparr>))
       \<lparr>inCursor := inStart conn + 5 + nat msgLength\<rparr>"

section \<open>Row descriptions and rows\<close>

definition int16_cast :: "int \<Rightarrow> int" where
  "int16_cast i = sint (of_int i :: 16 word)"

definition getAttDesc :: "pq_conn \<Rightarrow> (PGresAttDesc \<times> pq_conn) option" where
  "getAttDesc conn =
     (case pqGets conn of None \<Rightarrow> None | Some (name, conn) \<Rightarrow>
     (case pqGetInt 4 conn of None \<Rightarrow> None | Some (tableid, conn) \<Rightarrow>
     (case pqGetInt 2 conn of None \<Rightarrow> None | Some (columnid, conn) \<Rightarrow>
     (case pqGetInt 4 conn of None \<Rightarrow> None | Some (typid, conn) \<Rightarrow>
     (case pqGetInt 2 conn of None \<Rightarrow> None | Some (typlen, conn) \<Rightarrow>
     (case pqGetInt 4 conn of None \<Rightarrow> None | Some (atttypmod, conn) \<Rightarrow>
     (case pqGetInt 2 conn of None \<Rightarrow> None | Some (format, conn) \<Rightarrow>
        Some (\<lparr>att_name = name, att_tableid = tableid, att_columnid = int16_cast columnid,
               att_format = int16_cast format, att_typid = typid, att_typlen = int16_cast typlen,
               att_atttypmod = atttypmod\<rparr>, conn))))))))"

fun getAttDescs :: "nat \<Rightarrow> pq_conn \<Rightarrow> (PGresAttDesc list \<times> pq_conn) option" where
  "getAttDescs 0 conn = Some ([], conn)"
| "getAttDescs (Suc n) conn =
     (case getAttDesc conn of None \<Rightarrow> None | Some (d, conn) \<Rightarrow>
      (case getAttDescs n conn of None \<Rightarrow> None | Some (ds, conn) \<Rightarrow> Some (d # ds, conn)))"

definition getRowDescriptions :: "pq_conn \<Rightarrow> int \<Rightarrow> pq_conn" where
  "getRowDescriptions conn msgLength =
     (case pqGetInt 2 conn of
        None \<Rightarrow> advance_and_error msgLength ''insufficient data in \"T\" message'' conn
      | Some (nfields, conn1) \<Rightarrow>
          (case getAttDescs (nat nfields) conn1 of
             None \<Rightarrow> advance_and_error msgLength ''insufficient data in \"T\" message'' conn
           | Some (ds, conn2) \<Rightarrow>
               conn2\<lparr>pqc_result := Some ((PQmakeEmptyPGresult PGRES_TUPLES_OK '''')\<lparr>attDescs := ds\<rparr>)\<rparr>))"

text \<open>The fields of a row with their lengths; a negative length is a null field.\<close>

fun getFields :: "nat \<Rightarrow> pq_conn \<Rightarrow> (byte list option list \<times> pq_conn) option" where
  "getFields 0 conn = Some ([], conn)"
| "getFields (Suc n) conn =
     (case pqGetInt 4 conn of None \<Rightarrow> None | Some (vlen, conn) \<Rightarrow>
      (case (if vlen > 0 then pqSkipnchar (nat vlen) conn else Some conn) of
         None \<Rightarrow> None
       | Some conn' \<Rightarrow>
           (case getFields n conn' of None \<Rightarrow> None | Some (vs, conn'') \<Rightarrow>
              Some ((if vlen < 0 then None
                     else Some (take (nat vlen) (drop (inCursor conn) (inBuffer conn)))) # vs,
                    conn''))))"

definition getAnotherTuple :: "pq_conn \<Rightarrow> int \<Rightarrow> pq_conn" where
  "getAnotherTuple conn msgLength =
     (case pqc_result conn of
        None \<Rightarrow> conn
      | Some result \<Rightarrow>
          let nfields = length (attDescs result)
          in case pqGetInt 2 conn of
               None \<Rightarrow> advance_and_error msgLength ''insufficient data in \"D\" message'' conn
             | Some (tupnfields, conn1) \<Rightarrow>
                 if tupnfields \<noteq> int nfields
                 then advance_and_error msgLength ''unexpected field count in \"D\" message'' conn
                 else case getFields nfields conn1 of
                        None \<Rightarrow> advance_and_error msgLength ''insufficient data in \"D\" message'' conn
                      | Some (vs, conn2) \<Rightarrow>
                          conn2\<lparr>pqc_result := Some (result\<lparr>res_tuples := res_tuples result @ [vs]\<rparr>)\<rparr>)"

definition getReadyForQuery :: "pq_conn \<Rightarrow> pq_conn option" where
  "getReadyForQuery conn =
     (case pqGetc conn of
        None \<Rightarrow> None
      | Some (xact_status, conn) \<Rightarrow>
          Some (conn\<lparr>pqc_xactStatus :=
            (if xact_status = byte_of CHR ''I'' then PQTRANS_IDLE
             else if xact_status = byte_of CHR ''T'' then PQTRANS_INTRANS
             else if xact_status = byte_of CHR ''E'' then PQTRANS_INERROR
             else PQTRANS_UNKNOWN)\<rparr>))"

section \<open>The message loop\<close>

definition VALID_LONG_MESSAGE_TYPE :: "byte \<Rightarrow> bool" where
  "VALID_LONG_MESSAGE_TYPE mid \<longleftrightarrow> mid \<in> set (bytes_of ''TDdVENAYyo'')"

definition handleSyncLoss :: "pq_conn \<Rightarrow> pq_conn" where
  "handleSyncLoss conn =
     (pqSaveErrorResult ''lost synchronization with server'' conn)
       \<lparr>pqc_asyncStatus := PGASYNC_READY, inBuffer := [], inStart := 0, inCursor := 0,
        pqc_status := CONNECTION_BAD\<rparr>"

datatype parse_step =
    Suspend pq_conn
  | Continue pq_conn
  | OtherMessage pq_conn

text \<open>The end of the loop body: the message has been consumed.\<close>

definition parse_consumed :: "int \<Rightarrow> pq_conn \<Rightarrow> pq_conn" where
  "parse_consumed msgLength conn =
     (if inCursor conn = inStart conn + 5 + nat msgLength
      then conn\<lparr>inStart := inCursor conn\<rparr>
      else (pqSaveErrorResult ''message contents do not agree with length in message type'' conn)
             \<lparr>pqc_asyncStatus := PGASYNC_READY, inStart := inStart conn + 5 + nat msgLength\<rparr>)"

text \<open>The switch on the message type in the BUSY state; \<open>None\<close> is a return from the loop.\<close>

definition fatal_result :: "pq_conn \<Rightarrow> bool" where
  "fatal_result conn \<longleftrightarrow> (\<exists>r. pqc_result conn = Some r \<and> resultStatus r = PGRES_FATAL_ERROR)"

definition parse_busy :: "byte \<Rightarrow> int \<Rightarrow> pq_conn \<Rightarrow> parse_step" where
  "parse_busy mid msgLength conn =
     (let discard = conn\<lparr>inCursor := inCursor conn + nat msgLength\<rparr>
      in if mid = byte_of CHR ''C'' then \<comment> \<open>C: command complete\<close>
           (case pqGets conn of
              None \<Rightarrow> Suspend conn
            | Some (status, conn) \<Rightarrow>
                let r = (case pqc_result conn of Some r \<Rightarrow> r
                         | None \<Rightarrow> PQmakeEmptyPGresult PGRES_COMMAND_OK '''')
                in Continue (conn\<lparr>pqc_result := Some (r\<lparr>cmdStatus := take 71 status\<rparr>),
                                  pqc_asyncStatus := PGASYNC_READY\<rparr>))
         else if mid = byte_of CHR ''Z'' then \<comment> \<open>Z: ready for query\<close>
           (case getReadyForQuery conn of
              None \<Rightarrow> Suspend conn
            | Some conn \<Rightarrow> Continue (conn\<lparr>pqc_asyncStatus := PGASYNC_IDLE\<rparr>))
         else if mid = byte_of CHR ''I'' then \<comment> \<open>I: empty query\<close>
           Continue (conn\<lparr>pqc_result := Some (case pqc_result conn of Some r \<Rightarrow> r
                            | None \<Rightarrow> PQmakeEmptyPGresult PGRES_EMPTY_QUERY ''''),
                          pqc_asyncStatus := PGASYNC_READY\<rparr>)
         else if mid \<in> set (bytes_of ''123nc'') then Continue conn
         else if mid = byte_of CHR ''T'' then \<comment> \<open>T: row description\<close>
           (if fatal_result conn then Continue discard
            else if pqc_result conn = None then Continue (getRowDescriptions conn msgLength)
            else Suspend (conn\<lparr>pqc_asyncStatus := PGASYNC_READY\<rparr>))
         else if mid = byte_of CHR ''D'' then \<comment> \<open>D: data row\<close>
           (case pqc_result conn of
              Some r \<Rightarrow>
                if resultStatus r = PGRES_TUPLES_OK then Continue (getAnotherTuple conn msgLength)
                else if resultStatus r = PGRES_FATAL_ERROR then Continue discard
                else Continue ((pqSaveErrorResult ''server sent data without prior row description'' conn)
                                 \<lparr>inCursor := inCursor conn + nat msgLength\<rparr>)
            | None \<Rightarrow> Continue ((pqSaveErrorResult ''server sent data without prior row description'' conn)
                                 \<lparr>inCursor := inCursor conn + nat msgLength\<rparr>))
         else if mid = byte_of CHR ''d'' then Continue discard \<comment> \<open>d: copy data\<close>
         else if mid \<in> set (bytes_of ''ESKtGHWjYyw'') then OtherMessage conn
         else Continue ((pqSaveErrorResult ''unexpected response from server'' conn)
                \<lparr>pqc_asyncStatus := PGASYNC_READY, inCursor := inCursor conn + nat msgLength\<rparr>))"

definition parse_message :: "pq_conn \<Rightarrow> parse_step" where
  "parse_message conn =
     (let conn = conn\<lparr>inCursor := inStart conn\<rparr>
      in case pqGetc conn of
           None \<Rightarrow> Suspend conn
         | Some (mid, conn) \<Rightarrow>
             (case pqGetInt 4 conn of
                None \<Rightarrow> Suspend conn
              | Some (msgLength, conn) \<Rightarrow>
                  if msgLength < 4 \<or> msgLength > 30000 \<and> \<not> VALID_LONG_MESSAGE_TYPE mid
                  then Suspend (handleSyncLoss conn)
                  else
                    let msgLength = msgLength - 4
                    in if int (inEnd conn) - int (inCursor conn) < msgLength then Suspend conn
                       else if mid \<in> set (bytes_of ''ANkx'') then OtherMessage conn
                       else if pqc_asyncStatus conn \<noteq> PGASYNC_BUSY then
                         (if pqc_asyncStatus conn \<noteq> PGASYNC_IDLE then Suspend conn
                          else if mid \<in> set (bytes_of ''ES'') then OtherMessage conn
                          else Continue (parse_consumed msgLength
                                 (conn\<lparr>inCursor := inCursor conn + nat msgLength\<rparr>)))
                       else case parse_busy mid msgLength conn of
                              Continue conn \<Rightarrow> Continue (parse_consumed msgLength conn)
                            | step \<Rightarrow> step))"

text \<open>The readers leave the buffer and its start alone.\<close>

definition same_input :: "pq_conn \<Rightarrow> pq_conn \<Rightarrow> bool" where
  "same_input c d \<longleftrightarrow> inBuffer d = inBuffer c \<and> inStart d = inStart c"

lemma same_input_refl [simp]: "same_input c c"
  by (simp add: same_input_def)

lemma pqGet_same:
  "pqGetc c = Some (b, d) \<Longrightarrow> same_input c d"
  "pqGets c = Some (s, d) \<Longrightarrow> same_input c d"
  "pqGetInt n c = Some (i, d) \<Longrightarrow> same_input c d"
  "pqSkipnchar n c = Some d \<Longrightarrow> same_input c d"
  by (auto simp: same_input_def pqGetc_def pqGets_def pqGetInt_def pqSkipnchar_def Let_def
        split: if_splits)

lemma pqSaveErrorResult_same [simp]:
  "inBuffer (pqSaveErrorResult e c) = inBuffer c" "inStart (pqSaveErrorResult e c) = inStart c"
  "inCursor (pqSaveErrorResult e c) = inCursor c"
  by (simp_all add: pqSaveErrorResult_def Let_def split: option.split)

lemma advance_and_error_same [simp]:
  "inBuffer (advance_and_error n e c) = inBuffer c" "inStart (advance_and_error n e c) = inStart c"
  "inCursor (advance_and_error n e c) = inStart c + 5 + nat n"
  by (simp_all add: advance_and_error_def)

lemma getAttDesc_same: "getAttDesc c = Some (d, c') \<Longrightarrow> same_input c c'"
  by (auto simp: getAttDesc_def same_input_def split: option.splits dest!: pqGet_same)

lemma getAttDescs_same: "getAttDescs n c = Some (ds, c') \<Longrightarrow> same_input c c'"
  by (induction n arbitrary: c ds)
     (auto simp: same_input_def split: option.splits dest!: getAttDesc_same)

lemma getFields_same: "getFields n c = Some (vs, c') \<Longrightarrow> same_input c c'"
  by (induction n arbitrary: c vs)
     (auto simp: same_input_def split: option.splits if_splits dest!: pqGet_same)

lemma rows_same: "same_input c (getRowDescriptions c n)" "same_input c (getAnotherTuple c n)"
  by (auto simp: getRowDescriptions_def getAnotherTuple_def Let_def same_input_def split: option.split
        dest!: pqGet_same(3) getAttDescs_same getFields_same)

lemma parse_busy_same: "parse_busy mid n c = Continue c' \<Longrightarrow> same_input c c'"
  using rows_same [of c n]
  by (auto simp: parse_busy_def Let_def getReadyForQuery_def same_input_def
        split: if_splits option.splits dest!: pqGet_same)

text \<open>Every processed message moves the start of the unconsumed data forward, so the loop ends.\<close>

lemma parse_consumed_start:
  "inBuffer (parse_consumed n c) = inBuffer c" "inStart (parse_consumed n c) = inStart c + 5 + nat n"
  by (simp_all add: parse_consumed_def)

lemma parse_message_progress:
  assumes "parse_message c = Continue d"
  shows "inBuffer d = inBuffer c \<and> inStart c < inStart d \<and> inStart d \<le> inEnd c"
proof -
  let ?c0 = "c\<lparr>inCursor := inStart c\<rparr>"
  from assms obtain mt c1 n c2 where c1: "pqGetc ?c0 = Some (mt, c1)" and c2: "pqGetInt 4 c1 = Some (n, c2)"
    by (auto simp: parse_message_def Let_def split: option.splits)
  from c1 c2 have cur: "inCursor c2 = inStart c + 5" "inBuffer c2 = inBuffer c" "inStart c2 = inStart c"
    by (auto simp: pqGetc_def pqGetInt_def split: if_splits)
  from assms c1 c2 have n: "4 \<le> n" "n - 4 \<le> int (inEnd c2) - int (inCursor c2)"
    and "inBuffer d = inBuffer c2" "inStart d = inStart c2 + 5 + nat (n - 4)"
    by (auto simp: parse_message_def Let_def same_input_def parse_consumed_start
          split: if_splits parse_step.splits dest!: parse_busy_same)
  with cur show ?thesis by auto
qed

function pqParseInput3 :: "pq_conn \<Rightarrow> bool \<times> pq_conn" where
  "pqParseInput3 conn =
     (case parse_message conn of
        Continue conn' \<Rightarrow> pqParseInput3 conn'
      | Suspend conn' \<Rightarrow> (True, conn')
      | OtherMessage conn' \<Rightarrow> (False, conn'))"
  by pat_completeness auto

termination
  by (relation "measure (\<lambda>c. inEnd c - inStart c)") (auto dest!: parse_message_progress)

declare pqParseInput3.simps [simp del]

lemma pqParseInput3_steps:
  "parse_message c = Continue d \<Longrightarrow> pqParseInput3 c = pqParseInput3 d"
  "parse_message c = Suspend d \<Longrightarrow> pqParseInput3 c = (True, d)"
  by (simp_all add: pqParseInput3.simps [of c])

section \<open>Collecting the result\<close>

definition PQisBusy :: "pq_conn \<Rightarrow> bool \<times> pq_conn" where
  "PQisBusy conn =
     (let conn = snd (pqParseInput3 conn)
      in (pqc_asyncStatus conn = PGASYNC_BUSY \<and> pqc_status conn \<noteq> CONNECTION_BAD, conn))"

definition pqPrepareAsyncResult :: "pq_conn \<Rightarrow> pq_result \<times> pq_conn" where
  "pqPrepareAsyncResult conn =
     (case pqc_result conn of
        None \<Rightarrow> (PQmakeEmptyPGresult PGRES_FATAL_ERROR (pqc_errorMessage conn), conn)
      | Some r \<Rightarrow> (r, conn\<lparr>pqc_errorMessage := res_errMsg r, pqc_result := None\<rparr>))"

text \<open>\<open>PQgetResult\<close> when the connection is not busy (it does not wait then).\<close>

definition PQgetResult :: "pq_conn \<Rightarrow> pq_result option \<times> pq_conn" where
  "PQgetResult conn =
     (let conn = snd (pqParseInput3 conn)
      in if pqc_asyncStatus conn = PGASYNC_READY
         then (let (r, conn) = pqPrepareAsyncResult conn
               in (Some r, conn\<lparr>pqc_asyncStatus := PGASYNC_BUSY\<rparr>))
         else (None, conn))"

text \<open>What the prober reads of a result; a null field is an empty string.\<close>

definition PQgetvalue :: "pq_result \<Rightarrow> nat \<Rightarrow> nat \<Rightarrow> byte list" where
  "PQgetvalue r i j =
     (case res_tuples r ! i ! j of None \<Rightarrow> [] | Some v \<Rightarrow> v) @ [0]"

definition prober_result :: "pq_result \<Rightarrow> PGresult" where
  "prober_result r =
     \<lparr>pgr_status = resultStatus r, pgr_ntuples = int (length (res_tuples r)),
      pgr_nfields = int (length (attDescs r)), pgr_value = (\<lambda>j. hd (PQgetvalue r 0 j))\<rparr>"

section \<open>Reading what was written\<close>

definition adv :: "nat \<Rightarrow> pq_conn \<Rightarrow> pq_conn" where
  "adv n c = c\<lparr>inCursor := inCursor c + n\<rparr>"

lemma adv_simps [simp]:
  "inBuffer (adv n c) = inBuffer c" "inStart (adv n c) = inStart c" "inCursor (adv n c) = inCursor c + n"
  "pqc_result (adv n c) = pqc_result c" "pqc_asyncStatus (adv n c) = pqc_asyncStatus c"
  "pqc_status (adv n c) = pqc_status c" "adv m (adv n c) = adv (n + m) c"
  by (simp_all add: adv_def add.assoc)

lemma adv_rest:
  assumes "in_rest c = bs @ r" and "in_inv c" and "length bs = n"
  shows "in_rest (adv n c) = r \<and> in_inv (adv n c)"
proof -
  have "n \<le> length (in_rest c)" using assms by simp
  then have "inCursor c + n \<le> inEnd c" using assms(2) by (simp add: in_rest_def in_inv_def)
  moreover have "in_rest (adv n c) = drop n (in_rest c)" by (simp add: in_rest_def add.commute)
  ultimately show ?thesis using assms by (simp add: in_inv_def)
qed

lemma pqGetc_append:
  assumes "in_rest c = b # r" and "in_inv c"
  shows "pqGetc c = Some (b, adv 1 c)"
proof -
  have "inCursor c < inEnd c" using assms by (auto simp: in_rest_def in_inv_def intro: ccontr)
  moreover have "inBuffer c ! inCursor c = b"
    using assms(1) calculation by (simp add: in_rest_def flip: Cons_nth_drop_Suc)
  ultimately show ?thesis by (simp add: pqGetc_def adv_def)
qed

lemma pqGetInt_append:
  assumes "in_inv c"
  shows "in_rest c = hton16 w @ r \<Longrightarrow> pqGetInt 2 c = Some (uint w, adv 2 c)"
    and "in_rest c = hton32 v @ r \<Longrightarrow> pqGetInt 4 c = Some (sint v, adv 4 c)"
proof -
  show "pqGetInt 2 c = Some (uint w, adv 2 c)" if r: "in_rest c = hton16 w @ r"
  proof -
    have "length (in_rest c) \<ge> 2" by (simp add: r)
    then have "inCursor c + 2 \<le> inEnd c" using assms by (simp add: in_rest_def in_inv_def)
    moreover have "take 2 (drop (inCursor c) (inBuffer c)) = hton16 w"
      using r by (simp add: in_rest_def)
    ultimately show ?thesis by (simp add: pqGetInt_def adv_def)
  qed
  show "pqGetInt 4 c = Some (sint v, adv 4 c)" if r: "in_rest c = hton32 v @ r"
  proof -
    have "length (in_rest c) \<ge> 4" by (simp add: r)
    then have "inCursor c + 4 \<le> inEnd c" using assms by (simp add: in_rest_def in_inv_def)
    moreover have "take 4 (drop (inCursor c) (inBuffer c)) = hton32 v"
      using r by (simp add: in_rest_def)
    ultimately show ?thesis by (simp add: pqGetInt_def adv_def)
  qed
qed

lemma pqGets_append:
  assumes "in_rest c = s @ 0 # r" and "in_inv c" and "0 \<notin> set s"
  shows "pqGets c = Some (s, adv (length s + 1) c)"
proof -
  from fe.gets_append [OF assms(2,1,3)] obtain d where d: "pqGets c = Some (s, d)" by blast
  then show ?thesis by (auto simp: pqGets_def Let_def adv_def split: if_splits)
qed

text \<open>The bytes of a column description and of a row as the protocol defines them.\<close>

definition att_ok :: "PGresAttDesc \<Rightarrow> bool" where
  "att_ok d \<longleftrightarrow> 0 \<notin> set (att_name d) \<and>
     att_tableid d \<in> {- (2 ^ 31)..<2 ^ 31} \<and> att_typid d \<in> {- (2 ^ 31)..<2 ^ 31} \<and>
     att_atttypmod d \<in> {- (2 ^ 31)..<2 ^ 31} \<and> att_columnid d \<in> {- (2 ^ 15)..<2 ^ 15} \<and>
     att_typlen d \<in> {- (2 ^ 15)..<2 ^ 15} \<and> att_format d \<in> {- (2 ^ 15)..<2 ^ 15}"

definition att_bytes :: "PGresAttDesc \<Rightarrow> byte list" where
  "att_bytes d = att_name d @ 0 # hton32 (of_int (att_tableid d)) @ hton16 (of_int (att_columnid d)) @
     hton32 (of_int (att_typid d)) @ hton16 (of_int (att_typlen d)) @
     hton32 (of_int (att_atttypmod d)) @ hton16 (of_int (att_format d))"

definition value_bytes :: "byte list option \<Rightarrow> byte list" where
  "value_bytes v = (case v of None \<Rightarrow> hton32 (-1) | Some bs \<Rightarrow> hton32 (of_nat (length bs)) @ bs)"

lemma value_bytes_simps [simp]:
  "value_bytes None = hton32 (-1)" "value_bytes (Some bs) = hton32 (of_nat (length bs)) @ bs"
  by (simp_all add: value_bytes_def)

lemma int16_cast_of_int: "i \<in> {- (2 ^ 15)..<2 ^ 15} \<Longrightarrow> int16_cast (uint (of_int i :: 16 word)) = i"
  by (simp add: int16_cast_def signed_take_bit_int_eq_self_iff sint_sbintrunc')

lemma getAttDesc_append:
  assumes "in_rest c = att_bytes d @ r" and "in_inv c" and "att_ok d"
  shows "getAttDesc c = Some (d, adv (length (att_bytes d)) c)"
proof -
  let ?n = "length (att_name d) + 1"
  have 1: "pqGets c = Some (att_name d, adv ?n c)"
    using assms by (intro pqGets_append) (auto simp: att_bytes_def att_ok_def)
  have r: "in_rest c = (att_name d @ [0]) @ hton32 (of_int (att_tableid d)) @
      hton16 (of_int (att_columnid d)) @ hton32 (of_int (att_typid d)) @
      hton16 (of_int (att_typlen d)) @ hton32 (of_int (att_atttypmod d)) @
      hton16 (of_int (att_format d)) @ r"
    using assms(1) by (simp add: att_bytes_def)
  note r1 = adv_rest [OF r assms(2), of ?n, simplified]
  note r2 = adv_rest [OF r1 [THEN conjunct1] r1 [THEN conjunct2], of 4, simplified]
  note r3 = adv_rest [OF r2 [THEN conjunct1] r2 [THEN conjunct2], of 2, simplified]
  note r4 = adv_rest [OF r3 [THEN conjunct1] r3 [THEN conjunct2], of 4, simplified]
  note r5 = adv_rest [OF r4 [THEN conjunct1] r4 [THEN conjunct2], of 2, simplified]
  note r6 = adv_rest [OF r5 [THEN conjunct1] r5 [THEN conjunct2], of 4, simplified]
  show ?thesis
    using assms(3) 1
      pqGetInt_append(2) [OF r1 [THEN conjunct2] r1 [THEN conjunct1]]
      pqGetInt_append(1) [OF r2 [THEN conjunct2] r2 [THEN conjunct1]]
      pqGetInt_append(2) [OF r3 [THEN conjunct2] r3 [THEN conjunct1]]
      pqGetInt_append(1) [OF r4 [THEN conjunct2] r4 [THEN conjunct1]]
      pqGetInt_append(2) [OF r5 [THEN conjunct2] r5 [THEN conjunct1]]
      pqGetInt_append(1) [OF r6 [THEN conjunct2] r6 [THEN conjunct1]]
    by (simp add: getAttDesc_def att_ok_def sint_of_int32 int16_cast_of_int att_bytes_def add.commute)
qed

lemma getAttDescs_append:
  assumes "in_rest c = concat (map att_bytes ds) @ r" and "in_inv c" and "\<forall>d \<in> set ds. att_ok d"
  shows "getAttDescs (length ds) c = Some (ds, adv (length (concat (map att_bytes ds))) c)"
  using assms
proof (induction ds arbitrary: c)
  case Nil
  then show ?case by (simp add: adv_def)
next
  case (Cons d ds)
  let ?n = "length (att_bytes d)"
  have r: "in_rest c = att_bytes d @ concat (map att_bytes ds) @ r" using Cons.prems(1) by simp
  have d: "getAttDesc c = Some (d, adv ?n c)"
    using r Cons.prems by (intro getAttDesc_append) auto
  have "getAttDescs (length ds) (adv ?n c) =
      Some (ds, adv (length (concat (map att_bytes ds))) (adv ?n c))"
    by (rule Cons.IH) (use adv_rest [OF r Cons.prems(2)] Cons.prems(3) in auto)
  with d show ?case by simp
qed

lemma getFields_append:
  assumes "in_rest c = concat (map value_bytes vs) @ r" and "in_inv c"
    and "\<forall>bs. Some bs \<in> set vs \<longrightarrow> length bs < 2 ^ 31"
  shows "getFields (length vs) c = Some (vs, adv (length (concat (map value_bytes vs))) c)"
  using assms
proof (induction vs arbitrary: c)
  case Nil
  then show ?case by (simp add: adv_def)
next
  case (Cons v vs)
  let ?rest = "concat (map value_bytes vs) @ r"
  have r: "in_rest c = value_bytes v @ ?rest" using Cons.prems(1) by simp
  have IH: "getFields (length vs) (adv (length (value_bytes v)) c) =
      Some (vs, adv (length (concat (map value_bytes vs))) (adv (length (value_bytes v)) c))"
    by (rule Cons.IH) (use adv_rest [OF r Cons.prems(2)] Cons.prems(3) in auto)
  show ?case
  proof (cases v)
    case None
    have "pqGetInt 4 c = Some (-1, adv 4 c)"
      using pqGetInt_append(2) [OF Cons.prems(2), of "-1" ?rest] r by (simp add: None)
    with IH None show ?thesis by simp
  next
    case (Some bs)
    with Cons.prems(3) have len: "length bs < 2 ^ 31" by simp
    have r': "in_rest c = hton32 (of_nat (length bs)) @ bs @ ?rest" using r by (simp add: Some)
    have "sint (of_nat (length bs) :: 32 word) = int (length bs)"
      using sint_of_int32 [of "int (length bs)"] len by simp
    with pqGetInt_append(2) [OF Cons.prems(2) r']
    have get: "pqGetInt 4 c = Some (int (length bs), adv 4 c)" by simp
    note a = adv_rest [OF r' Cons.prems(2), of 4, simplified]
    then have "length bs \<le> length (in_rest (adv 4 c))" by simp
    then have skip: "pqSkipnchar (length bs) (adv 4 c) = Some (adv (length bs) (adv 4 c))"
      using a by (simp add: pqSkipnchar_def adv_def in_rest_def in_inv_def) linarith
    have "take (length bs) (drop (inCursor c + 4) (inBuffer c)) = bs"
      using a by (simp add: in_rest_def)
    with get skip IH show ?thesis
      by (cases "bs = []") (simp_all add: Some add.assoc)
  qed
qed

text \<open>A whole message in the buffer of a busy connection.\<close>

definition pending :: "pq_conn \<Rightarrow> byte list" where
  "pending c = drop (inStart c) (inBuffer c)"

abbreviation at_body :: "pq_conn \<Rightarrow> pq_conn" where
  "at_body c \<equiv> c\<lparr>inCursor := inStart c + 5\<rparr>"

lemma parse_message_framed:
  assumes pend: "pending c = socket_putmessage mt body @ r" and "inStart c \<le> inEnd c"
    and "mt \<notin> {CHR 0x00, CHR ''A'', CHR ''N'', CHR ''k'', CHR ''x''}"
    and "length body \<le> 29996" and "pqc_asyncStatus c = PGASYNC_BUSY"
  shows "parse_message c =
           (case parse_busy (byte_of mt) (int (length body)) (at_body c) of
              Continue d \<Rightarrow> Continue (parse_consumed (int (length body)) d)
            | step \<Rightarrow> step)"
    and "in_rest (at_body c) = body @ r" and "in_inv (at_body c)"
proof -
  let ?c0 = "c\<lparr>inCursor := inStart c\<rparr>" and ?n = "of_nat (length body + 4) :: 32 word"
  have r0: "in_rest ?c0 = byte_of mt # hton32 ?n @ body @ r"
    using pend assms(3) by (simp add: pending_def in_rest_def socket_putmessage_def)
  have i0: "in_inv ?c0" using assms(2) by (simp add: in_inv_def)
  note 1 = pqGetc_append [OF r0 i0]
  have r0': "in_rest ?c0 = [byte_of mt] @ hton32 ?n @ body @ r" using r0 by simp
  note r1 = adv_rest [OF r0' i0, of 1, simplified]
  note 2 = pqGetInt_append(2) [OF r1 [THEN conjunct2] r1 [THEN conjunct1]]
  have n: "sint ?n = int (length body) + 4"
    using sint_of_int32 [of "int (length body) + 4"] assms(4) by simp
  note r2 = adv_rest [OF r1 [THEN conjunct1] r1 [THEN conjunct2], of 4, simplified]
  have at: "adv 5 ?c0 = at_body c" by (simp add: adv_def)
  with r2 show rest: "in_rest (at_body c) = body @ r" and inv: "in_inv (at_body c)" by simp_all
  have "length body \<le> length (in_rest (at_body c))" by (simp add: rest)
  then have avail: "\<not> int (inEnd c) - int (inStart c + 5) < int (length body)"
    using inv by (simp add: in_rest_def in_inv_def)
  have "byte_of mt \<notin> set (bytes_of ''ANkx'')"
    using assms(3) by (auto simp: bytes_of_def)
  with 1 2 n at avail assms(4,5) show "parse_message c =
           (case parse_busy (byte_of mt) (int (length body)) (at_body c) of
              Continue d \<Rightarrow> Continue (parse_consumed (int (length body)) d)
            | step \<Rightarrow> step)"
    by (simp add: parse_message_def Let_def)
qed

definition row_description :: "PGresAttDesc list \<Rightarrow> byte list" where
  "row_description ds = socket_putmessage CHR ''T'' (hton16 (of_nat (length ds)) @ concat (map att_bytes ds))"

definition data_row :: "byte list option list \<Rightarrow> byte list" where
  "data_row vs = socket_putmessage CHR ''D'' (hton16 (of_nat (length vs)) @ concat (map value_bytes vs))"

definition command_complete :: "byte list \<Rightarrow> byte list" where
  "command_complete tag = socket_putmessage CHR ''C'' (tag @ [0])"

lemma socket_putmessage_length:
  "mt \<noteq> CHR 0x00 \<Longrightarrow> length (socket_putmessage mt body) = 5 + length body"
  by (simp add: socket_putmessage_def)

text \<open>What parsing such a message leaves of the connection.\<close>

definition consumed :: "byte list \<Rightarrow> pq_conn \<Rightarrow> pq_conn" where
  "consumed m c = c\<lparr>inStart := inStart c + length m, inCursor := inStart c + length m\<rparr>"

lemma uint_of_nat16: "n < 2 ^ 16 \<Longrightarrow> uint (of_nat n :: 16 word) = int n"
  by (simp add: unsigned_of_nat take_bit_nat_eq_self)

lemma parse_row_description:
  assumes "pending c = row_description ds @ r" and "inStart c \<le> inEnd c"
    and "pqc_asyncStatus c = PGASYNC_BUSY" and "pqc_result c = None"
    and "\<forall>d \<in> set ds. att_ok d" and "length (row_description ds) \<le> 30000"
  shows "parse_message c = Continue ((consumed (row_description ds) c)
           \<lparr>pqc_result := Some ((PQmakeEmptyPGresult PGRES_TUPLES_OK '''')\<lparr>attDescs := ds\<rparr>)\<rparr>)"
proof -
  let ?body = "hton16 (of_nat (length ds)) @ concat (map att_bytes ds)"
  have len: "length (row_description ds) = 5 + length ?body"
    by (simp add: row_description_def socket_putmessage_length)
  have n: "length ds \<le> length (concat (map att_bytes ds))"
    by (induction ds) (auto simp: att_bytes_def)
  with len assms(6) have small: "length ?body \<le> 29996" and nds: "length ds < 2 ^ 16" by simp_all
  note framed = parse_message_framed [OF assms(1) [unfolded row_description_def] assms(2) _ small assms(3)]
  let ?c = "at_body c"
  have rest: "in_rest ?c = hton16 (of_nat (length ds)) @ concat (map att_bytes ds) @ r"
    using framed(2) by simp
  have inv: "in_inv ?c" using framed(3) by simp
  have get: "pqGetInt 2 ?c = Some (int (length ds), adv 2 ?c)"
    using pqGetInt_append(1) [OF inv rest] nds by (simp add: uint_of_nat16)
  note after = adv_rest [OF rest inv, of 2, simplified]
  have "getAttDescs (length ds) (adv 2 ?c) =
      Some (ds, adv (length (concat (map att_bytes ds))) (adv 2 ?c))"
    using after assms(5) by (intro getAttDescs_append) auto
  with get have "getRowDescriptions ?c (int (length ?body)) =
      (adv (length ?body) ?c)
        \<lparr>pqc_result := Some ((PQmakeEmptyPGresult PGRES_TUPLES_OK '''')\<lparr>attDescs := ds\<rparr>)\<rparr>"
    by (simp add: getRowDescriptions_def)
  then have "parse_busy (byte_of CHR ''T'') (int (length ?body)) ?c = Continue ((adv (length ?body) ?c)
        \<lparr>pqc_result := Some ((PQmakeEmptyPGresult PGRES_TUPLES_OK '''')\<lparr>attDescs := ds\<rparr>)\<rparr>)"
    using assms(4) by (simp add: parse_busy_def bytes_of_def fatal_result_def)
  with framed(1) show ?thesis
    by (simp add: parse_consumed_def adv_def consumed_def len)
qed

lemma parse_data_row:
  assumes "pending c = data_row vs @ r" and "inStart c \<le> inEnd c"
    and "pqc_asyncStatus c = PGASYNC_BUSY" and "pqc_result c = Some res"
    and "resultStatus res = PGRES_TUPLES_OK" and "length (attDescs res) = length vs"
    and "length (data_row vs) \<le> 30000"
  shows "parse_message c = Continue ((consumed (data_row vs) c)
           \<lparr>pqc_result := Some (res\<lparr>res_tuples := res_tuples res @ [vs]\<rparr>)\<rparr>)"
proof -
  let ?body = "hton16 (of_nat (length vs)) @ concat (map value_bytes vs)"
  have len: "length (data_row vs) = 5 + length ?body"
    by (simp add: data_row_def socket_putmessage_length)
  have n: "length vs \<le> length (concat (map value_bytes vs))"
  proof (induction vs)
    case (Cons v vs)
    then show ?case by (cases v) simp_all
  qed simp
  have big: "length bs \<le> length (concat (map value_bytes vs))" if "Some bs \<in> set vs" for bs
    using that by (induction vs) auto
  from len assms(7) have small: "length ?body \<le> 29996" by simp
  with n have nvs: "length vs < 2 ^ 16" by simp
  note framed = parse_message_framed [OF assms(1) [unfolded data_row_def] assms(2) _ small assms(3)]
  let ?c = "at_body c"
  have rest: "in_rest ?c = hton16 (of_nat (length vs)) @ concat (map value_bytes vs) @ r"
    using framed(2) by simp
  have inv: "in_inv ?c" using framed(3) by simp
  have get: "pqGetInt 2 ?c = Some (int (length vs), adv 2 ?c)"
    using pqGetInt_append(1) [OF inv rest] nvs by (simp add: uint_of_nat16)
  note after = adv_rest [OF rest inv, of 2, simplified]
  have "getFields (length vs) (adv 2 ?c) =
      Some (vs, adv (length (concat (map value_bytes vs))) (adv 2 ?c))"
    using after big small by (intro getFields_append) fastforce+
  with get assms(4,6) have "getAnotherTuple ?c (int (length ?body)) =
      (adv (length ?body) ?c)\<lparr>pqc_result := Some (res\<lparr>res_tuples := res_tuples res @ [vs]\<rparr>)\<rparr>"
    by (simp add: getAnotherTuple_def)
  then have "parse_busy (byte_of CHR ''D'') (int (length ?body)) ?c = Continue ((adv (length ?body) ?c)
        \<lparr>pqc_result := Some (res\<lparr>res_tuples := res_tuples res @ [vs]\<rparr>)\<rparr>)"
    using assms(4,5) by (simp add: parse_busy_def bytes_of_def)
  with framed(1) show ?thesis
    by (simp add: parse_consumed_def adv_def consumed_def len)
qed

lemma parse_command_complete:
  assumes "pending c = command_complete tag @ r" and "inStart c \<le> inEnd c"
    and "pqc_asyncStatus c = PGASYNC_BUSY" and "pqc_result c = Some res"
    and "0 \<notin> set tag" and "length tag < 72"
  shows "parse_message c = Continue ((consumed (command_complete tag) c)
           \<lparr>pqc_result := Some (res\<lparr>cmdStatus := tag\<rparr>), pqc_asyncStatus := PGASYNC_READY\<rparr>)"
proof -
  let ?body = "tag @ [0]"
  have len: "length (command_complete tag) = 5 + length ?body"
    by (simp add: command_complete_def socket_putmessage_length)
  have small: "length ?body \<le> 29996" using assms(6) by simp
  note framed = parse_message_framed [OF assms(1) [unfolded command_complete_def] assms(2) _ small assms(3)]
  let ?c = "at_body c"
  have "in_rest ?c = tag @ 0 # r" "in_inv ?c" using framed(2,3) by simp_all
  from pqGets_append [OF this assms(5)]
  have "parse_busy (byte_of CHR ''C'') (int (length ?body)) ?c = Continue ((adv (length tag + 1) ?c)
        \<lparr>pqc_result := Some (res\<lparr>cmdStatus := tag\<rparr>), pqc_asyncStatus := PGASYNC_READY\<rparr>)"
    using assms(4,6) by (simp add: parse_busy_def)
  with framed(1) show ?thesis
    by (simp add: parse_consumed_def adv_def consumed_def len)
qed

text \<open>A complete answer: the row description, the rows, and the completion tag.\<close>

lemma consumed_pending:
  assumes "pending c = m @ r" and "inStart c \<le> inEnd c"
  shows "pending (consumed m c) = r \<and> inStart (consumed m c) \<le> inEnd (consumed m c)"
proof -
  have "length m \<le> length (pending c)" by (simp add: assms(1))
  then have "inStart c + length m \<le> inEnd c" using assms(2) by (simp add: pending_def)
  moreover have "pending (consumed m c) = drop (length m) (pending c)"
    by (simp add: pending_def consumed_def add.commute)
  ultimately show ?thesis using assms by (simp add: consumed_def)
qed

lemma consumed_simps [simp]:
  "inBuffer (consumed m c) = inBuffer c" "pqc_result (consumed m c) = pqc_result c"
  "pqc_asyncStatus (consumed m c) = pqc_asyncStatus c" "pqc_status (consumed m c) = pqc_status c"
  "pending (c\<lparr>pqc_result := x\<rparr>) = pending c" "pending (c\<lparr>pqc_asyncStatus := y\<rparr>) = pending c"
  by (simp_all add: consumed_def pending_def)

lemma parse_rows:
  assumes "pending c = concat (map data_row rows) @ r" and "inStart c \<le> inEnd c"
    and "pqc_asyncStatus c = PGASYNC_BUSY" and "pqc_result c = Some res"
    and "resultStatus res = PGRES_TUPLES_OK"
    and "\<forall>vs \<in> set rows. length vs = length (attDescs res) \<and> length (data_row vs) \<le> 30000"
  obtains d where "pqParseInput3 c = pqParseInput3 d" and "pending d = r" and "inStart d \<le> inEnd d"
    and "pqc_asyncStatus d = PGASYNC_BUSY"
    and "pqc_result d = Some (res\<lparr>res_tuples := res_tuples res @ rows\<rparr>)"
    and "pqc_status d = pqc_status c"
  using assms
proof (induction rows arbitrary: c res thesis)
  case Nil
  then show ?case by simp
next
  case (Cons vs rows)
  let ?m = "data_row vs" and ?res = "res\<lparr>res_tuples := res_tuples res @ [vs]\<rparr>"
  let ?d = "(consumed ?m c)\<lparr>pqc_result := Some ?res\<rparr>"
  have pend: "pending c = ?m @ concat (map data_row rows) @ r" using Cons.prems(2) by simp
  have "parse_message c = Continue ?d"
    using pend Cons.prems(3-7) by (intro parse_data_row) auto
  then have step: "pqParseInput3 c = pqParseInput3 ?d" by (rule pqParseInput3_steps)
  note rest = consumed_pending [OF pend Cons.prems(3)]
  show ?case
  proof (rule Cons.IH [of ?d ?res])
    fix d
    assume "pqParseInput3 ?d = pqParseInput3 d" "pending d = r" "inStart d \<le> inEnd d"
      "pqc_asyncStatus d = PGASYNC_BUSY"
      "pqc_result d = Some (?res\<lparr>res_tuples := res_tuples ?res @ rows\<rparr>)"
      "pqc_status d = pqc_status ?d"
    with step show thesis by (intro Cons.prems(1) [of d]) simp_all
  qed (use rest Cons.prems in simp_all)
qed

lemma parse_answer:
  assumes "pending c = row_description ds @ concat (map data_row rows) @ command_complete tag"
    and "inStart c \<le> inEnd c" and "pqc_asyncStatus c = PGASYNC_BUSY" and "pqc_result c = None"
    and "\<forall>d \<in> set ds. att_ok d" and "length (row_description ds) \<le> 30000"
    and "\<forall>vs \<in> set rows. length vs = length ds \<and> length (data_row vs) \<le> 30000"
    and "0 \<notin> set tag" and "length tag < 72"
  obtains d where "pqParseInput3 c = (True, d)" and "pqc_asyncStatus d = PGASYNC_READY"
    and "pqc_result d = Some \<lparr>resultStatus = PGRES_TUPLES_OK, attDescs = ds, res_tuples = rows,
           res_errMsg = '''', cmdStatus = tag\<rparr>"
    and "pqc_status d = pqc_status c" and "pending d = []"
proof -
  let ?res = "(PQmakeEmptyPGresult PGRES_TUPLES_OK '''')\<lparr>attDescs := ds\<rparr>"
  let ?c1 = "(consumed (row_description ds) c)\<lparr>pqc_result := Some ?res\<rparr>"
  have 1: "parse_message c = Continue ?c1" using assms(1-6) by (rule parse_row_description)
  note p1 = consumed_pending [OF assms(1,2)]
  have pend1: "pending ?c1 = concat (map data_row rows) @ command_complete tag"
    and start1: "inStart ?c1 \<le> inEnd ?c1"
    and busy1: "pqc_asyncStatus ?c1 = PGASYNC_BUSY" and res1: "pqc_result ?c1 = Some ?res"
    and ok1: "resultStatus ?res = PGRES_TUPLES_OK"
    and rows1: "\<forall>vs \<in> set rows. length vs = length (attDescs ?res) \<and> length (data_row vs) \<le> 30000"
    using p1 assms(3,7) by (simp_all add: PQmakeEmptyPGresult_def)
  obtain d where d: "pqParseInput3 ?c1 = pqParseInput3 d" "pending d = command_complete tag"
      "inStart d \<le> inEnd d" "pqc_asyncStatus d = PGASYNC_BUSY"
      "pqc_result d = Some (?res\<lparr>res_tuples := res_tuples ?res @ rows\<rparr>)" "pqc_status d = pqc_status ?c1"
    using pend1 start1 busy1 res1 ok1 rows1 by (rule parse_rows)
  let ?r = "?res\<lparr>res_tuples := res_tuples ?res @ rows\<rparr>"
  let ?e = "(consumed (command_complete tag) d)
     \<lparr>pqc_result := Some (?r\<lparr>cmdStatus := tag\<rparr>), pqc_asyncStatus := PGASYNC_READY\<rparr>"
  have pend: "pending d = command_complete tag @ []" using d(2) by simp
  have 2: "parse_message d = Continue ?e"
    using pend d(3,4,5) assms(8,9) by (rule parse_command_complete)
  note p2 = consumed_pending [OF pend d(3)]
  have "inStart ?e = inEnd ?e" using p2 by (simp add: pending_def)
  then have "parse_message ?e = Suspend (?e\<lparr>inCursor := inStart ?e\<rparr>)"
    by (simp add: parse_message_def pqGetc_def)
  from pqParseInput3_steps(2) [OF this]
  have "pqParseInput3 c = (True, ?e\<lparr>inCursor := inStart ?e\<rparr>)"
    unfolding pqParseInput3_steps(1) [OF 1] d(1) pqParseInput3_steps(1) [OF 2] .
  then show thesis by (rule that) (use d(6) p2 in \<open>simp_all add: PQmakeEmptyPGresult_def pending_def\<close>)
qed

section \<open>Properties\<close>

text \<open>C32. Round trip of a query result: when the bytes a backend sends for a result (a row description, any
  number of data rows with null and non-null values, and a completion tag) are in the input of a
  connection that waits for them, libpq is no longer busy and returns a result with exactly these
  columns, rows and tag.  Each message is at most 30000 bytes long.\<close>

theorem query_result_roundtrip:
  assumes "pending c = row_description ds @ concat (map data_row rows) @ command_complete tag"
    and "inStart c \<le> inEnd c" and "pqc_asyncStatus c = PGASYNC_BUSY" and "pqc_result c = None"
    and "\<forall>d \<in> set ds. att_ok d" and "length (row_description ds) \<le> 30000"
    and "\<forall>vs \<in> set rows. length vs = length ds \<and> length (data_row vs) \<le> 30000"
    and "0 \<notin> set tag" and "length tag < 72"
  shows "\<not> fst (PQisBusy c) \<and>
    fst (PQgetResult c) = Some \<lparr>resultStatus = PGRES_TUPLES_OK, attDescs = ds, res_tuples = rows,
      res_errMsg = '''', cmdStatus = tag\<rparr>"
proof -
  from assms obtain d where "pqParseInput3 c = (True, d)" "pqc_asyncStatus d = PGASYNC_READY"
    "pqc_result d = Some \<lparr>resultStatus = PGRES_TUPLES_OK, attDescs = ds, res_tuples = rows,
           res_errMsg = '''', cmdStatus = tag\<rparr>"
    by (rule parse_answer)
  then show ?thesis by (simp add: PQisBusy_def PQgetResult_def pqPrepareAsyncResult_def)
qed

definition ex_att :: PGresAttDesc where
  "ex_att = \<lparr>att_name = bytes_of ''a'', att_tableid = 0, att_columnid = 1, att_format = 0, att_typid = 16,
             att_typlen = 1, att_atttypmod = -1\<rparr>"

definition ex_answer :: "byte list" where
  "ex_answer = row_description [ex_att] @ concat (map data_row [[Some [1]], [None]]) @
     command_complete (bytes_of ''PROBE'')"

definition ex_waiting :: pq_conn where
  "ex_waiting = \<lparr>inBuffer = ex_answer, inStart = 0, inCursor = 0, pqc_result = None,
     pqc_asyncStatus = PGASYNC_BUSY, pqc_status = CONNECTION_OK, pqc_xactStatus = PQTRANS_IDLE,
     pqc_errorMessage = ''''\<rparr>"

theorem query_result_roundtrip_witness:
  "\<exists>r. fst (PQgetResult ex_waiting) = Some r \<and> res_tuples r = [[Some [1]], [None]]"
proof -
  have "att_ok ex_att" by (simp add: att_ok_def ex_att_def bytes_of_def byte_of_def)
  moreover have "length (row_description [ex_att]) \<le> 30000"
    by (simp add: row_description_def socket_putmessage_length att_bytes_def ex_att_def bytes_of_def)
  moreover have "length (data_row [v]) \<le> 30000" if "v = Some [1] \<or> v = None" for v
    using that by (auto simp: data_row_def socket_putmessage_length)
  moreover have "0 \<notin> set (bytes_of ''PROBE'')" "length (bytes_of ''PROBE'') < 72"
    by (simp_all add: bytes_of_def byte_of_def)
  ultimately show ?thesis
    using query_result_roundtrip [of ex_waiting "[ex_att]" "[[Some [1]], [None]]" "bytes_of ''PROBE''"]
    by (simp add: ex_waiting_def pending_def ex_answer_def)
qed

end
