(* ===== verification/Fts_Handler.thy ===== *)
theory Fts_Handler
  imports Fts_Replication Pq_Client Fts_Catalog
begin

text \<open>
  The handler of FTS messages on a segment, \<open>ftsmessagehandler.c\<close>: the disk check, the three
  messages (probe, turn synchronous replication off, promote), the response on the wire, and the
  dispatch on the query string, in a build without assertions.  An \<open>ERROR\<close> is the left summand of
  the result; the state changes made before it are kept.
\<close>

section \<open>State\<close>

datatype DBState =
    DB_STARTUP
  | DB_SHUTDOWNED
  | DB_SHUTDOWNED_IN_RECOVERY
  | DB_SHUTDOWNING
  | DB_IN_CRASH_RECOVERY
  | DB_IN_ARCHIVE_RECOVERY
  | DB_IN_PRODUCTION

datatype ReplicationSlotPersistency = RS_PERSISTENT | RS_EPHEMERAL | RS_TEMPORARY

record ReplicationSlot =
  slot_in_use :: bool
  slot_name :: string
  slot_persistency :: ReplicationSlotPersistency
  slot_restart_lsn :: "64 word"
  slot_active_pid :: int

datatype handler_warning = DbidMismatch int int | ContentMismatch int int

record segment =
  seg_shm :: wal_shmem
  seg_am_mirror :: bool
  seg_dbid :: int
  seg_segindex :: int
  seg_dbstate :: DBState
  seg_redo :: "64 word"
  seg_slots :: "ReplicationSlot list"
  seg_promote_signalled :: bool
  seg_probe_file :: "byte list option"
  seg_log :: "handler_warning list"

datatype handler_error =
    InvalidFtsQuery
  | UnknownFtsQuery
  | MessageTypeOverflow
  | DiskIOCheckFailed
  | InvalidSlotName
  | SlotAlreadyExists
  | AllReplicationSlotsInUse
  | StillReservingWal
  | SendError pq_error

section \<open>The disk check\<close>

abbreviation (input) BLCKSZ :: nat where "BLCKSZ \<equiv> 32768"

definition FTS_PROBE_MAGIC_STRING :: "byte list" where
  "FTS_PROBE_MAGIC_STRING = bytes_of ''FtS PrObEr MaGiC StRiNg, pRoBiNg cHeCk.......''"

definition magic_block :: "byte list" where
  "magic_block = FTS_PROBE_MAGIC_STRING @ replicate (BLCKSZ - length FTS_PROBE_MAGIC_STRING) 0"

datatype errno = ENOENT | EINVAL | EOTHER

text \<open>
  What the kernel does to the calls of one check: the error of the first open (\<open>None\<close>: it behaves
  according to the file), whether creating fails, how many bytes a write stores, whether reading
  comes up short, seeking or unlinking fails.
\<close>

record disk_faults =
  df_open :: "errno option"
  df_create :: bool
  df_written :: nat
  df_short_read :: bool
  df_seek :: bool
  df_unlink :: bool

text \<open>The result is the failure flag, whether a descriptor is open, and the file.\<close>

definition probe_file_create :: "disk_faults \<Rightarrow> byte list option \<Rightarrow> bool \<times> bool \<times> byte list option" where
  "probe_file_create df file =
     (if df_create df \<or> file \<noteq> None then (True, False, file)
      else if df_written df < BLCKSZ then (True, True, Some (take (df_written df) magic_block))
      else (False, True, Some magic_block))"

definition probe_file_check :: "disk_faults \<Rightarrow> byte list \<Rightarrow> bool \<times> bool \<times> byte list option" where
  "probe_file_check df content =
     (let data = take BLCKSZ content; magic_len = length FTS_PROBE_MAGIC_STRING + 1
      in if df_short_read df \<or> length data \<noteq> BLCKSZ then (True, True, Some content)
         else if take magic_len data \<noteq> FTS_PROBE_MAGIC_STRING @ [0] then (True, True, Some content)
         else if df_seek df then (True, True, Some content)
         else if df_written df < BLCKSZ then (True, True, Some content)
         else (False, True, Some content))"

definition checkIODataDirectory ::
  "disk_faults \<Rightarrow> byte list option \<Rightarrow> (handler_error + bool) \<times> byte list option" where
  "checkIODataDirectory df file =
     (let (failure, opened, file) =
            (case (df_open df, file) of
               (Some ENOENT, _) \<Rightarrow> probe_file_create df file
             | (Some EINVAL, _) \<Rightarrow> (False, False, file)
             | (Some EOTHER, _) \<Rightarrow> (True, False, file)
             | (None, None) \<Rightarrow> probe_file_create df file
             | (None, Some content) \<Rightarrow> probe_file_check df content);
          file = (if opened \<and> failure \<and> \<not> df_unlink df then None else file)
      in (if failure then Inl DiskIOCheckFailed else Inr failure, file))"

section \<open>The response on the wire\<close>

abbreviation (input) BOOLOID :: "32 word" where "BOOLOID \<equiv> 16"

definition send_column ::
  "(byte list \<Rightarrow> byte list) \<Rightarrow> string \<Rightarrow> 32 word \<Rightarrow> StringInfo \<Rightarrow> pq_error + StringInfo" where
  "send_column conv name attnum buf =
     (let buf = pq_sendstring conv (bytes_of name) buf
      in bind_res (pq_sendint 0 4 buf) (\<lambda>buf.
         bind_res (pq_sendint attnum 2 buf) (\<lambda>buf.
         bind_res (pq_sendint BOOLOID 4 buf) (\<lambda>buf.
         bind_res (pq_sendint 1 2 buf) (\<lambda>buf.
         bind_res (pq_sendint (-1) 4 buf) (\<lambda>buf.
           pq_sendint 0 2 buf))))))"

definition send_value :: "bool \<Rightarrow> StringInfo \<Rightarrow> pq_error + StringInfo" where
  "send_value v buf = bind_res (pq_sendint 1 4 buf) (\<lambda>buf. pq_sendint (if v then 1 else 0) 1 buf)"

definition SendFtsResponse ::
  "(byte list \<Rightarrow> byte list) \<Rightarrow> FtsResponse \<Rightarrow> string \<Rightarrow> pq_error + byte list" where
  "SendFtsResponse conv response messagetype =
     bind_res (pq_sendint 5 2 (pq_beginmessage CHR ''T'')) (\<lambda>buf.
     bind_res (send_column conv ''is_mirror_up'' 0 buf) (\<lambda>buf.
     bind_res (send_column conv ''is_in_sync'' 1 buf) (\<lambda>buf.
     bind_res (send_column conv ''is_syncrep_enabled'' 2 buf) (\<lambda>buf.
     bind_res (send_column conv ''is_role_mirror'' 3 buf) (\<lambda>buf.
     bind_res (send_column conv ''request_retry'' 4 buf) (\<lambda>tbuf.
     bind_res (pq_sendint 5 2 (pq_beginmessage CHR ''D'')) (\<lambda>buf.
     bind_res (send_value (fr_IsMirrorUp response) buf) (\<lambda>buf.
     bind_res (send_value (fr_IsInSync response) buf) (\<lambda>buf.
     bind_res (send_value (fr_IsSyncRepEnabled response) buf) (\<lambda>buf.
     bind_res (send_value (fr_IsRoleMirror response) buf) (\<lambda>buf.
     bind_res (send_value (fr_RequestRetry response) buf) (\<lambda>dbuf.
       Inr (pq_endmessage tbuf @ pq_endmessage dbuf @
            socket_putmessage CHR ''C'' (bytes_of messagetype @ [0]))))))))))))))"

section \<open>The messages\<close>

definition empty_response :: FtsResponse where
  "empty_response = \<lparr>fr_IsMirrorUp = False, fr_IsInSync = False, fr_IsSyncRepEnabled = False,
                     fr_IsRoleMirror = False, fr_RequestRetry = False\<rparr>"

text \<open>
  The environment of a message: the variables and the clock of the mirror status, the faults of the
  disk, the process id, what the log reservation reads, and the conversion to the client's encoding.
\<close>

record handler_env =
  he_guc :: rep_guc
  he_now :: pg_time
  he_disk :: disk_faults
  he_pid :: int
  he_wal_segment_size :: "64 word"
  he_wal_rounds :: "(64 word \<times> 64 word) list"
  he_conv :: "byte list \<Rightarrow> byte list"

definition HandleFtsWalRepProbe :: "handler_env \<Rightarrow> segment \<Rightarrow> (handler_error + FtsResponse) \<times> segment" where
  "HandleFtsWalRepProbe env seg =
     (let (response, seg) =
            (if seg_am_mirror seg then (empty_response\<lparr>fr_IsRoleMirror := True\<rparr>, seg)
             else
               let (response, ready) =
                     GetMirrorStatus (he_guc env) (he_now env) (seg_shm seg) empty_response
               in if \<not> fr_IsSyncRepEnabled response \<and> ready
                  then (response\<lparr>fr_IsSyncRepEnabled := True\<rparr>,
                        seg\<lparr>seg_shm := SetSyncStandbysDefined (seg_shm seg)\<rparr>)
                  else (response, seg));
          (checked, file) = checkIODataDirectory (he_disk env) (seg_probe_file seg);
          seg = seg\<lparr>seg_probe_file := file\<rparr>
      in (case checked of Inl e \<Rightarrow> Inl e | Inr _ \<Rightarrow> Inr response, seg))"

definition HandleFtsWalRepSyncRepOff :: "handler_env \<Rightarrow> segment \<Rightarrow> FtsResponse \<times> segment" where
  "HandleFtsWalRepSyncRepOff env seg =
     (let seg = seg\<lparr>seg_shm := UnsetSyncStandbysDefined (seg_shm seg)\<rparr>
      in (fst (GetMirrorStatus (he_guc env) (he_now env) (seg_shm seg) empty_response), seg))"

text \<open>
  Replication slots are an array; \<open>MyReplicationSlot\<close> is the index of a slot.  After the loop of
  \<open>CreateReplicationSlotOnPromote\<close> it is the last slot with the name.
\<close>

fun find_slot :: "string \<Rightarrow> nat \<Rightarrow> ReplicationSlot list \<Rightarrow> nat option \<Rightarrow> nat option" where
  "find_slot name i [] my = my"
| "find_slot name i (s # slots) my =
     find_slot name (Suc i) slots (if slot_in_use s \<and> name = slot_name s then Some i else my)"

definition slot_name_char :: "char \<Rightarrow> bool" where
  "slot_name_char c \<longleftrightarrow>
     (let k = (of_char c :: nat) in 97 \<le> k \<and> k \<le> 122 \<or> 48 \<le> k \<and> k \<le> 57 \<or> k = 95)"

definition ReplicationSlotValidateName :: "string \<Rightarrow> bool" where
  "ReplicationSlotValidateName name \<longleftrightarrow>
     length name \<noteq> 0 \<and> length name < NAMEDATALEN \<and> list_all slot_name_char name"

text \<open>The loop of \<open>ReplicationSlotCreate\<close>: an error on a name collision, else the first free slot.\<close>

fun free_slot :: "string \<Rightarrow> nat \<Rightarrow> ReplicationSlot list \<Rightarrow> nat option \<Rightarrow> handler_error + nat option" where
  "free_slot name i [] slot = Inr slot"
| "free_slot name i (s # slots) slot =
     (if slot_in_use s \<and> name = slot_name s then Inl SlotAlreadyExists
      else free_slot name (Suc i) slots (if \<not> slot_in_use s \<and> slot = None then Some i else slot))"

definition ReplicationSlotCreate ::
  "string \<Rightarrow> ReplicationSlotPersistency \<Rightarrow> int \<Rightarrow> ReplicationSlot list \<Rightarrow>
     handler_error + nat \<times> ReplicationSlot list" where
  "ReplicationSlotCreate name persistency MyProcPid slots =
     (if \<not> ReplicationSlotValidateName name then Inl InvalidSlotName
      else bind_res (free_slot name 0 slots None) (\<lambda>slot.
        case slot of
          None \<Rightarrow> Inl AllReplicationSlotsInUse
        | Some i \<Rightarrow>
            Inr (i, slots[i := \<lparr>slot_in_use = True, slot_name = name,
                               slot_persistency = persistency, slot_restart_lsn = 0,
                               slot_active_pid = MyProcPid\<rparr>])))"

text \<open>
  The loop of \<open>ReplicationSlotReserveWal\<close> for a physical slot.  Each round reads the redo pointer
  and, afterwards, the last removed log segment; the list has the values of the rounds.  Nothing is
  returned while the loop still goes on.
\<close>

fun ReplicationSlotReserveWal :: "64 word \<Rightarrow> (64 word \<times> 64 word) list \<Rightarrow> 64 word option" where
  "ReplicationSlotReserveWal wal_segment_size [] = None"
| "ReplicationSlotReserveWal wal_segment_size ((redo, last_removed) # rounds) =
     (if last_removed < redo div wal_segment_size then Some redo
      else ReplicationSlotReserveWal wal_segment_size rounds)"

definition ReplicationSlotRelease :: "ReplicationSlot \<Rightarrow> ReplicationSlot" where
  "ReplicationSlotRelease s =
     (case slot_persistency s of
        RS_EPHEMERAL \<Rightarrow> s\<lparr>slot_in_use := False, slot_active_pid := 0\<rparr>
      | RS_PERSISTENT \<Rightarrow> s\<lparr>slot_active_pid := 0\<rparr>
      | RS_TEMPORARY \<Rightarrow> s)"

text \<open>
  The slot is created unless it exists; a slot without a restart position reserves the log, and is
  released when it is active.
\<close>

definition CreateReplicationSlotOnPromote ::
  "handler_env \<Rightarrow> string \<Rightarrow> ReplicationSlot list \<Rightarrow> handler_error + ReplicationSlot list" where
  "CreateReplicationSlotOnPromote env name slots =
     bind_res
       (case find_slot name 0 slots None of
          Some i \<Rightarrow> Inr (i, slots)
        | None \<Rightarrow> ReplicationSlotCreate name RS_PERSISTENT (he_pid env) slots)
       (\<lambda>(i, slots).
          let s = slots ! i
          in if slot_restart_lsn s = 0 then
               (case ReplicationSlotReserveWal (he_wal_segment_size env) (he_wal_rounds env) of
                  None \<Rightarrow> Inl StillReservingWal
                | Some lsn \<Rightarrow>
                    (let s = s\<lparr>slot_restart_lsn := lsn\<rparr>
                     in Inr (slots[i := if slot_active_pid s \<noteq> 0 then ReplicationSlotRelease s else s])))
             else Inr slots)"

abbreviation (input) INTERNAL_WAL_REPLICATION_SLOT_NAME :: string where
  "INTERNAL_WAL_REPLICATION_SLOT_NAME \<equiv> ''internal_wal_replication_slot''"

definition HandleFtsWalRepPromote :: "handler_env \<Rightarrow> segment \<Rightarrow> (handler_error + FtsResponse) \<times> segment" where
  "HandleFtsWalRepPromote env seg =
     (let response = empty_response\<lparr>fr_IsRoleMirror := seg_am_mirror seg\<rparr>
      in if seg_dbstate seg = DB_IN_ARCHIVE_RECOVERY \<and> seg_redo seg \<noteq> 0 then
           (let seg = seg\<lparr>seg_shm := UnsetSyncStandbysDefined (seg_shm seg)\<rparr>
            in case CreateReplicationSlotOnPromote env INTERNAL_WAL_REPLICATION_SLOT_NAME
                      (seg_slots seg) of
                 Inl e \<Rightarrow> (Inl e, seg)
               | Inr slots \<Rightarrow>
                   (Inr response, seg\<lparr>seg_slots := slots, seg_promote_signalled := True\<rparr>))
         else (Inr response, seg))"

text \<open>
  The dispatch.  \<open>%s\<close> stores the first word without a bound into a buffer of \<open>FTS_MSG_MAX_LEN\<close>
  bytes; a longer word is written beyond it before the count of conversions is known
  (\<open>MessageTypeOverflow\<close>, undefined in C).  A mismatch of the dbid or the content is only warned about.
\<close>

definition message_type_overflow :: "string \<Rightarrow> bool" where
  "message_type_overflow query_string \<longleftrightarrow>
     (case scan_word query_string of None \<Rightarrow> False | Some (w, _) \<Rightarrow> length w \<ge> FTS_MSG_MAX_LEN)"

definition warn_mismatch :: "int \<Rightarrow> int \<Rightarrow> segment \<Rightarrow> segment" where
  "warn_mismatch dbid contid seg =
     seg\<lparr>seg_log := seg_log seg @
           (if dbid \<noteq> seg_dbid seg then [DbidMismatch dbid (seg_dbid seg)] else []) @
           (if contid \<noteq> seg_segindex seg then [ContentMismatch contid (seg_segindex seg)] else [])\<rparr>"

definition send_response ::
  "handler_env \<Rightarrow> string \<Rightarrow> (handler_error + FtsResponse) \<times> segment \<Rightarrow> (handler_error + byte list) \<times> segment" where
  "send_response env messagetype r =
     (bind_res (fst r) (\<lambda>response.
        case SendFtsResponse (he_conv env) response messagetype of
          Inl e \<Rightarrow> Inl (SendError e) | Inr bytes \<Rightarrow> Inr bytes), snd r)"

definition HandleFtsMessage :: "handler_env \<Rightarrow> string \<Rightarrow> segment \<Rightarrow> (handler_error + byte list) \<times> segment" where
  "HandleFtsMessage env query_string seg =
     (if message_type_overflow query_string then (Inl MessageTypeOverflow, seg)
      else case fts_msg_scan query_string of
        None \<Rightarrow> (Inl InvalidFtsQuery, seg)
      | Some (message_type, dbid, contid) \<Rightarrow>
          (let seg = warn_mismatch dbid contid seg
           in if starts_with query_string FTS_MSG_PROBE
              then send_response env FTS_MSG_PROBE (HandleFtsWalRepProbe env seg)
              else if starts_with query_string FTS_MSG_SYNCREP_OFF
              then send_response env FTS_MSG_SYNCREP_OFF (apfst Inr (HandleFtsWalRepSyncRepOff env seg))
              else if starts_with query_string FTS_MSG_PROMOTE
              then send_response env FTS_MSG_PROMOTE (HandleFtsWalRepPromote env seg)
              else (Inl UnknownFtsQuery, seg)))"

section \<open>The exchange with the prober\<close>




















section \<open>Messages printed and scanned\<close>

text \<open>The message words of the prober.\<close>

definition fts_words :: "string set" where
  "fts_words = {FTS_MSG_PROBE, FTS_MSG_SYNCREP_OFF, FTS_MSG_PROMOTE}"

lemma fts_words_cases: "t \<in> fts_words \<Longrightarrow> t = FTS_MSG_PROBE \<or> t = FTS_MSG_SYNCREP_OFF \<or> t = FTS_MSG_PROMOTE"
  by (simp add: fts_words_def)

lemma fts_msg_print_full:
  assumes "t \<in> fts_words" and "d \<in> {- (2 ^ 31)..<2 ^ 31}" and "c \<in> {- (2 ^ 31)..<2 ^ 31}"
  shows "fts_msg_print t d c = t @ '' dbid='' @ print_int d @ '' contid='' @ print_int c"
proof -
  have "length t \<le> 11" using assms(1) by (auto simp: fts_words_def)
  with print_int_length [OF assms(2)] print_int_length [OF assms(3)] show ?thesis
    by (simp add: fts_msg_print_def)
qed

lemma scan_word_print:
  assumes "t \<in> fts_words"
  shows "scan_word (t @ CHR '' '' # r) = Some (t, CHR '' '' # r)"
  using fts_words_cases [OF assms] by (auto simp: scan_word_def skip_space_def is_space_def)

lemma fts_msg_roundtrip:
  assumes "t \<in> fts_words" and "d \<in> {- (2 ^ 31)..<2 ^ 31}" and "c \<in> {- (2 ^ 31)..<2 ^ 31}"
  shows "fts_msg_scan (fts_msg_print t d c) = Some (t, d, c) \<and>
    \<not> message_type_overflow (fts_msg_print t d c) \<and> starts_with (fts_msg_print t d c) t"
proof -
  have nd: "\<not> is_digit CHR '' ''" by (simp add: is_digit_def)
  have sp: "is_space CHR '' ''" "\<not> is_space CHR ''d''" "\<not> is_space CHR ''c''" by (simp_all add: is_space_def)
  have w: "scan_word (t @ '' dbid='' @ r) = Some (t, '' dbid='' @ r)" for r
    using scan_word_print [OF assms(1)] by simp
  have "length t \<le> 11" using assms(1) by (auto simp: fts_words_def)
  with w nd sp scan_print_int [of "'' contid='' @ print_int c" d] scan_print_int [of "[]" c] show ?thesis
    unfolding fts_msg_print_full [OF assms]
    by (simp add: fts_msg_scan_def message_type_overflow_def skip_space_def scan_lit_def starts_with_def)
qed

lemma handle_printed:
  assumes "t \<in> fts_words" and "d \<in> {- (2 ^ 31)..<2 ^ 31}" and "c \<in> {- (2 ^ 31)..<2 ^ 31}"
  shows "HandleFtsMessage env (fts_msg_print t d c) seg =
    (let seg = warn_mismatch d c seg
     in if t = FTS_MSG_PROBE then send_response env t (HandleFtsWalRepProbe env seg)
        else if t = FTS_MSG_SYNCREP_OFF
        then send_response env t (apfst Inr (HandleFtsWalRepSyncRepOff env seg))
        else send_response env t (HandleFtsWalRepPromote env seg))"
proof -
  have st: "starts_with (fts_msg_print t d c) w \<longleftrightarrow> w = t" if "w \<in> fts_words" for w
    using that assms(1) unfolding fts_msg_print_full [OF assms] starts_with_def fts_words_def by auto
  show ?thesis
    using assms(1) fts_msg_roundtrip [OF assms] st [of FTS_MSG_PROBE] st [of FTS_MSG_SYNCREP_OFF]
      st [of FTS_MSG_PROMOTE]
    by (auto simp: HandleFtsMessage_def fts_words_def Let_def)
qed




section \<open>The slot of a promotion\<close>

abbreviation slot_match :: "string \<Rightarrow> ReplicationSlot \<Rightarrow> bool" where
  "slot_match name s \<equiv> slot_in_use s \<and> name = slot_name s"

lemma find_slot_append:
  "find_slot name i (xs @ ys) my = find_slot name (i + length xs) ys (find_slot name i xs my)"
  by (induction xs arbitrary: i my) simp_all

lemma find_slot_none: "\<forall>s \<in> set xs. \<not> slot_match name s \<Longrightarrow> find_slot name i xs my = my"
  by (induction xs arbitrary: i my) auto

lemma find_slot_last:
  "slot_match name s \<Longrightarrow> \<forall>v \<in> set vs. \<not> slot_match name v \<Longrightarrow>
     find_slot name i (us @ s # vs) my = Some (i + length us)"
  by (simp add: find_slot_append find_slot_none)

lemma find_slot_cases:
  obtains "find_slot name 0 slots None = None" and "\<forall>s \<in> set slots. \<not> slot_match name s"
  | us s vs where "slots = us @ s # vs" and "find_slot name 0 slots None = Some (length us)"
    and "slot_match name s" and "\<forall>v \<in> set vs. \<not> slot_match name v"
proof (cases "\<exists>s \<in> set slots. slot_match name s")
  case True
  from split_list_last_prop [OF this] obtain us s vs
    where "slots = us @ s # vs" "slot_match name s" "\<forall>v \<in> set vs. \<not> slot_match name v" by auto
  with find_slot_last [of s name vs 0 us None] that(2) show ?thesis by simp
next
  case False
  with find_slot_none [of slots name 0 None] that(1) show ?thesis by auto
qed

lemma free_slot_lt:
  "free_slot name i slots slot = Inr (Some j) \<Longrightarrow> slot = Some j \<or> (i \<le> j \<and> j < i + length slots)"
  by (induction slots arbitrary: i slot) (force split: if_splits)+

lemma ReserveWal_nonzero: "ReplicationSlotReserveWal sz rounds = Some lsn \<Longrightarrow> lsn \<noteq> 0"
  by (induction sz rounds rule: ReplicationSlotReserveWal.induct) (auto split: if_splits)

text \<open>
  After success the last slot with the name holds a log position; then the operation changes nothing.
\<close>

definition slot_reserved :: "string \<Rightarrow> ReplicationSlot list \<Rightarrow> bool" where
  "slot_reserved name slots \<longleftrightarrow>
     (\<exists>us s vs. slots = us @ s # vs \<and> slot_match name s \<and> slot_restart_lsn s \<noteq> 0 \<and>
        (\<forall>v \<in> set vs. \<not> slot_match name v))"

lemma reserved_unchanged:
  assumes "slot_reserved name slots"
  shows "CreateReplicationSlotOnPromote env name slots = Inr slots"
proof -
  from assms obtain us s vs where "slots = us @ s # vs" "slot_match name s" "slot_restart_lsn s \<noteq> 0"
    "\<forall>v \<in> set vs. \<not> slot_match name v" unfolding slot_reserved_def by blast
  with find_slot_last [of s name vs 0 us None] show ?thesis
    by (simp add: CreateReplicationSlotOnPromote_def)
qed

definition reserve_slot :: "handler_env \<Rightarrow> nat \<times> ReplicationSlot list \<Rightarrow> handler_error + ReplicationSlot list" where
  "reserve_slot env = (\<lambda>(i, slots).
     let s = slots ! i
     in if slot_restart_lsn s = 0 then
          (case ReplicationSlotReserveWal (he_wal_segment_size env) (he_wal_rounds env) of
             None \<Rightarrow> Inl StillReservingWal
           | Some lsn \<Rightarrow>
               (let s = s\<lparr>slot_restart_lsn := lsn\<rparr>
                in Inr (slots[i := if slot_active_pid s \<noteq> 0 then ReplicationSlotRelease s else s])))
        else Inr slots)"

lemma reserve_slot_reserved:
  assumes "reserve_slot env (length us, us @ s # vs) = Inr slots'" and "slot_match name s"
    and "slot_persistency s = RS_PERSISTENT" and "\<forall>v \<in> set vs. \<not> slot_match name v"
  shows "slot_reserved name slots'"
proof (cases "slot_restart_lsn s = 0")
  case True
  with assms(1) obtain lsn where "ReplicationSlotReserveWal (he_wal_segment_size env) (he_wal_rounds env) = Some lsn"
    by (auto simp: reserve_slot_def split: option.splits)
  moreover from this have "lsn \<noteq> 0" by (rule ReserveWal_nonzero)
  ultimately obtain s' where "slots' = us @ s' # vs" "slot_match name s'" "slot_restart_lsn s' \<noteq> 0"
    using True assms(1-3) by (auto simp: reserve_slot_def ReplicationSlotRelease_def Let_def)
  with assms(4) show ?thesis unfolding slot_reserved_def by blast
next
  case False
  with assms show ?thesis unfolding slot_reserved_def by (auto simp: reserve_slot_def Let_def)
qed

lemma create_on_promote_reserved:
  assumes "CreateReplicationSlotOnPromote env name slots = Inr slots'"
    and "\<forall>s \<in> set slots. slot_match name s \<longrightarrow> slot_persistency s = RS_PERSISTENT"
  shows "slot_reserved name slots'"
proof (rule find_slot_cases [of name slots])
  assume n: "find_slot name 0 slots None = None" and no: "\<forall>s \<in> set slots. \<not> slot_match name s"
  let ?new = "\<lparr>slot_in_use = True, slot_name = name, slot_persistency = RS_PERSISTENT,
    slot_restart_lsn = 0, slot_active_pid = he_pid env\<rparr>"
  from assms(1) n obtain i where i: "free_slot name 0 slots None = Inr (Some i)"
    and r: "reserve_slot env (i, slots[i := ?new]) = Inr slots'"
    by (auto simp: CreateReplicationSlotOnPromote_def reserve_slot_def ReplicationSlotCreate_def bind_res_def
        split: sum.splits option.splits if_splits)
  from free_slot_lt [OF i] have lt: "i < length slots" by simp
  with r have "reserve_slot env (length (take i slots), take i slots @ ?new # drop (Suc i) slots) = Inr slots'"
    by (simp add: upd_conv_take_nth_drop)
  then show ?thesis by (rule reserve_slot_reserved) (use no in \<open>auto dest: in_set_dropD\<close>)
next
  fix us s vs
  assume "slots = us @ s # vs" "find_slot name 0 slots None = Some (length us)" "slot_match name s"
    "\<forall>v \<in> set vs. \<not> slot_match name v"
  with assms show ?thesis
    by (intro reserve_slot_reserved [of env us s vs slots' name])
      (auto simp: CreateReplicationSlotOnPromote_def reserve_slot_def)
qed

lemma magic_length: "length FTS_PROBE_MAGIC_STRING = 45"
  by (simp add: FTS_PROBE_MAGIC_STRING_def bytes_of_def)

lemma magic_block_shape:
  "length magic_block = BLCKSZ"
  "take (Suc (length FTS_PROBE_MAGIC_STRING)) (take BLCKSZ magic_block) = FTS_PROBE_MAGIC_STRING @ [0]"
proof -
  have "replicate (BLCKSZ - 45) (0 :: byte) = 0 # replicate (BLCKSZ - 46) 0"
    using replicate_Suc [of "BLCKSZ - 46" "0 :: byte"] by simp
  then have block: "magic_block = FTS_PROBE_MAGIC_STRING @ 0 # replicate (BLCKSZ - 46) 0"
    by (simp add: magic_block_def magic_length)
  show "take (Suc (length FTS_PROBE_MAGIC_STRING)) (take BLCKSZ magic_block) = FTS_PROBE_MAGIC_STRING @ [0]"
    unfolding block by (simp add: take_Cons' magic_length)
qed (simp add: magic_block_def magic_length)

section \<open>Properties\<close>

text \<open>Every message the prober prints for 32-bit ids is recognised by the segment and reaches the handler of
  its kind, after a warning when it was meant for another segment.\<close>

theorem message_dispatch:
  assumes "t \<in> fts_words" and "d \<in> {- (2 ^ 31)..<2 ^ 31}" and "c \<in> {- (2 ^ 31)..<2 ^ 31}"
  shows "HandleFtsMessage env (fts_msg_print t d c) seg =
    (let seg = warn_mismatch d c seg
     in if t = FTS_MSG_PROBE then send_response env t (HandleFtsWalRepProbe env seg)
        else if t = FTS_MSG_SYNCREP_OFF
        then send_response env t (apfst Inr (HandleFtsWalRepSyncRepOff env seg))
        else send_response env t (HandleFtsWalRepPromote env seg))"
  using handle_printed [OF assms] by simp


text \<open>A promotion is idempotent: after an accepted promote message, the same message handled again, whatever
  the state of the database has become meanwhile, gives the same response, leaves the replication
  slots and the synchronous standby setting as they are, and the slot keeps the log from a valid
  position on.\<close>

theorem promote_idempotent:
  assumes "HandleFtsWalRepPromote env seg = (Inr r, seg1)"
    and "seg_dbstate seg = DB_IN_ARCHIVE_RECOVERY" and "seg_redo seg \<noteq> 0"
    and "\<forall>s \<in> set (seg_slots seg). slot_match INTERNAL_WAL_REPLICATION_SLOT_NAME s \<longrightarrow>
           slot_persistency s = RS_PERSISTENT"
  shows "\<exists>seg2. HandleFtsWalRepPromote env' (seg1\<lparr>seg_dbstate := st, seg_redo := redo\<rparr>) = (Inr r, seg2) \<and>
    seg_slots seg2 = seg_slots seg1 \<and> seg_promote_signalled seg2 \<and>
    gp_replication_conf (seg_shm seg2) = gp_replication_conf (seg_shm seg1) \<and>
    (\<exists>s \<in> set (seg_slots seg2). slot_match INTERNAL_WAL_REPLICATION_SLOT_NAME s \<and> slot_restart_lsn s \<noteq> 0)"
proof -
  let ?n = INTERNAL_WAL_REPLICATION_SLOT_NAME
  from assms(1-3) obtain slots where
    c: "CreateReplicationSlotOnPromote env ?n (seg_slots seg) = Inr slots"
    and r: "r = empty_response\<lparr>fr_IsRoleMirror := seg_am_mirror seg\<rparr>"
    and seg1: "seg1 = seg\<lparr>seg_shm := UnsetSyncStandbysDefined (seg_shm seg), seg_slots := slots,
      seg_promote_signalled := True\<rparr>"
    by (auto simp: HandleFtsWalRepPromote_def Let_def split: sum.splits)
  from create_on_promote_reserved [OF c assms(4)] have res: "slot_reserved ?n slots" .
  then have "CreateReplicationSlotOnPromote env' ?n slots = Inr slots" by (rule reserved_unchanged)
  moreover from res have "\<exists>s \<in> set slots. slot_match ?n s \<and> slot_restart_lsn s \<noteq> 0"
    unfolding slot_reserved_def by fastforce
  moreover have "gp_replication_conf (UnsetSyncStandbysDefined (UnsetSyncStandbysDefined shm)) =
      gp_replication_conf (UnsetSyncStandbysDefined shm)" for shm
    by (simp add: UnsetSyncStandbysDefined_def FTSReplicationStatusDrop_def)
  ultimately show ?thesis
    by (cases "st = DB_IN_ARCHIVE_RECOVERY \<and> redo \<noteq> 0")
      (auto simp: HandleFtsWalRepPromote_def seg1 r Let_def)
qed

text \<open>The disk check heals itself: on a working disk a probe file that is short or corrupted fails the check
  once and is removed, the next check creates it anew, and from then on the checks succeed.\<close>

definition disk_works :: "disk_faults \<Rightarrow> bool" where
  "disk_works df \<longleftrightarrow> df_open df = None \<and> \<not> df_create df \<and> df_written df \<ge> BLCKSZ \<and>
     \<not> df_short_read df \<and> \<not> df_seek df \<and> \<not> df_unlink df"

theorem disk_check_heals:
  assumes "disk_works df" and "checkIODataDirectory df file = (Inl e, file')"
  shows "file' = None \<and> checkIODataDirectory df file' = (Inr False, Some magic_block) \<and>
    checkIODataDirectory df (Some magic_block) = (Inr False, Some magic_block)"
proof -
  have "probe_file_create df None = (False, True, Some magic_block)"
    using assms(1) by (simp add: probe_file_create_def disk_works_def)
  then have create: "checkIODataDirectory df None = (Inr False, Some magic_block)"
    using assms(1) by (simp add: checkIODataDirectory_def disk_works_def)
  have "probe_file_check df magic_block = (False, True, Some magic_block)"
    using assms(1) magic_block_shape by (simp add: probe_file_check_def disk_works_def Let_def)
  then have check: "checkIODataDirectory df (Some magic_block) = (Inr False, Some magic_block)"
    using assms(1) by (simp add: checkIODataDirectory_def disk_works_def)
  have "file' = None"
  proof (cases "file :: byte list option")
    case None
    with assms(2) create show ?thesis by simp
  next
    case (Some content)
    have "snd (probe_file_check df content) = (True, Some content)"
      by (simp add: probe_file_check_def Let_def)
    then obtain f where "probe_file_check df content = (f, True, Some content)"
      by (cases "probe_file_check df content") simp
    with assms Some show ?thesis
      by (auto simp: checkIODataDirectory_def disk_works_def split: if_splits)
  qed
  with create check show ?thesis by simp
qed


section \<open>Concrete runs\<close>

definition ex_env :: handler_env where
  "ex_env = \<lparr>he_guc = ex_rep_guc, he_now = 2000,
     he_disk = \<lparr>df_open = Some EINVAL, df_create = False, df_written = BLCKSZ, df_short_read = False,
                df_seek = False, df_unlink = False\<rparr>,
     he_pid = 77, he_wal_segment_size = 64, he_wal_rounds = [(640, 10), (704, 10)], he_conv = (\<lambda>bs. bs)\<rparr>"

definition ex_mirror :: segment where
  "ex_mirror = \<lparr>seg_shm = ex_shm, seg_am_mirror = True, seg_dbid = 5, seg_segindex = 0,
     seg_dbstate = DB_IN_ARCHIVE_RECOVERY, seg_redo = 640,
     seg_slots = [\<lparr>slot_in_use = False, slot_name = '''', slot_persistency = RS_PERSISTENT,
                   slot_restart_lsn = 0, slot_active_pid = 0\<rparr>],
     seg_promote_signalled = False, seg_probe_file = None, seg_log = []\<rparr>"

definition ex_promoted :: segment where
  "ex_promoted = ex_mirror\<lparr>seg_shm := UnsetSyncStandbysDefined ex_shm,
     seg_slots := [\<lparr>slot_in_use = True, slot_name = INTERNAL_WAL_REPLICATION_SLOT_NAME,
                    slot_persistency = RS_PERSISTENT, slot_restart_lsn = 704, slot_active_pid = 0\<rparr>],
     seg_promote_signalled := True\<rparr>"






theorem message_dispatch_witness:
  "HandleFtsMessage ex_env (fts_msg_print FTS_MSG_PROMOTE 5 0) ex_mirror =
     send_response ex_env FTS_MSG_PROMOTE (HandleFtsWalRepPromote ex_env (warn_mismatch 5 0 ex_mirror))"
  using message_dispatch [of FTS_MSG_PROMOTE 5 0 ex_env ex_mirror] by (simp add: fts_words_def)


theorem promote_idempotent_witness:
  "\<exists>seg2. HandleFtsWalRepPromote ex_env (ex_promoted\<lparr>seg_dbstate := DB_IN_PRODUCTION, seg_redo := 800\<rparr>) =
     (Inr (empty_response\<lparr>fr_IsRoleMirror := True\<rparr>), seg2) \<and> seg_slots seg2 = seg_slots ex_promoted"
proof -
  have "HandleFtsWalRepPromote ex_env ex_mirror = (Inr (empty_response\<lparr>fr_IsRoleMirror := True\<rparr>), ex_promoted)"
    by (simp add: HandleFtsWalRepPromote_def ex_mirror_def ex_promoted_def ex_env_def
        CreateReplicationSlotOnPromote_def ReplicationSlotCreate_def ReplicationSlotValidateName_def
        slot_name_char_def ReplicationSlotRelease_def)
  from promote_idempotent [OF this, of ex_env 800 DB_IN_PRODUCTION] show ?thesis
    by (auto simp: ex_mirror_def)
qed

theorem disk_check_heals_witness:
  "\<exists>df. disk_works df \<and> checkIODataDirectory df (Some []) = (Inl DiskIOCheckFailed, None) \<and>
        checkIODataDirectory df None = (Inr False, Some magic_block)"
proof -
  let ?df = "\<lparr>df_open = None, df_create = False, df_written = BLCKSZ, df_short_read = False,
     df_seek = False, df_unlink = False\<rparr>"
  have w: "disk_works ?df" by (simp add: disk_works_def)
  have "checkIODataDirectory ?df (Some []) = (Inl DiskIOCheckFailed, None)"
    by (simp add: checkIODataDirectory_def probe_file_check_def)
  with disk_check_heals [OF w this] w show ?thesis by blast
qed


end
