(* ===== verification/Fts_Loop.thy ===== *)
theory Fts_Loop
  imports Fts_Catalog
begin

text \<open>
  The main loop of the FTS process and how other processes use its result: one pass of
  \<open>FtsLoop\<close> (\<open>fts.c\<close>), the dump of the configuration that backends outside a transaction read
  (\<open>cdbutil.c\<close>), the shared status (\<open>cdbfts.c\<close>), and the rendezvous \<open>FtsNotifyProber\<close> of a backend
  with the prober, as interleaved steps over the shared counters.
\<close>

unbundle bit_operations_syntax

section \<open>The dump of the configuration\<close>

abbreviation (input) COORDINATOR_CONTENT_ID :: int where "COORDINATOR_CONTENT_ID \<equiv> -1"


text \<open>One line of the file: \<open>"%d %d %c %c %c %c %d %s %s %s\n"\<close>.\<close>

definition print_config :: "GpSegConfigEntry \<Rightarrow> string" where
  "print_config r =
     print_int (gsc_dbid r) @ '' '' @ print_int (gsc_segindex r) @ '' '' @ [gsc_role r] @ '' '' @
     [gsc_preferred_role r] @ '' '' @ [gsc_mode r] @ '' '' @ [gsc_status r] @ '' '' @
     print_int (gsc_port r) @ '' '' @ gsc_hostname r @ '' '' @ gsc_address r @ '' '' @
     gsc_datadir r @ [CHR 0x0A]"

definition writeGpSegConfigToFTSFiles :: "GpSegConfigEntry list \<Rightarrow> string" where
  "writeGpSegConfigToFTSFiles rows = concat (map print_config rows)"











section \<open>One pass of the loop\<close>

record fts_loop =
  lp_cat :: fts_catalog
  lp_probe_requested :: bool
  lp_skip_fts_probe :: bool
  lp_dump :: "string option"

abbreviation lp_info :: "fts_loop \<Rightarrow> FtsProbeInfo" where
  "lp_info lp \<equiv> ftsProbeInfo (lp_cat lp)"


definition readCdbComponentInfoAndUpdateStatus :: "CdbComponentDatabases \<Rightarrow> fts_loop \<Rightarrow> fts_loop" where
  "readCdbComponentInfoAndUpdateStatus cdbs lp =
     (let st = fold (\<lambda>seg st. st(gsc_dbid seg :=
                  (if \<not> SEGMENT_IS_ALIVE seg then FTS_STATUS_SET_DOWN 0 else 0)))
                (segment_db_info cdbs) (fpi_status (lp_info lp));
          info = (lp_info lp)\<lparr>fpi_status := st\<rparr>;
          cat = lp_cat lp
      in if fpi_status_version info = 0
         then lp\<lparr>lp_cat := cat\<lparr>ftsProbeInfo := info\<lparr>fpi_status_version := fpi_status_version info + 1\<rparr>\<rparr>,
                 lp_dump := Some (writeGpSegConfigToFTSFiles (gp_segment_configuration cat))\<rparr>
         else lp\<lparr>lp_cat := cat\<lparr>ftsProbeInfo := info\<rparr>\<rparr>)"




definition pass_timeout :: "int \<Rightarrow> int \<Rightarrow> bool \<Rightarrow> int" where
  "pass_timeout gp_fts_probe_interval elapsed probe_requested =
     (let timeout = (if elapsed \<ge> gp_fts_probe_interval then 0 else gp_fts_probe_interval - elapsed)
      in if probe_requested then 0 else timeout)"

definition FtsIsActive :: "fts_loop \<Rightarrow> bool" where
  "FtsIsActive lp \<longleftrightarrow> \<not> lp_skip_fts_probe lp"

section \<open>Readers of the shared status\<close>

text \<open>A segment as the dispatcher knows it; its table may have been built from a topology file.\<close>

record seg_desc =
  sd_config :: GpSegConfigEntry
  sd_topology_built :: bool

definition FtsIsSegmentDown :: "FtsProbeInfo \<Rightarrow> seg_desc \<Rightarrow> bool" where
  "FtsIsSegmentDown info dBInfo \<longleftrightarrow>
     (if gsc_segindex (sd_config dBInfo) = COORDINATOR_CONTENT_ID then False
      else if sd_topology_built dBInfo then False
      else FTS_STATUS_IS_DOWN (fpi_status info (gsc_dbid (sd_config dBInfo))))"

fun FtsTestSegmentDBIsDown :: "FtsProbeInfo \<Rightarrow> seg_desc list \<Rightarrow> bool" where
  "FtsTestSegmentDBIsDown info [] \<longleftrightarrow> False"
| "FtsTestSegmentDBIsDown info (d # ds) \<longleftrightarrow>
     (if FtsIsSegmentDown info d then True else FtsTestSegmentDBIsDown info ds)"


section \<open>The rendezvous\<close>







section \<open>The counters\<close>












lemma counter_ahead:
  assumes "k \<le> d" and "d - k < 2 ^ 31"
  shows "sint (of_nat d - of_nat k :: 32 word) \<ge> 0"
proof -
  have "(of_nat d - of_nat k :: 32 word) = of_int (int (d - k))"
    using assms(1) by (simp add: of_nat_diff)
  moreover have "sint (of_int (int (d - k)) :: 32 word) = int (d - k)"
    using assms(2) by (intro sint_of_int32) auto
  ultimately show ?thesis by simp
qed






section \<open>The shared status follows the catalog\<close>










lemma readCdb_rows [simp]:
  "gp_segment_configuration (lp_cat (readCdbComponentInfoAndUpdateStatus cdbs lp)) =
     gp_segment_configuration (lp_cat lp)"
  "catalog_row (lp_cat (readCdbComponentInfoAndUpdateStatus cdbs lp)) = catalog_row (lp_cat lp)"
  by (auto simp: readCdbComponentInfoAndUpdateStatus_def catalog_row_def Let_def)

lemma readCdb_cluster_ok [simp]:
  "cluster_ok cdbs (lp_cat (readCdbComponentInfoAndUpdateStatus cdbs' lp)) = cluster_ok cdbs (lp_cat lp)"
  by (simp add: cluster_ok_def Let_def)













section \<open>Reading the dump back\<close>












section \<open>Properties\<close>







section \<open>Concrete runs\<close>















end
