(* ===== verification/Gdd_Detector.thy ===== *)
theory Gdd_Detector
  imports Prelude
begin

text \<open>
  The algorithm of the global deadlock detector, \<open>gdddetector.c\<close>.  The wait-for graphs of the
  segments are kept in a context: edges are objects of a store (their index is the pointer), a vertex
  is reached by its segment and its id, the keys of the two maps that hold it, and the counters of
  degrees are updated with every link and unlink.
\<close>

type_synonym vid = "64 word"

section \<open>The data\<close>

record GddStat =
  stat_id :: vid
  indeg :: int
  outdeg :: int

record GddEdge =
  edge_solid :: bool
  edge_seg :: int
  edge_from :: vid
  edge_to :: vid

record GddVert =
  vert_id :: vid
  edgesIn :: "nat list"
  edgesOut :: "nat list"

record GddGraph =
  graph_id :: int
  graph_verts :: "(vid \<times> GddVert) list"

record GddCtx =
  topstat :: GddStat
  globals :: "(vid \<times> GddStat) list"
  graphs :: "(int \<times> GddGraph) list"
  edge_store :: "GddEdge list"

section \<open>Maps\<close>

text \<open>A map is an array of pairs, searched from the front.\<close>

definition gddMapGet :: "('k \<times> 'v) list \<Rightarrow> 'k \<Rightarrow> 'v option" where
  "gddMapGet m key = map_option snd (find (\<lambda>pair. fst pair = key) m)"

definition gddMapSetUnsafe :: "('k \<times> 'v) list \<Rightarrow> 'k \<Rightarrow> 'v \<Rightarrow> ('k \<times> 'v) list" where
  "gddMapSetUnsafe m key ptr = m @ [(key, ptr)]"

text \<open>Writing through the pointer of a key.\<close>

definition gddMapUpdate :: "('k \<times> 'v) list \<Rightarrow> 'k \<Rightarrow> ('v \<Rightarrow> 'v) \<Rightarrow> ('k \<times> 'v) list" where
  "gddMapUpdate m key f = map (\<lambda>(k, v). (k, if k = key then f v else v)) m"

text \<open>Deletion at a position: the last pair takes its place.\<close>

definition gdd_map_iter_delete :: "nat \<Rightarrow> ('k \<times> 'v) list \<Rightarrow> ('k \<times> 'v) list" where
  "gdd_map_iter_delete pos m = butlast (m[pos := last m])"

section \<open>Building the graphs\<close>

definition gddStatInit :: "vid \<Rightarrow> GddStat" where
  "gddStatInit v = \<lparr>stat_id = v, indeg = 0, outdeg = 0\<rparr>"

definition gddGraphNew :: "int \<Rightarrow> GddGraph" where
  "gddGraphNew segid = \<lparr>graph_id = segid, graph_verts = []\<rparr>"

definition gddVertNew :: "vid \<Rightarrow> GddVert" where
  "gddVertNew v = \<lparr>vert_id = v, edgesIn = [], edgesOut = []\<rparr>"

definition GddCtxNew :: GddCtx where
  "GddCtxNew = \<lparr>topstat = gddStatInit 0, globals = [], graphs = [], edge_store = []\<rparr>"

definition gddCtxGetGraph :: "GddCtx \<Rightarrow> int \<Rightarrow> GddCtx" where
  "gddCtxGetGraph ctx segid =
     (if gddMapGet (graphs ctx) segid = None
      then ctx\<lparr>graphs := gddMapSetUnsafe (graphs ctx) segid (gddGraphNew segid)\<rparr> else ctx)"

definition gddCtxGetGlobalStat :: "GddCtx \<Rightarrow> vid \<Rightarrow> GddCtx" where
  "gddCtxGetGlobalStat ctx v =
     (if gddMapGet (globals ctx) v = None
      then ctx\<lparr>globals := gddMapSetUnsafe (globals ctx) v (gddStatInit v)\<rparr> else ctx)"

definition gddGraphGetVert :: "GddGraph \<Rightarrow> vid \<Rightarrow> GddGraph" where
  "gddGraphGetVert graph v =
     (if gddMapGet (graph_verts graph) v = None
      then graph\<lparr>graph_verts := gddMapSetUnsafe (graph_verts graph) v (gddVertNew v)\<rparr> else graph)"

definition gddGraphMakeEdge :: "GddGraph \<Rightarrow> vid \<Rightarrow> vid \<Rightarrow> GddGraph" where
  "gddGraphMakeEdge graph from to = gddGraphGetVert (gddGraphGetVert graph from) to"

definition update_vert :: "int \<Rightarrow> vid \<Rightarrow> (GddVert \<Rightarrow> GddVert) \<Rightarrow> GddCtx \<Rightarrow> GddCtx" where
  "update_vert segid v f ctx =
     ctx\<lparr>graphs := gddMapUpdate (graphs ctx) segid
           (\<lambda>g. g\<lparr>graph_verts := gddMapUpdate (graph_verts g) v f\<rparr>)\<rparr>"

definition gddEdgeLink :: "nat \<Rightarrow> GddCtx \<Rightarrow> GddCtx" where
  "gddEdgeLink e ctx =
     (let edge = edge_store ctx ! e; seg = edge_seg edge; from = edge_from edge; to = edge_to edge;
          ctx = ctx\<lparr>topstat := (topstat ctx)\<lparr>outdeg := outdeg (topstat ctx) + 1\<rparr>\<rparr>;
          ctx = ctx\<lparr>topstat := (topstat ctx)\<lparr>indeg := indeg (topstat ctx) + 1\<rparr>\<rparr>;
          ctx = ctx\<lparr>globals := gddMapUpdate (globals ctx) from (\<lambda>s. s\<lparr>outdeg := outdeg s + 1\<rparr>)\<rparr>;
          ctx = ctx\<lparr>globals := gddMapUpdate (globals ctx) to (\<lambda>s. s\<lparr>indeg := indeg s + 1\<rparr>)\<rparr>;
          ctx = update_vert seg from (\<lambda>w. w\<lparr>edgesOut := edgesOut w @ [e]\<rparr>) ctx
      in update_vert seg to (\<lambda>w. w\<lparr>edgesIn := edgesIn w @ [e]\<rparr>) ctx)"

definition GddCtxAddEdge :: "GddEdge \<Rightarrow> GddCtx \<Rightarrow> GddCtx" where
  "GddCtxAddEdge edge ctx =
     (let ctx = gddCtxGetGraph ctx (edge_seg edge);
          ctx = ctx\<lparr>graphs := gddMapUpdate (graphs ctx) (edge_seg edge)
                       (\<lambda>g. gddGraphMakeEdge g (edge_from edge) (edge_to edge)),
                    edge_store := edge_store ctx @ [edge]\<rparr>;
          ctx = gddCtxGetGlobalStat ctx (edge_from edge);
          ctx = gddCtxGetGlobalStat ctx (edge_to edge)
      in gddEdgeLink (length (edge_store ctx) - 1) ctx)"

section \<open>Reducing\<close>

definition gddEdgeUnlinkFrom :: "nat \<Rightarrow> GddCtx \<Rightarrow> GddCtx" where
  "gddEdgeUnlinkFrom e ctx =
     (let edge = edge_store ctx ! e;
          ctx = ctx\<lparr>topstat := (topstat ctx)\<lparr>outdeg := outdeg (topstat ctx) - 1\<rparr>\<rparr>;
          ctx = ctx\<lparr>globals := gddMapUpdate (globals ctx) (edge_from edge)
                       (\<lambda>s. s\<lparr>outdeg := outdeg s - 1\<rparr>)\<rparr>
      in update_vert (edge_seg edge) (edge_from edge) (\<lambda>w. w\<lparr>edgesOut := remove1 e (edgesOut w)\<rparr>) ctx)"

definition gddEdgeUnlinkTo :: "nat \<Rightarrow> GddCtx \<Rightarrow> GddCtx" where
  "gddEdgeUnlinkTo e ctx =
     (let edge = edge_store ctx ! e;
          ctx = ctx\<lparr>topstat := (topstat ctx)\<lparr>indeg := indeg (topstat ctx) - 1\<rparr>\<rparr>;
          ctx = ctx\<lparr>globals := gddMapUpdate (globals ctx) (edge_to edge)
                       (\<lambda>s. s\<lparr>indeg := indeg s - 1\<rparr>)\<rparr>
      in update_vert (edge_seg edge) (edge_to edge) (\<lambda>w. w\<lparr>edgesIn := remove1 e (edgesIn w)\<rparr>) ctx)"

definition gddEdgeUnlink :: "nat \<Rightarrow> GddCtx \<Rightarrow> GddCtx" where
  "gddEdgeUnlink e ctx = gddEdgeUnlinkTo e (gddEdgeUnlinkFrom e ctx)"

definition gddGraphVert :: "GddCtx \<Rightarrow> int \<Rightarrow> vid \<Rightarrow> GddVert" where
  "gddGraphVert ctx segid v =
     (case gddMapGet (graphs ctx) segid of
        None \<Rightarrow> gddVertNew v
      | Some g \<Rightarrow> (case gddMapGet (graph_verts g) v of None \<Rightarrow> gddVertNew v | Some w \<Rightarrow> w))"

definition gddVertGetInDegree :: "GddVert \<Rightarrow> nat" where
  "gddVertGetInDegree w = length (edgesIn w)"

definition gddVertGetOutDegree :: "GddVert \<Rightarrow> nat" where
  "gddVertGetOutDegree w = length (edgesOut w)"

definition gddVertUnlinkAll :: "int \<Rightarrow> vid \<Rightarrow> GddCtx \<Rightarrow> bool \<times> GddCtx" where
  "gddVertUnlinkAll segid v ctx =
     (let ins = edgesIn (gddGraphVert ctx segid v);
          ctx = fold gddEdgeUnlink ins ctx;
          outs = edgesOut (gddGraphVert ctx segid v);
          ctx = fold gddEdgeUnlink outs ctx
      in (ins \<noteq> [] \<or> outs \<noteq> [], ctx))"

definition global_stat :: "GddCtx \<Rightarrow> vid \<Rightarrow> GddStat" where
  "global_stat ctx v = (case gddMapGet (globals ctx) v of None \<Rightarrow> gddStatInit v | Some s \<Rightarrow> s)"

definition gddVertReduce :: "int \<Rightarrow> vid \<Rightarrow> GddCtx \<Rightarrow> bool \<times> GddCtx" where
  "gddVertReduce segid v ctx =
     (let global = global_stat ctx v
      in if indeg global = 0 \<or> outdeg global = 0 then gddVertUnlinkAll segid v ctx
         else if gddVertGetOutDegree (gddGraphVert ctx segid v) = 0
         then let dotted = filter (\<lambda>e. \<not> edge_solid (edge_store ctx ! e)) (edgesIn (gddGraphVert ctx segid v))
              in (dotted \<noteq> [], fold gddEdgeUnlink dotted ctx)
         else (False, ctx))"

definition seg_verts :: "GddCtx \<Rightarrow> int \<Rightarrow> (vid \<times> GddVert) list" where
  "seg_verts ctx segid = (case gddMapGet (graphs ctx) segid of None \<Rightarrow> [] | Some g \<Rightarrow> graph_verts g)"

definition delete_vert :: "int \<Rightarrow> nat \<Rightarrow> GddCtx \<Rightarrow> GddCtx" where
  "delete_vert segid pos ctx =
     ctx\<lparr>graphs := gddMapUpdate (graphs ctx) segid
           (\<lambda>g. g\<lparr>graph_verts := gdd_map_iter_delete pos (graph_verts g)\<rparr>)\<rparr>"

text \<open>
  The loop over the vertices of a graph from a position on; a deletion is followed by the vertex that
  took the place.
\<close>

lemma gddMapGet_simps [simp]:
  "gddMapGet [] k = None" "gddMapGet ((k', v) # m) k = (if k' = k then Some v else gddMapGet m k)"
  by (simp_all add: gddMapGet_def)

lemma gddMapUpdate_simps [simp]:
  "gddMapUpdate [] k f = []" "gddMapUpdate ((k', v) # m) k f = (k', if k' = k then f v else v) # gddMapUpdate m k f"
  by (simp_all add: gddMapUpdate_def)

lemma gddMapUpdate_map [simp]:
  "length (gddMapUpdate m k f) = length m" "map fst (gddMapUpdate m k f) = map fst m"
  by (simp_all add: gddMapUpdate_def comp_def split_def)

lemma gddMapGet_update [simp]:
  "gddMapGet (gddMapUpdate m k f) k' = (if k' = k then map_option f (gddMapGet m k') else gddMapGet m k')"
  by (induction m) auto

lemma seg_verts_update_vert [simp]:
  "seg_verts (update_vert s v f ctx) s' =
     (if s' = s then gddMapUpdate (seg_verts ctx s') v f else seg_verts ctx s')"
  by (auto simp: seg_verts_def update_vert_def split: option.splits)

lemma seg_verts_simps [simp]:
  "seg_verts (ctx\<lparr>topstat := t\<rparr>) s = seg_verts ctx s" "seg_verts (ctx\<lparr>globals := g\<rparr>) s = seg_verts ctx s"
  by (simp_all add: seg_verts_def)

lemma seg_verts_unlink [simp]: "map fst (seg_verts (gddEdgeUnlink e ctx) s) = map fst (seg_verts ctx s)"
  by (auto simp: gddEdgeUnlink_def gddEdgeUnlinkFrom_def gddEdgeUnlinkTo_def Let_def)

lemma seg_verts_unlinks [simp]: "map fst (seg_verts (fold gddEdgeUnlink es ctx) s) = map fst (seg_verts ctx s)"
  by (induction es arbitrary: ctx) auto

lemma gddVertReduce_verts: "map fst (seg_verts (snd (gddVertReduce s v ctx)) s') = map fst (seg_verts ctx s')"
  by (auto simp: gddVertReduce_def gddVertUnlinkAll_def Let_def)

lemma seg_verts_delete:
  "pos < length (seg_verts ctx s) \<Longrightarrow> length (seg_verts (delete_vert s pos ctx) s) = length (seg_verts ctx s) - 1"
  by (auto simp: seg_verts_def delete_vert_def gdd_map_iter_delete_def split: option.splits)

function reduce_verts :: "int \<Rightarrow> nat \<Rightarrow> GddCtx \<Rightarrow> bool \<times> GddCtx" where
  "reduce_verts segid pos ctx =
     (if pos < length (seg_verts ctx segid) then
        let v = fst (seg_verts ctx segid ! pos);
            (dirty, ctx') = gddVertReduce segid v ctx;
            vert = gddGraphVert ctx' segid v
        in if gddVertGetInDegree vert = 0 \<and> gddVertGetOutDegree vert = 0
           then let (d, ctx'') = reduce_verts segid pos (delete_vert segid pos ctx') in (dirty \<or> d, ctx'')
           else let (d, ctx'') = reduce_verts segid (Suc pos) ctx' in (dirty \<or> d, ctx'')
      else (False, ctx))"
  by pat_completeness auto

termination reduce_verts
proof (relation "measure (\<lambda>(segid, pos, ctx). length (seg_verts ctx segid) - pos)", goal_cases)
  case (2 segid pos ctx v p dirty ctx' vert)
  then have "length (seg_verts ctx' segid) = length (seg_verts ctx segid)"
    using gddVertReduce_verts [of segid v ctx segid] by (metis length_map snd_conv)
  with 2 seg_verts_delete [of pos ctx' segid] show ?case by simp
next
  case (3 segid pos ctx v p dirty ctx' vert)
  then have "length (seg_verts ctx' segid) = length (seg_verts ctx segid)"
    using gddVertReduce_verts [of segid v ctx segid] by (metis length_map snd_conv)
  with 3 show ?case by simp
qed simp

declare reduce_verts.simps [simp del]

definition reduce_pass :: "GddCtx \<Rightarrow> bool \<times> GddCtx" where
  "reduce_pass ctx =
     fold (\<lambda>segid (dirty, ctx). let (d, ctx) = reduce_verts segid 0 ctx in (dirty \<or> d, ctx))
       (map fst (graphs ctx)) (False, ctx)"

partial_function (option) GddCtxReduce :: "GddCtx \<Rightarrow> GddCtx option" where
  "GddCtxReduce ctx =
     (case reduce_pass ctx of (dirty, ctx') \<Rightarrow> if dirty then GddCtxReduce ctx' else Some ctx')"

section \<open>Breaking deadlocks\<close>

definition GddCtxEmpty :: "GddCtx \<Rightarrow> bool" where
  "GddCtxEmpty ctx \<longleftrightarrow> indeg (topstat ctx) = 0"

fun find_vid :: "nat \<Rightarrow> vid \<Rightarrow> (vid \<times> GddVert) list \<Rightarrow> nat option" where
  "find_vid pos v [] = None"
| "find_vid pos v ((k, w) # m) = (if k = v then Some pos else find_vid (Suc pos) v m)"

definition gddGraphRemoveVid :: "vid \<Rightarrow> int \<Rightarrow> GddCtx \<Rightarrow> GddCtx" where
  "gddGraphRemoveVid v segid ctx =
     (case find_vid 0 v (seg_verts ctx segid) of
        None \<Rightarrow> ctx
      | Some pos \<Rightarrow> delete_vert segid pos (snd (gddVertUnlinkAll segid v ctx)))"

definition gddCtxRemoveVid :: "GddCtx \<Rightarrow> vid \<Rightarrow> GddCtx" where
  "gddCtxRemoveVid ctx v = fold (gddGraphRemoveVid v) (map fst (graphs ctx)) ctx"

definition all_verts :: "GddCtx \<Rightarrow> GddVert list" where
  "all_verts ctx = concat (map (\<lambda>(s, g). map snd (graph_verts g)) (graphs ctx))"

definition gddCtxGetMaxVid :: "GddCtx \<Rightarrow> vid" where
  "gddCtxGetMaxVid ctx =
     fold (\<lambda>vert maxvid. if gddVertGetInDegree vert \<noteq> 0 \<or> gddVertGetOutDegree vert \<noteq> 0
                         then max maxvid (vert_id vert) else maxvid) (all_verts ctx) 0"

partial_function (option) GddCtxBreakDeadLock :: "GddCtx \<Rightarrow> (vid list \<times> GddCtx) option" where
  "GddCtxBreakDeadLock ctx =
     (if GddCtxEmpty ctx then Some ([], ctx)
      else let maxvid = gddCtxGetMaxVid ctx
           in Option.bind (GddCtxReduce (gddCtxRemoveVid ctx maxvid)) (\<lambda>ctx.
              Option.bind (GddCtxBreakDeadLock ctx) (\<lambda>(vids, ctx). Some (maxvid # vids, ctx))))"

section \<open>The edges of a context\<close>

abbreviation outs :: "GddCtx \<Rightarrow> int \<Rightarrow> vid \<Rightarrow> nat list" where
  "outs ctx s v \<equiv> edgesOut (gddGraphVert ctx s v)"

abbreviation ins :: "GddCtx \<Rightarrow> int \<Rightarrow> vid \<Rightarrow> nat list" where
  "ins ctx s v \<equiv> edgesIn (gddGraphVert ctx s v)"

text \<open>A context represents a set of edges: the lists of the vertices, the counters and the keys agree with it.\<close>

definition gdd_rel :: "GddEdge list \<Rightarrow> nat set \<Rightarrow> GddCtx \<Rightarrow> bool" where
  "gdd_rel es L ctx \<longleftrightarrow>
     edge_store ctx = es \<and> L \<subseteq> {..<length es} \<and>
     (\<forall>s v. distinct (outs ctx s v) \<and> set (outs ctx s v) = {e \<in> L. edge_seg (es ! e) = s \<and> edge_from (es ! e) = v}) \<and>
     (\<forall>s v. distinct (ins ctx s v) \<and> set (ins ctx s v) = {e \<in> L. edge_seg (es ! e) = s \<and> edge_to (es ! e) = v}) \<and>
     (\<forall>v. outdeg (global_stat ctx v) = int (card {e \<in> L. edge_from (es ! e) = v}) \<and>
          indeg (global_stat ctx v) = int (card {e \<in> L. edge_to (es ! e) = v})) \<and>
     (\<forall>e \<in> L. gddMapGet (globals ctx) (edge_from (es ! e)) \<noteq> None \<and>
              gddMapGet (globals ctx) (edge_to (es ! e)) \<noteq> None) \<and>
     outdeg (topstat ctx) = int (card L) \<and> indeg (topstat ctx) = int (card L) \<and>
     distinct (map fst (graphs ctx)) \<and> (\<forall>s. distinct (map fst (seg_verts ctx s))) \<and>
     (\<forall>s. \<forall>(k, w) \<in> set (seg_verts ctx s). vert_id w = k)"

lemma gddGraphVert_alt:
  "gddGraphVert ctx s v = (case gddMapGet (seg_verts ctx s) v of None \<Rightarrow> gddVertNew v | Some w \<Rightarrow> w)"
  by (auto simp: gddGraphVert_def seg_verts_def split: option.splits)

lemma gddGraphVert_simps [simp]:
  "gddGraphVert (ctx\<lparr>topstat := t\<rparr>) s v = gddGraphVert ctx s v"
  "gddGraphVert (ctx\<lparr>globals := g\<rparr>) s v = gddGraphVert ctx s v"
  by (simp_all add: gddGraphVert_alt)

lemma gddGraphVert_update:
  assumes "gddMapGet (seg_verts ctx s) v \<noteq> None \<or> f (gddVertNew v) = gddVertNew v"
  shows "gddGraphVert (update_vert s v f ctx) s' v' =
    (if s' = s \<and> v' = v then f (gddGraphVert ctx s v) else gddGraphVert ctx s' v')"
  using assms by (auto simp: gddGraphVert_alt split: option.splits)

lemma update_vert_simps [simp]:
  "topstat (update_vert s v f ctx) = topstat ctx" "globals (update_vert s v f ctx) = globals ctx"
  "edge_store (update_vert s v f ctx) = edge_store ctx"
  "map fst (graphs (update_vert s v f ctx)) = map fst (graphs ctx)"
  by (simp_all add: update_vert_def)

text \<open>Unlinking an edge.\<close>

lemma unlink_fields [simp]:
  "edge_store (gddEdgeUnlink e ctx) = edge_store ctx"
  "map fst (graphs (gddEdgeUnlink e ctx)) = map fst (graphs ctx)"
  "indeg (topstat (gddEdgeUnlink e ctx)) = indeg (topstat ctx) - 1"
  "outdeg (topstat (gddEdgeUnlink e ctx)) = outdeg (topstat ctx) - 1"
  by (simp_all add: gddEdgeUnlink_def gddEdgeUnlinkFrom_def gddEdgeUnlinkTo_def Let_def)

lemma unlink_verts:
  "outs (gddEdgeUnlink e ctx) s v =
     (if s = edge_seg (edge_store ctx ! e) \<and> v = edge_from (edge_store ctx ! e)
      then remove1 e (outs ctx s v) else outs ctx s v)"
  "ins (gddEdgeUnlink e ctx) s v =
     (if s = edge_seg (edge_store ctx ! e) \<and> v = edge_to (edge_store ctx ! e)
      then remove1 e (ins ctx s v) else ins ctx s v)"
  by (auto simp: gddEdgeUnlink_def gddEdgeUnlinkFrom_def gddEdgeUnlinkTo_def Let_def
      gddGraphVert_update gddVertNew_def)

lemma unlink_globals:
  "gddMapGet (globals (gddEdgeUnlink e ctx)) v =
     map_option (\<lambda>s. s\<lparr>outdeg := outdeg s - (if v = edge_from (edge_store ctx ! e) then 1 else 0),
                       indeg := indeg s - (if v = edge_to (edge_store ctx ! e) then 1 else 0)\<rparr>)
       (gddMapGet (globals ctx) v)"
  by (auto simp: gddEdgeUnlink_def gddEdgeUnlinkFrom_def gddEdgeUnlinkTo_def Let_def
      option.map_comp comp_def option.map_ident intro!: option.map_cong)

lemma unlink_ids:
  "\<forall>(k, w) \<in> set (seg_verts ctx s). vert_id w = k \<Longrightarrow>
   \<forall>(k, w) \<in> set (seg_verts (gddEdgeUnlink e ctx) s). vert_id w = k"
  by (auto simp: gddEdgeUnlink_def gddEdgeUnlinkFrom_def gddEdgeUnlinkTo_def Let_def gddMapUpdate_def)

lemma card_remove:
  assumes "finite L" and "e \<in> L"
  shows "int (card {x \<in> L - {e}. P x}) = int (card {x \<in> L. P x}) - (if P e then 1 else 0)"
proof (cases "P e")
  case True
  have "{x \<in> L - {e}. P x} = {x \<in> L. P x} - {e}" by auto
  moreover have "card {x \<in> L. P x} > 0" using assms True by (auto simp: card_gt_0_iff)
  ultimately show ?thesis using assms True by (simp add: of_nat_diff)
next
  case False
  then have "{x \<in> L - {e}. P x} = {x \<in> L. P x}" by auto
  with False show ?thesis by simp
qed

lemma gdd_relD:
  assumes "gdd_rel es L ctx"
  shows "edge_store ctx = es" "L \<subseteq> {..<length es}" "finite L"
    "distinct (outs ctx s v)" "set (outs ctx s v) = {e \<in> L. edge_seg (es ! e) = s \<and> edge_from (es ! e) = v}"
    "distinct (ins ctx s v)" "set (ins ctx s v) = {e \<in> L. edge_seg (es ! e) = s \<and> edge_to (es ! e) = v}"
    "outdeg (global_stat ctx v) = int (card {e \<in> L. edge_from (es ! e) = v})"
    "indeg (global_stat ctx v) = int (card {e \<in> L. edge_to (es ! e) = v})"
    "outdeg (topstat ctx) = int (card L)" "indeg (topstat ctx) = int (card L)"
    "distinct (map fst (graphs ctx))" "distinct (map fst (seg_verts ctx s))"
    "(k, w) \<in> set (seg_verts ctx s) \<Longrightarrow> vert_id w = k"
  using assms by (auto simp: gdd_rel_def intro: finite_subset)

lemma gddEdgeUnlink_rel:
  assumes rel: "gdd_rel es L ctx" and e: "e \<in> L"
  shows "gdd_rel es (L - {e}) (gddEdgeUnlink e ctx)"
proof -
  note d = gdd_relD [OF rel]
  let ?c = "gddEdgeUnlink e ctx"
  have g: "gddMapGet (globals ctx) (edge_from (es ! e)) \<noteq> None" "gddMapGet (globals ctx) (edge_to (es ! e)) \<noteq> None"
    using rel e by (auto simp: gdd_rel_def)
  have "outdeg (global_stat ?c v) = outdeg (global_stat ctx v) - (if edge_from (es ! e) = v then 1 else 0)"
    "indeg (global_stat ?c v) = indeg (global_stat ctx v) - (if edge_to (es ! e) = v then 1 else 0)" for v
    using g d(1) by (auto simp: global_stat_def unlink_globals split: option.splits)
  then have 1: "\<forall>v. outdeg (global_stat ?c v) = int (card {x \<in> L - {e}. edge_from (es ! x) = v}) \<and>
      indeg (global_stat ?c v) = int (card {x \<in> L - {e}. edge_to (es ! x) = v})"
    using card_remove [OF d(3) e] d(8,9) by simp
  have 2: "\<forall>s v. distinct (outs ?c s v) \<and>
      set (outs ?c s v) = {x \<in> L - {e}. edge_seg (es ! x) = s \<and> edge_from (es ! x) = v}"
    using d(1,4,5) by (auto simp: unlink_verts)
  have 3: "\<forall>s v. distinct (ins ?c s v) \<and>
      set (ins ?c s v) = {x \<in> L - {e}. edge_seg (es ! x) = s \<and> edge_to (es ! x) = v}"
    using d(1,6,7) by (auto simp: unlink_verts)
  have 4: "\<forall>x \<in> L - {e}. gddMapGet (globals ?c) (edge_from (es ! x)) \<noteq> None \<and>
      gddMapGet (globals ?c) (edge_to (es ! x)) \<noteq> None"
    using rel by (auto simp: gdd_rel_def unlink_globals)
  have 5: "int (card L) - 1 = int (card (L - {e}))" using card_Suc_Diff1 [OF d(3) e] by linarith
  have 6: "\<forall>s. \<forall>(k, w) \<in> set (seg_verts ?c s). vert_id w = k"
    using rel by (auto simp: gdd_rel_def intro!: unlink_ids)
  have 7: "edge_store ?c = es" "L - {e} \<subseteq> {..<length es}" using d(1,2) by auto
  have 8: "outdeg (topstat ?c) = int (card (L - {e}))" "indeg (topstat ?c) = int (card (L - {e}))"
    using 5 d(10,11) by simp_all
  have 9: "distinct (map fst (graphs ?c))" "\<forall>s. distinct (map fst (seg_verts ?c s))" using d(12,13) by simp_all
  show ?thesis unfolding gdd_rel_def by (intro conjI 1 2 3 4 6 7 8 9)
qed

lemma gddEdgeUnlinks_rel:
  "gdd_rel es L ctx \<Longrightarrow> distinct xs \<Longrightarrow> set xs \<subseteq> L \<Longrightarrow>
     gdd_rel es (L - set xs) (fold gddEdgeUnlink xs ctx)"
proof (induction xs arbitrary: L ctx)
  case (Cons e xs)
  then have "gdd_rel es (L - {e}) (gddEdgeUnlink e ctx)" by (intro gddEdgeUnlink_rel) auto
  with Cons.IH [OF this] Cons.prems have "gdd_rel es (L - {e} - set xs) (fold gddEdgeUnlink (e # xs) ctx)"
    by auto
  moreover have "L - {e} - set xs = L - set (e # xs)" by auto
  ultimately show ?case by (simp only:)
qed simp

definition vert_edges :: "GddEdge list \<Rightarrow> int \<Rightarrow> vid \<Rightarrow> nat set" where
  "vert_edges es s v = {e. edge_seg (es ! e) = s \<and> (edge_from (es ! e) = v \<or> edge_to (es ! e) = v)}"

lemma gddVertUnlinkAll_rel:
  assumes "gdd_rel es L ctx"
  shows "gdd_rel es (L - vert_edges es s v) (snd (gddVertUnlinkAll s v ctx)) \<and>
         (fst (gddVertUnlinkAll s v ctx) \<longleftrightarrow> L \<inter> vert_edges es s v \<noteq> {})"
proof -
  note d = gdd_relD [OF assms]
  let ?I = "set (ins ctx s v)"
  let ?c = "fold gddEdgeUnlink (ins ctx s v) ctx"
  have 1: "gdd_rel es (L - ?I) ?c" using assms d(6,7) by (intro gddEdgeUnlinks_rel) auto
  note d1 = gdd_relD [OF this]
  let ?O = "set (outs ?c s v)"
  have 2: "gdd_rel es (L - ?I - ?O) (fold gddEdgeUnlink (outs ?c s v) ?c)"
    by (rule gddEdgeUnlinks_rel [OF 1 d1(4)]) (auto simp: d1(5))
  have R: "L \<inter> vert_edges es s v = ?I \<union> ?O" unfolding vert_edges_def d(7) d1(5) by auto
  then have "L - ?I - ?O = L - vert_edges es s v" by auto
  moreover have "L \<inter> vert_edges es s v \<noteq> {} \<longleftrightarrow> ins ctx s v \<noteq> [] \<or> outs ?c s v \<noteq> []"
    unfolding R by simp
  ultimately show ?thesis using 2 by (simp add: gddVertUnlinkAll_def Let_def)
qed

section \<open>What reduction keeps\<close>

text \<open>
  A set of edges is stable when none of the three rules applies to it: every edge ends in a vertex
  that waits for something, starts in a vertex that is waited for, and, when it is dotted, ends in a
  vertex that waits on the same segment.
\<close>

definition stable :: "GddEdge list \<Rightarrow> nat set \<Rightarrow> bool" where
  "stable es S \<longleftrightarrow> (\<forall>e \<in> S.
     (\<exists>f \<in> S. edge_from (es ! f) = edge_to (es ! e)) \<and> (\<exists>f \<in> S. edge_to (es ! f) = edge_from (es ! e)) \<and>
     (\<not> edge_solid (es ! e) \<longrightarrow>
        (\<exists>f \<in> S. edge_from (es ! f) = edge_to (es ! e) \<and> edge_seg (es ! f) = edge_seg (es ! e))))"

definition core :: "GddEdge list \<Rightarrow> nat set \<Rightarrow> nat set" where
  "core es L = \<Union> {S. S \<subseteq> L \<and> stable es S}"

lemma core_subset: "core es L \<subseteq> L"
  by (auto simp: core_def)

lemma core_stable: "stable es (core es L)"
  unfolding stable_def
proof
  fix e
  assume "e \<in> core es L"
  then obtain S where S: "S \<subseteq> L" "stable es S" "e \<in> S" by (auto simp: core_def)
  then have "S \<subseteq> core es L" by (auto simp: core_def)
  with S show "(\<exists>f \<in> core es L. edge_from (es ! f) = edge_to (es ! e)) \<and>
      (\<exists>f \<in> core es L. edge_to (es ! f) = edge_from (es ! e)) \<and>
      (\<not> edge_solid (es ! e) \<longrightarrow> (\<exists>f \<in> core es L. edge_from (es ! f) = edge_to (es ! e) \<and>
         edge_seg (es ! f) = edge_seg (es ! e)))"
    unfolding stable_def by (meson subsetD)
qed

lemma core_greatest: "S \<subseteq> L \<Longrightarrow> stable es S \<Longrightarrow> S \<subseteq> core es L"
  by (auto simp: core_def)

lemma core_eqI:
  assumes "L' \<subseteq> L" and "core es L \<subseteq> L'"
  shows "core es L' = core es L"
proof
  show "core es L' \<subseteq> core es L" using assms(1) by (auto simp: core_def)
  show "core es L \<subseteq> core es L'" using assms(2) core_stable by (rule core_greatest)
qed

lemma core_of_stable: "stable es L \<Longrightarrow> core es L = L"
  using core_subset core_greatest [of L L es] by blast

text \<open>A vertex to which no rule applies.\<close>

definition irreducible :: "GddEdge list \<Rightarrow> nat set \<Rightarrow> int \<Rightarrow> vid \<Rightarrow> bool" where
  "irreducible es L s v \<longleftrightarrow>
     (L \<inter> vert_edges es s v \<noteq> {} \<longrightarrow>
        (\<exists>f \<in> L. edge_from (es ! f) = v) \<and> (\<exists>f \<in> L. edge_to (es ! f) = v)) \<and>
     (\<forall>e \<in> L. edge_seg (es ! e) = s \<longrightarrow> edge_to (es ! e) = v \<longrightarrow> \<not> edge_solid (es ! e) \<longrightarrow>
        (\<exists>f \<in> L. edge_from (es ! f) = v \<and> edge_seg (es ! f) = s))"

lemma irreducible_stable:
  assumes "\<forall>e \<in> L. irreducible es L (edge_seg (es ! e)) (edge_from (es ! e)) \<and>
                   irreducible es L (edge_seg (es ! e)) (edge_to (es ! e))"
  shows "stable es L"
  using assms unfolding stable_def irreducible_def vert_edges_def by blast

lemma diff_unchanged: "D \<subseteq> L \<Longrightarrow> L - D = L \<longleftrightarrow> D = {}"
  by blast

lemma gddVertReduce_rel:
  assumes rel: "gdd_rel es L ctx"
  obtains L' where "gdd_rel es L' (snd (gddVertReduce s v ctx))" and "L' \<subseteq> L" and "core es L' = core es L"
    and "fst (gddVertReduce s v ctx) \<longleftrightarrow> L' \<noteq> L"
    and "\<not> fst (gddVertReduce s v ctx) \<Longrightarrow> irreducible es L s v"
proof -
  note d = gdd_relD [OF rel]
  have outdeg0: "outdeg (global_stat ctx v) = 0 \<longleftrightarrow> (\<forall>e \<in> L. edge_from (es ! e) \<noteq> v)"
    and indeg0: "indeg (global_stat ctx v) = 0 \<longleftrightarrow> (\<forall>e \<in> L. edge_to (es ! e) \<noteq> v)"
    using d(3,8,9) by auto
  have st: "stable es (core es L)" and sub: "core es L \<subseteq> L" by (rule core_stable, rule core_subset)
  consider (ends) "indeg (global_stat ctx v) = 0 \<or> outdeg (global_stat ctx v) = 0"
    | (dotted) "\<not> (indeg (global_stat ctx v) = 0 \<or> outdeg (global_stat ctx v) = 0)" "outs ctx s v = []"
    | (none) "\<not> (indeg (global_stat ctx v) = 0 \<or> outdeg (global_stat ctx v) = 0)" "outs ctx s v \<noteq> []"
    by blast
  then show thesis
  proof cases
    case ends
    then have "core es L \<inter> vert_edges es s v = {}"
      using st sub unfolding outdeg0 indeg0 stable_def vert_edges_def by blast
    then have "core es (L - vert_edges es s v) = core es L" using sub by (intro core_eqI) auto
    moreover have "L \<inter> vert_edges es s v = {} \<Longrightarrow> irreducible es L s v"
      unfolding irreducible_def vert_edges_def by blast
    moreover have "L \<inter> vert_edges es s v \<noteq> {} \<longleftrightarrow> L - vert_edges es s v \<noteq> L" by blast
    ultimately show thesis
      using gddVertUnlinkAll_rel [OF rel, of s v] ends
      by (intro that [of "L - vert_edges es s v"]) (auto simp: gddVertReduce_def)
  next
    case dotted
    let ?D = "filter (\<lambda>e. \<not> edge_solid (edge_store ctx ! e)) (ins ctx s v)"
    have no: "\<forall>f \<in> L. edge_from (es ! f) = v \<longrightarrow> edge_seg (es ! f) \<noteq> s" using d(5) [of s v] dotted(2) by auto
    have D: "set ?D = {e \<in> L. edge_seg (es ! e) = s \<and> edge_to (es ! e) = v \<and> \<not> edge_solid (es ! e)}"
      using d(1) d(7) [of s v] by auto
    have 1: "gdd_rel es (L - set ?D) (fold gddEdgeUnlink ?D ctx)"
      using rel d(6) [of s v] D by (intro gddEdgeUnlinks_rel) auto
    have "core es L \<inter> set ?D = {}"
      using st sub no unfolding D stable_def by blast
    then have 2: "core es (L - set ?D) = core es L" using sub by (intro core_eqI) auto
    have 3: "?D \<noteq> [] \<longleftrightarrow> L - set ?D \<noteq> L"
    proof -
      have "set ?D \<subseteq> L" unfolding D by auto
      from diff_unchanged [OF this] show ?thesis by (simp only: set_empty)
    qed
    have 4: "irreducible es L s v" if "set ?D = {}"
      using that dotted(1) unfolding D irreducible_def outdeg0 indeg0 by blast
    have run: "gddVertReduce s v ctx = (?D \<noteq> [], fold gddEdgeUnlink ?D ctx)"
      using dotted by (simp add: gddVertReduce_def gddVertGetOutDegree_def Let_def)
    show thesis
      by (rule that [of "L - set ?D", unfolded run fst_conv snd_conv, OF 1 Diff_subset 2 3 4])
         (simp only: set_empty not_not)
  next
    case none
    then have "irreducible es L s v"
      using d(5) [of s v] unfolding irreducible_def outdeg0 indeg0 by (cases "outs ctx s v") auto
    with none rel show thesis
      by (intro that [of L]) (auto simp: gddVertReduce_def gddVertGetOutDegree_def)
  qed
qed

section \<open>Reduction computes the core\<close>

lemma iter_delete_split:
  "gdd_map_iter_delete (length xs) (xs @ y # zs) = xs @ (if zs = [] then [] else last zs # butlast zs)"
  by (cases zs rule: rev_cases) (simp_all add: gdd_map_iter_delete_def butlast_append)

lemma iter_delete:
  assumes "pos < length m" and "distinct (map fst m)"
  shows "distinct (map fst (gdd_map_iter_delete pos m))"
    "set (gdd_map_iter_delete pos m) = set m - {m ! pos}"
    "set (drop pos m) = insert (m ! pos) (set (drop pos (gdd_map_iter_delete pos m)))"
proof -
  obtain xs y zs where m: "m = xs @ y # zs" "pos = length xs"
    using id_take_nth_drop [OF assms(1)] assms(1) by (metis length_take less_imp_le min.absorb2)
  have "zs \<noteq> [] \<Longrightarrow> set (last zs # butlast zs) = set zs \<and> distinct (map fst (last zs # butlast zs)) = distinct (map fst zs)"
    by (cases zs rule: rev_cases) auto
  moreover have "y \<notin> set xs \<union> set zs" using assms(2) m by (auto simp: distinct_map)
  ultimately show "distinct (map fst (gdd_map_iter_delete pos m))"
    "set (gdd_map_iter_delete pos m) = set m - {m ! pos}"
    "set (drop pos m) = insert (m ! pos) (set (drop pos (gdd_map_iter_delete pos m)))"
    using assms(2) unfolding m iter_delete_split
    by (cases zs rule: rev_cases; auto simp: nth_append)+
qed

lemma gddMapGet_map_of: "gddMapGet m k = map_of m k"
  by (induction m) auto

lemma iter_delete_get:
  assumes "pos < length m" and "distinct (map fst m)"
  shows "gddMapGet (gdd_map_iter_delete pos m) k = (if k = fst (m ! pos) then None else gddMapGet m k)"
proof -
  have mem: "m ! pos \<in> set m" using assms(1) by simp
  have *: "gddMapGet (gdd_map_iter_delete pos m) k = Some w \<longleftrightarrow>
      k \<noteq> fst (m ! pos) \<and> gddMapGet m k = Some w" for w
    using iter_delete(1,2) [OF assms] assms(2) mem
    by (cases "m ! pos") (force simp: gddMapGet_map_of distinct_map inj_on_def)
  show ?thesis
  proof (cases "gddMapGet (gdd_map_iter_delete pos m) k")
    case None
    with * [of "the (gddMapGet m k)"] show ?thesis by (cases "gddMapGet m k") auto
  next
    case (Some a)
    with * [of a] show ?thesis by simp
  qed
qed

lemma delete_vert_fields [simp]:
  "topstat (delete_vert s pos ctx) = topstat ctx" "globals (delete_vert s pos ctx) = globals ctx"
  "edge_store (delete_vert s pos ctx) = edge_store ctx" "map fst (graphs (delete_vert s pos ctx)) = map fst (graphs ctx)"
  "global_stat (delete_vert s pos ctx) = global_stat ctx"
  by (auto simp: delete_vert_def global_stat_def)

lemma delete_vert_verts:
  "pos < length (seg_verts ctx s) \<Longrightarrow> seg_verts (delete_vert s pos ctx) s' =
     (if s' = s then gdd_map_iter_delete pos (seg_verts ctx s) else seg_verts ctx s')"
  by (auto simp: seg_verts_def delete_vert_def split: option.splits)

lemma delete_vert_rel:
  assumes rel: "gdd_rel es L ctx" and pos: "pos < length (seg_verts ctx s)"
    and v: "v = fst (seg_verts ctx s ! pos)" and empty: "ins ctx s v = []" "outs ctx s v = []"
  shows "gdd_rel es L (delete_vert s pos ctx)"
proof -
  note d = gdd_relD [OF rel]
  have g: "gddMapGet (seg_verts (delete_vert s pos ctx) s') k =
      (if s' = s \<and> k = v then None else gddMapGet (seg_verts ctx s') k)" for s' k
    using iter_delete_get [OF pos d(13)] v by (simp add: delete_vert_verts [OF pos])
  have "outs (delete_vert s pos ctx) s' k = outs ctx s' k" "ins (delete_vert s pos ctx) s' k = ins ctx s' k" for s' k
    using empty by (auto simp: gddGraphVert_alt g gddVertNew_def)
  moreover have "distinct (map fst (seg_verts (delete_vert s pos ctx) s'))"
    "\<forall>(k, w) \<in> set (seg_verts (delete_vert s pos ctx) s'). vert_id w = k" for s'
    using iter_delete(1,2) [OF pos d(13)] d(13,14) by (auto simp: delete_vert_verts [OF pos])
  ultimately show ?thesis using rel by (simp add: gdd_rel_def)
qed

text \<open>The vertices of a segment from a position on.\<close>

abbreviation keys_from :: "GddCtx \<Rightarrow> int \<Rightarrow> nat \<Rightarrow> vid set" where
  "keys_from ctx s pos \<equiv> fst ` set (drop pos (seg_verts ctx s))"

lemma keys_from_Suc:
  "pos < length (seg_verts ctx s) \<Longrightarrow>
     keys_from ctx s pos = insert (fst (seg_verts ctx s ! pos)) (keys_from ctx s (Suc pos))"
  by (simp add: Cons_nth_drop_Suc [symmetric])

lemma keys_from_map: "keys_from ctx s pos = set (drop pos (map fst (seg_verts ctx s)))"
  by (simp add: drop_map)

lemma keys_from_delete:
  assumes "pos < length (seg_verts ctx s)" and "distinct (map fst (seg_verts ctx s))"
  shows "keys_from ctx s pos = insert (fst (seg_verts ctx s ! pos)) (keys_from (delete_vert s pos ctx) s pos)"
  using iter_delete(3) [OF assms] by (simp add: delete_vert_verts [OF assms(1)])

lemma unlinks_graphs [simp]: "map fst (graphs (fold gddEdgeUnlink xs ctx)) = map fst (graphs ctx)"
  by (induction xs arbitrary: ctx) simp_all

lemma gddVertReduce_graphs [simp]: "map fst (graphs (snd (gddVertReduce s v ctx))) = map fst (graphs ctx)"
  by (simp add: gddVertReduce_def gddVertUnlinkAll_def Let_def)

lemma reduce_verts_rel:
  "gdd_rel es L ctx \<Longrightarrow>
     \<exists>L'. gdd_rel es L' (snd (reduce_verts s pos ctx)) \<and> L' \<subseteq> L \<and> core es L' = core es L \<and>
       (fst (reduce_verts s pos ctx) \<longleftrightarrow> L' \<noteq> L) \<and>
       map fst (graphs (snd (reduce_verts s pos ctx))) = map fst (graphs ctx) \<and>
       (\<not> fst (reduce_verts s pos ctx) \<longrightarrow> (\<forall>v \<in> keys_from ctx s pos. irreducible es L s v))"
proof (induction s pos ctx arbitrary: L rule: reduce_verts.induct)
  case (1 s pos ctx)
  show ?case
  proof (cases "pos < length (seg_verts ctx s)")
    case False
    then show ?thesis using 1(3) by (intro exI [of _ L]) (simp add: reduce_verts.simps)
  next
    case True
    define v where "v = fst (seg_verts ctx s ! pos)"
    obtain dirty c where vr: "gddVertReduce s v ctx = (dirty, c)" by fastforce
    from gddVertReduce_rel [OF 1(3), of s v] obtain L1 where L1: "gdd_rel es L1 c" "L1 \<subseteq> L"
      "core es L1 = core es L" "dirty \<longleftrightarrow> L1 \<noteq> L" "\<not> dirty \<Longrightarrow> irreducible es L s v"
      unfolding vr fst_conv snd_conv by blast
    have keys: "map fst (seg_verts c s) = map fst (seg_verts ctx s)" "map fst (graphs c) = map fst (graphs ctx)"
      using gddVertReduce_verts [of s v ctx s] gddVertReduce_graphs [of s v ctx] by (simp_all add: vr)
    then have len: "pos < length (seg_verts c s)" and vc: "v = fst (seg_verts c s ! pos)"
      and from_c: "keys_from c s k = keys_from ctx s k" for k
      using True by (metis length_map, metis length_map nth_map v_def True, metis keys_from_map)
    let ?gone = "gddVertGetInDegree (gddGraphVert c s v) = 0 \<and> gddVertGetOutDegree (gddGraphVert c s v) = 0"
    let ?next = "if ?gone then reduce_verts s pos (delete_vert s pos c) else reduce_verts s (Suc pos) c"
    have run: "reduce_verts s pos ctx = (dirty \<or> fst ?next, snd ?next)"
      using True by (subst reduce_verts.simps) (simp add: v_def [symmetric] vr Let_def split_def)
    have "\<exists>L'. gdd_rel es L' (snd ?next) \<and> L' \<subseteq> L1 \<and> core es L' = core es L1 \<and> (fst ?next \<longleftrightarrow> L' \<noteq> L1) \<and>
        map fst (graphs (snd ?next)) = map fst (graphs ctx) \<and>
        (\<not> fst ?next \<longrightarrow> (\<forall>k \<in> keys_from ctx s pos - {v}. irreducible es L1 s k))"
    proof (cases ?gone)
      case True
      have "gdd_rel es L1 (delete_vert s pos c)"
        by (rule delete_vert_rel [OF L1(1) len vc]) (use True in \<open>simp_all add: gddVertGetInDegree_def gddVertGetOutDegree_def\<close>)
      from 1(1) [OF \<open>pos < length (seg_verts ctx s)\<close> v_def vr [symmetric] refl refl True this]
      show ?thesis
        using True keys keys_from_delete [OF len gdd_relD(13) [OF L1(1)]] from_c [of pos] vc by auto
    next
      case False
      from 1(2) [OF \<open>pos < length (seg_verts ctx s)\<close> v_def vr [symmetric] refl refl False L1(1)]
      show ?thesis
        using False keys keys_from_Suc [OF \<open>pos < length (seg_verts ctx s)\<close>] from_c [of "Suc pos"] v_def by auto
    qed
    then obtain L' where L': "gdd_rel es L' (snd ?next)" "L' \<subseteq> L1" "core es L' = core es L1" "fst ?next \<longleftrightarrow> L' \<noteq> L1"
      "map fst (graphs (snd ?next)) = map fst (graphs ctx)"
      "\<not> fst ?next \<Longrightarrow> \<forall>k \<in> keys_from ctx s pos - {v}. irreducible es L1 s k" by blast
    show ?thesis
      unfolding run fst_conv snd_conv using L1 L' by (intro exI [of _ L']) auto
  qed
qed

lemma present_from_edges:
  assumes "gdd_rel es L ctx" and "L \<inter> vert_edges es s v \<noteq> {}"
  shows "v \<in> keys_from ctx s 0" and "s \<in> fst ` set (graphs ctx)"
proof -
  from assms(2) gdd_relD(5,7) [OF assms(1), of s v] have "outs ctx s v \<noteq> [] \<or> ins ctx s v \<noteq> []"
    by (force simp: vert_edges_def)
  then have *: "gddMapGet (seg_verts ctx s) v \<noteq> None"
    by (auto simp: gddGraphVert_alt gddVertNew_def split: option.splits)
  then show "v \<in> keys_from ctx s 0" by (force simp: gddMapGet_map_of dest: map_of_SomeD)
  from * have "gddMapGet (graphs ctx) s \<noteq> None" by (auto simp: seg_verts_def split: option.splits)
  then show "s \<in> fst ` set (graphs ctx)" by (force simp: gddMapGet_map_of dest: map_of_SomeD)
qed

lemma irreducible_absent: "L \<inter> vert_edges es s v = {} \<Longrightarrow> irreducible es L s v"
  unfolding irreducible_def vert_edges_def by blast

lemma reduce_graphs_rel:
  assumes "gdd_rel es L ctx"
    and "fold (\<lambda>s (dirty, ctx). let (d, ctx) = reduce_verts s 0 ctx in (dirty \<or> d, ctx)) ss (d0, ctx) = (dirty, ctx')"
  shows "\<exists>L'. gdd_rel es L' ctx' \<and> L' \<subseteq> L \<and> core es L' = core es L \<and> (dirty \<longleftrightarrow> d0 \<or> L' \<noteq> L) \<and>
       map fst (graphs ctx') = map fst (graphs ctx) \<and>
       (\<not> dirty \<longrightarrow> (\<forall>s \<in> set ss. \<forall>v. irreducible es L s v))"
  using assms
proof (induction ss arbitrary: L ctx d0)
  case (Cons s ss)
  obtain d c where r: "reduce_verts s 0 ctx = (d, c)" by fastforce
  from reduce_verts_rel [OF Cons.prems(1), of s 0] obtain L1 where L1: "gdd_rel es L1 c" "L1 \<subseteq> L"
    "core es L1 = core es L" "d \<longleftrightarrow> L1 \<noteq> L" "map fst (graphs c) = map fst (graphs ctx)"
    "\<not> d \<longrightarrow> (\<forall>v \<in> keys_from ctx s 0. irreducible es L s v)"
    by (auto simp: r)
  have all: "\<not> d \<Longrightarrow> irreducible es L s v" for v
    using L1(6) present_from_edges(1) [OF Cons.prems(1), of s v] irreducible_absent [of L es s v] by blast
  from Cons.prems(2) have "fold (\<lambda>s (dirty, ctx). let (d, ctx) = reduce_verts s 0 ctx in (dirty \<or> d, ctx)) ss
      (d0 \<or> d, c) = (dirty, ctx')" by (simp add: r)
  from Cons.IH [OF L1(1) this] obtain L2 where "gdd_rel es L2 ctx'" "L2 \<subseteq> L1" "core es L2 = core es L1"
    "dirty \<longleftrightarrow> (d0 \<or> d) \<or> L2 \<noteq> L1" "map fst (graphs ctx') = map fst (graphs c)"
    "\<not> dirty \<longrightarrow> (\<forall>s \<in> set ss. \<forall>v. irreducible es L1 s v)" by blast
  with L1 all show ?case by (intro exI [of _ L2]) auto
qed auto

lemma reduce_pass_rel:
  assumes "gdd_rel es L ctx" and "reduce_pass ctx = (dirty, ctx')"
  obtains L' where "gdd_rel es L' ctx'" and "L' \<subseteq> L" and "core es L' = core es L" and "dirty \<longleftrightarrow> L' \<noteq> L"
    and "\<not> dirty \<Longrightarrow> core es L = L"
proof -
  from reduce_graphs_rel [OF assms(1) assms(2) [unfolded reduce_pass_def]] obtain L' where
    L': "gdd_rel es L' ctx'" "L' \<subseteq> L" "core es L' = core es L" "dirty \<longleftrightarrow> L' \<noteq> L"
    "\<not> dirty \<longrightarrow> (\<forall>s \<in> set (map fst (graphs ctx)). \<forall>v. irreducible es L s v)" by auto
  have "core es L = L" if "\<not> dirty"
  proof (rule core_of_stable, rule irreducible_stable, rule ballI)
    fix e
    assume e: "e \<in> L"
    let ?s = "edge_seg (es ! e)"
    have "L \<inter> vert_edges es ?s (edge_from (es ! e)) \<noteq> {}" using e by (auto simp: vert_edges_def)
    from present_from_edges(2) [OF assms(1) this] that L'(5)
    show "irreducible es L ?s (edge_from (es ! e)) \<and> irreducible es L ?s (edge_to (es ! e))" by auto
  qed
  with L' that show thesis by blast
qed

lemma GddCtxReduce_core:
  assumes "gdd_rel es L ctx"
  shows "\<exists>ctx'. GddCtxReduce ctx = Some ctx' \<and> gdd_rel es (core es L) ctx'"
  using assms
proof (induction "card L" arbitrary: L ctx rule: less_induct)
  case less
  obtain dirty c where p: "reduce_pass ctx = (dirty, c)" by fastforce
  from less.prems p obtain L' where L': "gdd_rel es L' c" "L' \<subseteq> L" "core es L' = core es L"
    "dirty \<longleftrightarrow> L' \<noteq> L" "\<not> dirty \<longrightarrow> core es L = L" by (rule reduce_pass_rel) blast
  show ?case
  proof (cases dirty)
    case True
    with L'(2,4) gdd_relD(3) [OF less.prems] have "card L' < card L" by (intro psubset_card_mono) auto
    from less.hyps [OF this L'(1)] L'(3) True show ?thesis
      by (subst GddCtxReduce.simps) (simp add: p)
  next
    case False
    with L' show ?thesis by (subst GddCtxReduce.simps) (simp add: p)
  qed
qed

section \<open>Removing a transaction\<close>

lemma find_vid_None: "find_vid i v m = None \<longleftrightarrow> v \<notin> fst ` set m"
  by (induction i v m rule: find_vid.induct) auto

lemma find_vid_Some: "find_vid i v m = Some p \<Longrightarrow> i \<le> p \<and> p - i < length m \<and> fst (m ! (p - i)) = v"
  by (induction i v m rule: find_vid.induct) (auto split: if_splits simp: nth_Cons' Suc_diff_le)

lemma gddGraphRemoveVid_rel:
  assumes rel: "gdd_rel es L ctx"
  shows "gdd_rel es (L - vert_edges es s v) (gddGraphRemoveVid v s ctx) \<and>
         map fst (graphs (gddGraphRemoveVid v s ctx)) = map fst (graphs ctx)"
proof (cases "find_vid 0 v (seg_verts ctx s)")
  case None
  then have "v \<notin> keys_from ctx s 0" by (simp add: find_vid_None)
  with present_from_edges(1) [OF rel, of s v] have "L \<inter> vert_edges es s v = {}" by blast
  then have "L - vert_edges es s v = L" by blast
  with None rel show ?thesis by (simp add: gddGraphRemoveVid_def)
next
  case (Some pos)
  let ?c = "snd (gddVertUnlinkAll s v ctx)"
  from find_vid_Some [OF Some] have pos: "pos < length (seg_verts ctx s)" "fst (seg_verts ctx s ! pos) = v" by auto
  have keys: "map fst (seg_verts ?c s) = map fst (seg_verts ctx s)" "map fst (graphs ?c) = map fst (graphs ctx)"
    by (simp_all add: gddVertUnlinkAll_def Let_def)
  then have pos': "pos < length (seg_verts ?c s)" "v = fst (seg_verts ?c s ! pos)"
    using pos by (metis length_map, metis length_map nth_map)
  have r: "gdd_rel es (L - vert_edges es s v) ?c" using gddVertUnlinkAll_rel [OF rel] by blast
  have "set (ins ?c s v) = {}" "set (outs ?c s v) = {}"
    unfolding gdd_relD(5,7) [OF r] by (auto simp: vert_edges_def)
  then have "ins ?c s v = []" "outs ?c s v = []" by simp_all
  from delete_vert_rel [OF r pos' this] Some keys show ?thesis by (simp add: gddGraphRemoveVid_def)
qed

definition touches :: "GddEdge list \<Rightarrow> vid \<Rightarrow> nat set" where
  "touches es v = {e. edge_from (es ! e) = v \<or> edge_to (es ! e) = v}"

lemma remove_fold_rel:
  "gdd_rel es L ctx \<Longrightarrow> gdd_rel es (L - (\<Union>s \<in> set ss. vert_edges es s v)) (fold (gddGraphRemoveVid v) ss ctx)"
proof (induction ss arbitrary: L ctx)
  case (Cons s ss)
  from gddGraphRemoveVid_rel [OF Cons.prems, of s v] Cons.IH [of "L - vert_edges es s v"]
  have "gdd_rel es (L - vert_edges es s v - (\<Union>s \<in> set ss. vert_edges es s v)) (fold (gddGraphRemoveVid v) (s # ss) ctx)"
    by simp
  moreover have "L - vert_edges es s v - (\<Union>s \<in> set ss. vert_edges es s v) = L - (\<Union>s \<in> set (s # ss). vert_edges es s v)"
    by auto
  ultimately show ?case by (simp only:)
qed simp

lemma gddCtxRemoveVid_rel:
  assumes "gdd_rel es L ctx"
  shows "gdd_rel es (L - touches es v) (gddCtxRemoveVid ctx v)"
proof -
  have "L - (\<Union>s \<in> set (map fst (graphs ctx)). vert_edges es s v) = L - touches es v"
    using present_from_edges(2) [OF assms] by (fastforce simp: touches_def vert_edges_def)
  with remove_fold_rel [OF assms, of v "map fst (graphs ctx)"] show ?thesis
    by (simp add: gddCtxRemoveVid_def)
qed

section \<open>Adding edges\<close>

lemma gddMapGet_set:
  "gddMapGet (gddMapSetUnsafe m k v) k' = (case gddMapGet m k' of None \<Rightarrow> if k' = k then Some v else None | Some w \<Rightarrow> Some w)"
  by (induction m) (auto simp: gddMapSetUnsafe_def)

definition with_vert :: "vid \<Rightarrow> (vid \<times> GddVert) list \<Rightarrow> (vid \<times> GddVert) list" where
  "with_vert v m = (if gddMapGet m v = None then gddMapSetUnsafe m v (gddVertNew v) else m)"

lemma with_vert_get:
  "gddMapGet (with_vert v m) v \<noteq> None" "gddMapGet m k \<noteq> None \<Longrightarrow> gddMapGet (with_vert v m) k = gddMapGet m k"
  "(case gddMapGet (with_vert v m) k of None \<Rightarrow> gddVertNew k | Some w \<Rightarrow> w) =
     (case gddMapGet m k of None \<Rightarrow> gddVertNew k | Some w \<Rightarrow> w)"
  by (auto simp: with_vert_def gddMapGet_set split: option.splits)

lemma with_vert_wf:
  "distinct (map fst m) \<Longrightarrow> distinct (map fst (with_vert v m))"
  "\<forall>(k, w) \<in> set m. vert_id w = k \<Longrightarrow> \<forall>(k, w) \<in> set (with_vert v m). vert_id w = k"
  by (auto simp: with_vert_def gddMapSetUnsafe_def gddVertNew_def gddMapGet_map_of map_of_eq_None_iff)

lemma make_edge_verts:
  "graph_verts (gddGraphMakeEdge g from to) = with_vert to (with_vert from (graph_verts g))"
proof -
  have "graph_verts (gddGraphGetVert g v) = with_vert v (graph_verts g)" for g v
    by (simp add: gddGraphGetVert_def with_vert_def)
  then show ?thesis by (simp add: gddGraphMakeEdge_def)
qed

lemma getGlobalStat_fields [simp]:
  "graphs (gddCtxGetGlobalStat ctx v) = graphs ctx" "topstat (gddCtxGetGlobalStat ctx v) = topstat ctx"
  "edge_store (gddCtxGetGlobalStat ctx v) = edge_store ctx" "seg_verts (gddCtxGetGlobalStat ctx v) s = seg_verts ctx s"
  "global_stat (gddCtxGetGlobalStat ctx v) u = global_stat ctx u"
  by (auto simp: gddCtxGetGlobalStat_def seg_verts_def global_stat_def gddMapGet_set split: option.splits)

lemma getGlobalStat_present:
  "gddMapGet (globals (gddCtxGetGlobalStat ctx v)) v \<noteq> None"
  "gddMapGet (globals ctx) u \<noteq> None \<Longrightarrow> gddMapGet (globals (gddCtxGetGlobalStat ctx v)) u \<noteq> None"
  by (auto simp: gddCtxGetGlobalStat_def gddMapGet_set split: option.splits)

lemma getGraph_fields [simp]:
  "globals (gddCtxGetGraph ctx s) = globals ctx" "topstat (gddCtxGetGraph ctx s) = topstat ctx"
  "edge_store (gddCtxGetGraph ctx s) = edge_store ctx" "seg_verts (gddCtxGetGraph ctx s) s' = seg_verts ctx s'"
  by (auto simp: gddCtxGetGraph_def seg_verts_def gddMapGet_set gddGraphNew_def split: option.splits)

lemma getGraph_present:
  "gddMapGet (graphs (gddCtxGetGraph ctx s)) s \<noteq> None"
  "distinct (map fst (graphs ctx)) \<Longrightarrow> distinct (map fst (graphs (gddCtxGetGraph ctx s)))"
proof -
  show "gddMapGet (graphs (gddCtxGetGraph ctx s)) s \<noteq> None"
    by (auto simp: gddCtxGetGraph_def gddMapGet_set split: option.splits)
  show "distinct (map fst (graphs ctx)) \<Longrightarrow> distinct (map fst (graphs (gddCtxGetGraph ctx s)))"
    by (auto simp: gddCtxGetGraph_def gddMapSetUnsafe_def gddMapGet_map_of map_of_eq_None_iff)
qed

definition prepared :: "GddEdge \<Rightarrow> GddCtx \<Rightarrow> GddCtx" where
  "prepared edge ctx =
     (let ctx = gddCtxGetGraph ctx (edge_seg edge);
          ctx = ctx\<lparr>graphs := gddMapUpdate (graphs ctx) (edge_seg edge)
                       (\<lambda>g. gddGraphMakeEdge g (edge_from edge) (edge_to edge)),
                    edge_store := edge_store ctx @ [edge]\<rparr>;
          ctx = gddCtxGetGlobalStat ctx (edge_from edge)
      in gddCtxGetGlobalStat ctx (edge_to edge))"

lemma GddCtxAddEdge_alt: "GddCtxAddEdge edge ctx = gddEdgeLink (length (edge_store ctx)) (prepared edge ctx)"
  by (simp add: GddCtxAddEdge_def prepared_def gddCtxGetGraph_def gddCtxGetGlobalStat_def Let_def)

lemma prepared_verts:
  "seg_verts (prepared edge ctx) s =
     (if s = edge_seg edge then with_vert (edge_to edge) (with_vert (edge_from edge) (seg_verts ctx s))
      else seg_verts ctx s)"
proof -
  let ?c = "gddCtxGetGraph ctx (edge_seg edge)"
  obtain g where g: "gddMapGet (graphs ?c) (edge_seg edge) = Some g" using getGraph_present(1) by blast
  have "seg_verts (prepared edge ctx) s =
      (if s = edge_seg edge then with_vert (edge_to edge) (with_vert (edge_from edge) (seg_verts ?c s)) else seg_verts ?c s)"
    using g by (simp add: prepared_def Let_def del: getGraph_fields(4)) (simp add: seg_verts_def make_edge_verts)
  then show ?thesis by simp
qed

lemma prepared_fields:
  "edge_store (prepared edge ctx) = edge_store ctx @ [edge]" "topstat (prepared edge ctx) = topstat ctx"
  "global_stat (prepared edge ctx) v = global_stat ctx v"
  "distinct (map fst (graphs ctx)) \<Longrightarrow> distinct (map fst (graphs (prepared edge ctx)))"
  by (simp_all add: prepared_def Let_def getGraph_present) (simp add: global_stat_def)

lemma prepared_globals:
  "gddMapGet (globals (prepared edge ctx)) (edge_from edge) \<noteq> None"
  "gddMapGet (globals (prepared edge ctx)) (edge_to edge) \<noteq> None"
  "gddMapGet (globals ctx) v \<noteq> None \<Longrightarrow> gddMapGet (globals (prepared edge ctx)) v \<noteq> None"
  unfolding prepared_def Let_def by (rule getGlobalStat_present | simp)+

lemma prepared_vert: "gddGraphVert (prepared edge ctx) s v = gddGraphVert ctx s v"
  by (simp add: gddGraphVert_alt prepared_verts with_vert_get(3))

lemma prepared_present:
  "gddMapGet (seg_verts (prepared edge ctx) (edge_seg edge)) (edge_from edge) \<noteq> None"
  "gddMapGet (seg_verts (prepared edge ctx) (edge_seg edge)) (edge_to edge) \<noteq> None"
  using with_vert_get(1) [of "edge_from edge" "seg_verts ctx (edge_seg edge)"]
  by (auto simp: prepared_verts with_vert_get)

text \<open>Linking.\<close>

lemma link_fields:
  assumes "edge_store ctx ! e = edge"
  shows "edge_store (gddEdgeLink e ctx) = edge_store ctx" "map fst (graphs (gddEdgeLink e ctx)) = map fst (graphs ctx)"
    "indeg (topstat (gddEdgeLink e ctx)) = indeg (topstat ctx) + 1"
    "outdeg (topstat (gddEdgeLink e ctx)) = outdeg (topstat ctx) + 1"
    "map fst (seg_verts (gddEdgeLink e ctx) s) = map fst (seg_verts ctx s)"
    "gddMapGet (globals (gddEdgeLink e ctx)) v =
       map_option (\<lambda>s. s\<lparr>outdeg := outdeg s + (if v = edge_from edge then 1 else 0),
                         indeg := indeg s + (if v = edge_to edge then 1 else 0)\<rparr>) (gddMapGet (globals ctx) v)"
  using assms
  by (auto simp: gddEdgeLink_def Let_def option.map_comp comp_def option.map_ident intro!: option.map_cong)

lemma link_verts:
  assumes "edge_store ctx ! e = edge"
    and "gddMapGet (seg_verts ctx (edge_seg edge)) (edge_from edge) \<noteq> None"
    and "gddMapGet (seg_verts ctx (edge_seg edge)) (edge_to edge) \<noteq> None"
  shows "outs (gddEdgeLink e ctx) s v =
      (if s = edge_seg edge \<and> v = edge_from edge then outs ctx s v @ [e] else outs ctx s v)"
    "ins (gddEdgeLink e ctx) s v =
      (if s = edge_seg edge \<and> v = edge_to edge then ins ctx s v @ [e] else ins ctx s v)"
  using assms by (auto simp: gddEdgeLink_def Let_def gddGraphVert_update)

lemma link_ids:
  "\<forall>(k, w) \<in> set (seg_verts ctx s). vert_id w = k \<Longrightarrow>
   \<forall>(k, w) \<in> set (seg_verts (gddEdgeLink e ctx) s). vert_id w = k"
  by (auto simp: gddEdgeLink_def Let_def gddMapUpdate_def)

lemma card_insert_cond:
  assumes "finite L" and "n \<notin> L"
  shows "int (card {e \<in> insert n L. P e}) = int (card {e \<in> L. P e}) + (if P n then 1 else 0)"
proof (cases "P n")
  case True
  then have "{e \<in> insert n L. P e} = insert n {e \<in> L. P e}" by auto
  with assms True show ?thesis by simp
next
  case False
  then have "{e \<in> insert n L. P e} = {e \<in> L. P e}" by auto
  with False show ?thesis by simp
qed

lemma GddCtxAddEdge_rel:
  assumes rel: "gdd_rel es L ctx"
  shows "gdd_rel (es @ [edge]) (insert (length es) L) (GddCtxAddEdge edge ctx)"
proof -
  note d = gdd_relD [OF rel]
  let ?n = "length es" and ?es = "es @ [edge]"
  let ?p = "prepared edge ctx"
  let ?c = "gddEdgeLink ?n ?p"
  have L: "e \<in> L \<Longrightarrow> ?es ! e = es ! e" "?n \<notin> L" for e using d(2) by (auto simp: nth_append)
  have n: "edge_store ?p ! ?n = edge" using d(1) by (simp add: prepared_fields)
  note lf = link_fields [OF n] and lv = link_verts [OF n prepared_present]
  have same: "{e \<in> insert ?n L. P (?es ! e)} = {e \<in> insert ?n L. if e = ?n then P edge else P (es ! e)}" for P
    using L by auto
  have card: "int (card {e \<in> insert ?n L. P (?es ! e)}) = int (card {e \<in> L. P (es ! e)}) + (if P edge then 1 else 0)" for P
    unfolding same using card_insert_cond [OF d(3) L(2), of "\<lambda>e. if e = ?n then P edge else P (es ! e)"] L(2)
    by (auto intro!: arg_cong [where f = card])
  have "outdeg (global_stat ?c v) = outdeg (global_stat ctx v) + (if edge_from edge = v then 1 else 0)"
    "indeg (global_stat ?c v) = indeg (global_stat ctx v) + (if edge_to edge = v then 1 else 0)" for v
    using prepared_globals(1,2) [of edge ctx] prepared_fields(3) [of edge ctx v]
    by (auto simp: global_stat_def lf(6) split: option.splits if_splits)
  then have 1: "\<forall>v. outdeg (global_stat ?c v) = int (card {e \<in> insert ?n L. edge_from (?es ! e) = v}) \<and>
      indeg (global_stat ?c v) = int (card {e \<in> insert ?n L. edge_to (?es ! e) = v})"
    unfolding card [of "\<lambda>e. edge_from e = _"] card [of "\<lambda>e. edge_to e = _"] using d(8,9) by simp
  have 2: "\<forall>s v. distinct (outs ?c s v) \<and>
      set (outs ?c s v) = {e \<in> insert ?n L. edge_seg (?es ! e) = s \<and> edge_from (?es ! e) = v}"
    using d(4,5) L by (auto simp: lv prepared_vert)
  have 3: "\<forall>s v. distinct (ins ?c s v) \<and>
      set (ins ?c s v) = {e \<in> insert ?n L. edge_seg (?es ! e) = s \<and> edge_to (?es ! e) = v}"
    using d(6,7) L by (auto simp: lv prepared_vert)
  have 4: "\<forall>e \<in> insert ?n L. gddMapGet (globals ?c) (edge_from (?es ! e)) \<noteq> None \<and>
      gddMapGet (globals ?c) (edge_to (?es ! e)) \<noteq> None"
    using rel prepared_globals L by (simp add: lf(6) gdd_rel_def)
  have 5: "\<forall>s. \<forall>(k, w) \<in> set (seg_verts ?c s). vert_id w = k"
    using rel by (intro allI link_ids) (auto simp: prepared_verts gdd_rel_def intro!: with_vert_wf(2))
  have 6: "edge_store ?c = ?es" "insert ?n L \<subseteq> {..<length ?es}" using d(1,2) by (auto simp: lf(1) prepared_fields)
  have 7: "outdeg (topstat ?c) = int (card (insert ?n L))" "indeg (topstat ?c) = int (card (insert ?n L))"
    using d(3,10,11) L(2) by (simp_all add: lf(3,4) prepared_fields)
  have 8: "distinct (map fst (graphs ?c))" "\<forall>s. distinct (map fst (seg_verts ?c s))"
    using d(12,13) by (simp_all add: lf(2,5) prepared_fields prepared_verts with_vert_wf(1))
  have "gdd_rel ?es (insert ?n L) ?c" unfolding gdd_rel_def by (intro conjI 1 2 3 4 5 6 7 8)
  with d(1) show ?thesis by (simp add: GddCtxAddEdge_alt)
qed

text \<open>The context of a list of edges.\<close>

definition build :: "GddEdge list \<Rightarrow> GddCtx" where
  "build es = fold GddCtxAddEdge es GddCtxNew"

lemma build_rel: "gdd_rel es {..<length es} (build es)"
proof (induction es rule: rev_induct)
  case Nil
  then show ?case
    by (simp add: gdd_rel_def build_def GddCtxNew_def gddGraphVert_alt seg_verts_def gddVertNew_def
        global_stat_def gddStatInit_def)
next
  case (snoc e es)
  from GddCtxAddEdge_rel [OF this, of e] show ?case by (simp add: build_def lessThan_Suc)
qed

end
