(* ===== verification/Gdd_Deadlock.thy ===== *)
theory Gdd_Deadlock
  imports Gdd_Detector
begin

text \<open>
  What the deadlock detector decides, in terms of waiting transactions: an edge may be released when
  the transaction it waits for does not wait anywhere, or, when the edge is dotted, does not wait on
  the segment of the edge (the rules of the detector's README).  The detector reports a deadlock
  exactly when not all waits can be released one after the other, and cancelling the transactions it
  picks lets all others proceed.
\<close>

section \<open>Releasing waits\<close>

definition releasable :: "GddEdge list \<Rightarrow> nat set \<Rightarrow> nat \<Rightarrow> bool" where
  "releasable es L e \<longleftrightarrow>
     (\<forall>f \<in> L. edge_from (es ! f) \<noteq> edge_to (es ! e)) \<or>
     (\<not> edge_solid (es ! e) \<and>
      (\<forall>f \<in> L. edge_from (es ! f) = edge_to (es ! e) \<longrightarrow> edge_seg (es ! f) \<noteq> edge_seg (es ! e)))"

inductive release_step :: "GddEdge list \<Rightarrow> nat set \<Rightarrow> nat set \<Rightarrow> bool" for es where
  release: "e \<in> L \<Longrightarrow> releasable es L e \<Longrightarrow> release_step es L (L - {e})"

inductive_cases release_stepE: "release_step es L L'"

lemma stable_not_releasable:
  assumes "stable es S" and "S \<subseteq> L" and "e \<in> S"
  shows "\<not> releasable es L e"
  using assms unfolding stable_def releasable_def by (meson subsetD)

lemma release_step_core: "release_step es L L' \<Longrightarrow> core es L' = core es L"
proof (erule release_stepE)
  fix e
  assume L': "L' = L - {e}" and r: "releasable es L e"
  have "e \<notin> core es L" using stable_not_releasable [OF core_stable core_subset, of e es L] r by blast
  with L' core_subset [of es L] show "core es L' = core es L" by (intro core_eqI) auto
qed

lemma releases_core: "(release_step es)\<^sup>*\<^sup>* L L' \<Longrightarrow> core es L' = core es L"
  by (induction rule: rtranclp_induct) (auto simp: release_step_core)

lemma core_mono: "L \<subseteq> L' \<Longrightarrow> core es L \<subseteq> core es L'"
  by (auto simp: core_def)

text \<open>Where nothing can be released, something stable is left.\<close>

lemma stuck_core:
  assumes "finite L" and "L \<noteq> {}" and "\<forall>e \<in> L. \<not> releasable es L e"
  shows "core es L \<noteq> {}"
  using assms
proof (induction "card L" arbitrary: L rule: less_induct)
  case less
  show ?case
  proof (cases "\<forall>e \<in> L. \<exists>f \<in> L. edge_to (es ! f) = edge_from (es ! e)")
    case True
    with less.prems(3) have "stable es L" unfolding stable_def releasable_def by blast
    with less.prems(2) show ?thesis by (simp add: core_of_stable)
  next
    case False
    then obtain e where e: "e \<in> L" "\<forall>f \<in> L. edge_to (es ! f) \<noteq> edge_from (es ! e)" by blast
    then have "\<forall>x \<in> L - {e}. \<not> releasable es (L - {e}) x"
      using less.prems(3) unfolding releasable_def by (metis DiffD1 DiffI singletonD)
    moreover from less.prems(3) e obtain f where "f \<in> L" "edge_from (es ! f) = edge_to (es ! e)"
      unfolding releasable_def by blast
    with e have "f \<in> L - {e}" by force
    then have "L - {e} \<noteq> {}" by blast
    moreover have "card (L - {e}) < card L" using less.prems(1) e(1) by (rule card_Diff1_less)
    ultimately have "core es (L - {e}) \<noteq> {}" using less.hyps [of "L - {e}"] less.prems(1) by blast
    with core_mono [of "L - {e}" L es] show ?thesis by blast
  qed
qed

lemma core_empty_iff:
  assumes "finite L"
  shows "core es L = {} \<longleftrightarrow> (release_step es)\<^sup>*\<^sup>* L {}"
proof
  assume "(release_step es)\<^sup>*\<^sup>* L {}"
  from releases_core [OF this] core_subset [of es "{}"] show "core es L = {}" by simp
next
  assume "core es L = {}"
  with assms show "(release_step es)\<^sup>*\<^sup>* L {}"
  proof (induction "card L" arbitrary: L rule: less_induct)
    case less
    show ?case
    proof (cases "L = {}")
      case False
      with stuck_core [OF less.prems(1) False, of es] less.prems(2)
      obtain e where e: "e \<in> L" "releasable es L e" by blast
      then have step: "release_step es L (L - {e})" by (rule release_step.release)
      have "card (L - {e}) < card L" using less.prems(1) e(1) by (rule card_Diff1_less)
      from less.hyps [OF this] less.prems release_step_core [OF step] have "(release_step es)\<^sup>*\<^sup>* (L - {e}) {}" by simp
      with step show ?thesis by (rule converse_rtranclp_into_rtranclp)
    qed simp
  qed
qed

text \<open>What is left contains a cycle of waits.\<close>

lemma stable_cycle:
  assumes "stable es S" and "finite S" and "S \<noteq> {}"
  shows "\<exists>v. (v, v) \<in> {(edge_from (es ! e), edge_to (es ! e)) | e. e \<in> S}\<^sup>+"
proof (rule ccontr)
  let ?R = "{(edge_from (es ! e), edge_to (es ! e)) | e. e \<in> S}"
  assume "\<not> ?thesis"
  then have "acyclic ?R" by (auto simp: acyclic_def)
  moreover have "finite ?R" using assms(2) by (simp add: setcompr_eq_image)
  ultimately have "wf (?R\<inverse>)" by (intro finite_acyclic_wf_converse)
  moreover obtain e0 where "e0 \<in> S" using assms(3) by blast
  then have "edge_to (es ! e0) \<in> (\<lambda>e. edge_to (es ! e)) ` S" by simp
  ultimately obtain z where z: "z \<in> (\<lambda>e. edge_to (es ! e)) ` S"
    and min: "\<And>y. (y, z) \<in> ?R\<inverse> \<Longrightarrow> y \<notin> (\<lambda>e. edge_to (es ! e)) ` S"
    by (rule wfE_min [where Q = "(\<lambda>e. edge_to (es ! e)) ` S"]) auto
  from z assms(1) obtain f where "f \<in> S" "edge_from (es ! f) = z" by (auto simp: stable_def)
  then have "(edge_to (es ! f), z) \<in> ?R\<inverse>" by auto
  from min [OF this] \<open>f \<in> S\<close> show False by simp
qed

section \<open>The victims\<close>

lemma all_verts_edges:
  assumes rel: "gdd_rel es L ctx" and w: "w \<in> set (all_verts ctx)"
    and deg: "gddVertGetInDegree w \<noteq> 0 \<or> gddVertGetOutDegree w \<noteq> 0"
  shows "L \<inter> touches es (vert_id w) \<noteq> {}"
proof -
  note d = gdd_relD [OF rel]
  from w obtain s g k where g: "(s, g) \<in> set (graphs ctx)" "(k, w) \<in> set (graph_verts g)"
    by (auto simp: all_verts_def)
  with d(12) have "seg_verts ctx s = graph_verts g" by (simp add: seg_verts_def gddMapGet_map_of)
  with g(2) d(13) [of s] d(14) [of k w s] have "gddGraphVert ctx s (vert_id w) = w"
    by (simp add: gddGraphVert_alt gddMapGet_map_of)
  moreover have "set (edgesIn w) \<noteq> {} \<or> set (edgesOut w) \<noteq> {}"
    using deg by (simp add: gddVertGetInDegree_def gddVertGetOutDegree_def)
  then obtain x where "x \<in> set (edgesIn w) \<union> set (edgesOut w)" by (metis UnI1 UnI2 ex_in_conv)
  ultimately have "x \<in> L \<inter> touches es (vert_id w)"
    using d(5,7) [of s "vert_id w"] by (auto simp: touches_def)
  then show ?thesis by blast
qed

lemma all_verts_complete:
  assumes rel: "gdd_rel es L ctx" and "L \<inter> touches es v \<noteq> {}"
  obtains w where "w \<in> set (all_verts ctx)" and "vert_id w = v"
    and "gddVertGetInDegree w \<noteq> 0 \<or> gddVertGetOutDegree w \<noteq> 0"
proof -
  note d = gdd_relD [OF rel]
  from assms(2) obtain s where s: "L \<inter> vert_edges es s v \<noteq> {}" by (auto simp: touches_def vert_edges_def)
  then have "outs ctx s v \<noteq> [] \<or> ins ctx s v \<noteq> []" using d(5,7) [of s v] by (force simp: vert_edges_def)
  moreover from present_from_edges [OF rel s] obtain w g
    where w: "(v, w) \<in> set (seg_verts ctx s)" and g: "(s, g) \<in> set (graphs ctx)" by auto
  moreover have "gddGraphVert ctx s v = w" using w d(13) [of s] by (simp add: gddGraphVert_alt gddMapGet_map_of)
  moreover have "seg_verts ctx s = graph_verts g" using g d(12) by (simp add: seg_verts_def gddMapGet_map_of)
  then have "w \<in> set (all_verts ctx)" using w g by (force simp: all_verts_def)
  ultimately show thesis
    using d(14) [OF w] by (intro that [of w]) (auto simp: gddVertGetInDegree_def gddVertGetOutDegree_def)
qed

lemma fold_max:
  fixes f :: "'a \<Rightarrow> 'b :: linorder" and P :: "'a \<Rightarrow> bool"
  defines "r xs m \<equiv> fold (\<lambda>x m. if P x then max m (f x) else m) xs m"
  shows "m \<le> r xs m \<and> (\<forall>x \<in> set xs. P x \<longrightarrow> f x \<le> r xs m) \<and>
    (r xs m = m \<or> (\<exists>x \<in> set xs. P x \<and> r xs m = f x))"
  unfolding r_def
proof (induction xs arbitrary: m)
  case (Cons x xs)
  from Cons.IH [of "max m (f x)"] Cons.IH [of m] show ?case by (auto simp: max_def split: if_splits)
qed simp

lemma max_vid:
  assumes rel: "gdd_rel es L ctx" and "L \<noteq> {}"
  shows "L \<inter> touches es (gddCtxGetMaxVid ctx) \<noteq> {}"
    and "L \<inter> touches es v \<noteq> {} \<Longrightarrow> v \<le> gddCtxGetMaxVid ctx"
proof -
  let ?P = "\<lambda>w. gddVertGetInDegree w \<noteq> 0 \<or> gddVertGetOutDegree w \<noteq> 0"
  note fm = fold_max [where P = ?P and f = vert_id and xs = "all_verts ctx" and m = 0, folded gddCtxGetMaxVid_def]
  have le: "v \<le> gddCtxGetMaxVid ctx" if "L \<inter> touches es v \<noteq> {}" for v
    using rel that by (rule all_verts_complete) (use fm in auto)
  then show "L \<inter> touches es v \<noteq> {} \<Longrightarrow> v \<le> gddCtxGetMaxVid ctx" .
  obtain e where "e \<in> L" using assms(2) by blast
  then have e: "L \<inter> touches es (edge_from (es ! e)) \<noteq> {}" by (auto simp: touches_def)
  from fm consider "gddCtxGetMaxVid ctx = 0" | w where "w \<in> set (all_verts ctx)" "?P w" "gddCtxGetMaxVid ctx = vert_id w"
    by auto
  then show "L \<inter> touches es (gddCtxGetMaxVid ctx) \<noteq> {}"
  proof cases
    case 1
    with le [OF e] have "edge_from (es ! e) = gddCtxGetMaxVid ctx" by simp
    with e show ?thesis by simp
  next
    case 2
    with all_verts_edges [OF rel] show ?thesis by simp
  qed
qed

abbreviation cancelled :: "GddEdge list \<Rightarrow> vid list \<Rightarrow> nat set" where
  "cancelled es vids \<equiv> \<Union> (touches es ` set vids)"

lemma break_rel:
  assumes "gdd_rel es L ctx"
  shows "\<exists>vids ctx'. GddCtxBreakDeadLock ctx = Some (vids, ctx') \<and> gdd_rel es {} ctx' \<and>
    core es (L - cancelled es vids) = {} \<and> sorted_wrt (>) vids \<and>
    (\<forall>v \<in> set vids. L \<inter> touches es v \<noteq> {})"
  using assms
proof (induction "card L" arbitrary: L ctx rule: less_induct)
  case less
  note d = gdd_relD [OF less.prems]
  have empty: "GddCtxEmpty ctx \<longleftrightarrow> L = {}" using d(3,11) by (simp add: GddCtxEmpty_def)
  show ?case
  proof (cases "L = {}")
    case True
    with less.prems empty core_subset [of es "{}"] show ?thesis
      by (subst GddCtxBreakDeadLock.simps) auto
  next
    case False
    define v where "v = gddCtxGetMaxVid ctx"
    define L1 where "L1 = core es (L - touches es v)"
    note v = max_vid [OF less.prems False, folded v_def]
    from GddCtxReduce_core [OF gddCtxRemoveVid_rel [OF less.prems, of v]] obtain c where
      c: "GddCtxReduce (gddCtxRemoveVid ctx v) = Some c" "gdd_rel es L1 c" by (auto simp: L1_def)
    have sub: "L1 \<subseteq> L - touches es v" unfolding L1_def by (rule core_subset)
    with v(1) d(3) have "card L1 < card L" by (intro psubset_card_mono) auto
    from less.hyps [OF this c(2)] obtain vids c' where IH: "GddCtxBreakDeadLock c = Some (vids, c')"
      "gdd_rel es {} c'" "core es (L1 - cancelled es vids) = {}" "sorted_wrt (>) vids"
      "\<forall>u \<in> set vids. L1 \<inter> touches es u \<noteq> {}" by blast
    have on: "L \<inter> touches es u \<noteq> {} \<and> u \<noteq> v" if "u \<in> set vids" for u
      using IH(5) sub that by blast
    with v(2) have smaller: "u < v" if "u \<in> set vids" for u using that by (simp add: order_less_le)
    have "core es (L - cancelled es (v # vids)) \<subseteq> L1 - cancelled es vids"
      unfolding L1_def using core_mono [of "L - cancelled es (v # vids)" "L - touches es v" es]
        core_subset [of es "L - cancelled es (v # vids)"] by auto
    from core_greatest [OF this core_stable] IH(3) have "core es (L - cancelled es (v # vids)) = {}" by simp
    moreover have "GddCtxBreakDeadLock ctx = Some (v # vids, c')"
      using False empty c(1) IH(1) by (subst GddCtxBreakDeadLock.simps) (simp add: v_def [symmetric] Let_def)
    ultimately show ?thesis using IH(2,4) smaller v(1) on by (intro exI [of _ "v # vids"]) auto
  qed
qed

lemma round_released:
  assumes rel: "gdd_rel es (core es {..<length es}) ctx"
  shows "GddCtxEmpty ctx \<longleftrightarrow> (release_step es)\<^sup>*\<^sup>* {..<length es} {}"
    and "core es (core es {..<length es} - cancelled es vids) = {} \<Longrightarrow>
      (release_step es)\<^sup>*\<^sup>* ({..<length es} - cancelled es vids) {}"
proof -
  let ?L = "{..<length es}"
  have fin: "finite (core es ?L)" using core_subset finite_lessThan by (rule finite_subset)
  have "GddCtxEmpty ctx \<longleftrightarrow> core es ?L = {}" using gdd_relD(11) [OF rel] fin by (simp add: GddCtxEmpty_def)
  then show "GddCtxEmpty ctx \<longleftrightarrow> (release_step es)\<^sup>*\<^sup>* ?L {}" by (simp add: core_empty_iff)
  assume r: "core es (core es ?L - cancelled es vids) = {}"
  have "core es (?L - cancelled es vids) \<subseteq> core es ?L - cancelled es vids"
    using core_mono [of "?L - cancelled es vids" ?L es] core_subset [of es "?L - cancelled es vids"] by blast
  from core_greatest [OF this core_stable] r have "core es (?L - cancelled es vids) = {}" by simp
  then show "(release_step es)\<^sup>*\<^sup>* (?L - cancelled es vids) {}" by (subst core_empty_iff [symmetric]) simp_all
qed

section \<open>A round of the detector process\<close>










section \<open>Properties\<close>

text \<open>C17. The reduction of the wait-for graphs ends, and what it leaves does not depend on the order in which
  segments and vertices are visited: of the edges of the graph exactly those of the largest stable set
  remain (no rule of the algorithm applies to them), with all degree counters and edge lists exact.\<close>

theorem reduce_computes_core:
  "\<exists>ctx. GddCtxReduce (build es) = Some ctx \<and> gdd_rel es (core es {..<length es}) ctx"
  by (rule GddCtxReduce_core [OF build_rel])

text \<open>C7. The detector is exact: it reports no deadlock if and only if all waits can be released one after the
  other by the rules of waiting; and when it reports one, the remaining edges contain a cycle of waits.\<close>

theorem detector_exact:
  "\<exists>ctx. GddCtxReduce (build es) = Some ctx \<and>
     (GddCtxEmpty ctx \<longleftrightarrow> (release_step es)\<^sup>*\<^sup>* {..<length es} {}) \<and>
     (\<not> GddCtxEmpty ctx \<longrightarrow>
        (\<exists>v. (v, v) \<in> {(edge_from (es ! e), edge_to (es ! e)) | e. e \<in> core es {..<length es}}\<^sup>+))"
proof -
  let ?L = "{..<length es}"
  from GddCtxReduce_core [OF build_rel] obtain ctx where c: "GddCtxReduce (build es) = Some ctx"
    and rel: "gdd_rel es (core es ?L) ctx" by blast
  have "finite (core es ?L)" using core_subset finite_lessThan by (rule finite_subset)
  with core_stable have "core es ?L \<noteq> {} \<Longrightarrow>
      \<exists>v. (v, v) \<in> {(edge_from (es ! e), edge_to (es ! e)) | e. e \<in> core es ?L}\<^sup>+" by (rule stable_cycle)
  with c round_released(1) [OF rel] core_empty_iff [OF finite_lessThan, of es "length es"] show ?thesis by blast
qed

text \<open>C16. Breaking deadlocks ends, and is effective: after the transactions on the list are cancelled, all waits of
  the others can be released.  The victims come youngest first, without repetition, and each of them
  takes part in the deadlock.\<close>

theorem break_deadlock_effective:
  "\<exists>ctx vids ctx'. GddCtxReduce (build es) = Some ctx \<and> GddCtxBreakDeadLock ctx = Some (vids, ctx') \<and>
     GddCtxEmpty ctx' \<and> sorted_wrt (>) vids \<and>
     (\<forall>v \<in> set vids. core es {..<length es} \<inter> touches es v \<noteq> {}) \<and>
     (release_step es)\<^sup>*\<^sup>* ({..<length es} - cancelled es vids) {}"
proof -
  let ?L = "{..<length es}"
  from GddCtxReduce_core [OF build_rel] obtain ctx where c: "GddCtxReduce (build es) = Some ctx"
    and rel: "gdd_rel es (core es ?L) ctx" by blast
  from break_rel [OF rel] obtain vids ctx' where b: "GddCtxBreakDeadLock ctx = Some (vids, ctx')"
    "gdd_rel es {} ctx'" "core es (core es ?L - cancelled es vids) = {}" "sorted_wrt (>) vids"
    "\<forall>v \<in> set vids. core es ?L \<inter> touches es v \<noteq> {}" by blast
  have "GddCtxEmpty ctx'" using gdd_relD(11) [OF b(2)] by (simp add: GddCtxEmpty_def)
  with c b round_released(2) [OF rel b(3)] show ?thesis by blast
qed


section \<open>Concrete graphs\<close>

text \<open>
  Two transactions that wait for each other on two segments: a deadlock with solid edges, none when
  one of the waits is dotted.
\<close>

definition ex_edges :: "bool \<Rightarrow> GddEdge list" where
  "ex_edges solid = [\<lparr>edge_solid = solid, edge_seg = 0, edge_from = 1, edge_to = 2\<rparr>,
                     \<lparr>edge_solid = True, edge_seg = 1, edge_from = 2, edge_to = 1\<rparr>]"

lemma ex_solid_stable: "core (ex_edges True) {..<length (ex_edges True)} = {0, 1}"
proof -
  have "stable (ex_edges True) {0, 1}" by (simp add: stable_def ex_edges_def)
  moreover have "{..<length (ex_edges True)} = {0, 1}" by (auto simp: ex_edges_def)
  ultimately show ?thesis by (simp add: core_of_stable)
qed

theorem detector_exact_witness:
  "\<exists>ctx. GddCtxReduce (build (ex_edges True)) = Some ctx \<and> \<not> GddCtxEmpty ctx \<and>
     (\<exists>v. (v, v) \<in> {(edge_from (ex_edges True ! e), edge_to (ex_edges True ! e)) | e.
        e \<in> core (ex_edges True) {..<length (ex_edges True)}}\<^sup>+)"
proof -
  have "\<not> (release_step (ex_edges True))\<^sup>*\<^sup>* {..<length (ex_edges True)} {}"
    using core_empty_iff [OF finite_lessThan] ex_solid_stable by blast
  with detector_exact [of "ex_edges True"] show ?thesis by blast
qed

theorem break_deadlock_effective_witness:
  "\<exists>ctx vids ctx'. GddCtxReduce (build (ex_edges True)) = Some ctx \<and>
     GddCtxBreakDeadLock ctx = Some (vids, ctx') \<and> GddCtxEmpty ctx' \<and>
     (release_step (ex_edges True))\<^sup>*\<^sup>* ({..<2} - cancelled (ex_edges True) vids) {}"
proof -
  have "length (ex_edges True) = 2" by (simp add: ex_edges_def)
  with break_deadlock_effective [of "ex_edges True"] show ?thesis by metis
qed



end
