(* ===== verification/Slru.thy ===== *)
theory Slru
  imports Prelude "HOL-Library.AList" "HOL-Library.Monad_Syntax"
begin

text \<open>
  The simple LRU buffer manager of \<open>access/transam/slru.c\<close>, on which the distributed log is
  kept: a fixed array of page buffers over a directory of segment files.

  The model is that of one process that holds the control lock, so an I/O is over before the
  next operation starts; the two busy states of a slot occur only when an earlier I/O was left
  by an error, and \<open>SimpleLruWaitIO\<close> repairs them as the code does.  A page is a function from
  entry numbers to entries (\<open>MemSet(..., 0, BLCKSZ)\<close> gives \<open>zero_page\<close>); a segment file is the
  list of its pages, and the directory an association list from segment numbers to files.
  Whether a physical I/O fails, and how, is an input: \<open>io_faults\<close> holds the outcome of the next
  I/Os, in order (none left: no failure).  A failing \<open>write\<close> leaves the file as it was.
\<close>

section \<open>State\<close>

type_synonym 'a page = "nat \<Rightarrow> 'a"

definition zero_page :: "'a :: zero page" where
  "zero_page = (\<lambda>_. 0)"

datatype SlruPageStatus =
  SLRU_PAGE_EMPTY | SLRU_PAGE_READ_IN_PROGRESS | SLRU_PAGE_VALID | SLRU_PAGE_WRITE_IN_PROGRESS

datatype SlruErrorCause =
  SLRU_OPEN_FAILED | SLRU_SEEK_FAILED | SLRU_READ_FAILED
| SLRU_WRITE_FAILED | SLRU_FSYNC_FAILED | SLRU_CLOSE_FAILED

definition SLRU_PAGES_PER_SEGMENT :: nat where
  "SLRU_PAGES_PER_SEGMENT = 32"

definition MAX_FLUSH_BUFFERS :: nat where
  "MAX_FLUSH_BUFFERS = 16"

record 'a slru_slot =
  page_buffer :: "'a page"
  page_status :: SlruPageStatus
  page_dirty :: bool
  page_number :: nat
  page_lru_count :: "32 word"

record 'a slru =
  slru_slots :: "'a slru_slot list"
  cur_lru_count :: "32 word"
  latest_page_number :: nat
  seg_files :: "(nat \<times> 'a page list) list"
  io_faults :: "SlruErrorCause option list"
  PagePrecedes :: "nat \<Rightarrow> nat \<Rightarrow> bool"
  do_fsync :: bool
  InRecovery :: bool

abbreviation slot_at :: "('a, 'b) slru_scheme \<Rightarrow> nat \<Rightarrow> 'a slru_slot" where
  "slot_at s i \<equiv> slru_slots s ! i"

definition upd_slot :: "'a slru \<Rightarrow> nat \<Rightarrow> ('a slru_slot \<Rightarrow> 'a slru_slot) \<Rightarrow> 'a slru" where
  "upd_slot s i f = s\<lparr>slru_slots := (slru_slots s)[i := f (slot_at s i)]\<rparr>"

definition SlruRecentlyUsed :: "'a slru \<Rightarrow> nat \<Rightarrow> 'a slru" where
  "SlruRecentlyUsed s slotno =
     (if cur_lru_count s \<noteq> page_lru_count (slot_at s slotno)
      then upd_slot (s\<lparr>cur_lru_count := cur_lru_count s + 1\<rparr>) slotno
             (\<lambda>sl. sl\<lparr>page_lru_count := cur_lru_count s + 1\<rparr>)
      else s)"

section \<open>Physical I/O\<close>

definition seg_file :: "'a slru \<Rightarrow> nat \<Rightarrow> 'a page list option" where
  "seg_file s pageno = map_of (seg_files s) (pageno div SLRU_PAGES_PER_SEGMENT)"

definition disk_page :: "'a slru \<Rightarrow> nat \<Rightarrow> 'a page option" where
  "disk_page s pageno =
     (case seg_file s pageno of
        None \<Rightarrow> None
      | Some pgs \<Rightarrow>
          (if pageno mod SLRU_PAGES_PER_SEGMENT < length pgs
           then Some (pgs ! (pageno mod SLRU_PAGES_PER_SEGMENT)) else None))"

definition SimpleLruDoesPhysicalPageExist :: "'a slru \<Rightarrow> nat \<Rightarrow> bool" where
  "SimpleLruDoesPhysicalPageExist s pageno =
     (case seg_file s pageno of
        None \<Rightarrow> False
      | Some pgs \<Rightarrow> pageno mod SLRU_PAGES_PER_SEGMENT + 1 \<le> length pgs)"

definition next_fault :: "'a slru \<Rightarrow> SlruErrorCause option \<times> 'a slru" where
  "next_fault s =
     (case io_faults s of [] \<Rightarrow> (None, s) | f # fs \<Rightarrow> (f, s\<lparr>io_faults := fs\<rparr>))"

definition SlruPhysicalReadPage ::
  "'a :: zero slru \<Rightarrow> nat \<Rightarrow> (SlruErrorCause + 'a page) \<times> 'a slru" where
  "SlruPhysicalReadPage s pageno =
     (let (f, s1) = next_fault s; rpageno = pageno mod SLRU_PAGES_PER_SEGMENT in
      case seg_file s pageno of
        None \<Rightarrow>
          (if f = Some SLRU_OPEN_FAILED \<or> \<not> InRecovery s then (Inl SLRU_OPEN_FAILED, s1)
           else (Inr zero_page, s1))
      | Some pgs \<Rightarrow>
          (if f = Some SLRU_OPEN_FAILED then (Inl SLRU_OPEN_FAILED, s1)
           else if f = Some SLRU_SEEK_FAILED then (Inl SLRU_SEEK_FAILED, s1)
           else if f = Some SLRU_READ_FAILED \<or> \<not> rpageno < length pgs
           then (Inl SLRU_READ_FAILED, s1)
           else if f = Some SLRU_CLOSE_FAILED then (Inl SLRU_CLOSE_FAILED, s1)
           else (Inr (pgs ! rpageno), s1)))"

text \<open>Writing past the end of a file leaves a hole, which reads as zeros.\<close>

definition file_put :: "nat \<Rightarrow> 'a :: zero page \<Rightarrow> 'a page list \<Rightarrow> 'a page list" where
  "file_put rpageno pg pgs =
     (if rpageno < length pgs then pgs[rpageno := pg]
      else pgs @ replicate (rpageno - length pgs) zero_page @ [pg])"

text \<open>
  The files a flush keeps open are named by their segment numbers; \<open>None\<close> is the null pointer of
  a standalone write.  When sixteen files are open the write goes on as a standalone one, and
  the caller's structure is left as it is.
\<close>

type_synonym SlruFlush = "nat list option"

definition SlruPhysicalWritePage ::
  "'a :: zero slru \<Rightarrow> nat \<Rightarrow> 'a page \<Rightarrow> SlruFlush
   \<Rightarrow> SlruErrorCause option \<times> SlruFlush \<times> 'a slru" where
  "SlruPhysicalWritePage s pageno pg fdata =
     (let (f, s1) = next_fault s;
          segno = pageno div SLRU_PAGES_PER_SEGMENT;
          rpageno = pageno mod SLRU_PAGES_PER_SEGMENT;
          is_open = (case fdata of None \<Rightarrow> False | Some fs \<Rightarrow> segno \<in> set fs)
      in
      if \<not> is_open \<and> f = Some SLRU_OPEN_FAILED then (Some SLRU_OPEN_FAILED, fdata, s1)
      else
        let pgs = (case seg_file s1 pageno of None \<Rightarrow> [] | Some pgs \<Rightarrow> pgs);
            s2 = s1\<lparr>seg_files := AList.update segno pgs (seg_files s1)\<rparr>;
            fdata' = (case fdata of
                        None \<Rightarrow> None
                      | Some fs \<Rightarrow>
                          if \<not> is_open \<and> length fs < MAX_FLUSH_BUFFERS
                          then Some (fs @ [segno]) else Some fs);
            standalone = (case fdata of
                            None \<Rightarrow> True
                          | Some fs \<Rightarrow> \<not> is_open \<and> \<not> length fs < MAX_FLUSH_BUFFERS)
        in
        if f = Some SLRU_SEEK_FAILED then (Some SLRU_SEEK_FAILED, fdata', s2)
        else if f = Some SLRU_WRITE_FAILED then (Some SLRU_WRITE_FAILED, fdata', s2)
        else
          let s3 = s1\<lparr>seg_files := AList.update segno (file_put rpageno pg pgs) (seg_files s1)\<rparr> in
          if standalone \<and> do_fsync s \<and> f = Some SLRU_FSYNC_FAILED
          then (Some SLRU_FSYNC_FAILED, fdata', s3)
          else if standalone \<and> f = Some SLRU_CLOSE_FAILED
          then (Some SLRU_CLOSE_FAILED, fdata', s3)
          else (None, fdata', s3))"

section \<open>Buffer slots\<close>

definition SimpleLruWaitIO :: "'a slru \<Rightarrow> nat \<Rightarrow> 'a slru" where
  "SimpleLruWaitIO s slotno =
     (if page_status (slot_at s slotno) = SLRU_PAGE_READ_IN_PROGRESS
      then upd_slot s slotno (\<lambda>sl. sl\<lparr>page_status := SLRU_PAGE_EMPTY\<rparr>)
      else if page_status (slot_at s slotno) = SLRU_PAGE_WRITE_IN_PROGRESS
      then upd_slot s slotno (\<lambda>sl. sl\<lparr>page_status := SLRU_PAGE_VALID, page_dirty := True\<rparr>)
      else s)"

definition SlruInternalWritePage ::
  "'a :: zero slru \<Rightarrow> nat \<Rightarrow> SlruFlush \<Rightarrow> SlruErrorCause option \<times> SlruFlush \<times> 'a slru" where
  "SlruInternalWritePage s slotno fdata =
     (let s0 = (if page_status (slot_at s slotno) = SLRU_PAGE_WRITE_IN_PROGRESS
                then SimpleLruWaitIO s slotno else s);
          sl = slot_at s0 slotno
      in
      if \<not> page_dirty sl \<or> page_status sl \<noteq> SLRU_PAGE_VALID then (None, fdata, s0)
      else
        let s1 = upd_slot s0 slotno
                   (\<lambda>sl. sl\<lparr>page_status := SLRU_PAGE_WRITE_IN_PROGRESS, page_dirty := False\<rparr>);
            (r, fdata', s2) = SlruPhysicalWritePage s1 (page_number sl) (page_buffer sl) fdata
        in
        (r, fdata',
         upd_slot s2 slotno
           (\<lambda>sl. sl\<lparr>page_dirty := (if r \<noteq> None then True else page_dirty sl),
                   page_status := SLRU_PAGE_VALID\<rparr>)))"

definition SimpleLruWritePage :: "'a :: zero slru \<Rightarrow> nat \<Rightarrow> SlruErrorCause option \<times> 'a slru" where
  "SimpleLruWritePage s slotno =
     (let (r, _, s') = SlruInternalWritePage s slotno None in (r, s'))"

text \<open>The scan for the slot to reuse: the first empty slot, or else the best victims.\<close>

record slru_best =
  bestvalidslot :: nat
  best_valid_delta :: int
  best_valid_page_number :: nat
  bestinvalidslot :: nat
  best_invalid_delta :: int
  best_invalid_page_number :: nat

definition no_best :: slru_best where
  "no_best = \<lparr>bestvalidslot = 0, best_valid_delta = - 1, best_valid_page_number = 0,
     bestinvalidslot = 0, best_invalid_delta = - 1, best_invalid_page_number = 0\<rparr>"

definition page_delta :: "32 word \<Rightarrow> 'a slru_slot \<Rightarrow> int" where
  "page_delta cur_count sl = max 0 (sint (cur_count - page_lru_count sl))"

definition best_update ::
  "(nat \<Rightarrow> nat \<Rightarrow> bool) \<Rightarrow> nat \<Rightarrow> nat \<Rightarrow> int \<Rightarrow> 'a slru_slot \<Rightarrow> slru_best \<Rightarrow> slru_best" where
  "best_update precedes latest slotno this_delta sl b =
     (let this_page_number = page_number sl in
      if this_page_number = latest then b
      else if page_status sl = SLRU_PAGE_VALID
      then (if this_delta > best_valid_delta b \<or>
               this_delta = best_valid_delta b \<and>
                 precedes this_page_number (best_valid_page_number b)
            then b\<lparr>bestvalidslot := slotno, best_valid_delta := this_delta,
                   best_valid_page_number := this_page_number\<rparr>
            else b)
      else (if this_delta > best_invalid_delta b \<or>
               this_delta = best_invalid_delta b \<and>
                 precedes this_page_number (best_invalid_page_number b)
            then b\<lparr>bestinvalidslot := slotno, best_invalid_delta := this_delta,
                   best_invalid_page_number := this_page_number\<rparr>
            else b))"

fun select_scan ::
  "(nat \<Rightarrow> nat \<Rightarrow> bool) \<Rightarrow> 32 word \<Rightarrow> nat \<Rightarrow> nat \<Rightarrow> 'a slru_slot list \<Rightarrow> slru_best
   \<Rightarrow> (nat + slru_best) \<times> 'a slru_slot list" where
  "select_scan precedes cur_count latest slotno [] b = (Inr b, [])"
| "select_scan precedes cur_count latest slotno (sl # sls) b =
     (if page_status sl = SLRU_PAGE_EMPTY then (Inl slotno, sl # sls)
      else
        let sl' = (if sint (cur_count - page_lru_count sl) < 0
                   then sl\<lparr>page_lru_count := cur_count\<rparr> else sl);
            (r, sls') = select_scan precedes cur_count latest (Suc slotno) sls
                          (best_update precedes latest slotno (page_delta cur_count sl) sl b)
        in (r, sl' # sls'))"

fun find_slot :: "nat \<Rightarrow> 'a slru_slot list \<Rightarrow> nat \<Rightarrow> nat option" where
  "find_slot slotno [] pageno = None"
| "find_slot slotno (sl # sls) pageno =
     (if page_number sl = pageno \<and> page_status sl \<noteq> SLRU_PAGE_EMPTY then Some slotno
      else find_slot (Suc slotno) sls pageno)"

text \<open>
  \<open>SlruSelectLRUPage\<close> retries after each page it had to write and after each wait.  \<open>None\<close> is a
  call that never returns.
\<close>

partial_function (option) SlruSelectLRUPage ::
  "'a :: zero slru \<Rightarrow> nat \<Rightarrow> ((SlruErrorCause + nat) \<times> 'a slru) option" where
  "SlruSelectLRUPage s pageno =
     (case find_slot 0 (slru_slots s) pageno of
        Some slotno \<Rightarrow> Some (Inr slotno, s)
      | None \<Rightarrow>
          (let cur_count = cur_lru_count s;
               (r, sls) = select_scan (PagePrecedes s) cur_count (latest_page_number s) 0
                            (slru_slots s) no_best;
               s1 = s\<lparr>slru_slots := sls, cur_lru_count := cur_count + 1\<rparr>
           in
           case r of
             Inl slotno \<Rightarrow> Some (Inr slotno, s1)
           | Inr b \<Rightarrow>
               (if best_valid_delta b < 0
                then SlruSelectLRUPage (SimpleLruWaitIO s1 (bestinvalidslot b)) pageno
                else if \<not> page_dirty (slot_at s1 (bestvalidslot b))
                then Some (Inr (bestvalidslot b), s1)
                else
                  case SlruInternalWritePage s1 (bestvalidslot b) None of
                    (Some e, _, s2) \<Rightarrow> Some (Inl e, s2)
                  | (None, _, s2) \<Rightarrow> SlruSelectLRUPage s2 pageno)))"

section \<open>Page operations\<close>

definition SimpleLruZeroPage ::
  "'a :: zero slru \<Rightarrow> nat \<Rightarrow> ((SlruErrorCause + nat) \<times> 'a slru) option" where
  "SimpleLruZeroPage s pageno =
     (case SlruSelectLRUPage s pageno of
        None \<Rightarrow> None
      | Some (Inl e, s1) \<Rightarrow> Some (Inl e, s1)
      | Some (Inr slotno, s1) \<Rightarrow>
          (let s2 = upd_slot s1 slotno
                      (\<lambda>sl. sl\<lparr>page_number := pageno, page_status := SLRU_PAGE_VALID,
                              page_dirty := True\<rparr>);
               s3 = SlruRecentlyUsed s2 slotno;
               s4 = upd_slot s3 slotno (\<lambda>sl. sl\<lparr>page_buffer := zero_page\<rparr>)
           in Some (Inr slotno, s4\<lparr>latest_page_number := pageno\<rparr>)))"

partial_function (option) SimpleLruReadPage ::
  "'a :: zero slru \<Rightarrow> nat \<Rightarrow> bool \<Rightarrow> ((SlruErrorCause + nat) \<times> 'a slru) option" where
  "SimpleLruReadPage s pageno write_ok =
     (case SlruSelectLRUPage s pageno of
        None \<Rightarrow> None
      | Some (r, s1) \<Rightarrow>
          (case r of
             Inl e \<Rightarrow> Some (Inl e, s1)
           | Inr slotno \<Rightarrow>
               (let sl = slot_at s1 slotno in
                if page_number sl = pageno \<and> page_status sl \<noteq> SLRU_PAGE_EMPTY
                then
                  (if page_status sl = SLRU_PAGE_READ_IN_PROGRESS \<or>
                      page_status sl = SLRU_PAGE_WRITE_IN_PROGRESS \<and> \<not> write_ok
                   then SimpleLruReadPage (SimpleLruWaitIO s1 slotno) pageno write_ok
                   else Some (Inr slotno, SlruRecentlyUsed s1 slotno))
                else
                  (let s2 = upd_slot s1 slotno
                              (\<lambda>sl. sl\<lparr>page_number := pageno,
                                      page_status := SLRU_PAGE_READ_IN_PROGRESS,
                                      page_dirty := False\<rparr>);
                       (r, s3) = SlruPhysicalReadPage s2 pageno
                   in
                   case r of
                     Inl e \<Rightarrow>
                       Some (Inl e,
                             upd_slot s3 slotno (\<lambda>sl. sl\<lparr>page_status := SLRU_PAGE_EMPTY\<rparr>))
                   | Inr pg \<Rightarrow>
                       Some (Inr slotno,
                             SlruRecentlyUsed
                               (upd_slot s3 slotno
                                  (\<lambda>sl. sl\<lparr>page_buffer := pg, page_status := SLRU_PAGE_VALID\<rparr>))
                               slotno)))))"

fun find_readable :: "nat \<Rightarrow> 'a slru_slot list \<Rightarrow> nat \<Rightarrow> nat option" where
  "find_readable slotno [] pageno = None"
| "find_readable slotno (sl # sls) pageno =
     (if page_number sl = pageno \<and> page_status sl \<noteq> SLRU_PAGE_EMPTY \<and>
         page_status sl \<noteq> SLRU_PAGE_READ_IN_PROGRESS
      then Some slotno
      else find_readable (Suc slotno) sls pageno)"

definition SimpleLruReadPage_ReadOnly ::
  "'a :: zero slru \<Rightarrow> nat \<Rightarrow> ((SlruErrorCause + nat) \<times> 'a slru) option" where
  "SimpleLruReadPage_ReadOnly s pageno =
     (case find_readable 0 (slru_slots s) pageno of
        Some slotno \<Rightarrow> Some (Inr slotno, SlruRecentlyUsed s slotno)
      | None \<Rightarrow> SimpleLruReadPage s pageno True)"

fun flush_slots ::
  "'a :: zero slru \<Rightarrow> nat list \<Rightarrow> SlruFlush \<Rightarrow> SlruErrorCause option \<times> SlruFlush \<times> 'a slru" where
  "flush_slots s [] fdata = (None, fdata, s)"
| "flush_slots s (slotno # rest) fdata =
     (case SlruInternalWritePage s slotno fdata of
        (Some e, fdata', s') \<Rightarrow> (Some e, fdata', s')
      | (None, fdata', s') \<Rightarrow> flush_slots s' rest fdata')"

text \<open>Closing the files: every file is synced and closed, and the last failure is reported.\<close>

fun flush_files ::
  "'a slru \<Rightarrow> nat list \<Rightarrow> SlruErrorCause option \<Rightarrow> SlruErrorCause option \<times> 'a slru" where
  "flush_files s [] r = (r, s)"
| "flush_files s (segno # rest) r =
     (let (f, s1) = next_fault s;
          r1 = (if do_fsync s \<and> f = Some SLRU_FSYNC_FAILED then Some SLRU_FSYNC_FAILED else r);
          r2 = (if f = Some SLRU_CLOSE_FAILED then Some SLRU_CLOSE_FAILED else r1)
      in flush_files s1 rest r2)"

definition SimpleLruFlush :: "'a :: zero slru \<Rightarrow> SlruErrorCause option \<times> 'a slru" where
  "SimpleLruFlush s =
     (case flush_slots s [0..<length (slru_slots s)] (Some []) of
        (Some e, _, s1) \<Rightarrow> (Some e, s1)
      | (None, fdata, s1) \<Rightarrow> flush_files s1 (case fdata of None \<Rightarrow> [] | Some fs \<Rightarrow> fs) None)"

section \<open>Truncation\<close>

definition SlruMayDeleteSegment :: "'a slru \<Rightarrow> nat \<Rightarrow> nat \<Rightarrow> bool" where
  "SlruMayDeleteSegment s segpage cutoffPage =
     (let seg_last_page = segpage + SLRU_PAGES_PER_SEGMENT - 1 in
      PagePrecedes s segpage cutoffPage \<and> PagePrecedes s seg_last_page cutoffPage)"

definition SlruInternalDeleteSegment :: "'a slru \<Rightarrow> nat \<Rightarrow> 'a slru" where
  "SlruInternalDeleteSegment s segno = s\<lparr>seg_files := AList.delete segno (seg_files s)\<rparr>"

fun scan_directory ::
  "('a slru \<Rightarrow> nat \<Rightarrow> nat \<Rightarrow> bool \<times> 'a slru) \<Rightarrow> nat list \<Rightarrow> 'a slru \<Rightarrow> bool \<times> 'a slru" where
  "scan_directory callback [] s = (False, s)"
| "scan_directory callback (segno # segnos) s =
     (case callback s segno (segno * SLRU_PAGES_PER_SEGMENT) of
        (True, s1) \<Rightarrow> (True, s1)
      | (False, s1) \<Rightarrow> scan_directory callback segnos s1)"

definition SlruScanDirectory ::
  "('a slru \<Rightarrow> nat \<Rightarrow> nat \<Rightarrow> bool \<times> 'a slru) \<Rightarrow> 'a slru \<Rightarrow> bool \<times> 'a slru" where
  "SlruScanDirectory callback s = scan_directory callback (map fst (seg_files s)) s"

definition SlruScanDirCbReportPresence :: "nat \<Rightarrow> 'a slru \<Rightarrow> nat \<Rightarrow> nat \<Rightarrow> bool \<times> 'a slru" where
  "SlruScanDirCbReportPresence cutoffPage s segno segpage =
     (SlruMayDeleteSegment s segpage cutoffPage, s)"

definition SlruScanDirCbDeleteCutoff :: "nat \<Rightarrow> 'a slru \<Rightarrow> nat \<Rightarrow> nat \<Rightarrow> bool \<times> 'a slru" where
  "SlruScanDirCbDeleteCutoff cutoffPage s segno segpage =
     (False,
      if SlruMayDeleteSegment s segpage cutoffPage
      then SlruInternalDeleteSegment s segno else s)"

text \<open>
  The buffers before the cutoff page are emptied up to the first one that is dirty or busy; that
  one is written, or waited for, and the scan starts again.
\<close>

fun truncate_scan ::
  "(nat \<Rightarrow> bool) \<Rightarrow> nat \<Rightarrow> 'a slru_slot list \<Rightarrow> nat option \<times> 'a slru_slot list" where
  "truncate_scan before slotno [] = (None, [])"
| "truncate_scan before slotno (sl # sls) =
     (if page_status sl = SLRU_PAGE_EMPTY \<or> \<not> before (page_number sl)
      then (let (r, sls') = truncate_scan before (Suc slotno) sls in (r, sl # sls'))
      else if page_status sl = SLRU_PAGE_VALID \<and> \<not> page_dirty sl
      then (let (r, sls') = truncate_scan before (Suc slotno) sls
            in (r, sl\<lparr>page_status := SLRU_PAGE_EMPTY\<rparr> # sls'))
      else (Some slotno, sl # sls))"

partial_function (option) SimpleLruTruncate ::
  "'a :: zero slru \<Rightarrow> nat \<Rightarrow> (SlruErrorCause option \<times> 'a slru) option" where
  "SimpleLruTruncate s cutoffPage =
     (if PagePrecedes s (latest_page_number s) cutoffPage then Some (None, s)
      else
        let (r, sls) = truncate_scan (\<lambda>p. PagePrecedes s p cutoffPage) 0 (slru_slots s);
            s1 = s\<lparr>slru_slots := sls\<rparr>
        in
        case r of
          None \<Rightarrow> Some (None, snd (SlruScanDirectory (SlruScanDirCbDeleteCutoff cutoffPage) s1))
        | Some slotno \<Rightarrow>
            (if page_status (slot_at s1 slotno) = SLRU_PAGE_VALID
             then
               (case SlruInternalWritePage s1 slotno None of
                  (Some e, _, s2) \<Rightarrow> Some (Some e, s2)
                | (None, _, s2) \<Rightarrow> SimpleLruTruncate s2 cutoffPage)
             else SimpleLruTruncate (SimpleLruWaitIO s1 slotno) cutoffPage))"

text \<open>A client changes an entry of a page it has read and marks the page dirty.\<close>

definition slru_store :: "'a slru \<Rightarrow> nat \<Rightarrow> nat \<Rightarrow> 'a \<Rightarrow> 'a slru" where
  "slru_store s slotno entryno v =
     upd_slot s slotno (\<lambda>sl. sl\<lparr>page_buffer := (page_buffer sl)(entryno := v), page_dirty := True\<rparr>)"

declare SlruSelectLRUPage.simps [code] SimpleLruReadPage.simps [code] SimpleLruTruncate.simps [code]

end
