(* ===== verification/Slru_Pages.thy ===== *)
theory Slru_Pages
  imports Slru
begin

text \<open>
  What the SLRU buffer manager promises its clients.

  \<^item> \<open>slru_page\<close> is the contents of a page as a reader sees it, in a buffer or on disk, and
    \<open>slru_inv\<close> the invariant of the buffers.  Choosing a victim, writing, waiting, reading and
    flushing keep both, whatever I/O fails (\<open>slru_kept\<close>).
  \<^item> Zeroing a page or storing an entry changes that page and no other (\<open>page_set\<close>).
  \<^item> Every search for a slot ends, since each retry lowers \<open>slru_rank\<close>; it takes the least
    recently used page that is not the latest one.
  \<^item> A truncation keeps the pages that do not precede the cutoff, for every page order that
    satisfies the locale \<open>page_order\<close>.
\<close>

section \<open>What a reader sees\<close>

definition slot_loaded :: "'a slru_slot \<Rightarrow> bool" where
  "slot_loaded sl \<longleftrightarrow>
     page_status sl = SLRU_PAGE_VALID \<or> page_status sl = SLRU_PAGE_WRITE_IN_PROGRESS"

definition slot_holds :: "'a slru_slot \<Rightarrow> nat \<Rightarrow> bool" where
  "slot_holds sl p \<longleftrightarrow> slot_loaded sl \<and> page_number sl = p"

definition slru_page :: "'a slru \<Rightarrow> nat \<Rightarrow> 'a page option" where
  "slru_page s p =
     (case find (\<lambda>sl. slot_holds sl p) (slru_slots s) of
        Some sl \<Rightarrow> Some (page_buffer sl)
      | None \<Rightarrow> disk_page s p)"

text \<open>
  The invariant: no page is in two slots, and a clean valid buffer is a copy of the page on
  disk.
\<close>

definition slru_inv :: "'a slru \<Rightarrow> bool" where
  "slru_inv s \<longleftrightarrow>
     (\<forall>i < length (slru_slots s). \<forall>j < length (slru_slots s). i \<noteq> j \<longrightarrow>
        page_status (slot_at s i) \<noteq> SLRU_PAGE_EMPTY \<longrightarrow>
        page_status (slot_at s j) \<noteq> SLRU_PAGE_EMPTY \<longrightarrow>
        page_number (slot_at s i) \<noteq> page_number (slot_at s j)) \<and>
     (\<forall>i < length (slru_slots s).
        page_status (slot_at s i) = SLRU_PAGE_VALID \<longrightarrow> \<not> page_dirty (slot_at s i) \<longrightarrow>
        disk_page s (page_number (slot_at s i)) = Some (page_buffer (slot_at s i)))"

definition pages_kept :: "'a slru \<Rightarrow> 'a slru \<Rightarrow> bool" where
  "pages_kept s s' \<longleftrightarrow> (\<forall>p v. slru_page s p = Some v \<longrightarrow> slru_page s' p = Some v)"

lemma pages_kept_refl [simp]: "pages_kept s s"
  by (simp add: pages_kept_def)

lemma pages_kept_trans: "pages_kept s t \<Longrightarrow> pages_kept t u \<Longrightarrow> pages_kept s u"
  by (simp add: pages_kept_def)

lemma pages_keptI:
  assumes "\<And>q v. q \<noteq> p \<Longrightarrow> slru_page s q = Some v \<Longrightarrow> slru_page t q = Some v"
    "\<And>v. slru_page s p = Some v \<Longrightarrow> slru_page t p = Some v"
  shows "pages_kept s t"
  unfolding pages_kept_def using assms by metis

lemma loaded_nonempty: "slot_loaded sl \<Longrightarrow> page_status sl \<noteq> SLRU_PAGE_EMPTY"
  by (auto simp: slot_loaded_def)

lemma slru_invD:
  assumes "slru_inv s"
  shows "i < length (slru_slots s) \<Longrightarrow> j < length (slru_slots s) \<Longrightarrow>
           page_status (slot_at s i) \<noteq> SLRU_PAGE_EMPTY \<Longrightarrow>
           page_status (slot_at s j) \<noteq> SLRU_PAGE_EMPTY \<Longrightarrow>
           page_number (slot_at s i) = page_number (slot_at s j) \<Longrightarrow> i = j"
    and "i < length (slru_slots s) \<Longrightarrow> page_status (slot_at s i) = SLRU_PAGE_VALID \<Longrightarrow>
           \<not> page_dirty (slot_at s i) \<Longrightarrow>
           disk_page s (page_number (slot_at s i)) = Some (page_buffer (slot_at s i))"
  using assms by (auto simp: slru_inv_def)

lemma slru_page_slot:
  assumes "slru_inv s" "i < length (slru_slots s)" "slot_holds (slot_at s i) p"
  shows "slru_page s p = Some (page_buffer (slot_at s i))"
proof -
  obtain sl where f: "find (\<lambda>sl. slot_holds sl p) (slru_slots s) = Some sl"
    using assms(2,3) by (cases "find (\<lambda>sl. slot_holds sl p) (slru_slots s)")
      (auto simp: find_None_iff)
  then obtain j where j: "j < length (slru_slots s)" "slot_holds (slot_at s j) p" "sl = slot_at s j"
    by (auto simp: find_Some_iff)
  have "i = j" using slru_invD(1) [OF assms(1,2) j(1)] assms(3) j(2)
    by (auto simp: slot_holds_def loaded_nonempty)
  with f j(3) show ?thesis by (simp add: slru_page_def)
qed

lemma slru_page_disk:
  assumes "\<And>i. i < length (slru_slots s) \<Longrightarrow> \<not> slot_holds (slot_at s i) p"
  shows "slru_page s p = disk_page s p"
proof -
  have "find (\<lambda>sl. slot_holds sl p) (slru_slots s) = None"
    using assms by (auto simp: find_None_iff in_set_conv_nth)
  then show ?thesis by (simp add: slru_page_def)
qed

lemma slru_page_cases:
  assumes "slru_inv s" "slru_page s p = Some v"
  obtains (slot) i where "i < length (slru_slots s)" "slot_holds (slot_at s i) p"
      "page_buffer (slot_at s i) = v"
  | (disk) "\<And>i. i < length (slru_slots s) \<Longrightarrow> \<not> slot_holds (slot_at s i) p" "disk_page s p = Some v"
  using assms slru_page_slot slru_page_disk by (metis option.inject)

definition slru_frame :: "'a slru \<Rightarrow> 'a slru \<Rightarrow> bool" where
  "slru_frame s s' \<longleftrightarrow>
     length (slru_slots s') = length (slru_slots s) \<and>
     PagePrecedes s' = PagePrecedes s \<and> InRecovery s' = InRecovery s"

lemma slru_frame_refl [simp]: "slru_frame s s"
  by (simp add: slru_frame_def)

lemma slru_frame_trans: "slru_frame s t \<Longrightarrow> slru_frame t u \<Longrightarrow> slru_frame s u"
  by (simp add: slru_frame_def)

definition slru_kept :: "'a slru \<Rightarrow> 'a slru \<Rightarrow> bool" where
  "slru_kept s s' \<longleftrightarrow> slru_inv s' \<and> pages_kept s s' \<and> slru_frame s s'"

lemma slru_kept_refl: "slru_inv s \<Longrightarrow> slru_kept s s"
  by (simp add: slru_kept_def)

lemma slru_kept_trans: "slru_kept s t \<Longrightarrow> slru_kept t u \<Longrightarrow> slru_kept s u"
  unfolding slru_kept_def using pages_kept_trans slru_frame_trans by blast

text \<open>
  The steps that leave every page in its slot or drop it to disk: a relation slot by slot, and
  two conditions on the disk.
\<close>

definition slot_kept :: "'a slru_slot \<Rightarrow> 'a slru_slot \<Rightarrow> bool" where
  "slot_kept a b \<longleftrightarrow>
     page_number b = page_number a \<and> page_buffer b = page_buffer a \<and>
     (page_status b \<noteq> SLRU_PAGE_EMPTY \<longrightarrow> page_status a \<noteq> SLRU_PAGE_EMPTY) \<and>
     (slot_loaded b \<longrightarrow> slot_loaded a)"

lemma slot_kept_refl [simp]: "slot_kept a a"
  by (simp add: slot_kept_def)

lemma slots_kept:
  assumes inv: "slru_inv s"
    and kept: "\<And>i. i < length (slru_slots s) \<Longrightarrow> slot_kept (slot_at s i) (slot_at s' i)"
    and clean: "\<And>i. i < length (slru_slots s) \<Longrightarrow> page_status (slot_at s' i) = SLRU_PAGE_VALID \<Longrightarrow>
      \<not> page_dirty (slot_at s' i) \<Longrightarrow>
      disk_page s' (page_number (slot_at s i)) = Some (page_buffer (slot_at s i))"
    and disk: "\<And>p v. slru_page s p = Some v \<Longrightarrow>
      (\<And>i. i < length (slru_slots s) \<Longrightarrow> \<not> slot_holds (slot_at s' i) p) \<Longrightarrow> disk_page s' p = Some v"
    and frame: "slru_frame s s'"
  shows "slru_kept s s'"
proof -
  note len = frame [unfolded slru_frame_def, THEN conjunct1]
  have inv': "slru_inv s'"
    using inv kept clean unfolding slru_inv_def len slot_kept_def by metis
  moreover have "pages_kept s s'"
    unfolding pages_kept_def
  proof (intro allI impI)
    fix p v assume v: "slru_page s p = Some v"
    show "slru_page s' p = Some v"
    proof (cases "\<exists>i < length (slru_slots s). slot_holds (slot_at s' i) p")
      case True
      then obtain i where i: "i < length (slru_slots s)" "slot_holds (slot_at s' i) p" by blast
      then have h: "slot_holds (slot_at s i) p" "page_buffer (slot_at s' i) = page_buffer (slot_at s i)"
        using kept [OF i(1)] by (auto simp: slot_kept_def slot_holds_def)
      show ?thesis using slru_page_slot [OF inv i(1) h(1)] slru_page_slot [OF inv' _ i(2)] i(1) v h(2)
        by (simp add: len)
    next
      case False
      then have n: "\<And>i. i < length (slru_slots s) \<Longrightarrow> \<not> slot_holds (slot_at s' i) p" by blast
      then show ?thesis using slru_page_disk [of s' p] disk [OF v n] by (simp add: len)
    qed
  qed
  ultimately show ?thesis using frame by (simp add: slru_kept_def)
qed

section \<open>Lemmas on physical I/O\<close>

lemma upd_slot_simps [simp]:
  "slru_slots (upd_slot s i f) = (slru_slots s)[i := f (slot_at s i)]"
  "cur_lru_count (upd_slot s i f) = cur_lru_count s"
  "latest_page_number (upd_slot s i f) = latest_page_number s"
  "seg_files (upd_slot s i f) = seg_files s"
  "io_faults (upd_slot s i f) = io_faults s"
  "PagePrecedes (upd_slot s i f) = PagePrecedes s"
  "do_fsync (upd_slot s i f) = do_fsync s"
  "InRecovery (upd_slot s i f) = InRecovery s"
  by (simp_all add: upd_slot_def)

lemma next_fault_simps [simp]:
  "slru_slots (snd (next_fault s)) = slru_slots s"
  "cur_lru_count (snd (next_fault s)) = cur_lru_count s"
  "latest_page_number (snd (next_fault s)) = latest_page_number s"
  "seg_files (snd (next_fault s)) = seg_files s"
  "PagePrecedes (snd (next_fault s)) = PagePrecedes s"
  "do_fsync (snd (next_fault s)) = do_fsync s"
  "InRecovery (snd (next_fault s)) = InRecovery s"
  by (simp_all add: next_fault_def split: list.splits)

lemma disk_page_files: "seg_files s = seg_files s' \<Longrightarrow> disk_page s = disk_page s'"
  by (rule ext) (simp add: disk_page_def seg_file_def)

lemma slru_page_cong:
  "seg_files s = seg_files s' \<Longrightarrow> slru_slots s = slru_slots s' \<Longrightarrow> slru_page s = slru_page s'"
  by (rule ext) (metis disk_page_files slru_page_def)

lemma slru_inv_cong:
  "seg_files s = seg_files s' \<Longrightarrow> slru_slots s = slru_slots s' \<Longrightarrow>
   slru_inv s = slru_inv s'"
  unfolding slru_inv_def using disk_page_files [of s s'] by simp

lemma page_number_split:
  "p div SLRU_PAGES_PER_SEGMENT = q div SLRU_PAGES_PER_SEGMENT \<Longrightarrow>
   p mod SLRU_PAGES_PER_SEGMENT = q mod SLRU_PAGES_PER_SEGMENT \<Longrightarrow> p = q"
  by (metis div_mult_mod_eq)

lemma file_put_nth:
  "r < length pgs \<Longrightarrow> r \<noteq> rp \<Longrightarrow> r < length (file_put rp pg pgs) \<and> file_put rp pg pgs ! r = pgs ! r"
  "rp < length (file_put rp pg pgs) \<and> file_put rp pg pgs ! rp = pg"
  by (auto simp: file_put_def nth_append)

lemma disk_page_put:
  assumes "seg_files s' = AList.update (p div SLRU_PAGES_PER_SEGMENT)
             (file_put (p mod SLRU_PAGES_PER_SEGMENT) pg
                (case seg_file s p of None \<Rightarrow> [] | Some pgs \<Rightarrow> pgs)) (seg_files s)"
  shows "disk_page s' p = Some pg" and "q \<noteq> p \<Longrightarrow> disk_page s q = Some v \<Longrightarrow> disk_page s' q = Some v"
proof -
  show "disk_page s' p = Some pg"
    using assms by (simp add: disk_page_def seg_file_def update_conv' file_put_nth)
  assume q: "q \<noteq> p" "disk_page s q = Some v"
  then obtain pgs where pgs: "map_of (seg_files s) (q div SLRU_PAGES_PER_SEGMENT) = Some pgs"
    "q mod SLRU_PAGES_PER_SEGMENT < length pgs" "pgs ! (q mod SLRU_PAGES_PER_SEGMENT) = v"
    by (auto simp: disk_page_def seg_file_def split: option.splits if_splits)
  show "disk_page s' q = Some v"
  proof (cases "q div SLRU_PAGES_PER_SEGMENT = p div SLRU_PAGES_PER_SEGMENT")
    case True
    then have "q mod SLRU_PAGES_PER_SEGMENT \<noteq> p mod SLRU_PAGES_PER_SEGMENT"
      using page_number_split [of q p] q(1) by blast
    from file_put_nth(1) [OF pgs(2) this] True pgs assms show ?thesis
      by (simp add: disk_page_def seg_file_def update_conv')
  next
    case False
    with pgs assms show ?thesis by (simp add: disk_page_def seg_file_def update_conv')
  qed
qed

lemma disk_page_touch:
  assumes "seg_files s' = AList.update (p div SLRU_PAGES_PER_SEGMENT)
             (case seg_file s p of None \<Rightarrow> [] | Some pgs \<Rightarrow> pgs) (seg_files s)"
  shows "disk_page s' = disk_page s"
  using assms by (auto simp: disk_page_def seg_file_def update_conv' fun_eq_iff split: option.splits)

text \<open>
  A physical write leaves the disk as it was or puts the page on it; when it reports success the
  page is there.
\<close>

lemma physical_write:
  assumes "SlruPhysicalWritePage s p pg fdata = (r, fdata', s')"
  shows "slru_slots s' = slru_slots s" "latest_page_number s' = latest_page_number s"
    "cur_lru_count s' = cur_lru_count s" "PagePrecedes s' = PagePrecedes s"
    "InRecovery s' = InRecovery s"
    and "r = None \<Longrightarrow> disk_page s' p = Some pg"
    and "disk_page s' p = disk_page s p \<or> disk_page s' p = Some pg"
    and "q \<noteq> p \<Longrightarrow> disk_page s q = Some v \<Longrightarrow> disk_page s' q = Some v"
proof -
  obtain f s1 where f: "next_fault s = (f, s1)" by force
  have s1: "slru_slots s1 = slru_slots s" "latest_page_number s1 = latest_page_number s"
    "cur_lru_count s1 = cur_lru_count s" "PagePrecedes s1 = PagePrecedes s"
    "InRecovery s1 = InRecovery s" "seg_files s1 = seg_files s"
    using next_fault_simps [of s] f by simp_all
  let ?upd = "\<lambda>pgs. AList.update (p div SLRU_PAGES_PER_SEGMENT) pgs (seg_files s)"
  let ?old = "case seg_file s p of None \<Rightarrow> [] | Some pgs \<Rightarrow> pgs"
  let ?new = "file_put (p mod SLRU_PAGES_PER_SEGMENT) pg ?old"
  have seg: "seg_file s1 p = seg_file s p" by (simp add: seg_file_def s1)
  have res: "s' = s1 \<and> r \<noteq> None \<or> s' = s1\<lparr>seg_files := ?upd ?old\<rparr> \<and> r \<noteq> None \<or>
      s' = s1\<lparr>seg_files := ?upd ?new\<rparr>"
  proof -
    have "case SlruPhysicalWritePage s p pg fdata of (r, fdata', s') \<Rightarrow>
        s' = s1 \<and> r \<noteq> None \<or> s' = s1\<lparr>seg_files := ?upd ?old\<rparr> \<and> r \<noteq> None \<or>
        s' = s1\<lparr>seg_files := ?upd ?new\<rparr>"
      unfolding SlruPhysicalWritePage_def f Let_def prod.case seg s1(6)
      by (simp only: if_split prod.case option.distinct not_False_eq_True simp_thms)
    with assms show ?thesis by simp
  qed
  then have files: "seg_files s' = seg_files s \<and> r \<noteq> None \<or> seg_files s' = ?upd ?old \<and> r \<noteq> None \<or>
      seg_files s' = ?upd ?new"
    by (elim disjE conjE) (simp_all add: s1(6))
  have frame: "slru_slots s' = slru_slots s1 \<and> latest_page_number s' = latest_page_number s1 \<and>
      cur_lru_count s' = cur_lru_count s1 \<and> PagePrecedes s' = PagePrecedes s1 \<and>
      InRecovery s' = InRecovery s1"
    using res by (elim disjE conjE) simp_all
  show "slru_slots s' = slru_slots s" "latest_page_number s' = latest_page_number s"
    "cur_lru_count s' = cur_lru_count s" "PagePrecedes s' = PagePrecedes s"
    "InRecovery s' = InRecovery s"
    using frame s1 by simp_all
  show "r = None \<Longrightarrow> disk_page s' p = Some pg"
    using files disk_page_put(1) [of s' p pg s] by simp
  show "disk_page s' p = disk_page s p \<or> disk_page s' p = Some pg"
    using files
  proof (elim disjE conjE)
    assume "seg_files s' = seg_files s"
    from disk_page_files [OF this] show ?thesis by simp
  next
    assume "seg_files s' = ?upd ?old"
    from disk_page_touch [OF this] show ?thesis by simp
  next
    assume "seg_files s' = ?upd ?new"
    from disk_page_put(1) [OF this] show ?thesis by simp
  qed
  assume q: "q \<noteq> p" "disk_page s q = Some v"
  show "disk_page s' q = Some v"
    using files
  proof (elim disjE conjE)
    assume "seg_files s' = seg_files s"
    from disk_page_files [OF this] q(2) show ?thesis by simp
  next
    assume "seg_files s' = ?upd ?old"
    from disk_page_touch [OF this] q(2) show ?thesis by simp
  next
    assume "seg_files s' = ?upd ?new"
    from disk_page_put(2) [OF this q] show ?thesis .
  qed
qed

section \<open>Writing and waiting keep every page\<close>

lemma SimpleLruWaitIO_kept:
  assumes "slru_inv s" "i < length (slru_slots s)"
  shows "slru_kept s (SimpleLruWaitIO s i)"
proof -
  have files: "seg_files (SimpleLruWaitIO s i) = seg_files s" by (simp add: SimpleLruWaitIO_def)
  note d = disk_page_files [OF files]
  have slot: "slot_at (SimpleLruWaitIO s i) j =
      (if j = i \<and> page_status (slot_at s i) = SLRU_PAGE_READ_IN_PROGRESS
       then (slot_at s i)\<lparr>page_status := SLRU_PAGE_EMPTY\<rparr>
       else if j = i \<and> page_status (slot_at s i) = SLRU_PAGE_WRITE_IN_PROGRESS
       then (slot_at s i)\<lparr>page_status := SLRU_PAGE_VALID, page_dirty := True\<rparr>
       else slot_at s j)" if "j < length (slru_slots s)" for j
    using that assms(2) by (simp add: SimpleLruWaitIO_def)
  have loaded: "slot_loaded (slot_at (SimpleLruWaitIO s i) j) = slot_loaded (slot_at s j)"
    "page_number (slot_at (SimpleLruWaitIO s i) j) = page_number (slot_at s j)"
    if "j < length (slru_slots s)" for j
    using slot [OF that] by (auto simp: slot_loaded_def)
  show ?thesis
  proof (rule slots_kept [OF assms(1)], goal_cases)
    case (1 j) then show ?case using slot [OF 1] by (auto simp: slot_kept_def slot_loaded_def)
  next
    case (2 j) then show ?case using slot [OF 2(1)] slru_invD(2) [OF assms(1) 2(1)] d
      by (auto split: if_splits)
  next
    case (3 p v) then show ?case using slru_page_disk [of s p] loaded d
      by (metis slot_holds_def)
  next
    case 4 show ?case by (simp add: slru_frame_def SimpleLruWaitIO_def)
  qed
qed

text \<open>
  Writing a slot: the other slots are untouched, the slot keeps its page, and after a success it
  is not dirty.  Whether the write succeeds or fails, no page is lost.
\<close>

definition write_settled :: "'a slru \<Rightarrow> nat \<Rightarrow> 'a slru" where
  "write_settled s i =
     (if page_status (slot_at s i) = SLRU_PAGE_WRITE_IN_PROGRESS then SimpleLruWaitIO s i else s)"

lemma SlruInternalWritePage_cases:
  assumes "SlruInternalWritePage s i fdata = (r, fdata', s')"
  obtains (skip) "\<not> page_dirty (slot_at (write_settled s i) i) \<or>
      page_status (slot_at (write_settled s i) i) \<noteq> SLRU_PAGE_VALID"
      "s' = write_settled s i" "r = None"
  | (wrote) s1 s2 where "page_status (slot_at (write_settled s i) i) = SLRU_PAGE_VALID"
      "s1 = upd_slot (write_settled s i) i
        (\<lambda>sl. sl\<lparr>page_status := SLRU_PAGE_WRITE_IN_PROGRESS, page_dirty := False\<rparr>)"
      "SlruPhysicalWritePage s1 (page_number (slot_at (write_settled s i) i))
         (page_buffer (slot_at (write_settled s i) i)) fdata = (r, fdata', s2)"
      "s' = upd_slot s2 i (\<lambda>sl. sl\<lparr>page_dirty := (if r \<noteq> None then True else page_dirty sl),
                                  page_status := SLRU_PAGE_VALID\<rparr>)"
  using assms unfolding SlruInternalWritePage_def write_settled_def [symmetric] Let_def
  by (auto split: if_splits prod.splits)

lemma write_settled_slots:
  assumes "i < length (slru_slots s)"
  shows "slru_frame s (write_settled s i)"
    "latest_page_number (write_settled s i) = latest_page_number s"
    "cur_lru_count (write_settled s i) = cur_lru_count s"
    "length (slru_slots (write_settled s i)) = length (slru_slots s)"
    "j \<noteq> i \<Longrightarrow> slot_at (write_settled s i) j = slot_at s j"
    "slot_kept (slot_at s i) (slot_at (write_settled s i) i)"
    "slot_loaded (slot_at (write_settled s i) i) = slot_loaded (slot_at s i)"
    "page_status (slot_at (write_settled s i) i) \<noteq> SLRU_PAGE_WRITE_IN_PROGRESS"
    "page_status (slot_at (write_settled s i) i) = SLRU_PAGE_EMPTY \<longleftrightarrow>
     page_status (slot_at s i) = SLRU_PAGE_EMPTY"
  using assms
  by (simp_all add: write_settled_def SimpleLruWaitIO_def slru_frame_def slot_loaded_def slot_kept_def)

definition wrote_slot :: "nat \<Rightarrow> SlruErrorCause option \<Rightarrow> 'a slru \<Rightarrow> 'a slru \<Rightarrow> bool" where
  "wrote_slot i r s s' \<longleftrightarrow>
     slru_frame s s' \<and> latest_page_number s' = latest_page_number s \<and>
     cur_lru_count s' = cur_lru_count s \<and>
     (\<forall>j. j \<noteq> i \<longrightarrow> slot_at s' j = slot_at s j) \<and> slot_kept (slot_at s i) (slot_at s' i) \<and>
     slot_loaded (slot_at s' i) = slot_loaded (slot_at s i) \<and>
     page_status (slot_at s' i) \<noteq> SLRU_PAGE_WRITE_IN_PROGRESS \<and>
     (page_status (slot_at s' i) = SLRU_PAGE_EMPTY \<longleftrightarrow>
      page_status (slot_at s i) = SLRU_PAGE_EMPTY) \<and>
     (r = None \<longrightarrow> page_status (slot_at s' i) = SLRU_PAGE_VALID \<longrightarrow> \<not> page_dirty (slot_at s' i))"

lemma SlruInternalWritePage_slots:
  assumes "SlruInternalWritePage s i fdata = (r, fdata', s')" "i < length (slru_slots s)"
  shows "wrote_slot i r s s'"
  using assms(1)
proof (cases rule: SlruInternalWritePage_cases)
  case skip
  with write_settled_slots [OF assms(2)] show ?thesis by (auto simp: wrote_slot_def)
next
  case (wrote s1 s2)
  note w = physical_write(1-5) [OF wrote(3), unfolded wrote(2)]
  from w write_settled_slots [OF assms(2)] wrote(1) assms(2) show ?thesis
    by (simp add: wrote(4) wrote_slot_def slru_frame_def slot_loaded_def slot_kept_def)
qed

lemma SlruInternalWritePage_kept:
  assumes "SlruInternalWritePage s i fdata = (r, fdata', s')" "slru_inv s" "i < length (slru_slots s)"
  shows "slru_kept s s'"
proof -
  let ?s0 = "write_settled s i" and ?p = "page_number (slot_at (write_settled s i) i)"
  have kept0: "slru_kept s ?s0"
    using SimpleLruWaitIO_kept [OF assms(2,3)] slru_kept_refl [OF assms(2)]
    by (simp add: write_settled_def)
  then have inv0: "slru_inv ?s0" by (simp add: slru_kept_def)
  from assms(1) show ?thesis
  proof (cases rule: SlruInternalWritePage_cases)
    case skip
    with kept0 show ?thesis by simp
  next
    case (wrote s1 s2)
    note w = physical_write [OF wrote(3), unfolded wrote(2) disk_page_files [OF upd_slot_simps(4)]]
    note len = write_settled_slots(4) [OF assms(3)]
    have d: "disk_page s' = disk_page s2" by (rule disk_page_files) (simp add: wrote(4))
    have slot: "slot_at s' j = (if j = i then (slot_at ?s0 i)\<lparr>page_status := SLRU_PAGE_VALID,
        page_dirty := (r \<noteq> None)\<rparr> else slot_at ?s0 j)" if "j < length (slru_slots ?s0)" for j
      using that assms(3) w(1) by (simp add: wrote(4) len)
    have holds: "slot_holds (slot_at s' j) = slot_holds (slot_at ?s0 j)"
      if "j < length (slru_slots ?s0)" for j
      using slot [OF that] wrote(1) by (auto simp: fun_eq_iff slot_holds_def slot_loaded_def)
    have "slru_kept ?s0 s'"
    proof (rule slots_kept [OF inv0], goal_cases)
      case (1 j) then show ?case using slot [OF 1] wrote(1)
        by (auto simp: slot_kept_def slot_loaded_def)
    next
      case (2 j)
      show ?case
      proof (cases "j = i")
        case True
        with 2 slot [OF 2(1)] w(6) d show ?thesis by simp
      next
        case False
        then have "disk_page ?s0 (page_number (slot_at ?s0 j)) = Some (page_buffer (slot_at ?s0 j))"
          using 2 slot [OF 2(1)] slru_invD(2) [OF inv0 2(1)] by simp
        moreover have "page_number (slot_at ?s0 j) \<noteq> ?p"
          using slru_invD(1) [OF inv0 2(1), of i] False 2 slot [OF 2(1)] wrote(1) assms(3) len by auto
        ultimately show ?thesis using w(8) d by simp
      qed
    next
      case (3 p v)
      have "p \<noteq> ?p" using 3(2) [of i] holds [of i] wrote(1) assms(3) len
        by (auto simp: slot_holds_def slot_loaded_def)
      moreover have "disk_page ?s0 p = Some v" using 3 slru_page_disk [of ?s0 p] holds by simp
      ultimately show ?case using w(8) d by simp
    next
      case 4 show ?case using w by (simp add: wrote(4) slru_frame_def)
    qed
    with kept0 show ?thesis by (rule slru_kept_trans)
  qed
qed

lemma no_fault_write:
  assumes "SlruInternalWritePage s i fdata = (r, fdata', s')" "io_faults s = []"
  shows "r = None" "io_faults s' = []"
proof -
  have f: "io_faults (write_settled s i) = []"
    using assms(2) by (simp add: write_settled_def SimpleLruWaitIO_def)
  from assms(1) have "r = None \<and> io_faults s' = []"
  proof (cases rule: SlruInternalWritePage_cases)
    case (wrote s1 s2)
    from wrote(3) f have "r = None \<and> io_faults s2 = []"
      by (auto simp: SlruPhysicalWritePage_def next_fault_def wrote(2) Let_def)
    with wrote(4) show ?thesis by simp
  qed (simp add: f)
  then show "r = None" "io_faults s' = []" by simp_all
qed

section \<open>Choosing a slot\<close>

definition lru_changed :: "'a slru_slot \<Rightarrow> 'a slru_slot \<Rightarrow> bool" where
  "lru_changed a b \<longleftrightarrow> b = a\<lparr>page_lru_count := page_lru_count b\<rparr>"

lemma lru_changed_simps:
  assumes "lru_changed a b"
  shows "page_buffer b = page_buffer a" "page_status b = page_status a"
    "page_dirty b = page_dirty a" "page_number b = page_number a"
  using assms unfolding lru_changed_def by (metis slru_slot.select_convs slru_slot.surjective slru_slot.update_convs(5))+

lemma lru_changed_set [simp]: "lru_changed a a" "lru_changed a (a\<lparr>page_lru_count := c\<rparr>)"
  by (simp_all add: lru_changed_def)

lemma select_scan_slots:
  "select_scan prec cur latest n sls b = (r, sls') \<Longrightarrow> list_all2 lru_changed sls sls'"
  by (induction sls arbitrary: n b sls')
    (auto simp: Let_def list_all2_refl split: if_splits prod.splits)

lemma select_scan_empty:
  "select_scan prec cur latest n sls b = (Inl k, sls') \<Longrightarrow>
   \<exists>j < length sls. k = n + j \<and> page_status (sls ! j) = SLRU_PAGE_EMPTY"
proof (induction sls arbitrary: n b sls')
  case (Cons sl sls)
  show ?case
  proof (cases "page_status sl = SLRU_PAGE_EMPTY")
    case True
    with Cons.prems show ?thesis by (intro exI [of _ 0]) auto
  next
    case False
    with Cons.prems obtain b' sls'' where "select_scan prec cur latest (Suc n) sls b' = (Inl k, sls'')"
      by (auto simp: Let_def split: prod.splits)
    from Cons.IH [OF this] obtain j where "j < length sls" "k = Suc n + j"
      "page_status (sls ! j) = SLRU_PAGE_EMPTY" by blast
    then show ?thesis by (intro exI [of _ "Suc j"]) simp
  qed
qed simp

text \<open>
  What the scan ends with when no slot is empty: the valid victim is at least as old as every
  other valid page but the latest, and the busy victim likewise.
\<close>

definition best_of ::
  "('a slru_slot \<Rightarrow> bool) \<Rightarrow> 32 word \<Rightarrow> nat \<Rightarrow> 'a slru_slot list \<Rightarrow> nat \<Rightarrow> int \<Rightarrow> nat \<Rightarrow> int \<Rightarrow> bool" where
  "best_of P cur n sls slot0 delta0 slot delta \<longleftrightarrow>
     delta0 \<le> delta \<and> (\<forall>sl \<in> set sls. P sl \<longrightarrow> page_delta cur sl \<le> delta) \<and>
     (slot = slot0 \<and> delta = delta0 \<or>
      (\<exists>j < length sls. slot = n + j \<and> P (sls ! j) \<and> page_delta cur (sls ! j) = delta))"

lemma best_of_Nil: "best_of P cur n [] slot0 delta0 slot0 delta0"
  by (simp add: best_of_def)

lemma best_of_Cons:
  assumes "best_of P cur (Suc n) sls slot1 delta1 slot delta"
    and "\<not> P sl \<and> slot1 = slot0 \<and> delta1 = delta0 \<or>
         P sl \<and> delta0 \<le> delta1 \<and> page_delta cur sl \<le> delta1 \<and>
           (slot1 = slot0 \<and> delta1 = delta0 \<or> slot1 = n \<and> delta1 = page_delta cur sl)"
  shows "best_of P cur n (sl # sls) slot0 delta0 slot delta"
proof -
  have later: "\<exists>j < length (sl # sls). slot = n + j \<and> P ((sl # sls) ! j) \<and>
      page_delta cur ((sl # sls) ! j) = delta"
    if "\<exists>j < length sls. slot = Suc n + j \<and> P (sls ! j) \<and> page_delta cur (sls ! j) = delta"
  proof -
    from that obtain j where "j < length sls" "slot = Suc n + j" "P (sls ! j)"
      "page_delta cur (sls ! j) = delta" by blast
    then show ?thesis by (intro exI [of _ "Suc j"]) simp
  qed
  have here: "\<exists>j < length (sl # sls). n = n + j \<and> P ((sl # sls) ! j) \<and>
      page_delta cur ((sl # sls) ! j) = page_delta cur sl" if "P sl"
    using that by (intro exI [of _ 0]) simp
  show ?thesis using assms later here unfolding best_of_def by auto
qed

definition victim :: "nat \<Rightarrow> 'a slru_slot \<Rightarrow> bool" where
  "victim latest sl \<longleftrightarrow> page_status sl = SLRU_PAGE_VALID \<and> page_number sl \<noteq> latest"

definition busy_victim :: "nat \<Rightarrow> 'a slru_slot \<Rightarrow> bool" where
  "busy_victim latest sl \<longleftrightarrow>
     page_status sl \<noteq> SLRU_PAGE_VALID \<and> page_status sl \<noteq> SLRU_PAGE_EMPTY \<and> page_number sl \<noteq> latest"

lemma select_scan_best:
  "select_scan prec cur latest n sls b = (Inr b', sls') \<Longrightarrow>
   (\<forall>sl \<in> set sls. page_status sl \<noteq> SLRU_PAGE_EMPTY) \<and>
   best_of (victim latest) cur n sls (bestvalidslot b) (best_valid_delta b)
     (bestvalidslot b') (best_valid_delta b') \<and>
   best_of (busy_victim latest) cur n sls (bestinvalidslot b) (best_invalid_delta b)
     (bestinvalidslot b') (best_invalid_delta b')"
proof (induction sls arbitrary: n b sls')
  case Nil
  then show ?case by (simp add: best_of_Nil)
next
  case (Cons sl sls)
  let ?b = "best_update prec latest n (page_delta cur sl) sl b"
  from Cons.prems obtain t where full: "page_status sl \<noteq> SLRU_PAGE_EMPTY"
    and rest: "select_scan prec cur latest (Suc n) sls ?b = (Inr b', t)"
    by (auto simp: Let_def split: if_splits prod.splits)
  note IH = Cons.IH [OF rest]
  have "best_of (victim latest) cur n (sl # sls) (bestvalidslot b) (best_valid_delta b)
     (bestvalidslot b') (best_valid_delta b')"
    by (rule best_of_Cons [OF IH [THEN conjunct2, THEN conjunct1]])
      (auto simp: best_update_def Let_def victim_def)
  moreover have "best_of (busy_victim latest) cur n (sl # sls) (bestinvalidslot b)
     (best_invalid_delta b) (bestinvalidslot b') (best_invalid_delta b')"
    by (rule best_of_Cons [OF IH [THEN conjunct2, THEN conjunct2]])
      (use full in \<open>auto simp: best_update_def Let_def busy_victim_def\<close>)
  ultimately show ?case using IH full by simp
qed

text \<open>
  The rank of the state bounds the retries: every page written and every wait lowers it.
\<close>

definition slot_weight :: "'a slru_slot \<Rightarrow> nat" where
  "slot_weight sl =
     (case page_status sl of
        SLRU_PAGE_EMPTY \<Rightarrow> 0
      | SLRU_PAGE_VALID \<Rightarrow> (if page_dirty sl then 1 else 0)
      | _ \<Rightarrow> 2)"

definition slru_rank :: "'a slru \<Rightarrow> nat" where
  "slru_rank s = (\<Sum>i < length (slru_slots s). slot_weight (slot_at s i))"

lemma slru_rank_less:
  assumes "length (slru_slots s') = length (slru_slots s)" "i < length (slru_slots s)"
    and "\<And>j. j \<noteq> i \<Longrightarrow> slot_at s' j = slot_at s j"
    and "slot_weight (slot_at s' i) < slot_weight (slot_at s i)"
  shows "slru_rank s' < slru_rank s"
  unfolding slru_rank_def assms(1)
  by (rule sum_strict_mono_ex1) (use assms in \<open>auto intro: exI [of _ i]\<close>, metis le_refl nat_less_le)

lemma wrote_slot_rank:
  assumes "wrote_slot i r s s'" "i < length (slru_slots s)"
    "slot_weight (slot_at s i) > 0" "page_status (slot_at s i) \<noteq> SLRU_PAGE_READ_IN_PROGRESS" "r = None"
  shows "slru_rank s' < slru_rank s"
proof (rule slru_rank_less)
  show "slot_weight (slot_at s' i) < slot_weight (slot_at s i)"
    using assms unfolding wrote_slot_def slot_weight_def slot_loaded_def
    by (cases "page_status (slot_at s' i)"; cases "page_status (slot_at s i)") auto
qed (use assms in \<open>simp_all add: wrote_slot_def slru_frame_def\<close>)

lemma waited_rank:
  assumes "i < length (slru_slots s)"
    "page_status (slot_at s i) \<noteq> SLRU_PAGE_VALID" "page_status (slot_at s i) \<noteq> SLRU_PAGE_EMPTY"
  shows "slru_rank (SimpleLruWaitIO s i) < slru_rank s"
  using assms
  by (intro slru_rank_less [where i = i]; cases "page_status (slot_at s i)")
    (simp_all add: SimpleLruWaitIO_def slot_weight_def)

lemma lru_changed_weight: "lru_changed a b \<Longrightarrow> slot_weight b = slot_weight a"
  by (simp add: slot_weight_def lru_changed_simps)

lemma find_slot_Some:
  "find_slot n sls p = Some k \<Longrightarrow>
   \<exists>j < length sls. k = n + j \<and> page_number (sls ! j) = p \<and> page_status (sls ! j) \<noteq> SLRU_PAGE_EMPTY"
proof (induction sls arbitrary: n)
  case (Cons sl sls)
  show ?case
  proof (cases "page_number sl = p \<and> page_status sl \<noteq> SLRU_PAGE_EMPTY")
    case True
    with Cons.prems show ?thesis by (intro exI [of _ 0]) auto
  next
    case False
    with Cons.prems have "find_slot (Suc n) sls p = Some k" by simp
    from Cons.IH [OF this] obtain j where "j < length sls" "k = Suc n + j" "page_number (sls ! j) = p"
      "page_status (sls ! j) \<noteq> SLRU_PAGE_EMPTY" by blast
    then show ?thesis by (intro exI [of _ "Suc j"]) simp
  qed
qed simp

lemma find_slot_None:
  "find_slot n sls p = None \<longleftrightarrow>
   (\<forall>sl \<in> set sls. page_number sl = p \<longrightarrow> page_status sl = SLRU_PAGE_EMPTY)"
  by (induction sls arbitrary: n) auto

text \<open>A scan only touches the LRU counts, so it changes nothing a reader sees.\<close>

lemma scanned_kept:
  assumes "slru_inv s" "list_all2 lru_changed (slru_slots s) sls"
  shows "slru_kept s (s\<lparr>slru_slots := sls, cur_lru_count := c\<rparr>)"
    and "slru_rank (s\<lparr>slru_slots := sls, cur_lru_count := c\<rparr>) = slru_rank s"
proof -
  let ?s' = "s\<lparr>slru_slots := sls, cur_lru_count := c\<rparr>"
  have d: "disk_page ?s' = disk_page s" by (rule disk_page_files) simp
  have ch: "lru_changed (slot_at s i) (sls ! i)" if "i < length (slru_slots s)" for i
    using assms(2) that by (simp add: list_all2_conv_all_nth)
  have len: "length sls = length (slru_slots s)" using assms(2) by (simp add: list_all2_lengthD)
  note eq = lru_changed_simps [OF ch]
  show "slru_kept s ?s'"
  proof (rule slots_kept [OF assms(1)], goal_cases)
    case (1 i) then show ?case using eq [OF 1] by (simp add: slot_kept_def slot_loaded_def)
  next
    case (2 i) then show ?case using eq [OF 2(1)] slru_invD(2) [OF assms(1) 2(1)] d by simp
  next
    case (3 p v) then show ?case using slru_page_disk [of s p] eq d
      by (simp add: slot_holds_def slot_loaded_def)
  next
    case 4 show ?case by (simp add: slru_frame_def len)
  qed
  show "slru_rank ?s' = slru_rank s"
    using lru_changed_weight [OF ch] by (simp add: slru_rank_def len)
qed

definition slot_selected :: "'a slru \<Rightarrow> nat \<Rightarrow> nat \<Rightarrow> bool" where
  "slot_selected s p i \<longleftrightarrow>
     i < length (slru_slots s) \<and>
     (page_number (slot_at s i) = p \<and> page_status (slot_at s i) \<noteq> SLRU_PAGE_EMPTY \<or>
      (\<forall>j < length (slru_slots s). page_number (slot_at s j) = p \<longrightarrow>
         page_status (slot_at s j) = SLRU_PAGE_EMPTY) \<and>
      (page_status (slot_at s i) = SLRU_PAGE_EMPTY \<or>
       victim (latest_page_number s) (slot_at s i) \<and> \<not> page_dirty (slot_at s i)))"

text \<open>
  With two slots or more the search always ends: it yields a slot that holds the page or may be
  reused for it, or the error of a failed write; no page is lost on the way.
\<close>

definition select_post ::
  "'a slru \<Rightarrow> nat \<Rightarrow> (SlruErrorCause + nat) \<times> 'a slru \<Rightarrow> bool" where
  "select_post s p = (\<lambda>(r, s').
     slru_kept s s' \<and> latest_page_number s' = latest_page_number s \<and>
     (\<forall>i. r = Inr i \<longrightarrow> slot_selected s' p i \<and> slru_rank s' \<le> slru_rank s) \<and>
     (io_faults s = [] \<longrightarrow> (\<exists>i. r = Inr i) \<and> io_faults s' = []))"

lemma select_post_trans:
  assumes "select_post t p x" "slru_kept s t" "slru_rank t \<le> slru_rank s"
    "latest_page_number t = latest_page_number s" "io_faults s = [] \<Longrightarrow> io_faults t = []"
  shows "select_post s p x"
  using assms slru_kept_trans by (fastforce simp: select_post_def)

lemma two_slots_victim:
  assumes "slru_inv s" "2 \<le> length (slru_slots s)"
    "\<forall>sl \<in> set (slru_slots s). page_status sl \<noteq> SLRU_PAGE_EMPTY"
  obtains i where "i < length (slru_slots s)"
    "victim l (slot_at s i) \<or> busy_victim l (slot_at s i)"
proof -
  have lt: "0 < length (slru_slots s)" "1 < length (slru_slots s)" using assms(2) by linarith+
  with assms(3) have full: "page_status (slot_at s 0) \<noteq> SLRU_PAGE_EMPTY"
    "page_status (slot_at s 1) \<noteq> SLRU_PAGE_EMPTY" by (metis nth_mem)+
  have "page_number (slot_at s 0) \<noteq> page_number (slot_at s 1)"
    using slru_invD(1) [OF assms(1) lt full] by linarith
  then have "page_number (slot_at s 0) \<noteq> l \<or> page_number (slot_at s 1) \<noteq> l" by auto
  then show thesis
    using that [OF lt(1)] that [OF lt(2)] full unfolding victim_def busy_victim_def by blast
qed

lemma lru_changed_victim:
  assumes "lru_changed a b"
  shows "victim l b = victim l a" "busy_victim l b = busy_victim l a"
  using lru_changed_simps [OF assms] by (simp_all add: victim_def busy_victim_def)

lemma select_scan_result:
  assumes inv: "slru_inv s" "2 \<le> length (slru_slots s)" and none: "find_slot 0 (slru_slots s) p = None"
    and scan: "select_scan (PagePrecedes s) (cur_lru_count s) (latest_page_number s) 0
        (slru_slots s) no_best = (r, sls)"
    and s1: "s1 = s\<lparr>slru_slots := sls, cur_lru_count := c\<rparr>"
  shows "r = Inl k \<Longrightarrow> slot_selected s1 p k"
    and "r = Inr b \<Longrightarrow> best_valid_delta b < 0 \<Longrightarrow> bestinvalidslot b < length (slru_slots s1) \<and>
           busy_victim (latest_page_number s1) (slot_at s1 (bestinvalidslot b))"
    and "r = Inr b \<Longrightarrow> \<not> best_valid_delta b < 0 \<Longrightarrow> bestvalidslot b < length (slru_slots s1) \<and>
           victim (latest_page_number s1) (slot_at s1 (bestvalidslot b)) \<and>
           (\<not> page_dirty (slot_at s1 (bestvalidslot b)) \<longrightarrow> slot_selected s1 p (bestvalidslot b))"
proof -
  have len: "length sls = length (slru_slots s)"
    using select_scan_slots [OF scan] by (simp add: list_all2_lengthD)
  have ch: "lru_changed (slot_at s i) (sls ! i)" if "i < length (slru_slots s)" for i
    using select_scan_slots [OF scan] that by (simp add: list_all2_conv_all_nth)
  have absent: "page_number (sls ! j) = p \<longrightarrow> page_status (sls ! j) = SLRU_PAGE_EMPTY"
    if "j < length (slru_slots s)" for j
    using none that lru_changed_simps [OF ch [OF that]] by (simp add: find_slot_None)
  show "slot_selected s1 p k" if "r = Inl k"
    using select_scan_empty [OF scan [unfolded that]] absent lru_changed_simps(2) [OF ch]
    by (auto simp: slot_selected_def s1 len)
  show "bestinvalidslot b < length (slru_slots s1) \<and>
      busy_victim (latest_page_number s1) (slot_at s1 (bestinvalidslot b))"
    if r: "r = Inr b" and neg: "best_valid_delta b < 0"
  proof -
    note best = select_scan_best [OF scan [unfolded r]]
    obtain i where i: "i < length (slru_slots s)" "victim (latest_page_number s) (slot_at s i) \<or>
        busy_victim (latest_page_number s) (slot_at s i)"
      using two_slots_victim [OF inv] best by blast
    have "\<not> victim (latest_page_number s) (slot_at s i)"
      using best i(1) neg by (force simp: best_of_def page_delta_def)
    then have "0 \<le> best_invalid_delta b"
      using best i by (force simp: best_of_def page_delta_def)
    then show ?thesis
      using best lru_changed_victim(2) [OF ch] by (auto simp: best_of_def no_best_def s1 len)
  qed
  show "bestvalidslot b < length (slru_slots s1) \<and>
      victim (latest_page_number s1) (slot_at s1 (bestvalidslot b)) \<and>
      (\<not> page_dirty (slot_at s1 (bestvalidslot b)) \<longrightarrow> slot_selected s1 p (bestvalidslot b))"
    if r: "r = Inr b" and nonneg: "\<not> best_valid_delta b < 0"
    using select_scan_best [OF scan [unfolded r]] nonneg lru_changed_victim(1) [OF ch] absent
    by (auto simp: best_of_def no_best_def s1 len slot_selected_def)
qed

definition select_retry :: "'a slru \<Rightarrow> 'a slru \<Rightarrow> bool" where
  "select_retry s t \<longleftrightarrow>
     slru_kept s t \<and> slru_rank t < slru_rank s \<and> latest_page_number t = latest_page_number s \<and>
     (io_faults s = [] \<longrightarrow> io_faults t = [])"

lemma wait_retry:
  assumes "slru_inv s" "i < length (slru_slots s)"
    "page_status (slot_at s i) \<noteq> SLRU_PAGE_VALID" "page_status (slot_at s i) \<noteq> SLRU_PAGE_EMPTY"
  shows "select_retry s (SimpleLruWaitIO s i)"
  using SimpleLruWaitIO_kept [OF assms(1,2)] waited_rank [OF assms(2-4)]
  by (simp add: select_retry_def) (simp add: SimpleLruWaitIO_def)

lemma write_retry:
  assumes w: "SlruInternalWritePage s i None = (e, fd, t)" and "slru_inv s" "i < length (slru_slots s)"
    and "page_status (slot_at s i) = SLRU_PAGE_VALID" "page_dirty (slot_at s i)"
  shows "e = None \<Longrightarrow> select_retry s t" and "e = Some c \<Longrightarrow> select_post s p (Inl c, t)"
proof -
  note wrote = SlruInternalWritePage_slots [OF w assms(3)]
  have latest: "latest_page_number t = latest_page_number s" using wrote by (simp add: wrote_slot_def)
  note kept = SlruInternalWritePage_kept [OF w assms(2,3)]
  show "select_retry s t" if "e = None"
    using wrote_slot_rank [OF wrote] kept latest assms(3-5) that no_fault_write [OF w]
    by (simp add: select_retry_def slot_weight_def)
  show "select_post s p (Inl c, t)" if "e = Some c"
    using no_fault_write(1) [OF w] that kept latest by (auto simp: select_post_def)
qed

lemma select_step:
  assumes inv: "slru_inv s" "2 \<le> length (slru_slots s)"
  shows "(\<exists>x. SlruSelectLRUPage s p = Some x \<and> select_post s p x) \<or>
    (\<exists>t. SlruSelectLRUPage s p = SlruSelectLRUPage t p \<and> select_retry s t)"
proof (cases "find_slot 0 (slru_slots s) p")
  case (Some i)
  with find_slot_Some [OF Some] inv show ?thesis
    by (subst SlruSelectLRUPage.simps) (auto simp: select_post_def slot_selected_def slru_kept_refl)
next
  case None
  obtain r sls where scan: "select_scan (PagePrecedes s) (cur_lru_count s) (latest_page_number s) 0
      (slru_slots s) no_best = (r, sls)" by force
  define s1 where "s1 = s\<lparr>slru_slots := sls, cur_lru_count := cur_lru_count s + 1\<rparr>"
  note res = select_scan_result [OF inv None scan s1_def]
  note unfold = SlruSelectLRUPage.simps [of s p,
      unfolded None option.case scan Let_def prod.case s1_def [symmetric]]
  have s1: "slru_kept s s1" "slru_rank s1 = slru_rank s" "latest_page_number s1 = latest_page_number s"
    "io_faults s1 = io_faults s"
    using scanned_kept [OF inv(1) select_scan_slots [OF scan]] by (simp_all add: s1_def)
  then have inv1: "slru_inv s1" by (simp add: slru_kept_def)
  have post: "select_post s1 p x \<Longrightarrow> select_post s p x" for x
    using select_post_trans [of s1 p x s] s1 by simp
  have retry: "select_retry s1 t \<Longrightarrow> select_retry s t" for t
    using s1 slru_kept_trans [OF s1(1)] by (auto simp: select_retry_def)
  have found: "select_post s p (Inr i, s1)" if "slot_selected s1 p i" for i
    using that s1 by (simp add: select_post_def)
  show ?thesis
  proof (cases r)
    case (Inl i)
    with found [OF res(1)] show ?thesis by (simp add: unfold)
  next
    case (Inr b)
    consider (wait) "best_valid_delta b < 0"
      | (clean) "\<not> best_valid_delta b < 0" "\<not> page_dirty (slot_at s1 (bestvalidslot b))"
      | (dirty) "\<not> best_valid_delta b < 0" "page_dirty (slot_at s1 (bestvalidslot b))" by blast
    then show ?thesis
    proof cases
      case wait
      then have "SlruSelectLRUPage s p = SlruSelectLRUPage (SimpleLruWaitIO s1 (bestinvalidslot b)) p"
        by (simp add: unfold Inr)
      with retry [OF wait_retry [OF inv1]] res(2) [OF Inr wait] show ?thesis
        unfolding busy_victim_def by blast
    next
      case clean
      with found res(3) [OF Inr] show ?thesis by (simp add: unfold Inr)
    next
      case dirty
      obtain e fd t where w: "SlruInternalWritePage s1 (bestvalidslot b) None = (e, fd, t)"
        by (cases "SlruInternalWritePage s1 (bestvalidslot b) None") auto
      with dirty have "SlruSelectLRUPage s p =
          (case e of Some c \<Rightarrow> Some (Inl c, t) | None \<Rightarrow> SlruSelectLRUPage t p)"
        by (cases e) (simp_all add: unfold Inr)
      with post retry write_retry [OF w inv1] res(3) [OF Inr dirty(1)] dirty show ?thesis
        unfolding victim_def by (cases e) fastforce+
    qed
  qed
qed

lemma SlruSelectLRUPage_total:
  assumes "slru_inv s" "2 \<le> length (slru_slots s)"
  shows "\<exists>x. SlruSelectLRUPage s p = Some x \<and> select_post s p x"
  using assms
proof (induction "slru_rank s" arbitrary: s rule: less_induct)
  case less
  show ?case
  proof (cases "\<exists>x. SlruSelectLRUPage s p = Some x \<and> select_post s p x")
    case False
    with select_step [OF less.prems] obtain t where t: "SlruSelectLRUPage s p = SlruSelectLRUPage t p"
      "select_retry s t" by blast
    then have "slru_inv t" "2 \<le> length (slru_slots t)" "slru_rank t < slru_rank s"
      using less.prems(2) by (auto simp: select_retry_def slru_kept_def slru_frame_def)
    with less.hyps obtain x where x: "SlruSelectLRUPage t p = Some x" "select_post t p x" by blast
    moreover have "select_post s p x"
      by (rule select_post_trans [OF x(2)]) (use t(2) in \<open>auto simp: select_retry_def\<close>)
    ultimately show ?thesis using t(1) by simp
  qed blast
qed

section \<open>Loading, zeroing and storing\<close>

text \<open>One slot takes another contents; what the other slots and the disk hold is unchanged.\<close>

definition slot_replaced :: "nat \<Rightarrow> 'a slru_slot \<Rightarrow> 'a slru \<Rightarrow> 'a slru \<Rightarrow> bool" where
  "slot_replaced i b s s' \<longleftrightarrow>
     i < length (slru_slots s) \<and> slru_slots s' = (slru_slots s)[i := b] \<and>
     seg_files s' = seg_files s \<and> InRecovery s' = InRecovery s"

lemma slot_replacedD:
  assumes "slot_replaced i b s s'"
  shows "i < length (slru_slots s)" "length (slru_slots s') = length (slru_slots s)"
    "disk_page s' = disk_page s" "slot_at s' i = b" "j \<noteq> i \<Longrightarrow> slot_at s' j = slot_at s j"
    "InRecovery s' = InRecovery s"
  using assms disk_page_files [of s' s] by (simp_all add: slot_replaced_def)

lemma replace_slot_inv:
  assumes inv: "slru_inv s" and r: "slot_replaced i b s s'"
    and clean: "page_status b = SLRU_PAGE_VALID \<Longrightarrow> \<not> page_dirty b \<Longrightarrow>
      disk_page s (page_number b) = Some (page_buffer b)"
    and other: "\<And>j. page_status b \<noteq> SLRU_PAGE_EMPTY \<Longrightarrow> j < length (slru_slots s) \<Longrightarrow> j \<noteq> i \<Longrightarrow>
      page_status (slot_at s j) \<noteq> SLRU_PAGE_EMPTY \<Longrightarrow> page_number (slot_at s j) \<noteq> page_number b"
  shows "slru_inv s'"
  unfolding slru_inv_def slot_replacedD(2,3) [OF r]
proof (intro conjI allI impI)
  note slot = slot_replacedD(4,5) [OF r]
  fix j k assume a: "j < length (slru_slots s)" "k < length (slru_slots s)" "j \<noteq> k"
    "page_status (slot_at s' j) \<noteq> SLRU_PAGE_EMPTY" "page_status (slot_at s' k) \<noteq> SLRU_PAGE_EMPTY"
  consider "j = i" | "k = i" | "j \<noteq> i" "k \<noteq> i" by blast
  then show "page_number (slot_at s' j) \<noteq> page_number (slot_at s' k)"
  proof cases
    case 1 then show ?thesis using other [of k] a slot by metis
  next
    case 2 then show ?thesis using other [of j] a slot by metis
  next
    case 3 then show ?thesis using slru_invD(1) [OF inv a(1,2)] a(3-5) slot by metis
  qed
next
  note slot = slot_replacedD(4,5) [OF r]
  fix j assume "j < length (slru_slots s)" "page_status (slot_at s' j) = SLRU_PAGE_VALID"
    "\<not> page_dirty (slot_at s' j)"
  then show "disk_page s (page_number (slot_at s' j)) = Some (page_buffer (slot_at s' j))"
    using slru_invD(2) [OF inv, of j] clean slot by (cases "j = i") simp_all
qed

lemma replace_slot_page:
  assumes inv: "slru_inv s" "slru_inv s'" and r: "slot_replaced i b s s'"
    and q: "slru_page s q = Some v" "\<not> slot_holds b q" "slot_holds (slot_at s i) q \<Longrightarrow> disk_page s q = Some v"
  shows "slru_page s' q = Some v"
proof (cases rule: slru_page_cases [OF inv(1) q(1)])
  note slot = slot_replacedD(4,5) [OF r]
  case (1 j)
  show ?thesis
  proof (cases "j = i")
    case True
    have none: "\<not> slot_holds (slot_at s' k) q" if "k < length (slru_slots s')" for k
    proof (cases "k = i")
      case False
      with slru_invD(1) [OF inv(1) 1(1), of k] 1(2) that slot True slot_replacedD(2) [OF r]
      show ?thesis by (metis loaded_nonempty slot_holds_def)
    qed (use slot q(2) in simp)
    show ?thesis using slru_page_disk [OF none] q(3) 1(2) True slot_replacedD(3) [OF r] by simp
  next
    case False
    then show ?thesis using slru_page_slot [OF inv(2), of j q] 1 slot slot_replacedD(2) [OF r] by simp
  qed
next
  note slot = slot_replacedD(4,5) [OF r]
  case 2
  have none: "\<not> slot_holds (slot_at s' k) q" if "k < length (slru_slots s')" for k
    using 2(1) [of k] q(2) that slot slot_replacedD(2) [OF r] by (cases "k = i") simp_all
  show ?thesis using slru_page_disk [OF none] 2(2) slot_replacedD(3) [OF r] by simp
qed

text \<open>
  A slot that is empty, or clean, or that already holds the page, is given to page \<open>p\<close>.
\<close>

definition slot_free_for :: "'a slru \<Rightarrow> nat \<Rightarrow> nat \<Rightarrow> bool" where
  "slot_free_for s i p \<longleftrightarrow>
     (\<forall>j < length (slru_slots s). j \<noteq> i \<longrightarrow> page_status (slot_at s j) \<noteq> SLRU_PAGE_EMPTY \<longrightarrow>
        page_number (slot_at s j) \<noteq> p) \<and>
     (page_status (slot_at s i) = SLRU_PAGE_EMPTY \<or> page_number (slot_at s i) = p \<or>
      page_status (slot_at s i) = SLRU_PAGE_VALID \<and> \<not> page_dirty (slot_at s i))"

lemma slot_selected_free:
  assumes "slru_inv s" "slot_selected s p i"
  shows "slot_free_for s i p"
  using assms slru_invD(1) [OF assms(1), of i]
  unfolding slot_selected_def slot_free_for_def victim_def by metis

lemma give_slot:
  assumes inv: "slru_inv s" and r: "slot_replaced i b s s'" and free: "slot_free_for s i (page_number b)"
    and clean: "page_status b = SLRU_PAGE_VALID \<Longrightarrow> \<not> page_dirty b \<Longrightarrow>
      disk_page s (page_number b) = Some (page_buffer b)"
  shows "slru_inv s'"
    and "q \<noteq> page_number b \<Longrightarrow> slru_page s q = Some v \<Longrightarrow> slru_page s' q = Some v"
    and "slot_loaded b \<Longrightarrow> slru_page s' (page_number b) = Some (page_buffer b)"
proof -
  show inv': "slru_inv s'"
    by (rule replace_slot_inv [OF inv r clean]) (use free in \<open>auto simp: slot_free_for_def\<close>)
  show "slru_page s' q = Some v" if q: "q \<noteq> page_number b" "slru_page s q = Some v"
  proof (rule replace_slot_page [OF inv inv' r q(2)])
    show "\<not> slot_holds b q" using q(1) by (simp add: slot_holds_def)
    assume h: "slot_holds (slot_at s i) q"
    then have "page_status (slot_at s i) = SLRU_PAGE_VALID" "\<not> page_dirty (slot_at s i)"
      "page_number (slot_at s i) = q"
      using free q(1) by (auto simp: slot_free_for_def slot_holds_def loaded_nonempty)
    then show "disk_page s q = Some v"
      using slru_invD(2) [OF inv slot_replacedD(1) [OF r]] slru_page_slot [OF inv slot_replacedD(1) [OF r] h]
        q(2) by simp
  qed
  show "slru_page s' (page_number b) = Some (page_buffer b)" if "slot_loaded b"
    using slru_page_slot [OF inv', of i] slot_replacedD(1,2,4) [OF r] that by (simp add: slot_holds_def)
qed

lemma SlruRecentlyUsed_alt:
  "SlruRecentlyUsed s i =
     s\<lparr>slru_slots := slru_slots (SlruRecentlyUsed s i), cur_lru_count := cur_lru_count (SlruRecentlyUsed s i)\<rparr>"
  by (simp add: SlruRecentlyUsed_def upd_slot_def)

lemma SlruRecentlyUsed_lru: "list_all2 lru_changed (slru_slots s) (slru_slots (SlruRecentlyUsed s i))"
  unfolding SlruRecentlyUsed_def list_all2_conv_all_nth
  by simp (metis lru_changed_set nth_list_update_eq nth_list_update_neq)

lemma SlruRecentlyUsed_simps [simp]:
  "latest_page_number (SlruRecentlyUsed s i) = latest_page_number s"
  "io_faults (SlruRecentlyUsed s i) = io_faults s"
  "seg_files (SlruRecentlyUsed s i) = seg_files s"
  "length (slru_slots (SlruRecentlyUsed s i)) = length (slru_slots s)"
  "PagePrecedes (SlruRecentlyUsed s i) = PagePrecedes s"
  "InRecovery (SlruRecentlyUsed s i) = InRecovery s"
  by (simp_all add: SlruRecentlyUsed_def)

lemma SlruRecentlyUsed_kept: "slru_inv s \<Longrightarrow> slru_kept s (SlruRecentlyUsed s i)"
  by (subst SlruRecentlyUsed_alt) (rule scanned_kept(1) [OF _ SlruRecentlyUsed_lru])

lemma SlruRecentlyUsed_slot:
  assumes "j < length (slru_slots s)"
  shows "lru_changed (slot_at s j) (slot_at (SlruRecentlyUsed s i) j)"
  using SlruRecentlyUsed_lru [of s i] assms by (simp add: list_all2_conv_all_nth)

text \<open>
  A page may be read outside recovery, where a missing file is an error, and in recovery when the
  page exists; then the zeros that recovery reads for a missing file do not occur.
\<close>

definition may_read :: "'a slru \<Rightarrow> nat \<Rightarrow> bool" where
  "may_read s p \<longleftrightarrow> \<not> InRecovery s \<or> slru_page s p \<noteq> None"

lemma may_read_kept: "may_read s p \<Longrightarrow> slru_kept s t \<Longrightarrow> may_read t p"
  by (auto simp: may_read_def slru_kept_def slru_frame_def pages_kept_def)

definition read_post :: "'a slru \<Rightarrow> nat \<Rightarrow> (SlruErrorCause + nat) \<times> 'a slru \<Rightarrow> bool" where
  "read_post s p = (\<lambda>(r, s').
     slru_kept s s' \<and> latest_page_number s' = latest_page_number s \<and>
     (\<forall>i. r = Inr i \<longrightarrow> i < length (slru_slots s') \<and> slot_holds (slot_at s' i) p) \<and>
     (io_faults s = [] \<longrightarrow> io_faults s' = [] \<and> (slru_page s p \<noteq> None \<longrightarrow> (\<exists>i. r = Inr i))))"

lemma read_post_trans:
  assumes "read_post t p x" "slru_kept s t" "latest_page_number t = latest_page_number s"
    "io_faults s = [] \<Longrightarrow> io_faults t = []"
  shows "read_post s p x"
proof -
  have "slru_page s p \<noteq> None \<longrightarrow> slru_page t p \<noteq> None"
    using assms(2) by (auto simp: slru_kept_def pages_kept_def)
  with assms slru_kept_trans [OF assms(2)] show ?thesis
    by (auto simp: read_post_def split: prod.splits)
qed

lemma physical_read:
  assumes "SlruPhysicalReadPage s p = (r, s')"
  shows "slru_slots s' = slru_slots s" "seg_files s' = seg_files s"
    "latest_page_number s' = latest_page_number s" "PagePrecedes s' = PagePrecedes s"
    "InRecovery s' = InRecovery s" "cur_lru_count s' = cur_lru_count s"
    and "r = Inr pg \<Longrightarrow> \<not> InRecovery s \<or> disk_page s p \<noteq> None \<Longrightarrow> disk_page s p = Some pg"
    and "io_faults s = [] \<Longrightarrow> io_faults s' = []"
    and "io_faults s = [] \<Longrightarrow> disk_page s p = Some v \<Longrightarrow> r = Inr v"
proof -
  obtain f s1 where f: "next_fault s = (f, s1)" by force
  have s1: "s' = s1"
    using assms by (auto simp: SlruPhysicalReadPage_def f Let_def split: option.splits if_splits)
  have "slru_slots s1 = slru_slots s \<and> seg_files s1 = seg_files s \<and>
    latest_page_number s1 = latest_page_number s \<and> PagePrecedes s1 = PagePrecedes s \<and>
    InRecovery s1 = InRecovery s \<and> cur_lru_count s1 = cur_lru_count s"
    using next_fault_simps [of s] f by simp
  then show "slru_slots s' = slru_slots s" "seg_files s' = seg_files s"
    "latest_page_number s' = latest_page_number s" "PagePrecedes s' = PagePrecedes s"
    "InRecovery s' = InRecovery s" "cur_lru_count s' = cur_lru_count s"
    using s1 by simp_all
  show "disk_page s p = Some pg" if "r = Inr pg" "\<not> InRecovery s \<or> disk_page s p \<noteq> None"
    using assms that
    by (auto simp: SlruPhysicalReadPage_def f Let_def disk_page_def split: option.splits if_splits)
  show "io_faults s' = []" if "io_faults s = []" using that f s1 by (simp add: next_fault_def)
  show "r = Inr v" if "io_faults s = []" "disk_page s p = Some v"
    using assms that
    by (auto simp: SlruPhysicalReadPage_def next_fault_def Let_def disk_page_def
        split: option.splits if_splits)
qed

text \<open>Reading a page into a slot that may be reused.\<close>

lemma load_page:
  assumes inv: "slru_inv s" and may: "may_read s p" and sel: "slot_selected s p i"
    and new: "\<not> (page_number (slot_at s i) = p \<and> page_status (slot_at s i) \<noteq> SLRU_PAGE_EMPTY)"
    and s2: "s2 = upd_slot s i (\<lambda>sl. sl\<lparr>page_number := p, page_status := SLRU_PAGE_READ_IN_PROGRESS,
                                         page_dirty := False\<rparr>)"
    and rd: "SlruPhysicalReadPage s2 p = (r, s3)"
  shows "r = Inr pg \<Longrightarrow>
      slru_kept s (upd_slot s3 i (\<lambda>sl. sl\<lparr>page_buffer := pg, page_status := SLRU_PAGE_VALID\<rparr>))"
    and "r = Inl e \<Longrightarrow> slru_kept s (upd_slot s3 i (\<lambda>sl. sl\<lparr>page_status := SLRU_PAGE_EMPTY\<rparr>))"
proof -
  have i: "i < length (slru_slots s)" using sel by (simp add: slot_selected_def)
  note r = physical_read [OF rd, unfolded s2, simplified]
  have d: "disk_page s2 = disk_page s" by (rule disk_page_files) (simp add: s2)
  have nohold: "\<not> slot_holds (slot_at s j) p" if "j < length (slru_slots s)" for j
    using sel new that by (auto simp: slot_selected_def slot_holds_def loaded_nonempty)
  note free = slot_selected_free [OF inv sel]
  show "slru_kept s (upd_slot s3 i (\<lambda>sl. sl\<lparr>page_buffer := pg, page_status := SLRU_PAGE_VALID\<rparr>))"
    (is "slru_kept s ?t") if "r = Inr pg"
  proof -
    let ?b = "(slot_at s i)\<lparr>page_number := p, page_dirty := False, page_buffer := pg,
      page_status := SLRU_PAGE_VALID\<rparr>"
    have disk: "disk_page s p = Some pg"
      using physical_read(7) [OF rd that] may slru_page_disk [OF nohold] d by (simp add: s2 may_read_def)
    have "slot_replaced i ?b s ?t" using i r(1,2,5) by (simp add: slot_replaced_def)
    note g = give_slot [OF inv this, simplified, OF free disk]
    have "slru_page s p = Some pg" using slru_page_disk [OF nohold] disk by simp
    then have "pages_kept s ?t"
      using g(3) by (intro pages_keptI [OF g(2)]) (auto simp: slot_loaded_def)
    with g(1) show ?thesis using r(1,4,5) by (simp add: slru_kept_def slru_frame_def)
  qed
  show "slru_kept s (upd_slot s3 i (\<lambda>sl. sl\<lparr>page_status := SLRU_PAGE_EMPTY\<rparr>))"
    (is "slru_kept s ?t") if "r = Inl e"
  proof -
    let ?b = "(slot_at s i)\<lparr>page_number := p, page_dirty := False, page_status := SLRU_PAGE_EMPTY\<rparr>"
    have rep: "slot_replaced i ?b s ?t" using i r(1,2,5) by (simp add: slot_replaced_def)
    note g = give_slot [OF inv rep, simplified, OF free]
    have "slru_page ?t p = Some v" if "slru_page s p = Some v" for v
      by (rule replace_slot_page [OF inv g(1) rep that])
        (use nohold [OF i] in \<open>auto simp: slot_holds_def slot_loaded_def\<close>)
    then have "pages_kept s ?t" by (intro pages_keptI [OF g(2)])
    with g(1) show ?thesis using r(1,4,5) by (simp add: slru_kept_def slru_frame_def)
  qed
qed

lemma read_found:
  assumes "select_post s p (Inr i, s1)" "page_number (slot_at s1 i) = p"
    "page_status (slot_at s1 i) = SLRU_PAGE_VALID \<or>
     page_status (slot_at s1 i) = SLRU_PAGE_WRITE_IN_PROGRESS"
  shows "read_post s p (Inr i, SlruRecentlyUsed s1 i)"
proof -
  have s1: "slru_kept s s1" "latest_page_number s1 = latest_page_number s"
    "i < length (slru_slots s1)" "io_faults s = [] \<Longrightarrow> io_faults s1 = []"
    using assms(1) by (auto simp: select_post_def slot_selected_def)
  have "slot_holds (slot_at (SlruRecentlyUsed s1 i) i) p"
    using assms(2,3) lru_changed_simps [OF SlruRecentlyUsed_slot [OF s1(3)]]
    by (simp add: slot_holds_def slot_loaded_def)
  moreover have "slru_kept s (SlruRecentlyUsed s1 i)"
    using slru_kept_trans [OF s1(1) SlruRecentlyUsed_kept] s1(1) by (simp add: slru_kept_def)
  ultimately show ?thesis using s1 by (simp add: read_post_def)
qed

lemma read_loaded:
  assumes post: "select_post s p (Inr i, s1)" and may: "may_read s p"
    and new: "\<not> (page_number (slot_at s1 i) = p \<and> page_status (slot_at s1 i) \<noteq> SLRU_PAGE_EMPTY)"
    and s2: "s2 = upd_slot s1 i (\<lambda>sl. sl\<lparr>page_number := p, page_status := SLRU_PAGE_READ_IN_PROGRESS,
                                         page_dirty := False\<rparr>)"
    and rd: "SlruPhysicalReadPage s2 p = (r, s3)"
  shows "r = Inl e \<Longrightarrow>
      read_post s p (Inl e, upd_slot s3 i (\<lambda>sl. sl\<lparr>page_status := SLRU_PAGE_EMPTY\<rparr>))"
    and "r = Inr pg \<Longrightarrow> read_post s p (Inr i, SlruRecentlyUsed
      (upd_slot s3 i (\<lambda>sl. sl\<lparr>page_buffer := pg, page_status := SLRU_PAGE_VALID\<rparr>)) i)"
proof -
  have s1: "slru_kept s s1" "slru_inv s1" "latest_page_number s1 = latest_page_number s"
    "i < length (slru_slots s1)" "slot_selected s1 p i" "io_faults s = [] \<Longrightarrow> io_faults s1 = []"
    using post by (auto simp: select_post_def slot_selected_def slru_kept_def)
  note r = physical_read(1-6) [OF rd, unfolded s2, simplified]
  note load = load_page [OF s1(2) may_read_kept [OF may s1(1)] s1(5) new s2 rd]
  have faults: "io_faults s3 = []" if "io_faults s = []"
    using physical_read(8) [OF rd] s1(6) [OF that] by (simp add: s2)
  have none: "slru_page s p = None" if "r = Inl e" "io_faults s = []"
  proof (rule ccontr)
    assume "slru_page s p \<noteq> None"
    then obtain v where "slru_page s1 p = Some v"
      using s1(1) by (auto simp: slru_kept_def pages_kept_def)
    moreover have "slru_page s1 p = disk_page s1 p"
      using s1(5) new by (intro slru_page_disk) (auto simp: slot_selected_def slot_holds_def loaded_nonempty)
    moreover have "disk_page s2 = disk_page s1" by (rule disk_page_files) (simp add: s2)
    ultimately have "r = Inr v" using physical_read(9) [OF rd] s1(6) [OF that(2)] by (simp add: s2)
    with that(1) show False by simp
  qed
  show "read_post s p (Inl e, upd_slot s3 i (\<lambda>sl. sl\<lparr>page_status := SLRU_PAGE_EMPTY\<rparr>))" if "r = Inl e"
    using slru_kept_trans [OF s1(1) load(2) [OF that]] r(3) s1(3) faults none [OF that]
    by (simp add: read_post_def)
  let ?t = "upd_slot s3 i (\<lambda>sl. sl\<lparr>page_buffer := pg, page_status := SLRU_PAGE_VALID\<rparr>)"
  assume pg: "r = Inr pg"
  have kept: "slru_kept s ?t" by (rule slru_kept_trans [OF s1(1) load(1) [OF pg]])
  have i: "i < length (slru_slots ?t)" using s1(4) r(1) by simp
  have "slot_holds (slot_at (SlruRecentlyUsed ?t i) i) p"
    using lru_changed_simps [OF SlruRecentlyUsed_slot [OF i]] s1(4) r(1)
    by (simp add: slot_holds_def slot_loaded_def)
  moreover have "slru_kept s (SlruRecentlyUsed ?t i)"
    using slru_kept_trans [OF kept SlruRecentlyUsed_kept] kept by (simp add: slru_kept_def)
  ultimately show "read_post s p (Inr i, SlruRecentlyUsed ?t i)"
    using i r(3) s1(3) faults by (simp add: read_post_def)
qed

text \<open>One pass of the loop of \<open>SimpleLruReadPage\<close>: it ends, or it waits and starts again.\<close>

lemma read_step:
  assumes inv: "slru_inv s" "2 \<le> length (slru_slots s)" and may: "may_read s p"
  shows "(\<exists>x. SimpleLruReadPage s p w = Some x \<and> read_post s p x) \<or>
    (\<exists>t. SimpleLruReadPage s p w = SimpleLruReadPage t p w \<and> select_retry s t)"
proof -
  obtain r s1 where sel: "SlruSelectLRUPage s p = Some (r, s1)" and post: "select_post s p (r, s1)"
    using SlruSelectLRUPage_total [OF inv] by fastforce
  note unfold = SimpleLruReadPage.simps [of s p w, unfolded sel option.case prod.case]
  have s1: "slru_kept s s1" "slru_inv s1" "latest_page_number s1 = latest_page_number s"
    "io_faults s = [] \<Longrightarrow> io_faults s1 = []"
    using post by (simp_all add: select_post_def slru_kept_def)
  show ?thesis
  proof (cases r)
    case (Inl e)
    with post have "read_post s p (Inl e, s1)" by (auto simp: select_post_def read_post_def)
    with Inl show ?thesis by (simp add: unfold)
  next
    case (Inr i)
    let ?sl = "slot_at s1 i"
    have slot: "slot_selected s1 p i" "i < length (slru_slots s1)" "slru_rank s1 \<le> slru_rank s"
      using post Inr by (auto simp: select_post_def slot_selected_def)
    consider (busy) "page_number ?sl = p" "page_status ?sl = SLRU_PAGE_READ_IN_PROGRESS \<or>
        page_status ?sl = SLRU_PAGE_WRITE_IN_PROGRESS \<and> \<not> w"
      | (found) "page_number ?sl = p" "page_status ?sl = SLRU_PAGE_VALID \<or>
        page_status ?sl = SLRU_PAGE_WRITE_IN_PROGRESS \<and> w"
      | (load) "\<not> (page_number ?sl = p \<and> page_status ?sl \<noteq> SLRU_PAGE_EMPTY)"
      by (cases "page_status ?sl") auto
    then show ?thesis
    proof cases
      case busy
      then have "select_retry s1 (SimpleLruWaitIO s1 i)"
        by (intro wait_retry s1 slot) auto
      then have "select_retry s (SimpleLruWaitIO s1 i)"
        using s1 slot(3) slru_kept_trans [OF s1(1)] by (auto simp: select_retry_def)
      moreover have "SimpleLruReadPage s p w = SimpleLruReadPage (SimpleLruWaitIO s1 i) p w"
        using busy by (auto simp: unfold Inr Let_def)
      ultimately show ?thesis by blast
    next
      case found
      then have "SimpleLruReadPage s p w = Some (Inr i, SlruRecentlyUsed s1 i)"
        by (auto simp: unfold Inr Let_def)
      moreover have "read_post s p (Inr i, SlruRecentlyUsed s1 i)"
        using read_found [OF post [unfolded Inr]] found by blast
      ultimately show ?thesis by blast
    next
      case load
      define s2 where "s2 = upd_slot s1 i (\<lambda>sl. sl\<lparr>page_number := p,
        page_status := SLRU_PAGE_READ_IN_PROGRESS, page_dirty := False\<rparr>)"
      obtain q s3 where rd: "SlruPhysicalReadPage s2 p = (q, s3)" by force
      note l = read_loaded [OF post [unfolded Inr] may load s2_def rd]
      have "SimpleLruReadPage s p w =
          (case q of Inl e \<Rightarrow> Some (Inl e, upd_slot s3 i (\<lambda>sl. sl\<lparr>page_status := SLRU_PAGE_EMPTY\<rparr>))
           | Inr pg \<Rightarrow> Some (Inr i, SlruRecentlyUsed
               (upd_slot s3 i (\<lambda>sl. sl\<lparr>page_buffer := pg, page_status := SLRU_PAGE_VALID\<rparr>)) i))"
        using load rd unfolding unfold Inr Let_def s2_def by auto
      with l show ?thesis by (cases q) auto
    qed
  qed
qed

lemma SimpleLruReadPage_total:
  assumes "slru_inv s" "2 \<le> length (slru_slots s)" "may_read s p"
  shows "\<exists>x. SimpleLruReadPage s p w = Some x \<and> read_post s p x"
  using assms
proof (induction "slru_rank s" arbitrary: s rule: less_induct)
  case less
  show ?case
  proof (cases "\<exists>x. SimpleLruReadPage s p w = Some x \<and> read_post s p x")
    case False
    with read_step [OF less.prems] obtain t where t: "SimpleLruReadPage s p w = SimpleLruReadPage t p w"
      "select_retry s t" by blast
    then have "slru_inv t" "2 \<le> length (slru_slots t)" "slru_rank t < slru_rank s" "may_read t p"
      using less.prems(2) may_read_kept [OF less.prems(3)]
      by (auto simp: select_retry_def slru_kept_def slru_frame_def)
    with less.hyps obtain x where x: "SimpleLruReadPage t p w = Some x" "read_post t p x" by blast
    moreover have "read_post s p x"
      by (rule read_post_trans [OF x(2)]) (use t(2) in \<open>auto simp: select_retry_def\<close>)
    ultimately show ?thesis using t(1) by simp
  qed blast
qed

lemma find_readable_Some:
  "find_readable n sls p = Some k \<Longrightarrow> \<exists>j < length sls. k = n + j \<and> slot_holds (sls ! j) p"
proof (induction sls arbitrary: n)
  case (Cons sl sls)
  show ?case
  proof (cases "page_number sl = p \<and> page_status sl \<noteq> SLRU_PAGE_EMPTY \<and>
      page_status sl \<noteq> SLRU_PAGE_READ_IN_PROGRESS")
    case True
    then have "slot_holds sl p" by (cases "page_status sl") (auto simp: slot_holds_def slot_loaded_def)
    with True Cons.prems show ?thesis by (intro exI [of _ 0]) auto
  next
    case False
    with Cons.prems have "find_readable (Suc n) sls p = Some k" by auto
    from Cons.IH [OF this] obtain j where "j < length sls" "k = Suc n + j" "slot_holds (sls ! j) p"
      by blast
    then show ?thesis by (intro exI [of _ "Suc j"]) simp
  qed
qed simp

lemma SimpleLruReadPage_ReadOnly_total:
  assumes inv: "slru_inv s" "2 \<le> length (slru_slots s)" and may: "may_read s p"
  shows "\<exists>x. SimpleLruReadPage_ReadOnly s p = Some x \<and> read_post s p x"
proof (cases "find_readable 0 (slru_slots s) p")
  case None
  with SimpleLruReadPage_total [OF inv may] show ?thesis by (simp add: SimpleLruReadPage_ReadOnly_def)
next
  case (Some i)
  with find_readable_Some [OF Some] have i: "i < length (slru_slots s)" "slot_holds (slot_at s i) p" by auto
  then have "slot_selected s p i" by (auto simp: slot_selected_def slot_holds_def loaded_nonempty)
  then have "select_post s p (Inr i, s)" by (simp add: select_post_def slru_kept_refl inv)
  then have "read_post s p (Inr i, SlruRecentlyUsed s i)"
    by (rule read_found) (use i(2) in \<open>auto simp: slot_holds_def slot_loaded_def\<close>)
  with Some show ?thesis by (simp add: SimpleLruReadPage_ReadOnly_def)
qed

text \<open>
  What a reader gets: the contents \<open>slru_page\<close> gives for the page.
\<close>

lemma read_post_page:
  assumes "read_post s p (Inr i, s')" "slru_page s p = Some v"
  shows "page_buffer (slot_at s' i) = v"
proof -
  have "slru_inv s'" "slru_page s' p = Some v" "i < length (slru_slots s')" "slot_holds (slot_at s' i) p"
    using assms by (auto simp: read_post_def slru_kept_def pages_kept_def)
  then show ?thesis using slru_page_slot by fastforce
qed

text \<open>
  A step that gives page \<open>p\<close> the contents \<open>v\<close> and keeps every other page.
\<close>

definition page_set :: "nat \<Rightarrow> 'a page \<Rightarrow> 'a slru \<Rightarrow> 'a slru \<Rightarrow> bool" where
  "page_set p v s s' \<longleftrightarrow>
     slru_inv s' \<and> slru_frame s s' \<and> slru_page s' p = Some v \<and>
     (\<forall>q w. q \<noteq> p \<longrightarrow> slru_page s q = Some w \<longrightarrow> slru_page s' q = Some w)"

lemma page_set_after:
  assumes "slru_kept s t" "page_set p v t u"
  shows "page_set p v s u"
  using assms slru_frame_trans unfolding page_set_def slru_kept_def pages_kept_def by metis

definition zero_post :: "'a :: zero slru \<Rightarrow> nat \<Rightarrow> (SlruErrorCause + nat) \<times> 'a slru \<Rightarrow> bool" where
  "zero_post s p = (\<lambda>(r, s').
     (case r of
        Inl e \<Rightarrow> slru_kept s s' \<and> latest_page_number s' = latest_page_number s
      | Inr i \<Rightarrow> page_set p zero_page s s' \<and> latest_page_number s' = p \<and>
          i < length (slru_slots s') \<and> slot_holds (slot_at s' i) p) \<and>
     (io_faults s = [] \<longrightarrow> io_faults s' = [] \<and> (\<exists>i. r = Inr i)))"

lemma SimpleLruZeroPage_total:
  assumes inv: "slru_inv s" "2 \<le> length (slru_slots s)"
  shows "\<exists>x. SimpleLruZeroPage s p = Some x \<and> zero_post s p x"
proof -
  obtain r s1 where sel: "SlruSelectLRUPage s p = Some (r, s1)" and post: "select_post s p (r, s1)"
    using SlruSelectLRUPage_total [OF inv] by fastforce
  show ?thesis
  proof (cases r)
    case (Inl e)
    with sel post show ?thesis by (auto simp: SimpleLruZeroPage_def zero_post_def select_post_def)
  next
    case (Inr i)
    then have s1: "slru_kept s s1" "slru_inv s1" "slot_selected s1 p i" "i < length (slru_slots s1)"
      "io_faults s = [] \<Longrightarrow> io_faults s1 = []"
      using post by (auto simp: select_post_def slot_selected_def slru_kept_def)
    define s3 where "s3 = SlruRecentlyUsed (upd_slot s1 i (\<lambda>sl. sl\<lparr>page_number := p,
      page_status := SLRU_PAGE_VALID, page_dirty := True\<rparr>)) i"
    define s4 where "s4 = (upd_slot s3 i (\<lambda>sl. sl\<lparr>page_buffer := zero_page\<rparr>))\<lparr>latest_page_number := p\<rparr>"
    let ?b = "(slot_at s3 i)\<lparr>page_buffer := zero_page\<rparr>"
    have b: "page_number ?b = p" "page_status ?b = SLRU_PAGE_VALID" "page_dirty ?b"
      using s1(4) by (simp_all add: s3_def SlruRecentlyUsed_def)
    have rep: "slot_replaced i ?b s1 s4"
      using s1(4) by (simp add: slot_replaced_def s4_def s3_def SlruRecentlyUsed_def)
    note g = give_slot [OF s1(2) rep, unfolded b, OF slot_selected_free [OF s1(2,3)]]
    have frame: "slru_frame s1 s4" by (simp add: s4_def s3_def slru_frame_def)
    have "page_set p zero_page s1 s4"
      using g frame b by (auto simp: page_set_def slot_loaded_def)
    from page_set_after [OF s1(1) this] have "zero_post s p (Inr i, s4)"
      using s1(4,5) b slot_replacedD(2,4) [OF rep]
      by (simp add: zero_post_def slot_holds_def slot_loaded_def s4_def s3_def)
    with sel Inr show ?thesis by (simp add: SimpleLruZeroPage_def Let_def s3_def s4_def)
  qed
qed

lemma slru_store_set:
  assumes inv: "slru_inv s" and i: "i < length (slru_slots s)" "slot_holds (slot_at s i) p"
    and v: "slru_page s p = Some pg"
  shows "page_set p (pg(e := x)) s (slru_store s i e x)"
    and "slot_holds (slot_at (slru_store s i e x) i) p"
    and "latest_page_number (slru_store s i e x) = latest_page_number s"
    and "io_faults (slru_store s i e x) = io_faults s"
proof -
  let ?b = "(slot_at s i)\<lparr>page_buffer := (page_buffer (slot_at s i))(e := x), page_dirty := True\<rparr>"
  have rep: "slot_replaced i ?b s (slru_store s i e x)"
    using i by (simp add: slot_replaced_def slru_store_def)
  have pg: "page_buffer (slot_at s i) = pg" using slru_page_slot [OF inv i] v by simp
  have n: "page_number (slot_at s i) = p" using i(2) by (simp add: slot_holds_def)
  have "slot_free_for s i p"
    using slru_invD(1) [OF inv i(1)] i(2) unfolding slot_free_for_def slot_holds_def
    by (metis loaded_nonempty)
  note g = give_slot [OF inv rep, simplified, unfolded n pg, OF this]
  show "page_set p (pg(e := x)) s (slru_store s i e x)"
    using g i(2) by (auto simp: page_set_def slru_frame_def slru_store_def slot_holds_def slot_loaded_def)
  show "slot_holds (slot_at (slru_store s i e x) i) p"
    using i by (simp add: slru_store_def slot_holds_def slot_loaded_def)
  show "latest_page_number (slru_store s i e x) = latest_page_number s"
    "io_faults (slru_store s i e x) = io_faults s" by (simp_all add: slru_store_def)
qed

section \<open>Flushing and truncating\<close>

lemma flush_slots_kept:
  assumes "flush_slots s is fdata = (r, fdata', s')" "slru_inv s" "\<forall>i \<in> set is. i < length (slru_slots s)"
  shows "slru_kept s s'"
  using assms
proof (induction "is" arbitrary: s fdata)
  case Nil
  then show ?case by (simp add: slru_kept_refl)
next
  case (Cons i "is")
  obtain e fd t where w: "SlruInternalWritePage s i fdata = (e, fd, t)" by (metis prod_cases3)
  note kept = SlruInternalWritePage_kept [OF w Cons.prems(2)]
  show ?case
  proof (cases e)
    case None
    then have "slru_kept s t" using kept Cons.prems(3) by simp
    moreover have "slru_kept t s'"
      using Cons.IH [of t fd] Cons.prems None w calculation by (simp add: slru_kept_def slru_frame_def)
    ultimately show ?thesis by (rule slru_kept_trans)
  next
    case (Some c)
    with Cons.prems w kept show ?thesis by simp
  qed
qed

lemma same_contents_kept:
  assumes "slru_inv s" "slru_slots s' = slru_slots s" "seg_files s' = seg_files s"
    "InRecovery s' = InRecovery s" "PagePrecedes s' = PagePrecedes s"
  shows "slru_kept s s'"
  using assms slru_inv_cong [of s' s] slru_page_cong [of s' s]
  by (simp add: slru_kept_def pages_kept_def slru_frame_def)

lemma flush_files_kept:
  assumes "flush_files s fs r = (r', s')" "slru_inv s"
  shows "slru_kept s s'"
  using assms
proof (induction fs arbitrary: s r)
  case Nil
  then show ?case by (simp add: slru_kept_refl)
next
  case (Cons f fs)
  let ?t = "snd (next_fault s)"
  have "slru_kept s ?t" by (rule same_contents_kept [OF Cons.prems(2)]) simp_all
  moreover from this have "slru_kept ?t s'"
    using Cons.IH [of ?t] Cons.prems(1) by (auto simp: slru_kept_def Let_def split: prod.splits)
  ultimately show ?case by (rule slru_kept_trans)
qed

lemma SimpleLruFlush_kept:
  assumes "slru_inv s"
  shows "slru_kept s (snd (SimpleLruFlush s))"
proof -
  obtain e fd t where f: "flush_slots s [0..<length (slru_slots s)] (Some []) = (e, fd, t)"
    by (metis prod_cases3)
  have kept: "slru_kept s t" by (rule flush_slots_kept [OF f assms]) simp
  show ?thesis
  proof (cases e)
    case None
    have "slru_kept t (snd (flush_files t (case fd of None \<Rightarrow> [] | Some fs \<Rightarrow> fs) None))"
      by (rule flush_files_kept [OF prod.collapse [symmetric]]) (use kept in \<open>simp add: slru_kept_def\<close>)
    with None kept slru_kept_trans show ?thesis by (simp add: SimpleLruFlush_def f) blast
  qed (simp add: SimpleLruFlush_def f kept)
qed

text \<open>
  A truncation relies on its client for the order of pages: a segment whose first and last pages
  precede the cutoff holds no page that does not.
\<close>

locale page_order =
  fixes precedes :: "nat \<Rightarrow> nat \<Rightarrow> bool"
  assumes segment_between:
    "precedes (segno * SLRU_PAGES_PER_SEGMENT) c \<Longrightarrow>
     precedes (segno * SLRU_PAGES_PER_SEGMENT + SLRU_PAGES_PER_SEGMENT - 1) c \<Longrightarrow>
     r < SLRU_PAGES_PER_SEGMENT \<Longrightarrow> precedes (segno * SLRU_PAGES_PER_SEGMENT + r) c"

lemma truncate_scan_slots:
  "truncate_scan before n sls = (r, sls') \<Longrightarrow>
   list_all2 (\<lambda>a b. b = a \<or> page_status a = SLRU_PAGE_VALID \<and> \<not> page_dirty a \<and>
                before (page_number a) \<and> b = a\<lparr>page_status := SLRU_PAGE_EMPTY\<rparr>) sls sls'"
  by (induction sls arbitrary: n sls')
    (auto simp: Let_def list_all2_refl split: if_splits prod.splits)

lemma truncate_scan_None:
  "truncate_scan before n sls = (None, sls') \<Longrightarrow>
   sl \<in> set sls' \<Longrightarrow> page_status sl \<noteq> SLRU_PAGE_EMPTY \<Longrightarrow> \<not> before (page_number sl)"
  by (induction sls arbitrary: n sls')
    (auto simp: Let_def split: if_splits prod.splits)

lemma truncate_scan_Some:
  "truncate_scan before n sls = (Some k, sls') \<Longrightarrow>
   \<exists>j < length sls'. k = n + j \<and> page_status (sls' ! j) \<noteq> SLRU_PAGE_EMPTY \<and>
     (page_status (sls' ! j) = SLRU_PAGE_VALID \<longrightarrow> page_dirty (sls' ! j))"
proof (induction sls arbitrary: n sls')
  case (Cons sl sls)
  show ?case
  proof (cases "page_status sl = SLRU_PAGE_EMPTY \<or> \<not> before (page_number sl) \<or>
      page_status sl = SLRU_PAGE_VALID \<and> \<not> page_dirty sl")
    case True
    with Cons.prems obtain a t where t: "truncate_scan before (Suc n) sls = (Some k, t)" "sls' = a # t"
      by (auto simp: Let_def split: if_splits prod.splits)
    from Cons.IH [OF t(1)] obtain j where "j < length t" "k = Suc n + j"
      "page_status (t ! j) \<noteq> SLRU_PAGE_EMPTY" "page_status (t ! j) = SLRU_PAGE_VALID \<longrightarrow> page_dirty (t ! j)"
      by blast
    with t(2) show ?thesis by (intro exI [of _ "Suc j"]) simp
  next
    case False
    with Cons.prems have "k = n" "sls' = sl # sls" by auto
    with False show ?thesis by (intro exI [of _ 0]) simp
  qed
qed simp

lemma truncate_scan_kept:
  assumes inv: "slru_inv s" and scan: "truncate_scan before 0 (slru_slots s) = (r, sls)"
  shows "slru_kept s (s\<lparr>slru_slots := sls\<rparr>)" and "slru_rank (s\<lparr>slru_slots := sls\<rparr>) \<le> slru_rank s"
proof -
  let ?s' = "s\<lparr>slru_slots := sls\<rparr>"
  note rel = truncate_scan_slots [OF scan]
  have len: "length sls = length (slru_slots s)" using rel by (simp add: list_all2_lengthD)
  have slot: "sls ! i = slot_at s i \<or> page_status (slot_at s i) = SLRU_PAGE_VALID \<and>
      \<not> page_dirty (slot_at s i) \<and> sls ! i = (slot_at s i)\<lparr>page_status := SLRU_PAGE_EMPTY\<rparr>"
    if "i < length (slru_slots s)" for i
    using rel that by (auto simp: list_all2_conv_all_nth)
  have d: "disk_page ?s' = disk_page s" by (rule disk_page_files) simp
  show "slru_kept s ?s'"
  proof (rule slots_kept [OF inv], goal_cases)
    case (1 i) then show ?case using slot [OF 1] by (auto simp: slot_kept_def slot_loaded_def)
  next
    case (2 i) then show ?case using slot [OF 2(1)] slru_invD(2) [OF inv 2(1)] d by auto
  next
    case (3 p v)
    from inv 3(1) show ?case
    proof (cases rule: slru_page_cases)
      case (slot i)
      then have "page_status (slot_at s i) = SLRU_PAGE_VALID" "\<not> page_dirty (slot_at s i)"
        using 3(2) [OF slot(1)] \<open>i < _\<close> truncate_scan_slots [OF scan]
        by (auto simp: list_all2_conv_all_nth)
      then show ?thesis using slru_invD(2) [OF inv slot(1)] slot d by (simp add: slot_holds_def)
    next
      case disk
      then show ?thesis using d by simp
    qed
  next
    case 4 show ?case by (simp add: slru_frame_def len)
  qed
  have "slot_weight (sls ! i) \<le> slot_weight (slot_at s i)" if "i < length (slru_slots s)" for i
    using slot [OF that] by (auto simp: slot_weight_def)
  then show "slru_rank ?s' \<le> slru_rank s" by (auto simp: slru_rank_def len intro!: sum_mono)
qed

text \<open>The directory scan removes exactly the segments that may be deleted.\<close>

lemma delete_scan:
  "seg_files (snd (scan_directory (SlruScanDirCbDeleteCutoff c) segnos s)) =
     fold (\<lambda>k fs. if SlruMayDeleteSegment s (k * SLRU_PAGES_PER_SEGMENT) c
                  then AList.delete k fs else fs) segnos (seg_files s) \<and>
   (let s' = snd (scan_directory (SlruScanDirCbDeleteCutoff c) segnos s) in
    slru_slots s' = slru_slots s \<and> PagePrecedes s' = PagePrecedes s \<and> InRecovery s' = InRecovery s \<and>
    latest_page_number s' = latest_page_number s \<and> io_faults s' = io_faults s)"
proof (induction segnos arbitrary: s)
  case (Cons k segnos)
  let ?t = "snd (SlruScanDirCbDeleteCutoff c s k (k * SLRU_PAGES_PER_SEGMENT))"
  have t: "seg_files ?t = (if SlruMayDeleteSegment s (k * SLRU_PAGES_PER_SEGMENT) c
      then AList.delete k (seg_files s) else seg_files s)"
    "SlruMayDeleteSegment ?t = SlruMayDeleteSegment s"
    "slru_slots ?t = slru_slots s" "PagePrecedes ?t = PagePrecedes s" "InRecovery ?t = InRecovery s"
    "latest_page_number ?t = latest_page_number s" "io_faults ?t = io_faults s"
    by (simp_all add: SlruScanDirCbDeleteCutoff_def SlruInternalDeleteSegment_def
        SlruMayDeleteSegment_def fun_eq_iff)
  have "scan_directory (SlruScanDirCbDeleteCutoff c) (k # segnos) s =
      scan_directory (SlruScanDirCbDeleteCutoff c) segnos ?t"
    by (simp add: SlruScanDirCbDeleteCutoff_def)
  with Cons.IH [of ?t] t show ?case by (simp add: Let_def)
qed (simp add: Let_def)

lemma fold_delete_map_of:
  "map_of (fold (\<lambda>k fs. if P k then AList.delete k fs else fs) ks fs) j =
     (if P j \<and> j \<in> set ks then None else map_of fs j)"
  by (induction ks arbitrary: fs) (auto simp: delete_conv')

lemma SlruScanDirectory_delete:
  assumes "s' = snd (SlruScanDirectory (SlruScanDirCbDeleteCutoff c) s)"
  shows "disk_page s' p =
      (if SlruMayDeleteSegment s (p div SLRU_PAGES_PER_SEGMENT * SLRU_PAGES_PER_SEGMENT) c
       then None else disk_page s p)"
    and "slru_slots s' = slru_slots s" "slru_frame s s'" "latest_page_number s' = latest_page_number s"
    "io_faults s' = io_faults s"
proof -
  note d = delete_scan [of c "map fst (seg_files s)" s, folded SlruScanDirectory_def assms, unfolded Let_def]
  have "map_of (seg_files s') j = (if SlruMayDeleteSegment s (j * SLRU_PAGES_PER_SEGMENT) c
      then None else map_of (seg_files s) j)" for j
    using d by (auto simp: fold_delete_map_of map_of_eq_None_iff)
  then show "disk_page s' p =
      (if SlruMayDeleteSegment s (p div SLRU_PAGES_PER_SEGMENT * SLRU_PAGES_PER_SEGMENT) c
       then None else disk_page s p)"
    by (simp add: disk_page_def seg_file_def)
  show "slru_slots s' = slru_slots s" "slru_frame s s'" "latest_page_number s' = latest_page_number s"
    "io_faults s' = io_faults s"
    using d by (simp_all add: slru_frame_def)
qed

definition truncate_post :: "'a slru \<Rightarrow> nat \<Rightarrow> 'a slru \<Rightarrow> bool" where
  "truncate_post s c s' \<longleftrightarrow>
     slru_inv s' \<and> slru_frame s s' \<and> latest_page_number s' = latest_page_number s \<and>
     (\<forall>p v. \<not> PagePrecedes s p c \<longrightarrow> slru_page s p = Some v \<longrightarrow> slru_page s' p = Some v)"

lemma truncate_post_after:
  assumes "slru_kept s t" "latest_page_number t = latest_page_number s" "truncate_post t c u"
  shows "truncate_post s c u"
  using assms slru_frame_trans [of s t u]
  by (auto simp: truncate_post_def slru_kept_def pages_kept_def slru_frame_def)

lemma kept_truncate_post:
  "slru_kept s t \<Longrightarrow> latest_page_number t = latest_page_number s \<Longrightarrow> truncate_post s c t"
  by (auto simp: truncate_post_def slru_kept_def pages_kept_def)

context page_order begin

lemma may_delete_precedes:
  assumes "PagePrecedes s = precedes"
    "SlruMayDeleteSegment s (p div SLRU_PAGES_PER_SEGMENT * SLRU_PAGES_PER_SEGMENT) c"
  shows "precedes p c"
  using segment_between [of "p div SLRU_PAGES_PER_SEGMENT" c "p mod SLRU_PAGES_PER_SEGMENT"] assms
  by (simp add: SlruMayDeleteSegment_def Let_def SLRU_PAGES_PER_SEGMENT_def)

lemma delete_segments_post:
  assumes inv: "slru_inv s" and prec: "PagePrecedes s = precedes"
    and young: "\<And>sl. sl \<in> set (slru_slots s) \<Longrightarrow> page_status sl \<noteq> SLRU_PAGE_EMPTY \<Longrightarrow>
      \<not> precedes (page_number sl) c"
  shows "truncate_post s c (snd (SlruScanDirectory (SlruScanDirCbDeleteCutoff c) s))"
proof -
  let ?t = "snd (SlruScanDirectory (SlruScanDirCbDeleteCutoff c) s)"
  note t = SlruScanDirectory_delete [where s = s and c = c, OF refl]
  have disk: "disk_page ?t p = disk_page s p" if "\<not> precedes p c" for p
    using may_delete_precedes [OF prec] that t(1) by auto
  have inv': "slru_inv ?t"
    using inv t(2,3) disk young unfolding slru_inv_def slru_frame_def
    by (metis SlruPageStatus.distinct(3) nth_mem)
  have "slru_page ?t p = slru_page s p" if "\<not> precedes p c" for p
    unfolding slru_page_def t(2) disk [OF that] ..
  with inv' t(3,4) prec show ?thesis by (simp add: truncate_post_def)
qed

lemma truncate_step:
  assumes inv: "slru_inv s" "PagePrecedes s = precedes"
  shows "(\<exists>r s'. SimpleLruTruncate s c = Some (r, s') \<and> truncate_post s c s') \<or>
    (\<exists>t. SimpleLruTruncate s c = SimpleLruTruncate t c \<and> select_retry s t)"
proof (cases "precedes (latest_page_number s) c")
  case True
  then have "SimpleLruTruncate s c = Some (None, s)"
    using inv(2) by (subst SimpleLruTruncate.simps) simp
  with kept_truncate_post [OF slru_kept_refl [OF inv(1)] refl] show ?thesis by blast
next
  case False
  obtain r sls where scan: "truncate_scan (\<lambda>p. PagePrecedes s p c) 0 (slru_slots s) = (r, sls)" by force
  define s1 where "s1 = s\<lparr>slru_slots := sls\<rparr>"
  note unfold = SimpleLruTruncate.simps [of s c,
      unfolded inv(2) Let_def scan [unfolded inv(2)] prod.case s1_def [symmetric]]
  note kept1 = truncate_scan_kept [OF inv(1) scan, folded s1_def]
  have s1: "latest_page_number s1 = latest_page_number s" "io_faults s1 = io_faults s"
    "PagePrecedes s1 = precedes" "slru_inv s1"
    using kept1 inv(2) by (simp_all add: s1_def slru_kept_def)
  have retry: "select_retry s t" if "select_retry s1 t" for t
    using that kept1 s1 slru_kept_trans [OF kept1(1)] by (auto simp: select_retry_def)
  show ?thesis
  proof (cases r)
    case None
    have young: "\<not> precedes (page_number sl) c"
      if "sl \<in> set (slru_slots s1)" "page_status sl \<noteq> SLRU_PAGE_EMPTY" for sl
      using truncate_scan_None [OF scan [unfolded None] _ that(2)] that(1) inv(2) by (simp add: s1_def)
    have "truncate_post s c (snd (SlruScanDirectory (SlruScanDirCbDeleteCutoff c) s1))"
      by (rule truncate_post_after [OF kept1(1) s1(1) delete_segments_post [OF s1(4,3) young]])
    with False None show ?thesis by (simp add: unfold)
  next
    case (Some i)
    have i: "i < length (slru_slots s1)" "page_status (slot_at s1 i) \<noteq> SLRU_PAGE_EMPTY"
      "page_status (slot_at s1 i) = SLRU_PAGE_VALID \<longrightarrow> page_dirty (slot_at s1 i)"
      using truncate_scan_Some [OF scan [unfolded Some]] by (simp_all add: s1_def)
    show ?thesis
    proof (cases "page_status (slot_at s1 i) = SLRU_PAGE_VALID")
      case True
      obtain e fd t where w: "SlruInternalWritePage s1 i None = (e, fd, t)" by (metis prod_cases3)
      have eq: "SimpleLruTruncate s c =
          (case e of Some x \<Rightarrow> Some (Some x, t) | None \<Rightarrow> SimpleLruTruncate t c)"
        using False Some True w by (cases e) (simp_all add: unfold)
      have "truncate_post s c t"
        using SlruInternalWritePage_slots [OF w i(1)] s1(1)
        by (intro kept_truncate_post slru_kept_trans [OF kept1(1) SlruInternalWritePage_kept [OF w s1(4) i(1)]])
          (simp add: wrote_slot_def)
      with eq retry write_retry(1) [OF w s1(4) i(1) True] i(3) True show ?thesis
        by (cases e) fastforce+
    next
      case busy: False
      have "SimpleLruTruncate s c = SimpleLruTruncate (SimpleLruWaitIO s1 i) c"
        using False Some busy by (simp add: unfold)
      with retry [OF wait_retry [OF s1(4) i(1) busy i(2)]] show ?thesis by blast
    qed
  qed
qed

lemma truncate_total:
  assumes "slru_inv s" "PagePrecedes s = precedes"
  shows "\<exists>r s'. SimpleLruTruncate s c = Some (r, s') \<and> truncate_post s c s'"
  using assms
proof (induction "slru_rank s" arbitrary: s rule: less_induct)
  case less
  show ?case
  proof (cases "\<exists>r s'. SimpleLruTruncate s c = Some (r, s') \<and> truncate_post s c s'")
    case False
    with truncate_step [OF less.prems] obtain t where t: "SimpleLruTruncate s c = SimpleLruTruncate t c"
      "select_retry s t" by blast
    then have k: "slru_kept s t" "latest_page_number t = latest_page_number s" "slru_rank t < slru_rank s"
      "slru_inv t" "PagePrecedes t = precedes"
      using less.prems(2) by (auto simp: select_retry_def slru_kept_def slru_frame_def)
    with less.hyps obtain r s' where "SimpleLruTruncate t c = Some (r, s')" "truncate_post t c s'" by blast
    with t(1) truncate_post_after [OF k(1,2)] show ?thesis by metis
  qed blast
qed

end

end
