(* ===== verification/Slru_Client.thy ===== *)
theory Slru_Client
  imports Slru_Pages
begin

text \<open>
  The SLRU buffer manager as a store of pages.

  A client zeroes pages, sets and reads entries of pages it has read, and flushes; the store
  underneath decides what is in a buffer.  \<open>slru_run\<close> is a sequence of such operations on the
  buffer manager, \<open>store_run\<close> the same sequence on a map from page numbers to pages, where an
  operation that failed does nothing.  The first never hangs, and its answers are those of the
  second (property \<open>slru_refines_store\<close>).
\<close>

section \<open>Client operations\<close>

datatype 'a slru_op = OpZero nat | OpSet nat nat 'a | OpGet nat nat | OpFlush

fun slru_exec ::
  "'a :: zero slru \<Rightarrow> 'a slru_op \<Rightarrow> ((SlruErrorCause + 'a option) \<times> 'a slru) option" where
  "slru_exec s (OpZero p) =
     (case SimpleLruZeroPage s p of
        None \<Rightarrow> None
      | Some (Inl e, s') \<Rightarrow> Some (Inl e, s')
      | Some (Inr slotno, s') \<Rightarrow> Some (Inr None, s'))"
| "slru_exec s (OpSet p n v) =
     (case SimpleLruReadPage s p True of
        None \<Rightarrow> None
      | Some (Inl e, s') \<Rightarrow> Some (Inl e, s')
      | Some (Inr slotno, s') \<Rightarrow> Some (Inr None, slru_store s' slotno n v))"
| "slru_exec s (OpGet p n) =
     (case SimpleLruReadPage_ReadOnly s p of
        None \<Rightarrow> None
      | Some (Inl e, s') \<Rightarrow> Some (Inl e, s')
      | Some (Inr slotno, s') \<Rightarrow> Some (Inr (Some (page_buffer (slot_at s' slotno) n)), s'))"
| "slru_exec s OpFlush =
     (case SimpleLruFlush s of
        (Some e, s') \<Rightarrow> Some (Inl e, s')
      | (None, s') \<Rightarrow> Some (Inr None, s'))"

fun slru_run ::
  "'a :: zero slru \<Rightarrow> 'a slru_op list \<Rightarrow> ((SlruErrorCause + 'a option) list \<times> 'a slru) option" where
  "slru_run s [] = Some ([], s)"
| "slru_run s (x # xs) =
     (case slru_exec s x of
        None \<Rightarrow> None
      | Some (r, s') \<Rightarrow>
          (case slru_run s' xs of None \<Rightarrow> None | Some (rs, s'') \<Rightarrow> Some (r # rs, s'')))"

section \<open>The store of pages\<close>

text \<open>
  \<open>store_step m x r\<close> is the store after the operation \<open>x\<close> answered \<open>r\<close>, or \<open>None\<close> when the store
  would not have given that answer.  Nothing is claimed of pages that were never in the store.
\<close>

fun store_step ::
  "(nat \<rightharpoonup> 'a :: zero page) \<Rightarrow> 'a slru_op \<Rightarrow> SlruErrorCause + 'a option \<Rightarrow> (nat \<rightharpoonup> 'a page) option" where
  "store_step m x (Inl e) = Some m"
| "store_step m (OpZero p) (Inr None) = Some (m(p \<mapsto> zero_page))"
| "store_step m (OpSet p n v) (Inr None) =
     (case m p of None \<Rightarrow> Some m | Some pg \<Rightarrow> Some (m(p \<mapsto> pg(n := v))))"
| "store_step m (OpGet p n) (Inr (Some v)) =
     (case m p of None \<Rightarrow> Some m | Some pg \<Rightarrow> (if pg n = v then Some m else None))"
| "store_step m OpFlush (Inr None) = Some m"
| "store_step m x r = None"

fun store_run ::
  "(nat \<rightharpoonup> 'a :: zero page) \<Rightarrow> 'a slru_op list \<Rightarrow> (SlruErrorCause + 'a option) list
   \<Rightarrow> (nat \<rightharpoonup> 'a page) option" where
  "store_run m [] [] = Some m"
| "store_run m (x # xs) (r # rs) =
     (case store_step m x r of None \<Rightarrow> None | Some m' \<Rightarrow> store_run m' xs rs)"
| "store_run m xs rs = None"

definition slru_rel :: "'a slru \<Rightarrow> (nat \<rightharpoonup> 'a page) \<Rightarrow> bool" where
  "slru_rel s m \<longleftrightarrow>
     slru_inv s \<and> \<not> InRecovery s \<and> 2 \<le> length (slru_slots s) \<and> (\<forall>p v. m p = Some v \<longrightarrow> slru_page s p = Some v)"

lemma kept_rel: "slru_rel s m \<Longrightarrow> slru_kept s s' \<Longrightarrow> slru_rel s' m"
  by (simp add: slru_rel_def slru_kept_def pages_kept_def slru_frame_def)

lemma page_set_rel: "slru_rel s m \<Longrightarrow> page_set p v s s' \<Longrightarrow> slru_rel s' (m(p \<mapsto> v))"
  by (simp add: slru_rel_def page_set_def slru_frame_def)

lemma page_set_rel_untracked: "slru_rel s m \<Longrightarrow> page_set p v s s' \<Longrightarrow> m p = None \<Longrightarrow> slru_rel s' m"
  unfolding slru_rel_def page_set_def slru_frame_def by (metis option.distinct(1))

lemma exec_set:
  assumes rel: "slru_rel s m"
  shows "\<exists>r s' m'. slru_exec s (OpSet p n v) = Some (r, s') \<and> store_step m (OpSet p n v) r = Some m' \<and>
    slru_rel s' m'"
proof -
  obtain r t where rd: "SimpleLruReadPage s p True = Some (r, t)" and post: "read_post s p (r, t)"
    using SimpleLruReadPage_total rel unfolding slru_rel_def may_read_def by fastforce
  have rel': "slru_rel t m" using kept_rel [OF rel] post by (simp add: read_post_def)
  show ?thesis
  proof (cases r)
    case (Inl e)
    with rd rel' show ?thesis by simp
  next
    case (Inr i)
    then have i: "i < length (slru_slots t)" "slot_holds (slot_at t i) p" and inv: "slru_inv t"
      using post by (simp_all add: read_post_def slru_kept_def)
    note set = slru_store_set(1) [OF inv i slru_page_slot [OF inv i], of n v]
    show ?thesis
    proof (cases "m p")
      case None
      with rd Inr page_set_rel_untracked [OF rel' set] show ?thesis by simp
    next
      case (Some pg)
      then have "page_buffer (slot_at t i) = pg"
        using rel' slru_page_slot [OF inv i] by (auto simp: slru_rel_def)
      with rd Inr Some page_set_rel [OF rel' set] show ?thesis by simp
    qed
  qed
qed

lemma exec_step:
  assumes rel: "slru_rel s m"
  shows "\<exists>r s' m'. slru_exec s x = Some (r, s') \<and> store_step m x r = Some m' \<and> slru_rel s' m'"
proof (cases x)
  case (OpZero p)
  obtain r t where z: "SimpleLruZeroPage s p = Some (r, t)" and post: "zero_post s p (r, t)"
    using SimpleLruZeroPage_total rel unfolding slru_rel_def may_read_def by fastforce
  with rel page_set_rel [OF rel] kept_rel [OF rel] show ?thesis
    by (cases r) (auto simp: OpZero zero_post_def)
next
  case (OpSet p n v)
  with exec_set [OF rel] show ?thesis by blast
next
  case (OpGet p n)
  obtain r t where rd: "SimpleLruReadPage_ReadOnly s p = Some (r, t)" and post: "read_post s p (r, t)"
    using SimpleLruReadPage_ReadOnly_total rel unfolding slru_rel_def may_read_def by fastforce
  have rel': "slru_rel t m" using kept_rel [OF rel] post by (simp add: read_post_def)
  show ?thesis
  proof (cases r)
    case (Inr i)
    have "page_buffer (slot_at t i) = pg" if "m p = Some pg" for pg
      using read_post_page [OF post [unfolded Inr]] rel that by (simp add: slru_rel_def)
    with rd rel' Inr OpGet show ?thesis by (cases "m p") auto
  qed (use rd rel' OpGet in simp)
next
  case OpFlush
  have "slru_rel (snd (SimpleLruFlush s)) m"
    using kept_rel [OF rel SimpleLruFlush_kept] rel by (simp add: slru_rel_def)
  then show ?thesis by (auto simp: OpFlush split: prod.splits option.splits)
qed

section \<open>Properties\<close>

text \<open>C8. The SLRU buffer manager is a store of pages: whatever slots it has, whatever it evicts and
  whatever I/O fails on the way, every sequence of operations of a client ends, every answer is the
  one of a plain map from page numbers to pages on which the failed operations did nothing, and
  the buffers and files again represent that map.\<close>

theorem slru_refines_store:
  assumes "slru_rel s m"
  shows "\<exists>rs s' m'. slru_run s xs = Some (rs, s') \<and> store_run m xs rs = Some m' \<and> slru_rel s' m'"
  using assms
proof (induction xs arbitrary: s m)
  case Nil
  then show ?case by simp
next
  case (Cons x xs)
  obtain r t m1 where t: "slru_exec s x = Some (r, t)" "store_step m x r = Some m1" "slru_rel t m1"
    using exec_step [OF Cons.prems] by blast
  from Cons.IH [OF t(3)] t(1,2) show ?case by fastforce
qed

definition ex_empty_slot :: "nat slru_slot" where
  "ex_empty_slot = \<lparr>page_buffer = zero_page, page_status = SLRU_PAGE_EMPTY, page_dirty = False,
     page_number = 0, page_lru_count = 0\<rparr>"

definition ex_slru :: "nat slru" where
  "ex_slru = \<lparr>slru_slots = [ex_empty_slot, ex_empty_slot], cur_lru_count = 0, latest_page_number = 0,
     seg_files = [], io_faults = [Some SLRU_WRITE_FAILED], PagePrecedes = (<), do_fsync = True,
     InRecovery = False\<rparr>"

definition ex_ops :: "nat slru_op list" where
  "ex_ops = [OpZero 0, OpSet 0 1 7, OpZero 1, OpZero 2, OpZero 2, OpGet 0 1]"

lemma ex_slru_rel: "slru_rel ex_slru Map.empty"
proof -
  have "page_status (slot_at ex_slru i) = SLRU_PAGE_EMPTY" if "i < 2" for i
    using that by (cases i) (auto simp: ex_slru_def ex_empty_slot_def less_Suc_eq numeral_2_eq_2)
  then show ?thesis by (auto simp: slru_rel_def slru_inv_def ex_slru_def)
qed

text \<open>
  Two slots, three pages: the third page evicts the first, whose write fails once; after the
  second attempt the entry of the first page is read back from disk.
\<close>

theorem slru_refines_store_witness:
  "map_option fst (slru_run ex_slru ex_ops) =
     Some [Inr None, Inr None, Inr None, Inl SLRU_WRITE_FAILED, Inr None, Inr (Some 7)] \<and>
   (\<exists>rs s' m'. slru_run ex_slru ex_ops = Some (rs, s') \<and> store_run Map.empty ex_ops rs = Some m' \<and>
      slru_rel s' m')"
proof
  show "map_option fst (slru_run ex_slru ex_ops) =
     Some [Inr None, Inr None, Inr None, Inl SLRU_WRITE_FAILED, Inr None, Inr (Some 7)]"
    by code_simp
qed (rule slru_refines_store [OF ex_slru_rel])

text \<open>When every slot holds another page and all are clean, the slot given to a page is the least
  recently used one: no other page but the latest, which is never evicted, has a greater age, ages
  being differences of wrapping 32-bit counters.\<close>

theorem select_evicts_lru:
  assumes inv: "slru_inv s" "2 \<le> length (slru_slots s)"
    and full: "\<forall>sl \<in> set (slru_slots s). page_status sl = SLRU_PAGE_VALID \<and> \<not> page_dirty sl \<and>
      page_number sl \<noteq> p"
  shows "\<exists>i s'. SlruSelectLRUPage s p = Some (Inr i, s') \<and> i < length (slru_slots s) \<and>
    page_number (slot_at s i) \<noteq> latest_page_number s \<and>
    (\<forall>j < length (slru_slots s). page_number (slot_at s j) \<noteq> latest_page_number s \<longrightarrow>
       page_delta (cur_lru_count s) (slot_at s j) \<le> page_delta (cur_lru_count s) (slot_at s i))"
proof -
  have none: "find_slot 0 (slru_slots s) p = None" using full by (auto simp: find_slot_None)
  obtain r sls where scan: "select_scan (PagePrecedes s) (cur_lru_count s) (latest_page_number s) 0
      (slru_slots s) no_best = (r, sls)" by force
  obtain b where r: "r = Inr b"
    using select_scan_empty [of _ _ _ 0 "slru_slots s"] scan full
    by (cases r) (fastforce dest: nth_mem)+
  note best = select_scan_best [OF scan [unfolded r]]
  note res = select_scan_result [OF inv none scan refl, where c = "cur_lru_count s + 1"]
  have ch: "lru_changed (slot_at s i) (sls ! i)" if "i < length (slru_slots s)" for i
    using select_scan_slots [OF scan] that by (simp add: list_all2_conv_all_nth)
  have len: "length sls = length (slru_slots s)"
    using select_scan_slots [OF scan] by (simp add: list_all2_lengthD)
  let ?i = "bestvalidslot b"
  have pos: "\<not> best_valid_delta b < 0"
  proof
    assume "best_valid_delta b < 0"
    from res(2) [OF r this] show False
      using full lru_changed_simps(2) [OF ch] len by (auto simp: busy_victim_def)
  qed
  with res(3) [OF r] have i: "?i < length (slru_slots s)" using len by simp
  have slot: "victim (latest_page_number s) (slot_at s ?i)"
    "page_delta (cur_lru_count s) (slot_at s ?i) = best_valid_delta b"
    using best pos by (auto simp: best_of_def no_best_def)
  have "\<not> page_dirty (sls ! ?i)" using full i lru_changed_simps(3) [OF ch [OF i]] by simp
  then have "SlruSelectLRUPage s p = Some (Inr ?i, s\<lparr>slru_slots := sls, cur_lru_count := cur_lru_count s + 1\<rparr>)"
    using pos by (subst SlruSelectLRUPage.simps) (simp add: none scan r Let_def)
  moreover have "page_delta (cur_lru_count s) (slot_at s j) \<le> best_valid_delta b"
    if "j < length (slru_slots s)" "page_number (slot_at s j) \<noteq> latest_page_number s" for j
    using best full that by (simp add: best_of_def victim_def)
  ultimately show ?thesis using i slot by (simp add: victim_def)
qed

definition ex_full_slot :: "nat \<Rightarrow> 32 word \<Rightarrow> nat slru_slot" where
  "ex_full_slot p c = \<lparr>page_buffer = zero_page, page_status = SLRU_PAGE_VALID, page_dirty = False,
     page_number = p, page_lru_count = c\<rparr>"

text \<open>The counters of the example have wrapped around: page 4 was used last.\<close>

definition ex_full_slru :: "nat slru" where
  "ex_full_slru = \<lparr>slru_slots = [ex_full_slot 3 (- 5), ex_full_slot 4 2, ex_full_slot 5 (- 9)],
     cur_lru_count = 2, latest_page_number = 5, seg_files = [(0, replicate 6 zero_page)],
     io_faults = [], PagePrecedes = (<), do_fsync = True, InRecovery = False\<rparr>"

lemma ex_full_slru_inv: "slru_inv ex_full_slru"
proof -
  have "i < 3 \<Longrightarrow> i = 0 \<or> i = 1 \<or> i = 2" for i :: nat by auto
  then show ?thesis
    by (auto simp: slru_inv_def ex_full_slru_def ex_full_slot_def disk_page_def seg_file_def
        SLRU_PAGES_PER_SEGMENT_def nth_Cons' split: if_splits)
qed

theorem select_evicts_lru_witness:
  "\<exists>i s'. SlruSelectLRUPage ex_full_slru 6 = Some (Inr i, s') \<and> i < 3 \<and>
     page_number (slot_at ex_full_slru i) \<noteq> 5 \<and>
     (\<forall>j < 3. page_number (slot_at ex_full_slru j) \<noteq> 5 \<longrightarrow>
        page_delta 2 (slot_at ex_full_slru j) \<le> page_delta 2 (slot_at ex_full_slru i))"
proof -
  have n: "length (slru_slots ex_full_slru) = 3" "latest_page_number ex_full_slru = 5"
    "cur_lru_count ex_full_slru = 2" by (simp_all add: ex_full_slru_def)
  have f: "\<forall>sl \<in> set (slru_slots ex_full_slru). page_status sl = SLRU_PAGE_VALID \<and> \<not> page_dirty sl \<and>
      page_number sl \<noteq> 6" by (simp add: ex_full_slru_def ex_full_slot_def)
  show ?thesis using select_evicts_lru [OF ex_full_slru_inv _ f] by (simp add: n)
qed

end
