(* ===== verification/Transam.thy ===== *)
theory Transam
  imports Prelude
begin

text \<open>
  Transaction identifiers (\<open>access/transam.h\<close>, \<open>access/transam/transam.c\<close>): 32-bit counters that
  wrap around, with three permanent values, compared modulo \<open>2 ^ 32\<close>.

  The comparisons order identifiers only within half of the identifier space.  The lemmas state
  this with the distance \<open>xid_pos h x\<close> of \<open>x\<close> from a base \<open>h\<close>: on the identifiers less than
  \<open>2 ^ 31\<close> away from the base, the modular comparisons are the comparisons of distances.
\<close>

type_synonym TransactionId = "32 word"

definition InvalidTransactionId :: TransactionId where
  "InvalidTransactionId = 0"

definition FirstNormalTransactionId :: TransactionId where
  "FirstNormalTransactionId = 3"

definition TransactionIdIsValid :: "TransactionId \<Rightarrow> bool" where
  "TransactionIdIsValid xid \<longleftrightarrow> xid \<noteq> InvalidTransactionId"

definition TransactionIdIsNormal :: "TransactionId \<Rightarrow> bool" where
  "TransactionIdIsNormal xid \<longleftrightarrow> FirstNormalTransactionId \<le> xid"

definition TransactionIdAdvance :: "TransactionId \<Rightarrow> TransactionId" where
  "TransactionIdAdvance dest =
     (let dest' = dest + 1 in
      if dest' < FirstNormalTransactionId then FirstNormalTransactionId else dest')"

definition TransactionIdPrecedes :: "TransactionId \<Rightarrow> TransactionId \<Rightarrow> bool" where
  "TransactionIdPrecedes id1 id2 =
     (if \<not> TransactionIdIsNormal id1 \<or> \<not> TransactionIdIsNormal id2 then id1 < id2
      else sint (id1 - id2) < 0)"

definition TransactionIdPrecedesOrEquals :: "TransactionId \<Rightarrow> TransactionId \<Rightarrow> bool" where
  "TransactionIdPrecedesOrEquals id1 id2 =
     (if \<not> TransactionIdIsNormal id1 \<or> \<not> TransactionIdIsNormal id2 then id1 \<le> id2
      else sint (id1 - id2) \<le> 0)"

definition TransactionIdFollows :: "TransactionId \<Rightarrow> TransactionId \<Rightarrow> bool" where
  "TransactionIdFollows id1 id2 =
     (if \<not> TransactionIdIsNormal id1 \<or> \<not> TransactionIdIsNormal id2 then id1 > id2
      else sint (id1 - id2) > 0)"

definition TransactionIdFollowsOrEquals :: "TransactionId \<Rightarrow> TransactionId \<Rightarrow> bool" where
  "TransactionIdFollowsOrEquals id1 id2 =
     (if \<not> TransactionIdIsNormal id1 \<or> \<not> TransactionIdIsNormal id2 then id1 \<ge> id2
      else sint (id1 - id2) \<ge> 0)"

section \<open>Distances\<close>

lemma sint_add_int:
  assumes "- (2 ^ 31) \<le> sint (x :: 32 word) + m" "sint x + m < 2 ^ 31"
  shows "sint (x + of_int m) = sint x + m"
proof -
  have "x + of_int m = of_int (sint x + m)" by simp
  then show ?thesis using sint_of_int32 [of "sint x + m"] assms by simp
qed

lemma sint_small_nat: "n < 2 ^ 31 \<Longrightarrow> sint (of_nat n :: 32 word) = int n"
  using sint_of_int32 [of "int n"] by simp

definition xid_pos :: "TransactionId \<Rightarrow> TransactionId \<Rightarrow> nat" where
  "xid_pos h x = unat (x - h)"

lemma xid_pos_self [simp]: "xid_pos h h = 0"
  by (simp add: xid_pos_def)

lemma xid_pos_inj: "xid_pos h x = xid_pos h y \<longleftrightarrow> x = y"
  by (simp add: xid_pos_def word_unat_eq_iff [symmetric])

lemma xid_of_pos: "h + of_nat (xid_pos h x) = x"
  by (simp add: xid_pos_def)

lemma sint_diff_pos:
  assumes "xid_pos h x < 2 ^ 31" "xid_pos h y < 2 ^ 31"
  shows "sint (x - y) = int (xid_pos h x) - int (xid_pos h y)"
proof -
  have "x - y = (x - h) - (y - h)" by simp
  also have "\<dots> = of_int (int (xid_pos h x) - int (xid_pos h y))" by (simp add: xid_pos_def)
  finally show ?thesis
    using sint_of_int32 [of "int (xid_pos h x) - int (xid_pos h y)"] assms by simp
qed

text \<open>The comparisons within half of the identifier space.\<close>

lemma precedes_pos:
  assumes "TransactionIdIsNormal x" "TransactionIdIsNormal y" "xid_pos h x < 2 ^ 31" "xid_pos h y < 2 ^ 31"
  shows "TransactionIdPrecedes x y \<longleftrightarrow> xid_pos h x < xid_pos h y"
    and "TransactionIdPrecedesOrEquals x y \<longleftrightarrow> xid_pos h x \<le> xid_pos h y"
    and "TransactionIdFollows x y \<longleftrightarrow> xid_pos h y < xid_pos h x"
    and "TransactionIdFollowsOrEquals x y \<longleftrightarrow> xid_pos h y \<le> xid_pos h x"
  using assms sint_diff_pos [OF assms(3,4)]
  by (simp_all add: TransactionIdPrecedes_def TransactionIdPrecedesOrEquals_def
      TransactionIdFollows_def TransactionIdFollowsOrEquals_def)

lemma unat_add_small:
  "unat (x :: 32 word) + n < 2 ^ 32 \<Longrightarrow> unat (x + of_nat n) = unat x + n"
  by (simp add: unat_word_ariths unat_of_nat take_bit_eq_mod)

lemma xid_pos_add: "xid_pos h x + n < 2 ^ 32 \<Longrightarrow> xid_pos h (x + of_nat n) = xid_pos h x + n"
  using unat_add_small [of "x - h" n] by (simp add: xid_pos_def algebra_simps)

lemma normal_unat: "TransactionIdIsNormal x \<longleftrightarrow> 3 \<le> unat x"
  by (simp add: TransactionIdIsNormal_def FirstNormalTransactionId_def word_le_nat_alt)

lemma advance_normal: "TransactionIdIsNormal (TransactionIdAdvance x)"
  by (auto simp: TransactionIdAdvance_def TransactionIdIsNormal_def FirstNormalTransactionId_def Let_def)

text \<open>
  Advancing moves to the next normal identifier: there is none in between.
\<close>

lemma advance_pos:
  assumes "TransactionIdIsNormal x" "xid_pos h x < 2 ^ 31"
  shows "xid_pos h x < xid_pos h (TransactionIdAdvance x)" "xid_pos h (TransactionIdAdvance x) \<le> xid_pos h x + 4"
    and "TransactionIdIsNormal y \<Longrightarrow> xid_pos h x < xid_pos h y \<Longrightarrow>
      xid_pos h (TransactionIdAdvance x) \<le> xid_pos h y"
proof -
  let ?a = "TransactionIdAdvance x"
  have cases: "?a = x + 1 \<or> x = - 1 \<and> ?a = x + 4"
  proof (cases "x = - 1")
    case True
    then show ?thesis by (simp add: TransactionIdAdvance_def FirstNormalTransactionId_def)
  next
    case False
    then have "x < - 1" using word_order.extremum [of x] by (simp add: order_less_le)
    then have "unat x + 1 < 2 ^ 32" by (simp add: word_less_nat_alt unsigned_minus_1_eq_mask mask_eq_exp_minus_1)
    then have "unat (x + 1) = unat x + 1" using unat_add_small [of x 1] by simp
    then show ?thesis
      using assms(1) by (simp add: TransactionIdAdvance_def FirstNormalTransactionId_def normal_unat
          word_less_nat_alt)
  qed
  have one: "xid_pos h (x + 1) = xid_pos h x + 1" and four: "xid_pos h (x + 4) = xid_pos h x + 4"
    using xid_pos_add [of h x 1] xid_pos_add [of h x 4] assms(2) by simp_all
  show "xid_pos h x < xid_pos h ?a" "xid_pos h ?a \<le> xid_pos h x + 4"
    using cases one four by auto
  show "xid_pos h ?a \<le> xid_pos h y" if "TransactionIdIsNormal y" "xid_pos h x < xid_pos h y"
  proof (rule ccontr)
    assume "\<not> xid_pos h ?a \<le> xid_pos h y"
    with that(2) cases one four have x: "x = - 1" and d: "xid_pos h y - xid_pos h x \<in> {1, 2, 3}"
      by auto
    have "y = x + of_nat (xid_pos h y - xid_pos h x)"
      using that(2) by (simp add: of_nat_diff) (simp add: xid_pos_def)
    with x d have "y \<in> {0, 1, 2}" by auto
    with that(1) show False by (auto simp: normal_unat)
  qed
qed

end
