(* ===== verification/Dlog.thy ===== *)
theory Dlog
  imports Transam Slru
begin

text \<open>
  The distributed log of a segment (\<open>access/transam/distributedlog.c\<close>): for every local
  transaction identifier, the distributed transaction it committed as, or zero.  The log is an
  SLRU; beside it the shared memory holds the horizon \<open>oldestXmin\<close>, below which no identifier
  needs the log any more.

  An operation yields \<open>None\<close> when it does not return, and otherwise its result with the new
  state.  WAL records are appended to \<open>dl_wal\<close>.  The operations that release the truncation lock,
  or that use atomic instructions without one, take the list of what other processes do to the
  shared state at those points (functions on the state, applied in order; none left: nothing).
\<close>

section \<open>State\<close>

type_synonym DistributedTransactionId = "64 word"

datatype dlog_record = DISTRIBUTEDLOG_ZEROPAGE nat | DISTRIBUTEDLOG_TRUNCATE nat | DISTRIBUTEDLOG_UNKNOWN "8 word"

datatype dlog_error = DlogIO SlruErrorCause | DlogMismatch | DlogNotInitialized | DlogUnknownOp "8 word"

record dlog =
  dl_slru :: "DistributedTransactionId slru"
  dl_oldestXmin :: TransactionId
  dl_wal :: "dlog_record list"
  dl_recovery :: bool

type_synonym 'r dlog_result = "((dlog_error + 'r) \<times> dlog) option"

definition ENTRIES_PER_PAGE :: nat where
  "ENTRIES_PER_PAGE = 4096"

definition TransactionIdToPage :: "TransactionId \<Rightarrow> nat" where
  "TransactionIdToPage localXid = unat localXid div ENTRIES_PER_PAGE"

definition TransactionIdToEntry :: "TransactionId \<Rightarrow> nat" where
  "TransactionIdToEntry localXid = unat localXid mod ENTRIES_PER_PAGE"

definition TransactionIdToSegment :: "TransactionId \<Rightarrow> nat" where
  "TransactionIdToSegment localXid = unat localXid div (ENTRIES_PER_PAGE * SLRU_PAGES_PER_SEGMENT)"

definition DistributedLog_PagePrecedes :: "nat \<Rightarrow> nat \<Rightarrow> bool" where
  "DistributedLog_PagePrecedes page1 page2 =
     (let xid1 = of_nat page1 * of_nat ENTRIES_PER_PAGE + FirstNormalTransactionId;
          xid2 = of_nat page2 * of_nat ENTRIES_PER_PAGE + FirstNormalTransactionId
      in TransactionIdPrecedes xid1 xid2)"

text \<open>Lifting of SLRU calls to the state of the log.\<close>

definition dl_page ::
  "(DistributedTransactionId slru \<Rightarrow> ((SlruErrorCause + nat) \<times> DistributedTransactionId slru) option)
   \<Rightarrow> dlog \<Rightarrow> nat dlog_result" where
  "dl_page f d =
     (case f (dl_slru d) of
        None \<Rightarrow> None
      | Some (Inl e, s) \<Rightarrow> Some (Inl (DlogIO e), d\<lparr>dl_slru := s\<rparr>)
      | Some (Inr slotno, s) \<Rightarrow> Some (Inr slotno, d\<lparr>dl_slru := s\<rparr>))"

definition dl_bind :: "'a dlog_result \<Rightarrow> ('a \<Rightarrow> dlog \<Rightarrow> 'b dlog_result) \<Rightarrow> 'b dlog_result" where
  "dl_bind m f =
     (case m of
        None \<Rightarrow> None
      | Some (Inl e, d) \<Rightarrow> Some (Inl e, d)
      | Some (Inr x, d) \<Rightarrow> f x d)"

definition slot_entry :: "dlog \<Rightarrow> nat \<Rightarrow> nat \<Rightarrow> DistributedTransactionId" where
  "slot_entry d slotno entryno = page_buffer (slot_at (dl_slru d) slotno) entryno"

section \<open>Creating pages\<close>

definition DistributedLog_ZeroPage :: "dlog \<Rightarrow> nat \<Rightarrow> bool \<Rightarrow> nat dlog_result" where
  "DistributedLog_ZeroPage d page writeXlog =
     dl_bind (dl_page (\<lambda>s. SimpleLruZeroPage s page) d)
       (\<lambda>slotno d'. Some (Inr slotno,
          if writeXlog then d'\<lparr>dl_wal := dl_wal d' @ [DISTRIBUTEDLOG_ZEROPAGE page]\<rparr> else d'))"

definition dl_write_page :: "nat \<Rightarrow> dlog \<Rightarrow> unit dlog_result" where
  "dl_write_page slotno d =
     (case SimpleLruWritePage (dl_slru d) slotno of
        (Some e, s) \<Rightarrow> Some (Inl (DlogIO e), d\<lparr>dl_slru := s\<rparr>)
      | (None, s) \<Rightarrow> Some (Inr (), d\<lparr>dl_slru := s\<rparr>))"

definition DistributedLog_BootStrap :: "dlog \<Rightarrow> bool \<Rightarrow> unit dlog_result" where
  "DistributedLog_BootStrap d is_qd =
     (if is_qd then Some (Inr (), d)
      else dl_bind (DistributedLog_ZeroPage d 0 False) dl_write_page)"

definition DistributedLog_Extend :: "dlog \<Rightarrow> bool \<Rightarrow> TransactionId \<Rightarrow> unit dlog_result" where
  "DistributedLog_Extend d is_qd newestXact =
     (if is_qd then Some (Inr (), d)
      else if TransactionIdToEntry newestXact \<noteq> 0 \<and> newestXact \<noteq> FirstNormalTransactionId
      then Some (Inr (), d)
      else dl_bind (DistributedLog_ZeroPage d (TransactionIdToPage newestXact) True)
             (\<lambda>_ d'. Some (Inr (), d')))"

section \<open>Recording commits\<close>

fun set_entries ::
  "dlog \<Rightarrow> nat \<Rightarrow> TransactionId list \<Rightarrow> DistributedTransactionId \<Rightarrow> unit dlog_result" where
  "set_entries d slotno [] distribXid = Some (Inr (), d)"
| "set_entries d slotno (x # xs) distribXid =
     (let entryno = TransactionIdToEntry x in
      if slot_entry d slotno entryno \<noteq> 0
      then (if slot_entry d slotno entryno \<noteq> distribXid then Some (Inl DlogMismatch, d)
            else set_entries d slotno xs distribXid)
      else set_entries (d\<lparr>dl_slru := slru_store (dl_slru d) slotno entryno distribXid\<rparr>)
             slotno xs distribXid)"

definition DistributedLog_SetCommittedWithinAPage ::
  "dlog \<Rightarrow> TransactionId list \<Rightarrow> DistributedTransactionId \<Rightarrow> bool \<Rightarrow> unit dlog_result" where
  "DistributedLog_SetCommittedWithinAPage d localXid distribXid isRedo =
     (let page = TransactionIdToPage (hd localXid) in
      dl_bind
        (if isRedo \<and> \<not> SimpleLruDoesPhysicalPageExist (dl_slru d) page
         then DistributedLog_ZeroPage d page False else Some (Inr 0, d))
        (\<lambda>_ d1. dl_bind (dl_page (\<lambda>s. SimpleLruReadPage s page True) d1)
           (\<lambda>slotno d2. set_entries d2 slotno localXid distribXid)))"

text \<open>The identifiers of one page are recorded together, page after page.\<close>

function DistributedLog_SetCommittedByPages ::
  "dlog \<Rightarrow> TransactionId list \<Rightarrow> DistributedTransactionId \<Rightarrow> bool \<Rightarrow> unit dlog_result" where
  "DistributedLog_SetCommittedByPages d [] distribXid isRedo = Some (Inr (), d)"
| "DistributedLog_SetCommittedByPages d (x # xs) distribXid isRedo =
     (let pageno = TransactionIdToPage x;
          range = takeWhile (\<lambda>y. TransactionIdToPage y = pageno) (x # xs)
      in dl_bind (DistributedLog_SetCommittedWithinAPage d range distribXid isRedo)
           (\<lambda>_ d'. DistributedLog_SetCommittedByPages d' (drop (length range) (x # xs))
                     distribXid isRedo))"
  by pat_completeness auto
termination
  by (relation "measure (\<lambda>(d, xs, g, r). length xs)") auto

definition DistributedLog_SetCommittedTree ::
  "dlog \<Rightarrow> bool \<Rightarrow> TransactionId \<Rightarrow> TransactionId list \<Rightarrow> DistributedTransactionId \<Rightarrow> bool
   \<Rightarrow> unit dlog_result" where
  "DistributedLog_SetCommittedTree d is_qd xid xids distribXid isRedo =
     (if is_qd then Some (Inr (), d)
      else dl_bind (DistributedLog_SetCommittedWithinAPage d [xid] distribXid isRedo)
             (\<lambda>_ d'. DistributedLog_SetCommittedByPages d' xids distribXid isRedo))"

section \<open>Looking commits up\<close>

definition DistributedLog_GetDistributedXid ::
  "dlog \<Rightarrow> TransactionId \<Rightarrow> DistributedTransactionId dlog_result" where
  "DistributedLog_GetDistributedXid d localXid =
     dl_bind (dl_page (\<lambda>s. SimpleLruReadPage_ReadOnly s (TransactionIdToPage localXid)) d)
       (\<lambda>slotno d'. Some (Inr (slot_entry d' slotno (TransactionIdToEntry localXid)), d'))"

text \<open>
  \<open>DistributedLog_CommittedCheck\<close> tests the horizon twice, without and under the truncation lock;
  \<open>other\<close> is what other processes do before the lock is taken.  The result is the distributed
  transaction, or \<open>None\<close> for the return value \<open>false\<close>.
\<close>

definition DistributedLog_CommittedCheck ::
  "dlog \<Rightarrow> (dlog \<Rightarrow> dlog) \<Rightarrow> TransactionId \<Rightarrow> DistributedTransactionId option dlog_result" where
  "DistributedLog_CommittedCheck d other localXid =
     (if dl_oldestXmin d = InvalidTransactionId then Some (Inl DlogNotInitialized, d)
      else if TransactionIdPrecedes localXid (dl_oldestXmin d) then Some (Inr None, d)
      else
        let d1 = other d in
        if TransactionIdPrecedes localXid (dl_oldestXmin d1) then Some (Inr None, d1)
        else dl_bind (DistributedLog_GetDistributedXid d1 localXid)
               (\<lambda>g d'. Some (Inr (if g \<noteq> 0 then Some g else None), d')))"

text \<open>
  \<open>DistributedLog_ScanForPrevCommitted\<close> walks down from an identifier, page by page, as long as
  the pages exist.
\<close>

fun scan_page_down ::
  "dlog \<Rightarrow> nat \<Rightarrow> nat \<Rightarrow> nat \<Rightarrow> (TransactionId \<times> DistributedTransactionId) option" where
  "scan_page_down d slotno low 0 =
     (if low = 0 \<and> slot_entry d slotno 0 \<noteq> 0 then Some (0, slot_entry d slotno 0) else None)"
| "scan_page_down d slotno low (Suc n) =
     (if Suc n < low then None
      else if slot_entry d slotno (TransactionIdToEntry (of_nat (Suc n))) \<noteq> 0
      then Some (of_nat (Suc n), slot_entry d slotno (TransactionIdToEntry (of_nat (Suc n))))
      else scan_page_down d slotno low n)"

definition page_low_xid :: "nat \<Rightarrow> nat" where
  "page_low_xid pageno =
     (if pageno * ENTRIES_PER_PAGE = 0 then 3 else pageno * ENTRIES_PER_PAGE)"

function scan_pages_down ::
  "dlog \<Rightarrow> nat \<Rightarrow> (TransactionId \<times> DistributedTransactionId) option dlog_result" where
  "scan_pages_down d highXid =
     (let pageno = highXid div ENTRIES_PER_PAGE; lowXid = page_low_xid pageno in
      if \<not> SimpleLruDoesPhysicalPageExist (dl_slru d) pageno then Some (Inr None, d)
      else
        case dl_page (\<lambda>s. SimpleLruReadPage s pageno True) d of
          None \<Rightarrow> None
        | Some (Inl e, d') \<Rightarrow> Some (Inl e, d')
        | Some (Inr slotno, d') \<Rightarrow>
            (case scan_page_down d' slotno lowXid highXid of
               Some r \<Rightarrow> Some (Inr (Some r), d')
             | None \<Rightarrow>
                 (if lowXid = 3 then Some (Inr None, d')
                  else scan_pages_down d' (lowXid - 1))))"
  by pat_completeness auto
termination
proof (relation "measure snd", goal_cases)
  case 1 show ?case by simp
next
  case (2 d highXid)
  then have "0 < highXid div ENTRIES_PER_PAGE * ENTRIES_PER_PAGE"
    "page_low_xid (highXid div ENTRIES_PER_PAGE) = highXid div ENTRIES_PER_PAGE * ENTRIES_PER_PAGE"
    by (auto simp: page_low_xid_def split: if_splits)
  moreover have "highXid div ENTRIES_PER_PAGE * ENTRIES_PER_PAGE \<le> highXid" by simp
  ultimately have "page_low_xid (highXid div ENTRIES_PER_PAGE) - 1 < highXid" by linarith
  with 2 show ?case by simp
qed

definition DistributedLog_ScanForPrevCommitted ::
  "dlog \<Rightarrow> TransactionId \<Rightarrow> (TransactionId \<times> DistributedTransactionId) option dlog_result" where
  "DistributedLog_ScanForPrevCommitted d indexXid =
     (if indexXid = InvalidTransactionId then Some (Inr None, d)
      else if indexXid - 1 < FirstNormalTransactionId then Some (Inr None, d)
      else scan_pages_down d (unat (indexXid - 1)))"

section \<open>Truncation and the horizon\<close>

definition DistributedLog_Truncate :: "dlog \<Rightarrow> TransactionId \<Rightarrow> unit dlog_result" where
  "DistributedLog_Truncate d oldestXmin =
     (let cutoffPage = TransactionIdToPage oldestXmin in
      if \<not> fst (SlruScanDirectory (SlruScanDirCbReportPresence cutoffPage) (dl_slru d))
      then Some (Inr (), d)
      else
        let d1 = (if \<not> dl_recovery d
                  then d\<lparr>dl_wal := dl_wal d @ [DISTRIBUTEDLOG_TRUNCATE cutoffPage]\<rparr> else d) in
        case SimpleLruTruncate (dl_slru d1) cutoffPage of
          None \<Rightarrow> None
        | Some (Some e, s) \<Rightarrow> Some (Inl (DlogIO e), d1\<lparr>dl_slru := s\<rparr>)
        | Some (None, s) \<Rightarrow> Some (Inr (), d1\<lparr>dl_slru := s\<rparr>))"

definition AdvanceTransactionIdToNextPage :: "TransactionId \<Rightarrow> TransactionId" where
  "AdvanceTransactionIdToNextPage xid =
     (let xid1 = xid + of_nat ENTRIES_PER_PAGE;
          xid2 = xid1 - of_nat (unat xid1 mod ENTRIES_PER_PAGE)
      in if xid2 < FirstNormalTransactionId then FirstNormalTransactionId else xid2)"

partial_function (option) init_oldest_xmin ::
  "(nat \<Rightarrow> bool) \<Rightarrow> TransactionId \<Rightarrow> TransactionId \<Rightarrow> TransactionId option" where
  "init_oldest_xmin page_exists nextXid oldestXmin =
     (if page_exists (TransactionIdToPage oldestXmin) then Some oldestXmin
      else
        let xid = AdvanceTransactionIdToNextPage oldestXmin in
        if TransactionIdFollowsOrEquals xid nextXid then Some nextXid
        else init_oldest_xmin page_exists nextXid xid)"

definition DistributedLog_InitOldestXmin ::
  "dlog \<Rightarrow> TransactionId \<Rightarrow> TransactionId \<Rightarrow> unit dlog_result" where
  "DistributedLog_InitOldestXmin d oldestXid nextXid =
     map_option (\<lambda>h. (Inr (), d\<lparr>dl_oldestXmin := h\<rparr>))
       (init_oldest_xmin (SimpleLruDoesPhysicalPageExist (dl_slru d)) nextXid oldestXid)"

text \<open>
  The scan of \<open>DistributedLog_AdvanceOldestXmin\<close>.  \<open>page\<close> is the page whose entries are held
  under the control lock, with its contents.  Between two pages the locks are released; the next
  function of \<open>others\<close> is what other processes do then.
\<close>

definition next_other :: "(dlog \<Rightarrow> dlog) list \<Rightarrow> (dlog \<Rightarrow> dlog) \<times> (dlog \<Rightarrow> dlog) list" where
  "next_other others = (case others of [] \<Rightarrow> (\<lambda>d. d, []) | f # fs \<Rightarrow> (f, fs))"

type_synonym held_page = "(nat \<times> DistributedTransactionId page) option"

partial_function (option) advance_scan ::
  "TransactionId \<Rightarrow> DistributedTransactionId \<Rightarrow> dlog \<Rightarrow> (dlog \<Rightarrow> dlog) list \<Rightarrow> held_page \<Rightarrow> TransactionId
   \<Rightarrow> ((dlog_error + TransactionId) \<times> (dlog \<Rightarrow> dlog) list \<times> dlog) option" where
  "advance_scan oldestLocalXmin xminAll d others held oldestXmin =
     (if \<not> TransactionIdPrecedes oldestXmin oldestLocalXmin then Some (Inr oldestXmin, others, d)
      else
        let page = TransactionIdToPage oldestXmin;
            entryno = TransactionIdToEntry oldestXmin
        in
        case held of
          Some (currPage, entries) \<Rightarrow>
            (if currPage = page
             then (if entries entryno \<ge> xminAll then Some (Inr oldestXmin, others, d)
                   else advance_scan oldestLocalXmin xminAll d others held
                          (TransactionIdAdvance oldestXmin))
             else
               let (f, others') = next_other others; d1 = f d; sharedXmin = dl_oldestXmin d1 in
               if TransactionIdPrecedes oldestXmin sharedXmin
               then advance_scan oldestLocalXmin xminAll d1 others' None sharedXmin
               else
                 case dl_page (\<lambda>s. SimpleLruReadPage_ReadOnly s page) d1 of
                   None \<Rightarrow> None
                 | Some (r, d2) \<Rightarrow>
                     (case r of
                        Inl e \<Rightarrow> Some (Inl e, others', d2)
                      | Inr slotno \<Rightarrow>
                          (if slot_entry d2 slotno entryno \<ge> xminAll
                           then Some (Inr oldestXmin, others', d2)
                           else advance_scan oldestLocalXmin xminAll d2 others'
                                  (Some (page, slot_entry d2 slotno)) (TransactionIdAdvance oldestXmin))))
        | None \<Rightarrow>
            (case dl_page (\<lambda>s. SimpleLruReadPage_ReadOnly s page) d of
               None \<Rightarrow> None
             | Some (r, d2) \<Rightarrow>
                 (case r of
                    Inl e \<Rightarrow> Some (Inl e, others, d2)
                  | Inr slotno \<Rightarrow>
                      (if slot_entry d2 slotno entryno \<ge> xminAll
                       then Some (Inr oldestXmin, others, d2)
                       else advance_scan oldestLocalXmin xminAll d2 others
                              (Some (page, slot_entry d2 slotno)) (TransactionIdAdvance oldestXmin)))))"

text \<open>
  The compare-and-exchange loop that publishes the new horizon, unless another process has
  published a later one.
\<close>

partial_function (option) publish_xmin ::
  "dlog \<Rightarrow> (dlog \<Rightarrow> dlog) list \<Rightarrow> TransactionId \<Rightarrow> TransactionId
   \<Rightarrow> (TransactionId \<times> (dlog \<Rightarrow> dlog) list \<times> dlog) option" where
  "publish_xmin d others expected oldestXmin =
     (let (f, others') = next_other others; d1 = f d in
      if dl_oldestXmin d1 = expected
      then Some (oldestXmin, others', d1\<lparr>dl_oldestXmin := oldestXmin\<rparr>)
      else if TransactionIdPrecedesOrEquals oldestXmin (dl_oldestXmin d1)
      then Some (dl_oldestXmin d1, others', d1)
      else publish_xmin d1 others' (dl_oldestXmin d1) oldestXmin)"

text \<open>The lock is released once more before the truncation takes it exclusively.\<close>

definition DistributedLog_AdvanceOldestXmin ::
  "dlog \<Rightarrow> (dlog \<Rightarrow> dlog) list \<Rightarrow> TransactionId \<Rightarrow> DistributedTransactionId \<Rightarrow> TransactionId dlog_result" where
  "DistributedLog_AdvanceOldestXmin d others oldestLocalXmin xminAll =
     (let oldOldestXmin = dl_oldestXmin d in
      case advance_scan oldestLocalXmin xminAll d others None oldOldestXmin of
        None \<Rightarrow> None
      | Some (Inl e, _, d1) \<Rightarrow> Some (Inl e, d1)
      | Some (Inr oldestXmin, others1, d1) \<Rightarrow>
          (case (if oldOldestXmin \<noteq> oldestXmin then publish_xmin d1 others1 oldOldestXmin oldestXmin
                 else Some (oldestXmin, others1, d1)) of
             None \<Rightarrow> None
           | Some (oldestXmin', others2, d2) \<Rightarrow>
               (if TransactionIdToSegment oldOldestXmin < TransactionIdToSegment oldestXmin'
                then dl_bind (DistributedLog_Truncate (fst (next_other others2) d2) oldestXmin')
                       (\<lambda>_ d3. Some (Inr oldestXmin', d3))
                else Some (Inr oldestXmin', d2))))"

definition DistributedLog_GetOldestXmin :: "dlog \<Rightarrow> TransactionId \<Rightarrow> TransactionId" where
  "DistributedLog_GetOldestXmin d oldestLocalXmin =
     (let result = dl_oldestXmin d in
      if \<not> TransactionIdIsValid result \<or> TransactionIdFollows result oldestLocalXmin
      then oldestLocalXmin else result)"

section \<open>Start-up, checkpoints and replay\<close>

definition MaxPage :: nat where
  "MaxPage = TransactionIdToPage (- 1)"

text \<open>
  The loop that zeroes the pages from \<open>currentPage\<close> to \<open>endPage\<close>, wrapping around after the last
  page.  In C the test \<open>currentPage++ != endPage\<close> compares the page just zeroed.
\<close>

partial_function (option) zero_pages :: "dlog \<Rightarrow> nat \<Rightarrow> nat \<Rightarrow> unit dlog_result" where
  "zero_pages d currentPage endPage =
     (let page = (if currentPage > MaxPage then 0 else currentPage) in
      case DistributedLog_ZeroPage d page False of
        None \<Rightarrow> None
      | Some (r, d') \<Rightarrow>
          (case r of
             Inl e \<Rightarrow> Some (Inl e, d')
           | Inr _ \<Rightarrow> (if page \<noteq> endPage then zero_pages d' (page + 1) endPage
                      else Some (Inr (), d'))))"

definition zero_rest_of_page :: "dlog \<Rightarrow> nat \<Rightarrow> nat \<Rightarrow> dlog" where
  "zero_rest_of_page d slotno entryno =
     d\<lparr>dl_slru := upd_slot (dl_slru d) slotno
        (\<lambda>sl. sl\<lparr>page_buffer := (\<lambda>k. if entryno \<le> k then 0 else page_buffer sl k),
                page_dirty := True\<rparr>)\<rparr>"

definition DistributedLog_Startup ::
  "dlog \<Rightarrow> bool \<Rightarrow> bool \<Rightarrow> TransactionId \<Rightarrow> TransactionId \<Rightarrow> TransactionId
   \<Rightarrow> unit dlog_result" where
  "DistributedLog_Startup d is_qd convert oldestXid oldestActiveXid nextXid =
     (if is_qd then Some (Inr (), d) else
      let startPage = TransactionIdToPage oldestActiveXid;
          endPage = TransactionIdToPage nextXid;
          entryno = TransactionIdToEntry nextXid;
          d0 = d\<lparr>dl_slru := (dl_slru d)\<lparr>latest_page_number := endPage\<rparr>\<rparr>
      in
      dl_bind
        (if convert
         then (case SimpleLruTruncate (dl_slru d0) startPage of
                 None \<Rightarrow> None
               | Some (Some e, s) \<Rightarrow> Some (Inl (DlogIO e), d0\<lparr>dl_slru := s\<rparr>)
               | Some (None, s) \<Rightarrow> zero_pages (d0\<lparr>dl_slru := s\<rparr>) startPage endPage)
         else Some (Inr (), d0))
        (\<lambda>_ d1. dl_bind
           (if entryno \<noteq> 0
            then dl_bind (dl_page (\<lambda>s. SimpleLruReadPage s endPage True) d1)
                   (\<lambda>slotno d2. Some (Inr (), zero_rest_of_page d2 slotno entryno))
            else Some (Inr (), d1))
           (\<lambda>_ d3. DistributedLog_InitOldestXmin d3 oldestXid nextXid)))"

definition DistributedLog_CheckPoint :: "dlog \<Rightarrow> bool \<Rightarrow> unit dlog_result" where
  "DistributedLog_CheckPoint d is_qd =
     (if is_qd then Some (Inr (), d) else
      case SimpleLruFlush (dl_slru d) of
        (Some e, s) \<Rightarrow> Some (Inl (DlogIO e), d\<lparr>dl_slru := s\<rparr>)
      | (None, s) \<Rightarrow> Some (Inr (), d\<lparr>dl_slru := s\<rparr>))"

text \<open>The argument of \<open>SimpleLruFlush\<close> that tells the two apart only allows redundant dirtying.\<close>

definition DistributedLog_Shutdown :: "dlog \<Rightarrow> bool \<Rightarrow> unit dlog_result" where
  "DistributedLog_Shutdown d is_qd = DistributedLog_CheckPoint d is_qd"

definition redo_cutoff :: "TransactionId \<Rightarrow> nat \<Rightarrow> nat" where
  "redo_cutoff oldestXmin page =
     (if TransactionIdIsValid oldestXmin \<and>
         DistributedLog_PagePrecedes (TransactionIdToPage oldestXmin) page
      then TransactionIdToPage oldestXmin else page)"

fun DistributedLog_redo :: "dlog \<Rightarrow> dlog_record \<Rightarrow> unit dlog_result" where
  "DistributedLog_redo d (DISTRIBUTEDLOG_ZEROPAGE page) =
     dl_bind (DistributedLog_ZeroPage d page False) dl_write_page"
| "DistributedLog_redo d (DISTRIBUTEDLOG_TRUNCATE page) =
     (let cutoffPage = redo_cutoff (dl_oldestXmin d) page;
          s = dl_slru d;
          s1 = (if DistributedLog_PagePrecedes (latest_page_number s) page
                then s\<lparr>latest_page_number := page\<rparr> else s)
      in
      case SimpleLruTruncate s1 cutoffPage of
        None \<Rightarrow> None
      | Some (Some e, s2) \<Rightarrow> Some (Inl (DlogIO e), d\<lparr>dl_slru := s2\<rparr>)
      | Some (None, s2) \<Rightarrow> Some (Inr (), d\<lparr>dl_slru := s2\<rparr>))"
| "DistributedLog_redo d (DISTRIBUTEDLOG_UNKNOWN info) = Some (Inl (DlogUnknownOp info), d)"

declare init_oldest_xmin.simps [code] advance_scan.simps [code] publish_xmin.simps [code]
  zero_pages.simps [code]

end
