(* ===== verification/Dlog_Safety.thy ===== *)
theory Dlog_Safety
  imports Dlog Slru_Pages
begin

text \<open>
  The distributed log: what is recorded stays readable as long as it is needed.

  \<^item> The page order of the log satisfies the contract of the SLRU truncation
    (\<open>interpretation dpo\<close>), and a page at or after the horizon, less than half of the identifier
    space away, does not precede the horizon's page.
  \<^item> Recording a commit sets the entries of its identifiers and no other; a lookup then returns it.
  \<^item> The horizon only moves forward, past identifiers whose distributed transaction no distributed
    snapshot sees as in progress, and no entry at or after it is ever removed, whatever other
    processes do at the points where the locks are released.
\<close>

section \<open>The order of pages\<close>

lemma of_nat_page_mult: "(of_nat p * 4096 :: 32 word) = of_nat (p * 4096)"
  by simp

lemma page_xid_normal: "TransactionIdIsNormal (of_nat p * of_nat ENTRIES_PER_PAGE + FirstNormalTransactionId)"
proof -
  have "unat (of_nat (p * 4096) :: 32 word) = p * 4096 mod 2 ^ 32"
    by (simp only: unat_of_nat take_bit_eq_mod) simp
  moreover have "p * 4096 mod 2 ^ 32 + 4096 \<le> 2 ^ 32"
  proof -
    have "p * 4096 mod 2 ^ 32 = p mod 2 ^ 20 * 4096"
      using mult_mod_left [of p "2 ^ 20" 4096] by simp
    moreover have "(p mod 2 ^ 20 + 1) * 4096 \<le> 2 ^ 20 * 4096"
      by (intro mult_right_mono) (simp_all add: Suc_le_eq)
    ultimately show ?thesis by simp
  qed
  ultimately have "unat (of_nat (p * 4096) + of_nat 3 :: 32 word) = p * 4096 mod 2 ^ 32 + 3"
    by (subst unat_add_small) simp_all
  then show ?thesis
    by (simp add: normal_unat ENTRIES_PER_PAGE_def FirstNormalTransactionId_def)
qed

lemma PagePrecedes_alt:
  "DistributedLog_PagePrecedes p q \<longleftrightarrow> sint (of_nat p * 4096 - of_nat q * 4096 :: 32 word) < 0"
  using page_xid_normal [of p] page_xid_normal [of q]
  by (simp add: DistributedLog_PagePrecedes_def TransactionIdPrecedes_def ENTRIES_PER_PAGE_def)

lemma segment_between_dlog:
  assumes "DistributedLog_PagePrecedes (k * SLRU_PAGES_PER_SEGMENT) c"
    "DistributedLog_PagePrecedes (k * SLRU_PAGES_PER_SEGMENT + SLRU_PAGES_PER_SEGMENT - 1) c"
    "r < SLRU_PAGES_PER_SEGMENT"
  shows "DistributedLog_PagePrecedes (k * SLRU_PAGES_PER_SEGMENT + r) c"
proof -
  define D :: "32 word" where "D = of_nat (k * 32) * 4096 - of_nat c * 4096"
  have off: "of_nat (k * 32 + n) * 4096 - of_nat c * 4096 = D + of_int (int (n * 4096))" for n
    by (simp add: D_def algebra_simps)
  have first: "sint D < 0" using assms(1) off [of 0] by (simp add: PagePrecedes_alt SLRU_PAGES_PER_SEGMENT_def)
  have low: "- (2 ^ 31) \<le> sint D" using sint_ge [of D] by simp
  have last: "sint (D + of_int (int (31 * 4096))) < 0"
    using assms(2) unfolding PagePrecedes_alt SLRU_PAGES_PER_SEGMENT_def
    by (simp only: off [of 31, symmetric] add_diff_assoc [symmetric]) simp
  have "sint (D + of_int (int (n * 4096))) = sint D + int (n * 4096)" if "n \<le> 31" for n
    using that first low by (intro sint_add_int) auto
  from this [of 31] this [of r] first last assms(3)
  have "sint (D + of_int (int (r * 4096))) < 0" by (simp add: SLRU_PAGES_PER_SEGMENT_def)
  then show ?thesis unfolding PagePrecedes_alt SLRU_PAGES_PER_SEGMENT_def off .
qed

interpretation dpo: page_order DistributedLog_PagePrecedes
  by unfold_locales (rule segment_between_dlog)

text \<open>A page at or after the horizon does not precede the horizon's page.\<close>

lemma page_of_word: "(of_nat (TransactionIdToPage x) * 4096 :: 32 word) = x - of_nat (TransactionIdToEntry x)"
proof -
  have "of_nat (TransactionIdToPage x * 4096 + TransactionIdToEntry x) = (of_nat (unat x) :: 32 word)"
    unfolding TransactionIdToPage_def TransactionIdToEntry_def ENTRIES_PER_PAGE_def
    by (simp only: div_mult_mod_eq)
  then have "of_nat (TransactionIdToPage x) * 4096 + of_nat (TransactionIdToEntry x) = x" by simp
  then show ?thesis by (simp add: eq_diff_eq)
qed

lemma entry_less: "TransactionIdToEntry x < 4096"
  by (simp add: TransactionIdToEntry_def ENTRIES_PER_PAGE_def)

lemma entry_of_pos: "TransactionIdToEntry x = (TransactionIdToEntry h + xid_pos h x) mod 4096"
proof -
  have "unat x = (unat h + xid_pos h x) mod 2 ^ 32"
    using unat_word_ariths(1) [of h "x - h"] by (simp add: xid_pos_def)
  then have "unat x mod 4096 = (unat h + xid_pos h x) mod 4096"
    by (simp add: mod_mod_cancel)
  then show ?thesis by (simp add: TransactionIdToEntry_def ENTRIES_PER_PAGE_def mod_add_left_eq)
qed

lemma page_not_before:
  assumes "xid_pos h x < 2 ^ 31 - 4096"
  shows "\<not> DistributedLog_PagePrecedes (TransactionIdToPage x) (TransactionIdToPage h)"
proof -
  let ?e = "int (TransactionIdToEntry h) - int (TransactionIdToEntry x)"
  have "of_nat (TransactionIdToPage x) * 4096 - of_nat (TransactionIdToPage h) * 4096 =
      (x - h) + of_int ?e"
    by (simp add: page_of_word algebra_simps)
  moreover have "sint (x - h) = int (xid_pos h x)" using sint_diff_pos [of h x h] assms by simp
  moreover have "0 \<le> int (xid_pos h x) + ?e"
    using mod_less_eq_dividend [of "TransactionIdToEntry h + xid_pos h x" 4096] entry_of_pos [of x h]
    by linarith
  ultimately show ?thesis
    using sint_add_int [of "x - h" ?e] entry_less [of x] entry_less [of h] assms
    by (simp add: PagePrecedes_alt)
qed

section \<open>Entries\<close>

definition dlog_inv :: "dlog \<Rightarrow> bool" where
  "dlog_inv d \<longleftrightarrow>
     slru_inv (dl_slru d) \<and> 2 \<le> length (slru_slots (dl_slru d)) \<and>
     PagePrecedes (dl_slru d) = DistributedLog_PagePrecedes"

definition dl_entry :: "dlog \<Rightarrow> TransactionId \<Rightarrow> DistributedTransactionId option" where
  "dl_entry d x =
     map_option (\<lambda>pg. pg (TransactionIdToEntry x)) (slru_page (dl_slru d) (TransactionIdToPage x))"

definition dl_kept :: "dlog \<Rightarrow> dlog \<Rightarrow> bool" where
  "dl_kept d d' \<longleftrightarrow>
     slru_kept (dl_slru d) (dl_slru d') \<and> dl_oldestXmin d' = dl_oldestXmin d \<and>
     dl_wal d' = dl_wal d \<and> dl_recovery d' = dl_recovery d"

lemma dl_kept_refl: "dlog_inv d \<Longrightarrow> dl_kept d d"
  by (simp add: dl_kept_def slru_kept_refl dlog_inv_def)

lemma dl_kept_trans: "dl_kept d e \<Longrightarrow> dl_kept e f \<Longrightarrow> dl_kept d f"
  using slru_kept_trans by (auto simp: dl_kept_def)

lemma dl_kept_inv: "dl_kept d d' \<Longrightarrow> dlog_inv d \<Longrightarrow> dlog_inv d'"
  by (simp add: dl_kept_def dlog_inv_def slru_kept_def slru_frame_def)

lemma dl_kept_entry: "dl_kept d d' \<Longrightarrow> dl_entry d x = Some g \<Longrightarrow> dl_entry d' x = Some g"
  by (auto simp: dl_kept_def dl_entry_def slru_kept_def pages_kept_def)

text \<open>The entries of two identifiers are the same slot of the log only for the same identifier.\<close>

lemma page_entry_inj:
  assumes "TransactionIdToPage x = TransactionIdToPage y" "TransactionIdToEntry x = TransactionIdToEntry y"
  shows "x = y"
proof -
  have "unat x = unat y"
    using assms unfolding TransactionIdToPage_def TransactionIdToEntry_def by (metis div_mult_mod_eq)
  then show ?thesis by (simp add: word_unat_eq_iff)
qed

definition dl_may_read :: "dlog \<Rightarrow> nat \<Rightarrow> bool" where
  "dl_may_read d p = may_read (dl_slru d) p"

lemma dl_may_read_entry: "dl_entry d x = Some g \<Longrightarrow> dl_may_read d (TransactionIdToPage x)"
  by (auto simp: dl_may_read_def may_read_def dl_entry_def)

text \<open>
  Reading a page through the SLRU: it ends, nothing is lost, and a slot that is returned shows the
  entries of the page.
\<close>

definition dl_read_post :: "dlog \<Rightarrow> nat \<Rightarrow> (dlog_error + nat) \<times> dlog \<Rightarrow> bool" where
  "dl_read_post d p = (\<lambda>(r, d').
     dl_kept d d' \<and>
     (\<forall>i. r = Inr i \<longrightarrow>
        i < length (slru_slots (dl_slru d')) \<and> slot_holds (slot_at (dl_slru d') i) p \<and>
        slru_page (dl_slru d') p = Some (slot_entry d' i)) \<and>
     (\<forall>e. r = Inl e \<longrightarrow> (\<exists>c. e = DlogIO c)) \<and>
     (io_faults (dl_slru d) = [] \<longrightarrow>
        io_faults (dl_slru d') = [] \<and> (slru_page (dl_slru d) p \<noteq> None \<longrightarrow> (\<exists>i. r = Inr i))))"

lemma dl_page_read:
  assumes "\<exists>x. f (dl_slru d) = Some x \<and> read_post (dl_slru d) p x"
  shows "\<exists>x. dl_page f d = Some x \<and> dl_read_post d p x"
proof -
  obtain r s where f: "f (dl_slru d) = Some (r, s)" and post: "read_post (dl_slru d) p (r, s)"
    using assms by fastforce
  have shows_page: "slru_page s p = Some (page_buffer (slot_at s i))" if "r = Inr i" for i
    using post that slru_page_slot by (fastforce simp: read_post_def slru_kept_def)
  show ?thesis
    using post shows_page
    by (cases r) (auto simp: dl_page_def f dl_read_post_def read_post_def dl_kept_def slot_entry_def fun_eq_iff)
qed

lemma dl_read_only:
  assumes "dlog_inv d" "dl_may_read d p"
  shows "\<exists>x. dl_page (\<lambda>s. SimpleLruReadPage_ReadOnly s p) d = Some x \<and> dl_read_post d p x"
  using assms by (intro dl_page_read SimpleLruReadPage_ReadOnly_total) (auto simp: dlog_inv_def dl_may_read_def)

lemma dl_read:
  assumes "dlog_inv d" "dl_may_read d p"
  shows "\<exists>x. dl_page (\<lambda>s. SimpleLruReadPage s p w) d = Some x \<and> dl_read_post d p x"
  using assms by (intro dl_page_read SimpleLruReadPage_total) (auto simp: dlog_inv_def dl_may_read_def)

lemma dl_read_entry:
  assumes "dl_read_post d (TransactionIdToPage x) (Inr i, d')" "dl_entry d x = Some g"
  shows "slot_entry d' i (TransactionIdToEntry x) = g"
proof -
  have "dl_entry d' x = Some g" using assms dl_kept_entry [of d d' x g] by (simp add: dl_read_post_def)
  with assms(1) show ?thesis by (simp add: dl_entry_def dl_read_post_def)
qed

section \<open>Recording commits\<close>

definition dl_conflict :: "dlog \<Rightarrow> TransactionId list \<Rightarrow> DistributedTransactionId \<Rightarrow> bool" where
  "dl_conflict d xs g \<longleftrightarrow> (\<exists>x \<in> set xs. \<exists>v. dl_entry d x = Some v \<and> v \<noteq> 0 \<and> v \<noteq> g)"

definition dl_same :: "dlog \<Rightarrow> dlog \<Rightarrow> bool" where
  "dl_same d d' \<longleftrightarrow>
     dlog_inv d' \<and> dl_oldestXmin d' = dl_oldestXmin d \<and> dl_wal d' = dl_wal d \<and>
     dl_recovery d' = dl_recovery d \<and> InRecovery (dl_slru d') = InRecovery (dl_slru d)"

text \<open>
  What recording \<open>g\<close> for the identifiers \<open>xs\<close> does: only their entries change, only from zero, and
  on success all of them are \<open>g\<close>; it fails for a conflicting entry or a failed I/O.
\<close>

definition dl_set_post ::
  "dlog \<Rightarrow> TransactionId list \<Rightarrow> DistributedTransactionId \<Rightarrow> (dlog_error + 'r) \<times> dlog \<Rightarrow> bool" where
  "dl_set_post d xs g = (\<lambda>(r, d').
     dl_same d d' \<and>
     (\<forall>y v. dl_entry d y = Some v \<longrightarrow>
        dl_entry d' y = Some v \<or> v = 0 \<and> y \<in> set xs \<and> dl_entry d' y = Some g) \<and>
     (\<forall>u. r = Inr u \<longrightarrow> (\<forall>x \<in> set xs. dl_entry d' x = Some g)) \<and>
     (\<forall>e. r = Inl e \<longrightarrow> e = DlogMismatch \<and> dl_conflict d xs g \<or>
        (\<exists>c. e = DlogIO c) \<and> io_faults (dl_slru d) \<noteq> []) \<and>
     (io_faults (dl_slru d) = [] \<longrightarrow> io_faults (dl_slru d') = []))"

lemma dl_kept_same: "dl_kept d d' \<Longrightarrow> dlog_inv d \<Longrightarrow> dl_same d d'"
  using dl_kept_inv by (auto simp: dl_same_def dl_kept_def slru_kept_def slru_frame_def)

lemma dl_same_trans: "dl_same d e \<Longrightarrow> dl_same e f \<Longrightarrow> dl_same d f"
  by (simp add: dl_same_def)

lemma dl_store_entry:
  assumes inv: "dlog_inv d" and i: "i < length (slru_slots (dl_slru d))"
    "slot_holds (slot_at (dl_slru d) i) (TransactionIdToPage x)"
    and d': "d' = d\<lparr>dl_slru := slru_store (dl_slru d) i (TransactionIdToEntry x) g\<rparr>"
  shows "dl_same d d'" "io_faults (dl_slru d') = io_faults (dl_slru d)"
    "length (slru_slots (dl_slru d')) = length (slru_slots (dl_slru d))"
    "slot_holds (slot_at (dl_slru d') i) (TransactionIdToPage x)"
    and "dl_entry d' x = Some g" "y \<noteq> x \<Longrightarrow> dl_entry d y = Some v \<Longrightarrow> dl_entry d' y = Some v"
proof -
  let ?p = "TransactionIdToPage x" and ?e = "TransactionIdToEntry x"
  have sinv: "slru_inv (dl_slru d)" using inv by (simp add: dlog_inv_def)
  note pg = slru_page_slot [OF sinv i]
  note st = slru_store_set [OF sinv i pg, of ?e g]
  have set: "page_set ?p ((page_buffer (slot_at (dl_slru d) i))(?e := g)) (dl_slru d) (dl_slru d')"
    using st(1) by (simp add: d')
  show "dl_same d d'" "length (slru_slots (dl_slru d')) = length (slru_slots (dl_slru d))"
    using set inv by (simp_all add: dl_same_def dlog_inv_def page_set_def slru_frame_def d')
  show "io_faults (dl_slru d') = io_faults (dl_slru d)" "slot_holds (slot_at (dl_slru d') i) ?p"
    using st by (simp_all add: d')
  show "dl_entry d' x = Some g" using set by (simp add: dl_entry_def page_set_def)
  show "dl_entry d' y = Some v" if "y \<noteq> x" "dl_entry d y = Some v"
  proof (cases "TransactionIdToPage y = ?p")
    case True
    then have "TransactionIdToEntry y \<noteq> ?e" using page_entry_inj that(1) by blast
    with True that(2) set pg show ?thesis by (auto simp: dl_entry_def page_set_def)
  next
    case False
    with that(2) set show ?thesis by (auto simp: dl_entry_def page_set_def)
  qed
qed

lemma set_entries_post:
  assumes "dlog_inv d" "i < length (slru_slots (dl_slru d))" "slot_holds (slot_at (dl_slru d) i) p"
    "\<forall>x \<in> set xs. TransactionIdToPage x = p"
  shows "\<exists>y. set_entries d i xs g = Some y \<and> dl_set_post d xs g y"
  using assms
proof (induction xs arbitrary: d)
  case Nil
  then show ?case by (simp add: dl_set_post_def dl_same_def)
next
  case (Cons x xs)
  let ?v = "slot_entry d i (TransactionIdToEntry x)"
  have p: "TransactionIdToPage x = p" using Cons.prems by simp
  have on_page: "dl_entry d y = Some (slot_entry d i (TransactionIdToEntry y))"
    if "TransactionIdToPage y = p" for y
    using slru_page_slot [of "dl_slru d" i p] Cons.prems(1-3) that
    by (simp add: dl_entry_def dlog_inv_def slot_entry_def)
  note v = on_page [OF p]
  consider (bad) "?v \<noteq> 0" "?v \<noteq> g" | (there) "?v \<noteq> 0" "?v = g" | (fresh) "?v = 0" by blast
  then show ?case
  proof cases
    case bad
    with v Cons.prems(1) show ?thesis by (auto simp: Let_def dl_set_post_def dl_same_def dl_conflict_def)
  next
    case there
    have "\<exists>y. set_entries d i xs g = Some y \<and> dl_set_post d xs g y" using Cons by simp
    then obtain r d' where s: "set_entries d i xs g = Some (r, d')" "dl_set_post d xs g (r, d')" by auto
    have "dl_entry d' x = Some g" using s(2) v there by (auto simp: dl_set_post_def)
    with s(2) have "dl_set_post d (x # xs) g (r, d')" by (auto simp: dl_set_post_def dl_conflict_def)
    with s(1) there show ?thesis by (simp add: Let_def)
  next
    case fresh
    define d1 where "d1 = d\<lparr>dl_slru := slru_store (dl_slru d) i (TransactionIdToEntry x) g\<rparr>"
    note st = dl_store_entry [OF Cons.prems(1,2) Cons.prems(3) [folded p] d1_def]
    have inv1: "dlog_inv d1" using st(1) by (simp add: dl_same_def)
    have "\<exists>y. set_entries d1 i xs g = Some y \<and> dl_set_post d1 xs g y"
      using Cons.IH [OF inv1] Cons.prems st p by simp
    then obtain r d' where s: "set_entries d1 i xs g = Some (r, d')" "dl_set_post d1 xs g (r, d')" by auto
    have x: "dl_entry d' x = Some g" using s(2) st(5) by (auto simp: dl_set_post_def)
    have e: "dl_entry d' y = Some w \<or> w = 0 \<and> y \<in> set (x # xs) \<and> dl_entry d' y = Some g"
      if "dl_entry d y = Some w" for y w
      using s(2) st(6) [OF _ that] x that v fresh by (cases "y = x") (auto simp: dl_set_post_def)
    have c: "dl_conflict d (x # xs) g" if "dl_conflict d1 xs g"
    proof -
      from that obtain y w where y: "y \<in> set xs" "dl_entry d1 y = Some w" "w \<noteq> 0" "w \<noteq> g"
        by (auto simp: dl_conflict_def)
      then have "y \<noteq> x" using st(5) by auto
      moreover have "TransactionIdToPage y = p" using y(1) Cons.prems(4) by simp
      ultimately have "dl_entry d y = Some w" using st(6) on_page y(2) by fastforce
      with y show ?thesis by (auto simp: dl_conflict_def)
    qed
    have "dl_set_post d (x # xs) g (r, d')"
      using s(2) dl_same_trans [OF st(1)] x e c st(2) unfolding dl_set_post_def by auto
    with s(1) fresh show ?thesis by (simp add: Let_def d1_def)
  qed
qed

lemma dl_bind_simps [simp]:
  "dl_bind None f = None"
  "dl_bind (Some (Inl e, d)) f = Some (Inl e, d)"
  "dl_bind (Some (Inr x, d)) f = f x d"
  by (simp_all add: dl_bind_def)

lemma dl_kept_set_post:
  assumes "dl_kept d d1" "dlog_inv d" "dl_set_post d1 xs g y" "\<forall>x \<in> set xs. dl_entry d x \<noteq> None"
    "io_faults (dl_slru d) = [] \<Longrightarrow> io_faults (dl_slru d1) = []"
  shows "dl_set_post d xs g y"
proof -
  have same: "dl_same d d1" by (rule dl_kept_same [OF assms(1,2)])
  have "dl_conflict d xs g" if "dl_conflict d1 xs g"
    using that assms(4) dl_kept_entry [OF assms(1)] unfolding dl_conflict_def
    by (metis not_Some_eq option.inject)
  with assms(3,5) dl_same_trans [OF same] dl_kept_entry [OF assms(1)] show ?thesis
    unfolding dl_set_post_def by (auto split: prod.splits)
qed

lemma within_page_post:
  assumes inv: "dlog_inv d" and xs: "xs \<noteq> []" "\<forall>x \<in> set xs. TransactionIdToPage x = TransactionIdToPage (hd xs)"
    and ex: "dl_entry d (hd xs) \<noteq> None"
  shows "\<exists>y. DistributedLog_SetCommittedWithinAPage d xs g False = Some y \<and> dl_set_post d xs g y"
proof -
  let ?p = "TransactionIdToPage (hd xs)"
  obtain r d1 where rd: "dl_page (\<lambda>s. SimpleLruReadPage s ?p True) d = Some (r, d1)"
    and post: "dl_read_post d ?p (r, d1)"
    using dl_read [OF inv dl_may_read_entry] ex by fastforce
  have ex_all: "\<forall>x \<in> set xs. dl_entry d x \<noteq> None" using ex xs(2) by (auto simp: dl_entry_def)
  have page: "slru_page (dl_slru d) ?p \<noteq> None" using ex by (simp add: dl_entry_def)
  show ?thesis
  proof (cases r)
    case (Inl e)
    with post page have "dl_set_post d xs g (Inl e, d1)"
      using dl_kept_same [OF _ inv] dl_kept_entry by (auto simp: dl_read_post_def dl_set_post_def)
    with rd Inl show ?thesis by (simp add: DistributedLog_SetCommittedWithinAPage_def)
  next
    case (Inr i)
    then have kept: "dl_kept d d1" and slot: "i < length (slru_slots (dl_slru d1))"
      "slot_holds (slot_at (dl_slru d1) i) ?p" and fl: "io_faults (dl_slru d) = [] \<Longrightarrow> io_faults (dl_slru d1) = []"
      using post by (auto simp: dl_read_post_def)
    obtain y where y: "set_entries d1 i xs g = Some y" "dl_set_post d1 xs g y"
      using set_entries_post [OF dl_kept_inv [OF kept inv] slot xs(2)] by blast
    from dl_kept_set_post [OF kept inv y(2) ex_all fl] y(1) rd Inr show ?thesis
      by (simp add: DistributedLog_SetCommittedWithinAPage_def)
  qed
qed

lemma dl_set_postD:
  assumes "dl_set_post d xs g (r, d')"
  shows "dl_same d d'"
    and "dl_entry d y = Some v \<Longrightarrow>
      dl_entry d' y = Some v \<or> v = 0 \<and> y \<in> set xs \<and> dl_entry d' y = Some g"
    and "r = Inr u \<Longrightarrow> x \<in> set xs \<Longrightarrow> dl_entry d' x = Some g"
    and "r = Inl e \<Longrightarrow> e = DlogMismatch \<and> dl_conflict d xs g \<or>
        (\<exists>c. e = DlogIO c) \<and> io_faults (dl_slru d) \<noteq> []"
    and "io_faults (dl_slru d) = [] \<Longrightarrow> io_faults (dl_slru d') = []"
  using assms by (simp_all add: dl_set_post_def)

lemma dl_set_post_append:
  assumes a: "dl_set_post d xs g (Inr u, d1)" and b: "dl_set_post d1 ys g (r, d')"
    and ex: "\<forall>x \<in> set ys. dl_entry d x \<noteq> None"
  shows "dl_set_post d (xs @ ys) g (r, d')"
proof -
  have e: "dl_entry d' z = Some v \<or> v = 0 \<and> z \<in> set (xs @ ys) \<and> dl_entry d' z = Some g"
    if "dl_entry d z = Some v" for z v
    using dl_set_postD(2) [OF a that] dl_set_postD(2) [OF b, of z v] dl_set_postD(2) [OF b, of z g]
    by auto
  have all: "dl_entry d' x = Some g" if "r = Inr w" "x \<in> set (xs @ ys)" for w x
    using dl_set_postD(3) [OF a refl, of x] dl_set_postD(2) [OF b, of x g]
      dl_set_postD(3) [OF b that(1), of x] that(2) by auto
  have c: "dl_conflict d (xs @ ys) g" if "dl_conflict d1 ys g"
  proof -
    from that obtain y w where y: "y \<in> set ys" "dl_entry d1 y = Some w" "w \<noteq> 0" "w \<noteq> g"
      by (auto simp: dl_conflict_def)
    obtain v where "dl_entry d y = Some v" using ex y(1) by auto
    with dl_set_postD(2) [OF a this] y show ?thesis by (auto simp: dl_conflict_def)
  qed
  have err: "err = DlogMismatch \<and> dl_conflict d (xs @ ys) g \<or>
      (\<exists>c. err = DlogIO c) \<and> io_faults (dl_slru d) \<noteq> []" if "r = Inl err" for err
    using dl_set_postD(4) [OF b that] c dl_set_postD(5) [OF a] by auto
  show ?thesis
    unfolding dl_set_post_def prod.case
    using dl_same_trans [OF dl_set_postD(1) [OF a] dl_set_postD(1) [OF b]] e all err
      dl_set_postD(5) [OF a] dl_set_postD(5) [OF b] by simp
qed

lemma by_pages_post:
  assumes "dlog_inv d" "\<forall>x \<in> set xs. dl_entry d x \<noteq> None"
  shows "\<exists>y. DistributedLog_SetCommittedByPages d xs g False = Some y \<and> dl_set_post d xs g y"
  using assms
proof (induction "length xs" arbitrary: d xs rule: less_induct)
  case less
  show ?case
  proof (cases xs)
    case Nil
    with less.prems show ?thesis by (simp add: dl_set_post_def dl_same_def)
  next
    case (Cons x zs)
    define range where "range = takeWhile (\<lambda>y. TransactionIdToPage y = TransactionIdToPage x) xs"
    have range: "range \<noteq> []" "hd range = x"
      "\<forall>y \<in> set range. TransactionIdToPage y = TransactionIdToPage x"
      by (auto simp: range_def Cons dest: set_takeWhileD)
    define rest where "rest = drop (length range) xs"
    have split: "range @ rest = xs" unfolding range_def rest_def by (metis dropWhile_eq_drop takeWhile_dropWhile_id)
    have eq: "DistributedLog_SetCommittedByPages d xs g False =
        dl_bind (DistributedLog_SetCommittedWithinAPage d range g False)
          (\<lambda>_ d'. DistributedLog_SetCommittedByPages d' rest g False)"
      unfolding range_def rest_def Cons
      by (subst DistributedLog_SetCommittedByPages.simps(2)) (simp only: Let_def)
    obtain r d1 where w: "DistributedLog_SetCommittedWithinAPage d range g False = Some (r, d1)"
      "dl_set_post d range g (r, d1)"
    proof -
      have "\<exists>y. DistributedLog_SetCommittedWithinAPage d range g False = Some y \<and> dl_set_post d range g y"
        by (rule within_page_post) (use less.prems range Cons in simp_all)
      then show thesis using that by fastforce
    qed
    show ?thesis
    proof (cases r)
      case (Inl e)
      have "set range \<subseteq> set xs" using split by auto
      with Inl w(2) have "dl_set_post d xs g (Inl e, d1)"
        unfolding dl_set_post_def dl_conflict_def prod.case by blast
      with eq w(1) Inl show ?thesis by simp
    next
      case (Inr u)
      have ex: "\<forall>x \<in> set rest. dl_entry d x \<noteq> None"
        using less.prems(2) by (auto simp: rest_def dest: in_set_dropD)
      then have ex1: "\<forall>x \<in> set rest. dl_entry d1 x \<noteq> None"
        using w(2) unfolding dl_set_post_def prod.case by (metis not_Some_eq)
      have inv1: "dlog_inv d1" using w(2) by (simp add: dl_set_post_def dl_same_def)
      have "length rest < length xs" using range(1) by (simp add: rest_def Cons)
      from less.hyps [OF this inv1 ex1] obtain q d' where
        y: "DistributedLog_SetCommittedByPages d1 rest g False = Some (q, d')" "dl_set_post d1 rest g (q, d')"
        by auto
      from dl_set_post_append [OF w(2) [unfolded Inr] y(2) ex] split eq w(1) Inr y(1)
      show ?thesis by simp
    qed
  qed
qed

section \<open>The horizon\<close>

text \<open>
  Positions are distances from a fixed base \<open>h0\<close>; \<open>L\<close> is the oldest local identifier that may
  still be running, \<open>T\<close> the next one to be assigned, and \<open>G\<close> the distributed transaction as which
  every identifier commits, zero for a local or aborted one.  \<open>log_ok\<close>: from the horizon up to \<open>T\<close>
  the log holds \<open>G\<close>, or zero for an identifier that may still be running.  \<open>below_ok\<close>: what lies
  before the horizon has a distributed transaction below \<open>B\<close>.
\<close>

definition xid_window :: nat where
  "xid_window = 2 ^ 31 - 4096"

definition log_ok ::
  "TransactionId \<Rightarrow> TransactionId \<Rightarrow> TransactionId \<Rightarrow> (TransactionId \<Rightarrow> DistributedTransactionId) \<Rightarrow> dlog \<Rightarrow> bool" where
  "log_ok h0 L T G d \<longleftrightarrow>
     dlog_inv d \<and> TransactionIdIsNormal (dl_oldestXmin d) \<and> xid_pos h0 (dl_oldestXmin d) < xid_window \<and>
     xid_pos h0 L \<le> xid_pos h0 T \<and> xid_pos h0 T < xid_window \<and>
     (\<forall>x. TransactionIdIsNormal x \<longrightarrow> xid_pos h0 (dl_oldestXmin d) \<le> xid_pos h0 x \<longrightarrow>
        xid_pos h0 x < xid_pos h0 T \<longrightarrow>
        (\<exists>v. dl_entry d x = Some v \<and> (v = G x \<or> v = 0 \<and> xid_pos h0 L \<le> xid_pos h0 x)))"

definition below_ok ::
  "TransactionId \<Rightarrow> DistributedTransactionId \<Rightarrow> (TransactionId \<Rightarrow> DistributedTransactionId) \<Rightarrow> TransactionId \<Rightarrow> bool" where
  "below_ok h0 B G h \<longleftrightarrow> (\<forall>x. TransactionIdIsNormal x \<longrightarrow> xid_pos h0 x < xid_pos h0 h \<longrightarrow> G x < B)"

definition hor_ok ::
  "TransactionId \<Rightarrow> TransactionId \<Rightarrow> TransactionId \<Rightarrow> DistributedTransactionId \<Rightarrow> (TransactionId \<Rightarrow> DistributedTransactionId)
   \<Rightarrow> dlog \<Rightarrow> bool" where
  "hor_ok h0 L T B G d \<longleftrightarrow> log_ok h0 L T G d \<and> below_ok h0 B G (dl_oldestXmin d)"

text \<open>
  What one process relies on of the others, and guarantees to them: they keep the log and the
  meaning of the horizon, the horizon never moves back, and what is recorded stays.
\<close>

definition hor_step ::
  "TransactionId \<Rightarrow> TransactionId \<Rightarrow> TransactionId \<Rightarrow> DistributedTransactionId \<Rightarrow> (TransactionId \<Rightarrow> DistributedTransactionId)
   \<Rightarrow> dlog \<Rightarrow> dlog \<Rightarrow> bool" where
  "hor_step h0 L T B G d d' \<longleftrightarrow>
     hor_ok h0 L T B G d' \<and> xid_pos h0 (dl_oldestXmin d) \<le> xid_pos h0 (dl_oldestXmin d') \<and>
     (\<forall>x v. xid_pos h0 (dl_oldestXmin d') \<le> xid_pos h0 x \<longrightarrow> xid_pos h0 x < xid_pos h0 T \<longrightarrow>
        dl_entry d x = Some v \<longrightarrow> v \<noteq> 0 \<longrightarrow> dl_entry d' x = Some v)"

definition hor_rely ::
  "TransactionId \<Rightarrow> TransactionId \<Rightarrow> TransactionId \<Rightarrow> DistributedTransactionId \<Rightarrow> (TransactionId \<Rightarrow> DistributedTransactionId)
   \<Rightarrow> (dlog \<Rightarrow> dlog) list \<Rightarrow> bool" where
  "hor_rely h0 L T B G others \<longleftrightarrow>
     (\<forall>f \<in> set others. \<forall>d. hor_ok h0 L T B G d \<longrightarrow> hor_step h0 L T B G d (f d))"

lemma hor_step_refl: "hor_ok h0 L T B G d \<Longrightarrow> hor_step h0 L T B G d d"
  by (simp add: hor_step_def)

lemma hor_step_trans: "hor_step h0 L T B G d e \<Longrightarrow> hor_step h0 L T B G e f \<Longrightarrow> hor_step h0 L T B G d f"
  by (auto simp: hor_step_def)

lemma next_other_rely:
  assumes "hor_rely h0 L T B G others" "next_other others = (f, others')" "hor_ok h0 L T B G d"
  shows "hor_step h0 L T B G d (f d)" "hor_rely h0 L T B G others'"
  using assms by (auto simp: next_other_def hor_rely_def hor_step_refl split: list.splits)

lemma kept_hor_step:
  assumes "dl_kept d d'" "hor_ok h0 L T B G d"
  shows "hor_step h0 L T B G d d'"
  using assms dl_kept_inv [OF assms(1)] dl_kept_entry [OF assms(1)]
  by (auto simp: hor_step_def hor_ok_def log_ok_def dl_kept_def)

lemma xid_window_31: "n < xid_window \<Longrightarrow> n < 2 ^ 31"
  by (simp add: xid_window_def)

lemma precedes_window:
  assumes "TransactionIdIsNormal x" "TransactionIdIsNormal y"
    "xid_pos h x < xid_window" "xid_pos h y < xid_window"
  shows "TransactionIdPrecedes x y \<longleftrightarrow> xid_pos h x < xid_pos h y"
    "TransactionIdPrecedesOrEquals x y \<longleftrightarrow> xid_pos h x \<le> xid_pos h y"
  by (rule precedes_pos [OF assms(1,2) xid_window_31 [OF assms(3)] xid_window_31 [OF assms(4)]])+

text \<open>The state of the scan: it has seen that everything before \<open>h\<close> is below \<open>B\<close>.\<close>

definition scan_at ::
  "TransactionId \<Rightarrow> TransactionId \<Rightarrow> TransactionId \<Rightarrow> DistributedTransactionId \<Rightarrow> (TransactionId \<Rightarrow> DistributedTransactionId)
   \<Rightarrow> dlog \<Rightarrow> TransactionId \<Rightarrow> bool" where
  "scan_at h0 L T B G d h \<longleftrightarrow>
     hor_ok h0 L T B G d \<and> TransactionIdIsNormal h \<and> xid_pos h0 h < xid_window \<and>
     xid_pos h0 (dl_oldestXmin d) \<le> xid_pos h0 h \<and> below_ok h0 B G h"

definition held_ok ::
  "TransactionId \<Rightarrow> TransactionId \<Rightarrow> (TransactionId \<Rightarrow> DistributedTransactionId) \<Rightarrow> TransactionId \<Rightarrow> held_page \<Rightarrow> bool" where
  "held_ok h0 L G h held \<longleftrightarrow>
     (\<forall>p es. held = Some (p, es) \<longrightarrow>
        (\<forall>x. TransactionIdIsNormal x \<longrightarrow> TransactionIdToPage x = p \<longrightarrow> xid_pos h0 h \<le> xid_pos h0 x \<longrightarrow>
           xid_pos h0 x < xid_pos h0 L \<longrightarrow> es (TransactionIdToEntry x) = G x))"

definition scan_post ::
  "TransactionId \<Rightarrow> TransactionId \<Rightarrow> TransactionId \<Rightarrow> DistributedTransactionId \<Rightarrow> DistributedTransactionId
   \<Rightarrow> (TransactionId \<Rightarrow> DistributedTransactionId) \<Rightarrow> dlog \<Rightarrow> TransactionId
   \<Rightarrow> (dlog_error + TransactionId) \<times> (dlog \<Rightarrow> dlog) list \<times> dlog \<Rightarrow> bool" where
  "scan_post h0 L T X B G d h = (\<lambda>(r, others', d').
     hor_step h0 L T B G d d' \<and> hor_rely h0 L T B G others' \<and>
     (\<forall>e. r = Inl e \<longrightarrow> (\<exists>c. e = DlogIO c)) \<and>
     (\<forall>h'. r = Inr h' \<longrightarrow>
        scan_at h0 L T B G d' h' \<and> xid_pos h0 h \<le> xid_pos h0 h' \<and>
        (xid_pos h0 h' < xid_pos h0 L \<longrightarrow> X \<le> G h')))"

lemma scan_post_trans:
  assumes "scan_post h0 L T X B G d1 h1 y" "hor_step h0 L T B G d d1" "xid_pos h0 h \<le> xid_pos h0 h1"
  shows "scan_post h0 L T X B G d h y"
  using assms hor_step_trans [OF assms(2)] by (fastforce simp: scan_post_def)

lemma scan_at_step:
  assumes "scan_at h0 L T B G d h" "hor_step h0 L T B G d d'" "xid_pos h0 (dl_oldestXmin d') \<le> xid_pos h0 h"
  shows "scan_at h0 L T B G d' h"
  using assms by (simp add: scan_at_def hor_step_def)

lemma scan_at_advance:
  assumes at: "scan_at h0 L T B G d h" and L: "TransactionIdIsNormal L" "xid_pos h0 L < xid_window"
    and lt: "xid_pos h0 h < xid_pos h0 L" and G: "G h < B"
  shows "scan_at h0 L T B G d (TransactionIdAdvance h)" "xid_pos h0 h < xid_pos h0 (TransactionIdAdvance h)"
    "xid_pos h0 (TransactionIdAdvance h) \<le> xid_pos h0 L"
proof -
  have h: "TransactionIdIsNormal h" "xid_pos h0 h < 2 ^ 31"
    using at xid_window_31 by (auto simp: scan_at_def)
  note adv = advance_pos [OF h]
  show "xid_pos h0 h < xid_pos h0 (TransactionIdAdvance h)" by (rule adv(1))
  show le: "xid_pos h0 (TransactionIdAdvance h) \<le> xid_pos h0 L" by (rule adv(3) [OF L(1) lt])
  have "below_ok h0 B G (TransactionIdAdvance h)"
    unfolding below_ok_def
  proof (intro allI impI)
    fix x assume x: "TransactionIdIsNormal x" "xid_pos h0 x < xid_pos h0 (TransactionIdAdvance h)"
    then have "\<not> xid_pos h0 h < xid_pos h0 x" using adv(3) [OF x(1)] by linarith
    then show "G x < B"
      using at x(1) G xid_pos_inj [of h0 x h] by (auto simp: scan_at_def below_ok_def nat_neq_iff)
  qed
  with at adv(1) le L advance_normal show "scan_at h0 L T B G d (TransactionIdAdvance h)"
    by (simp add: scan_at_def)
qed

lemma read_held:
  assumes at: "scan_at h0 L T B G d h" and lt: "xid_pos h0 h < xid_pos h0 L"
  shows "\<exists>r d'. dl_page (\<lambda>s. SimpleLruReadPage_ReadOnly s (TransactionIdToPage h)) d = Some (r, d') \<and>
    hor_step h0 L T B G d d' \<and> scan_at h0 L T B G d' h \<and> (\<forall>e. r = Inl e \<longrightarrow> (\<exists>c. e = DlogIO c)) \<and>
    (\<forall>i. r = Inr i \<longrightarrow> slot_entry d' i (TransactionIdToEntry h) = G h \<and>
       held_ok h0 L G h (Some (TransactionIdToPage h, slot_entry d' i)))"
proof -
  have ok: "hor_ok h0 L T B G d" "dlog_inv d" and entry: "dl_entry d x = Some (G x)"
    if "TransactionIdIsNormal x" "xid_pos h0 h \<le> xid_pos h0 x" "xid_pos h0 x < xid_pos h0 L" for x
    using at that by (auto simp: scan_at_def hor_ok_def log_ok_def)
  have h: "TransactionIdIsNormal h" using at by (simp add: scan_at_def)
  note entry_h = entry [OF h order_refl lt]
  obtain r d' where rd: "dl_page (\<lambda>s. SimpleLruReadPage_ReadOnly s (TransactionIdToPage h)) d = Some (r, d')"
    and post: "dl_read_post d (TransactionIdToPage h) (r, d')"
    using dl_read_only [OF ok(2) [OF h order_refl lt] dl_may_read_entry [OF entry_h]] by fastforce
  have kept: "dl_kept d d'" using post by (simp add: dl_read_post_def)
  have step: "hor_step h0 L T B G d d'" by (rule kept_hor_step [OF kept ok(1) [OF h order_refl lt]])
  have at': "scan_at h0 L T B G d' h"
    using scan_at_step [OF at step] at kept by (simp add: scan_at_def dl_kept_def)
  have "slot_entry d' i (TransactionIdToEntry x) = G x"
    if "r = Inr i" "TransactionIdIsNormal x" "TransactionIdToPage x = TransactionIdToPage h"
      "xid_pos h0 h \<le> xid_pos h0 x" "xid_pos h0 x < xid_pos h0 L" for i x
    using dl_read_entry [of d x i d'] post entry [OF that(2,4,5)] that(1,3) by simp
  with rd step at' post h lt show ?thesis
    by (auto simp: held_ok_def dl_read_post_def)
qed

end
