(* ===== verification/Dlog_Horizon.thy ===== *)
theory Dlog_Horizon
  imports Dlog_Safety "HOL-Library.Code_Target_Nat"
begin

text \<open>
  The advance of the horizon of the distributed log, with other processes at work between its
  steps, and the truncation that follows: the scan ends, and what it passes is below the bound of
  every distributed snapshot.
\<close>

section \<open>The scan\<close>

text \<open>The scan from a page that has just been read, which both of its reading branches run.\<close>

definition scan_rest ::
  "TransactionId \<Rightarrow> DistributedTransactionId \<Rightarrow> (dlog \<Rightarrow> dlog) list \<Rightarrow> TransactionId \<Rightarrow> nat dlog_result
   \<Rightarrow> ((dlog_error + TransactionId) \<times> (dlog \<Rightarrow> dlog) list \<times> dlog) option" where
  "scan_rest L X os h m =
     (case m of
        None \<Rightarrow> None
      | Some (r, d2) \<Rightarrow>
          (case r of
             Inl e \<Rightarrow> Some (Inl e, os, d2)
           | Inr slotno \<Rightarrow>
               (if slot_entry d2 slotno (TransactionIdToEntry h) \<ge> X then Some (Inr h, os, d2)
                else advance_scan L X d2 os (Some (TransactionIdToPage h, slot_entry d2 slotno))
                       (TransactionIdAdvance h))))"

lemma advance_scan_unfold:
  "advance_scan L X d others held h =
     (if \<not> TransactionIdPrecedes h L then Some (Inr h, others, d)
      else let page = TransactionIdToPage h in
        case held of
          None \<Rightarrow> scan_rest L X others h (dl_page (\<lambda>s. SimpleLruReadPage_ReadOnly s page) d)
        | Some (p, es) \<Rightarrow>
            (if p = page
             then (if es (TransactionIdToEntry h) \<ge> X then Some (Inr h, others, d)
                   else advance_scan L X d others held (TransactionIdAdvance h))
             else case next_other others of (f, others') \<Rightarrow>
               if TransactionIdPrecedes h (dl_oldestXmin (f d))
               then advance_scan L X (f d) others' None (dl_oldestXmin (f d))
               else scan_rest L X others' h (dl_page (\<lambda>s. SimpleLruReadPage_ReadOnly s page) (f d))))"
  unfolding scan_rest_def by (subst advance_scan.simps) (simp only: Let_def)

text \<open>The scan is right from \<open>h\<close> on, whatever state and interference it starts with.\<close>

definition scan_ok ::
  "TransactionId \<Rightarrow> TransactionId \<Rightarrow> TransactionId \<Rightarrow> DistributedTransactionId \<Rightarrow> DistributedTransactionId
   \<Rightarrow> (TransactionId \<Rightarrow> DistributedTransactionId) \<Rightarrow> TransactionId \<Rightarrow> bool" where
  "scan_ok h0 L T X B G h \<longleftrightarrow>
     (\<forall>d others held. scan_at h0 L T B G d h \<longrightarrow> hor_rely h0 L T B G others \<longrightarrow> held_ok h0 L G h held \<longrightarrow>
        (\<exists>y. advance_scan L X d others held h = Some y \<and> scan_post h0 L T X B G d h y))"

lemma scan_okD:
  assumes "scan_ok h0 L T X B G h" "scan_at h0 L T B G d h" "hor_rely h0 L T B G others" "held_ok h0 L G h held"
  obtains y where "advance_scan L X d others held h = Some y" "scan_post h0 L T X B G d h y"
  using assms unfolding scan_ok_def by blast

definition scan_ok_after ::
  "TransactionId \<Rightarrow> TransactionId \<Rightarrow> TransactionId \<Rightarrow> DistributedTransactionId \<Rightarrow> DistributedTransactionId
   \<Rightarrow> (TransactionId \<Rightarrow> DistributedTransactionId) \<Rightarrow> TransactionId \<Rightarrow> bool" where
  "scan_ok_after h0 L T X B G h \<longleftrightarrow>
     (\<forall>h'. xid_pos h0 h < xid_pos h0 h' \<longrightarrow> xid_pos h0 h' \<le> xid_pos h0 L \<longrightarrow> scan_ok h0 L T X B G h')"

lemma scan_ok_afterD:
  assumes "scan_ok_after h0 L T X B G h" "xid_pos h0 h < xid_pos h0 h'" "xid_pos h0 h' \<le> xid_pos h0 L"
  shows "scan_ok h0 L T X B G h'"
  using assms by (simp add: scan_ok_after_def)

lemma scan_stop:
  assumes "scan_at h0 L T B G d h" "hor_rely h0 L T B G others" "xid_pos h0 h < xid_pos h0 L \<longrightarrow> X \<le> G h"
  shows "scan_post h0 L T X B G d h (Inr h, others, d)"
  using assms by (simp add: scan_post_def hor_step_refl scan_at_def)

lemma held_ok_mono:
  assumes "held_ok h0 L G h held" "xid_pos h0 h \<le> xid_pos h0 h'"
  shows "held_ok h0 L G h' held"
  unfolding held_ok_def
proof (intro allI impI)
  fix p es x
  assume "held = Some (p, es)" "TransactionIdIsNormal x" "TransactionIdToPage x = p"
    "xid_pos h0 h' \<le> xid_pos h0 x" "xid_pos h0 x < xid_pos h0 L"
  with assms(1) order_trans [OF assms(2)] show "es (TransactionIdToEntry x) = G x"
    by (simp add: held_ok_def)
qed

lemma scan_go_on:
  assumes L: "TransactionIdIsNormal L" "xid_pos h0 L < xid_window" and XB: "X \<le> B"
    and IH: "scan_ok_after h0 L T X B G h"
    and lt: "xid_pos h0 h < xid_pos h0 L" and at: "scan_at h0 L T B G d h"
    and rely: "hor_rely h0 L T B G others" and held: "held_ok h0 L G h held" and G: "\<not> X \<le> G h"
  shows "\<exists>y. advance_scan L X d others held (TransactionIdAdvance h) = Some y \<and> scan_post h0 L T X B G d h y"
proof -
  have "G h < B" using G XB by simp
  note adv = scan_at_advance [OF at L lt this]
  have "held_ok h0 L G (TransactionIdAdvance h) held"
    by (rule held_ok_mono [OF held less_imp_le [OF adv(2)]])
  from scan_okD [OF scan_ok_afterD [OF IH adv(2,3)] adv(1) rely this] obtain y where
    y: "advance_scan L X d others held (TransactionIdAdvance h) = Some y"
      "scan_post h0 L T X B G d (TransactionIdAdvance h) y" .
  have "hor_step h0 L T B G d d" using at by (simp add: scan_at_def hor_step_refl)
  with y(1) scan_post_trans [OF y(2) this less_imp_le [OF adv(2)]] show ?thesis by blast
qed

lemma scan_rest_total:
  assumes L: "TransactionIdIsNormal L" "xid_pos h0 L < xid_window" and XB: "X \<le> B"
    and IH: "scan_ok_after h0 L T X B G h"
    and lt: "xid_pos h0 h < xid_pos h0 L" and at: "scan_at h0 L T B G d h" and rely: "hor_rely h0 L T B G others"
  shows "\<exists>y. scan_rest L X others h (dl_page (\<lambda>s. SimpleLruReadPage_ReadOnly s (TransactionIdToPage h)) d) = Some y
    \<and> scan_post h0 L T X B G d h y"
proof -
  obtain r d2 where rd: "dl_page (\<lambda>s. SimpleLruReadPage_ReadOnly s (TransactionIdToPage h)) d = Some (r, d2)"
    and step: "hor_step h0 L T B G d d2" and at2: "scan_at h0 L T B G d2 h"
    and err: "\<forall>e. r = Inl e \<longrightarrow> (\<exists>c. e = DlogIO c)"
    and en: "\<forall>i. r = Inr i \<longrightarrow> slot_entry d2 i (TransactionIdToEntry h) = G h \<and>
       held_ok h0 L G h (Some (TransactionIdToPage h, slot_entry d2 i))"
    using read_held [OF at lt] by blast
  show ?thesis
  proof (cases r)
    case (Inl c)
    with step rely err have "scan_post h0 L T X B G d h (Inl c, others, d2)" by (simp add: scan_post_def)
    with rd Inl show ?thesis by (simp add: scan_rest_def)
  next
    case (Inr i)
    with en have en: "slot_entry d2 i (TransactionIdToEntry h) = G h"
      "held_ok h0 L G h (Some (TransactionIdToPage h, slot_entry d2 i))" by simp_all
    show ?thesis
    proof (cases "X \<le> G h")
      case True
      with scan_post_trans [OF scan_stop [OF at2 rely] step order_refl] rd Inr en(1) show ?thesis
        by (simp add: scan_rest_def)
    next
      case False
      from scan_go_on [OF L XB IH lt at2 rely en(2) this] obtain y where
        "advance_scan L X d2 others (Some (TransactionIdToPage h, slot_entry d2 i)) (TransactionIdAdvance h) = Some y"
        "scan_post h0 L T X B G d2 h y" by blast
      with scan_post_trans [OF this(2) step order_refl] False rd Inr en(1) show ?thesis
        by (simp add: scan_rest_def)
    qed
  qed
qed

lemma scan_new_page:
  assumes L: "TransactionIdIsNormal L" "xid_pos h0 L < xid_window" and XB: "X \<le> B"
    and IH: "scan_ok_after h0 L T X B G h"
    and lt: "xid_pos h0 h < xid_pos h0 L" and at: "scan_at h0 L T B G d h" and rely: "hor_rely h0 L T B G others"
  shows "\<exists>y. (case next_other others of (f, others') \<Rightarrow>
      if TransactionIdPrecedes h (dl_oldestXmin (f d))
      then advance_scan L X (f d) others' None (dl_oldestXmin (f d))
      else scan_rest L X others' h (dl_page (\<lambda>s. SimpleLruReadPage_ReadOnly s (TransactionIdToPage h)) (f d)))
      = Some y \<and> scan_post h0 L T X B G d h y"
proof -
  obtain f others' where f: "next_other others = (f, others')" by fastforce
  have ok: "hor_ok h0 L T B G d" "TransactionIdIsNormal h" "xid_pos h0 h < xid_window"
    using at by (simp_all add: scan_at_def)
  note step = next_other_rely [OF rely f ok(1)]
  have fd: "hor_ok h0 L T B G (f d)" using step(1) by (simp add: hor_step_def)
  then have sh: "TransactionIdIsNormal (dl_oldestXmin (f d))" "xid_pos h0 (dl_oldestXmin (f d)) < xid_window"
    by (simp_all add: hor_ok_def log_ok_def)
  note lt_iff = precedes_window(1) [OF ok(2) sh(1) ok(3) sh(2)]
  show ?thesis
  proof (cases "xid_pos h0 h < xid_pos h0 (dl_oldestXmin (f d))")
    case True
    have at': "scan_at h0 L T B G (f d) (dl_oldestXmin (f d))"
      using fd by (simp add: scan_at_def hor_ok_def log_ok_def)
    have "\<exists>y. advance_scan L X (f d) others' None (dl_oldestXmin (f d)) = Some y \<and>
        scan_post h0 L T X B G (f d) (dl_oldestXmin (f d)) y"
    proof (cases "xid_pos h0 (dl_oldestXmin (f d)) \<le> xid_pos h0 L")
      case le: True
      have "held_ok h0 L G (dl_oldestXmin (f d)) None" by (simp add: held_ok_def)
      from scan_okD [OF scan_ok_afterD [OF IH True le] at' step(2) this] show ?thesis by metis
    next
      case False
      then have "\<not> TransactionIdPrecedes (dl_oldestXmin (f d)) L"
        using precedes_window(1) [OF sh(1) L(1) sh(2) L(2)] by simp
      with scan_stop [OF at' step(2)] False show ?thesis by (subst advance_scan_unfold) simp
    qed
    with scan_post_trans [OF _ step(1) less_imp_le [OF True]] True lt_iff f show ?thesis by auto
  next
    case False
    then have "scan_at h0 L T B G (f d) h" using scan_at_step [OF at step(1)] by simp
    from scan_rest_total [OF L XB IH lt this step(2)] scan_post_trans [OF _ step(1) order_refl] False lt_iff f
    show ?thesis by auto
  qed
qed

lemma advance_scan_total:
  assumes L: "TransactionIdIsNormal L" "xid_pos h0 L < xid_window" and XB: "X \<le> B"
  shows "scan_ok h0 L T X B G h"
proof (induction "xid_pos h0 L - xid_pos h0 h" arbitrary: h rule: less_induct)
  case less
  have IH: "scan_ok_after h0 L T X B G h" unfolding scan_ok_after_def by (auto intro!: less)
  show ?case
    unfolding scan_ok_def
  proof (intro allI impI)
    fix d others held
    assume at: "scan_at h0 L T B G d h" and rely: "hor_rely h0 L T B G others" and held: "held_ok h0 L G h held"
    have ok: "hor_ok h0 L T B G d" "TransactionIdIsNormal h" "xid_pos h0 h < xid_window"
      using at by (simp_all add: scan_at_def)
    note lt_iff = precedes_window(1) [OF ok(2) L(1) ok(3) L(2)]
    note rest = scan_rest_total [OF L XB IH]
    show "\<exists>y. advance_scan L X d others held h = Some y \<and> scan_post h0 L T X B G d h y"
    proof (cases "xid_pos h0 h < xid_pos h0 L")
      case False
      with lt_iff scan_stop [OF at rely] show ?thesis by (subst advance_scan_unfold) simp
    next
      case lt: True
      show ?thesis
      proof (cases held)
        case None
        with rest [OF lt at rely] lt lt_iff show ?thesis by (subst advance_scan_unfold) simp
      next
        case (Some q)
        obtain p es where q: "q = (p, es)" by fastforce
        show ?thesis
        proof (cases "p = TransactionIdToPage h")
          case True
          have "es (TransactionIdToEntry h) = G h" using held Some q True ok(2) lt by (simp add: held_ok_def)
          with Some q True lt lt_iff scan_stop [OF at rely] scan_go_on [OF L XB IH lt at rely held]
          show ?thesis by (subst advance_scan_unfold) simp
        next
          case False
          with scan_new_page [OF L XB IH lt at rely] Some q lt lt_iff
          show ?thesis by (subst advance_scan_unfold) simp
        qed
      qed
    qed
  qed
qed

section \<open>Publishing the horizon and truncating\<close>

lemma hor_ok_publish:
  assumes "hor_ok h0 L T B G d" "TransactionIdIsNormal h" "xid_pos h0 h < xid_window" "below_ok h0 B G h"
    "xid_pos h0 (dl_oldestXmin d) \<le> xid_pos h0 h"
  shows "hor_step h0 L T B G d (d\<lparr>dl_oldestXmin := h\<rparr>)"
  using assms by (auto simp: hor_step_def hor_ok_def log_ok_def dlog_inv_def dl_entry_def)

definition publish_post ::
  "TransactionId \<Rightarrow> TransactionId \<Rightarrow> TransactionId \<Rightarrow> DistributedTransactionId \<Rightarrow> (TransactionId \<Rightarrow> DistributedTransactionId)
   \<Rightarrow> dlog \<Rightarrow> TransactionId \<Rightarrow> TransactionId \<times> (dlog \<Rightarrow> dlog) list \<times> dlog \<Rightarrow> bool" where
  "publish_post h0 L T B G d h = (\<lambda>(h', others', d').
     hor_step h0 L T B G d d' \<and> hor_rely h0 L T B G others' \<and> dl_oldestXmin d' = h' \<and>
     xid_pos h0 h \<le> xid_pos h0 h')"

lemma publish_total:
  assumes h: "TransactionIdIsNormal h" "xid_pos h0 h < xid_window" "below_ok h0 B G h"
    and ok: "hor_ok h0 L T B G d" and rely: "hor_rely h0 L T B G others"
    and le: "xid_pos h0 expected \<le> xid_pos h0 h"
  shows "\<exists>y. publish_xmin d others expected h = Some y \<and> publish_post h0 L T B G d h y"
  using ok rely le
proof (induction "2 * length others + (if dl_oldestXmin d \<noteq> expected then 1 else 0)" arbitrary: d others expected
    rule: less_induct)
  case less
  note ok = less.prems(1) and rely = less.prems(2) and le = less.prems(3)
  obtain f others' where f: "next_other others = (f, others')" by fastforce
  note step = next_other_rely [OF rely f ok]
  let ?h1 = "dl_oldestXmin (f d)"
  have ok1: "hor_ok h0 L T B G (f d)" using step(1) by (simp add: hor_step_def)
  then have h1: "TransactionIdIsNormal ?h1" "xid_pos h0 ?h1 < xid_window"
    by (simp_all add: hor_ok_def log_ok_def)
  note le_iff = precedes_window(2) [OF h(1) h1(1) h(2) h1(2)]
  have trans: "publish_post h0 L T B G d h y" if "publish_post h0 L T B G (f d) h y" for y
    using that hor_step_trans [OF step(1)] by (auto simp: publish_post_def)
  consider (set) "?h1 = expected" | (later) "?h1 \<noteq> expected" "xid_pos h0 h \<le> xid_pos h0 ?h1"
    | (again) "?h1 \<noteq> expected" "xid_pos h0 ?h1 < xid_pos h0 h" by linarith
  then show ?case
  proof cases
    case set
    then have "publish_post h0 L T B G (f d) h (h, others', (f d)\<lparr>dl_oldestXmin := h\<rparr>)"
      using hor_ok_publish [OF ok1 h] le step(2) by (simp add: publish_post_def)
    from trans [OF this] set f show ?thesis by (subst publish_xmin.simps) simp
  next
    case later
    then have "publish_post h0 L T B G (f d) h (?h1, others', f d)"
      using ok1 step(2) by (simp add: publish_post_def hor_step_refl)
    from trans [OF this] later f le_iff show ?thesis by (subst publish_xmin.simps) (simp add: Let_def)
  next
    case again
    have "2 * length others' < 2 * length others + (if dl_oldestXmin d \<noteq> expected then 1 else 0)"
      using f again(1) by (auto simp: next_other_def split: list.splits)
    then have "2 * length others' + (if ?h1 \<noteq> ?h1 then 1 else 0)
        < 2 * length others + (if dl_oldestXmin d \<noteq> expected then 1 else 0)" by simp
    from less.hyps [OF this ok1 step(2) less_imp_le [OF again(2)]] trans again f le_iff
    show ?thesis by (subst publish_xmin.simps) auto
  qed
qed

lemma xid_pos_diff:
  assumes "xid_pos h0 r \<le> xid_pos h0 x"
  shows "xid_pos r x = xid_pos h0 x - xid_pos h0 r"
proof -
  have "x - r = (x - h0) - (r - h0)" by simp
  then show ?thesis
    using assms unfolding xid_pos_def by (simp only: unat_sub word_le_nat_alt)
qed

lemma Truncate_step:
  assumes ok: "hor_ok h0 L T B G d" and le: "xid_pos h0 r \<le> xid_pos h0 (dl_oldestXmin d)"
  shows "\<exists>q d'. DistributedLog_Truncate d r = Some (q, d') \<and> hor_step h0 L T B G d d' \<and>
    dl_oldestXmin d' = dl_oldestXmin d \<and> (\<forall>e. q = Inl e \<longrightarrow> (\<exists>c. e = DlogIO c))"
proof -
  let ?c = "TransactionIdToPage r"
  have inv: "slru_inv (dl_slru d)" "PagePrecedes (dl_slru d) = DistributedLog_PagePrecedes" "dlog_inv d"
    using ok by (simp_all add: hor_ok_def log_ok_def dlog_inv_def)
  have top: "xid_pos h0 T < xid_window" using ok by (simp add: hor_ok_def log_ok_def)
  obtain e s where t: "SimpleLruTruncate (dl_slru d) ?c = Some (e, s)" "truncate_post (dl_slru d) ?c s"
    using dpo.truncate_total [OF inv(1,2)] by blast
  have keep: "dl_entry d' x = Some g"
    if "dl_slru d' = s" "dl_entry d x = Some g" "xid_pos h0 (dl_oldestXmin d) \<le> xid_pos h0 x"
      "xid_pos h0 x < xid_pos h0 T" for x g d'
  proof -
    have "xid_pos r x < 2 ^ 31 - 4096"
      using xid_pos_diff [of h0 r x] le that(3,4) top by (simp add: xid_window_def)
    from page_not_before [OF this] that(1,2) t(2) inv(2) show ?thesis
      by (auto simp: dl_entry_def truncate_post_def)
  qed
  have step: "hor_step h0 L T B G d d'" if d': "dl_slru d' = s" "dl_oldestXmin d' = dl_oldestXmin d" for d'
  proof -
    have "dlog_inv d'"
      using d'(1) t(2) inv(3) by (auto simp: dlog_inv_def truncate_post_def slru_frame_def)
    moreover have "\<exists>v. dl_entry d' x = Some v \<and> (v = G x \<or> v = 0 \<and> xid_pos h0 L \<le> xid_pos h0 x)"
      if x: "TransactionIdIsNormal x" "xid_pos h0 (dl_oldestXmin d) \<le> xid_pos h0 x" "xid_pos h0 x < xid_pos h0 T" for x
    proof -
      obtain v where "dl_entry d x = Some v" "v = G x \<or> v = 0 \<and> xid_pos h0 L \<le> xid_pos h0 x"
        using ok x unfolding hor_ok_def log_ok_def by blast
      with keep [OF d'(1) this(1) x(2,3)] show ?thesis by blast
    qed
    ultimately show ?thesis
      using ok d'(2) keep [OF d'(1)] by (simp add: hor_step_def hor_ok_def log_ok_def)
  qed
  show ?thesis
    using hor_step_refl [OF ok] t(1) step
    by (cases e) (auto simp: DistributedLog_Truncate_def Let_def)
qed

lemma truncate_tail:
  assumes ok: "hor_ok h0 L T B G d" and rely: "hor_rely h0 L T B G others"
    and le: "xid_pos h0 h \<le> xid_pos h0 (dl_oldestXmin d)"
  shows "\<exists>q d'. (if b then dl_bind (DistributedLog_Truncate (fst (next_other others) d) h) (\<lambda>_ e. Some (Inr h, e))
      else Some (Inr h, d)) = Some (q, d') \<and>
    hor_step h0 L T B G d d' \<and> (\<forall>e. q = Inl e \<longrightarrow> (\<exists>c. e = DlogIO c)) \<and> (\<forall>h'. q = Inr h' \<longrightarrow> h' = h)"
proof -
  let ?d = "fst (next_other others) d"
  have step: "hor_step h0 L T B G d ?d" using next_other_rely(1) [OF rely _ ok] by (metis prod.collapse)
  then have "hor_ok h0 L T B G ?d" "xid_pos h0 h \<le> xid_pos h0 (dl_oldestXmin ?d)"
    using le by (simp_all add: hor_step_def)
  from Truncate_step [OF this] obtain q d' where
    tr: "DistributedLog_Truncate ?d h = Some (q, d')" "hor_step h0 L T B G ?d d'"
      "\<forall>e. q = Inl e \<longrightarrow> (\<exists>c. e = DlogIO c)" by blast
  with hor_step_trans [OF step tr(2)] hor_step_refl [OF ok] show ?thesis
    by (cases q) (auto simp: dl_bind_def)
qed

section \<open>Advancing the horizon\<close>

definition advance_post ::
  "TransactionId \<Rightarrow> TransactionId \<Rightarrow> TransactionId \<Rightarrow> DistributedTransactionId \<Rightarrow> DistributedTransactionId
   \<Rightarrow> (TransactionId \<Rightarrow> DistributedTransactionId) \<Rightarrow> dlog \<Rightarrow> (dlog_error + TransactionId) \<times> dlog \<Rightarrow> bool" where
  "advance_post h0 L T X B G d = (\<lambda>(r, d').
     hor_step h0 L T B G d d' \<and>
     (\<forall>e. r = Inl e \<longrightarrow> (\<exists>c. e = DlogIO c)) \<and>
     (\<forall>h. r = Inr h \<longrightarrow>
        xid_pos h0 (dl_oldestXmin d) \<le> xid_pos h0 h \<and> xid_pos h0 h \<le> xid_pos h0 (dl_oldestXmin d') \<and>
        (\<exists>s. TransactionIdIsNormal s \<and> xid_pos h0 (dl_oldestXmin d) \<le> xid_pos h0 s \<and> xid_pos h0 s \<le> xid_pos h0 h \<and>
           (xid_pos h0 s < xid_pos h0 L \<longrightarrow> X \<le> G s))))"

lemma advance_total:
  assumes L: "TransactionIdIsNormal L" "xid_pos h0 L < xid_window" and XB: "X \<le> B"
    and ok: "hor_ok h0 L T B G d" and rely: "hor_rely h0 L T B G others"
  shows "\<exists>y. DistributedLog_AdvanceOldestXmin d others L X = Some y \<and> advance_post h0 L T X B G d y"
proof -
  let ?h = "dl_oldestXmin d"
  have at: "scan_at h0 L T B G d ?h" using ok by (simp add: scan_at_def hor_ok_def log_ok_def)
  have none: "held_ok h0 L G ?h None" by (simp add: held_ok_def)
  from scan_okD [OF advance_scan_total [OF L XB] at rely none] obtain r o1 d1 where
    scan: "advance_scan L X d others None ?h = Some (r, o1, d1)" "scan_post h0 L T X B G d ?h (r, o1, d1)"
    by (metis prod.collapse)
  show ?thesis
  proof (cases r)
    case (Inl e)
    with scan show ?thesis
      by (auto simp: DistributedLog_AdvanceOldestXmin_def advance_post_def scan_post_def)
  next
    case (Inr s)
    with scan(2) have sc: "hor_step h0 L T B G d d1" "hor_rely h0 L T B G o1" "scan_at h0 L T B G d1 s"
      "xid_pos h0 ?h \<le> xid_pos h0 s" "xid_pos h0 s < xid_pos h0 L \<longrightarrow> X \<le> G s"
      by (simp_all add: scan_post_def)
    have ok1: "hor_ok h0 L T B G d1" and s: "TransactionIdIsNormal s" "xid_pos h0 s < xid_window" "below_ok h0 B G s"
      using sc(3) by (simp_all add: scan_at_def)
    obtain h o2 d2 where pub: "(if ?h \<noteq> s then publish_xmin d1 o1 ?h s else Some (s, o1, d1)) = Some (h, o2, d2)"
      "hor_step h0 L T B G d1 d2" "hor_rely h0 L T B G o2" "xid_pos h0 h \<le> xid_pos h0 (dl_oldestXmin d2)"
      "xid_pos h0 s \<le> xid_pos h0 h"
      using publish_total [OF s ok1 sc(2,4)] hor_step_refl [OF ok1] sc(1,2)
      by (cases "?h = s") (fastforce simp: publish_post_def hor_step_def)+
    note step2 = hor_step_trans [OF sc(1) pub(2)]
    have post: "advance_post h0 L T X B G d (q, d3)"
      if "hor_step h0 L T B G d2 d3" "\<forall>e. q = Inl e \<longrightarrow> (\<exists>c. e = DlogIO c)" "\<forall>h'. q = Inr h' \<longrightarrow> h' = h" for q d3
      using hor_step_trans [OF step2 that(1)] that s(1) sc(4,5) pub(4,5)
      by (fastforce simp: advance_post_def hor_step_def)
    have ok2: "hor_ok h0 L T B G d2" using pub(2) by (simp add: hor_step_def)
    have eq: "DistributedLog_AdvanceOldestXmin d others L X =
        (if TransactionIdToSegment ?h < TransactionIdToSegment h
         then dl_bind (DistributedLog_Truncate (fst (next_other o2) d2) h) (\<lambda>_ d3. Some (Inr h, d3))
         else Some (Inr h, d2))"
      using scan(1) Inr pub(1) by (simp add: DistributedLog_AdvanceOldestXmin_def Let_def)
    from truncate_tail [OF ok2 pub(3,4)] post show ?thesis unfolding eq by blast
  qed
qed

text \<open>Advancing is itself such interference: processes that advance concurrently rely on each other.\<close>

lemma advance_rely:
  assumes L: "TransactionIdIsNormal L" "xid_pos h0 L < xid_window" and XB: "X \<le> B"
  shows "hor_rely h0 L T B G [\<lambda>d. snd (the (DistributedLog_AdvanceOldestXmin d [] L X))]"
proof -
  have "hor_step h0 L T B G d (snd (the (DistributedLog_AdvanceOldestXmin d [] L X)))"
    if "hor_ok h0 L T B G d" for d
    using advance_total [OF L XB that, of "[]"] by (auto simp: advance_post_def hor_rely_def)
  then show ?thesis by (simp add: hor_rely_def)
qed

text \<open>C10. Advancing the horizon of the distributed log ends, whatever other processes do to the log
  while its locks are released, as long as they keep the log and never move the horizon back.  The
  horizon never moves back either; every identifier it has passed belongs to a distributed
  transaction below the bound \<open>B\<close> of the snapshots in use, or to none; every entry from the horizon
  up to the next identifier is still in the log, whatever was truncated.  The call
  fails only when an I/O does, and otherwise has passed every identifier before the first one
  that a snapshot may still see as in progress.\<close>

theorem horizon_advance_safe:
  assumes "TransactionIdIsNormal L" "xid_pos h0 L < xid_window" "X \<le> B"
    "hor_ok h0 L T B G d" "hor_rely h0 L T B G others"
  shows "\<exists>r d'. DistributedLog_AdvanceOldestXmin d others L X = Some (r, d') \<and>
    hor_step h0 L T B G d d' \<and>
    (\<forall>e. r = Inl e \<longrightarrow> (\<exists>c. e = DlogIO c)) \<and>
    (\<forall>h. r = Inr h \<longrightarrow>
       xid_pos h0 (dl_oldestXmin d) \<le> xid_pos h0 h \<and> xid_pos h0 h \<le> xid_pos h0 (dl_oldestXmin d') \<and>
       (\<forall>x. xid_pos h0 x < xid_pos h0 L \<longrightarrow>
          (\<forall>y. TransactionIdIsNormal y \<longrightarrow> xid_pos h0 (dl_oldestXmin d) \<le> xid_pos h0 y \<longrightarrow>
               xid_pos h0 y \<le> xid_pos h0 x \<longrightarrow> G y < X) \<longrightarrow>
          xid_pos h0 x < xid_pos h0 h))"
proof -
  obtain r d' where adv: "DistributedLog_AdvanceOldestXmin d others L X = Some (r, d')"
    and post: "advance_post h0 L T X B G d (r, d')"
    using advance_total [OF assms] by fastforce
  have "xid_pos h0 x < xid_pos h0 h"
    if h: "r = Inr h" and x: "xid_pos h0 x < xid_pos h0 L"
      and all: "\<forall>y. TransactionIdIsNormal y \<longrightarrow> xid_pos h0 (dl_oldestXmin d) \<le> xid_pos h0 y \<longrightarrow>
        xid_pos h0 y \<le> xid_pos h0 x \<longrightarrow> G y < X" for h x
  proof (rule ccontr)
    assume "\<not> xid_pos h0 x < xid_pos h0 h"
    moreover obtain s where s: "TransactionIdIsNormal s" "xid_pos h0 (dl_oldestXmin d) \<le> xid_pos h0 s"
      "xid_pos h0 s \<le> xid_pos h0 h" "xid_pos h0 s < xid_pos h0 L \<longrightarrow> X \<le> G s"
      using post h by (auto simp: advance_post_def)
    ultimately have "G s < X" "X \<le> G s" using all x by auto
    then show False by simp
  qed
  with adv post show ?thesis by (auto simp: advance_post_def)
qed

definition ex_page :: "DistributedTransactionId page" where
  "ex_page = (\<lambda>k. if k = 5 then 40 else if k = 7 then 60 else 0)"

definition ex_dlog :: dlog where
  "ex_dlog = \<lparr>
     dl_slru = \<lparr>slru_slots =
        [\<lparr>page_buffer = ex_page, page_status = SLRU_PAGE_VALID, page_dirty = True, page_number = 0,
          page_lru_count = 0\<rparr>,
         \<lparr>page_buffer = (\<lambda>_. 0), page_status = SLRU_PAGE_EMPTY, page_dirty = False, page_number = 0,
          page_lru_count = 0\<rparr>],
        cur_lru_count = 0, latest_page_number = 0, seg_files = [], io_faults = [],
        PagePrecedes = DistributedLog_PagePrecedes, do_fsync = True, InRecovery = False\<rparr>,
     dl_oldestXmin = 3, dl_wal = [], dl_recovery = False\<rparr>"

definition ex_gxid :: "TransactionId \<Rightarrow> DistributedTransactionId" where
  "ex_gxid x = ex_page (unat x)"

lemma ex_dlog_inv: "dlog_inv ex_dlog"
  by (auto simp: dlog_inv_def slru_inv_def ex_dlog_def less_Suc_eq)

lemma ex_dlog_entry:
  assumes "unat x < 4096"
  shows "dl_entry ex_dlog x = Some (ex_gxid x)"
  using assms by (simp add: dl_entry_def ex_dlog_def slru_page_def slot_holds_def slot_loaded_def ex_gxid_def
      TransactionIdToPage_def TransactionIdToEntry_def ENTRIES_PER_PAGE_def)

lemma ex_hor_ok: "hor_ok 3 10 20 50 ex_gxid ex_dlog"
proof -
  have "dl_entry ex_dlog x = Some (ex_gxid x)" if "xid_pos 3 x < xid_pos 3 20" for x
  proof (rule ex_dlog_entry)
    have "unat (3 + of_nat (xid_pos 3 x) :: 32 word) = 3 + xid_pos 3 x"
      using that unat_add_small [of 3 "xid_pos 3 x"] by (simp add: xid_pos_def)
    with that show "unat x < 4096" by (simp only: xid_of_pos) (simp add: xid_pos_def)
  qed
  then show ?thesis
    using ex_dlog_inv
    by (simp add: xid_pos_def hor_ok_def log_ok_def below_ok_def xid_window_def TransactionIdIsNormal_def
        FirstNormalTransactionId_def) (simp add: ex_dlog_def TransactionIdIsNormal_def)
qed

text \<open>Another process advances the horizon at the same time.\<close>

definition ex_other :: "dlog \<Rightarrow> dlog" where
  "ex_other d = snd (the (DistributedLog_AdvanceOldestXmin d [] 10 45))"

theorem horizon_advance_safe_witness:
  "map_option fst (DistributedLog_AdvanceOldestXmin ex_dlog [ex_other] 10 50) = Some (Inr 7) \<and>
   (\<exists>r d'. DistributedLog_AdvanceOldestXmin ex_dlog [ex_other] 10 50 = Some (r, d') \<and>
      hor_step 3 10 20 50 ex_gxid ex_dlog d')"
proof
  show "map_option fst (DistributedLog_AdvanceOldestXmin ex_dlog [ex_other] 10 50) = Some (Inr 7)"
    by code_simp
  have L: "TransactionIdIsNormal 10" "xid_pos 3 10 < xid_window"
    by (simp_all add: TransactionIdIsNormal_def FirstNormalTransactionId_def xid_window_def xid_pos_def)
  have "hor_rely 3 10 20 50 ex_gxid [ex_other]"
    using advance_rely [OF L, where X = 45 and B = 50 and T = 20 and G = ex_gxid] by (simp add: ex_other_def [abs_def])
  from horizon_advance_safe [OF L order_refl ex_hor_ok this]
  show "\<exists>r d'. DistributedLog_AdvanceOldestXmin ex_dlog [ex_other] 10 50 = Some (r, d') \<and>
      hor_step 3 10 20 50 ex_gxid ex_dlog d'" by blast
qed

end
