(* ===== verification/Dlog_Commit.thy ===== *)
theory Dlog_Commit
  imports Dlog_Horizon
begin

text \<open>
  What the users of the distributed log rely on: a recorded commit is found again, a lookup is
  right while other processes advance the horizon and truncate, and the replay of a truncation on
  a hot standby removes nothing at or after the standby's own horizon.
\<close>

section \<open>Lookups\<close>

text \<open>
  A lookup yields the distributed transaction of the identifier, unless it is not recorded yet or
  lies before the horizon.
\<close>

definition check_post ::
  "TransactionId \<Rightarrow> TransactionId \<Rightarrow> TransactionId \<Rightarrow> DistributedTransactionId
   \<Rightarrow> (TransactionId \<Rightarrow> DistributedTransactionId) \<Rightarrow> dlog \<Rightarrow> TransactionId
   \<Rightarrow> (dlog_error + DistributedTransactionId option) \<times> dlog \<Rightarrow> bool" where
  "check_post h0 L T B G d x = (\<lambda>(r, d').
     hor_step h0 L T B G d d' \<and>
     (\<forall>e. r = Inl e \<longrightarrow> (\<exists>c. e = DlogIO c)) \<and>
     (\<forall>g. r = Inr (Some g) \<longrightarrow> g = G x \<and> g \<noteq> 0) \<and>
     (r = Inr None \<longrightarrow> G x < B \<or> G x = 0 \<or> xid_pos h0 L \<le> xid_pos h0 x \<and> dl_entry d x = Some 0))"

lemma get_distributed_xid:
  assumes "dlog_inv d" "dl_entry d x = Some v"
  shows "\<exists>r d'. DistributedLog_GetDistributedXid d x = Some (r, d') \<and> dl_kept d d' \<and>
    (\<forall>e. r = Inl e \<longrightarrow> (\<exists>c. e = DlogIO c)) \<and> (\<forall>g. r = Inr g \<longrightarrow> g = v) \<and>
    (io_faults (dl_slru d) = [] \<longrightarrow> r = Inr v)"
proof -
  obtain r d' where rd: "dl_page (\<lambda>s. SimpleLruReadPage_ReadOnly s (TransactionIdToPage x)) d = Some (r, d')"
    and post: "dl_read_post d (TransactionIdToPage x) (r, d')"
    using dl_read_only [OF assms(1) dl_may_read_entry [OF assms(2)]] by fastforce
  have page: "slru_page (dl_slru d) (TransactionIdToPage x) \<noteq> None"
    using assms(2) by (auto simp: dl_entry_def)
  have "slot_entry d' i (TransactionIdToEntry x) = v" if "r = Inr i" for i
    using dl_read_entry [of d x i d'] post that assms(2) by simp
  with rd post page show ?thesis
    by (cases r) (auto simp: DistributedLog_GetDistributedXid_def dl_read_post_def)
qed

lemma committed_check_total:
  assumes x: "TransactionIdIsNormal x" "xid_pos h0 x < xid_pos h0 T"
    and ok: "hor_ok h0 L T B G d" and rely: "hor_rely h0 L T B G [other]"
  shows "\<exists>y. DistributedLog_CommittedCheck d other x = Some y \<and> check_post h0 L T B G d x y"
proof -
  have win: "xid_pos h0 x < xid_window" using x(2) ok by (simp add: hor_ok_def log_ok_def)
  have before: "TransactionIdPrecedes x (dl_oldestXmin e) \<longleftrightarrow> xid_pos h0 x < xid_pos h0 (dl_oldestXmin e)"
    if "hor_ok h0 L T B G e" for e
    using that precedes_window(1) [OF x(1) _ win] by (simp add: hor_ok_def log_ok_def)
  have low: "G x < B" if "hor_ok h0 L T B G e" "xid_pos h0 x < xid_pos h0 (dl_oldestXmin e)" for e
    using that x(1) by (simp add: hor_ok_def below_ok_def)
  have step: "hor_step h0 L T B G d (other d)" using rely ok by (simp add: hor_rely_def)
  then have ok1: "hor_ok h0 L T B G (other d)" by (simp add: hor_step_def)
  have valid: "dl_oldestXmin d \<noteq> InvalidTransactionId"
    using ok by (auto simp: hor_ok_def log_ok_def normal_unat InvalidTransactionId_def)
  consider (early) "xid_pos h0 x < xid_pos h0 (dl_oldestXmin d)"
    | (late) "\<not> xid_pos h0 x < xid_pos h0 (dl_oldestXmin d)" "xid_pos h0 x < xid_pos h0 (dl_oldestXmin (other d))"
    | (read) "\<not> xid_pos h0 x < xid_pos h0 (dl_oldestXmin d)" "\<not> xid_pos h0 x < xid_pos h0 (dl_oldestXmin (other d))"
    by blast
  then show ?thesis
  proof cases
    case early
    with before [OF ok] low [OF ok] hor_step_refl [OF ok] valid show ?thesis
      by (auto simp: DistributedLog_CommittedCheck_def check_post_def)
  next
    case late
    with before [OF ok] before [OF ok1] low [OF ok1] step valid show ?thesis
      by (auto simp: DistributedLog_CommittedCheck_def check_post_def Let_def)
  next
    case read
    obtain v where v: "dl_entry (other d) x = Some v" "v = G x \<or> v = 0 \<and> xid_pos h0 L \<le> xid_pos h0 x"
      using ok1 read(2) x by (auto simp: hor_ok_def log_ok_def not_less)
    obtain v0 where v0: "dl_entry d x = Some v0" "v0 = G x \<or> v0 = 0 \<and> xid_pos h0 L \<le> xid_pos h0 x"
      using ok read(1) x by (auto simp: hor_ok_def log_ok_def not_less)
    have mono: "v0 \<noteq> 0 \<Longrightarrow> v = v0" using step v0(1) v(1) read(2) x(2) by (auto simp: hor_step_def not_less)
    have "dlog_inv (other d)" using ok1 by (simp add: hor_ok_def log_ok_def)
    from get_distributed_xid [OF this v(1)] obtain r d' where
      g: "DistributedLog_GetDistributedXid (other d) x = Some (r, d')" "dl_kept (other d) d'"
        "\<forall>e. r = Inl e \<longrightarrow> (\<exists>c. e = DlogIO c)" "\<forall>g. r = Inr g \<longrightarrow> g = v" by blast
    have "hor_step h0 L T B G d d'" by (rule hor_step_trans [OF step kept_hor_step [OF g(2) ok1]])
    with g read before [OF ok] before [OF ok1] valid v v0 mono show ?thesis
      by (cases r) (auto simp: DistributedLog_CommittedCheck_def check_post_def Let_def)
  qed
qed

section \<open>Recording\<close>

lemma set_tree_post:
  assumes inv: "dlog_inv d" and ex: "\<forall>x \<in> set (xid # xids). dl_entry d x \<noteq> None"
  shows "\<exists>y. DistributedLog_SetCommittedTree d False xid xids g False = Some y \<and>
    dl_set_post d (xid # xids) g y"
proof -
  obtain r d1 where one: "DistributedLog_SetCommittedWithinAPage d [xid] g False = Some (r, d1)"
    "dl_set_post d [xid] g (r, d1)"
    using within_page_post [OF inv, of "[xid]" g] ex by fastforce
  show ?thesis
  proof (cases r)
    case (Inl e)
    with one(2) have "dl_set_post d (xid # xids) g (Inl e, d1)"
      unfolding dl_set_post_def dl_conflict_def prod.case by auto
    with one(1) Inl show ?thesis by (simp add: DistributedLog_SetCommittedTree_def)
  next
    case (Inr u)
    have "dlog_inv d1" using dl_set_postD(1) [OF one(2)] by (simp add: dl_same_def)
    moreover have "\<forall>x \<in> set xids. dl_entry d1 x \<noteq> None"
      using ex dl_set_postD(2) [OF one(2)] by (metis list.set_intros(2) not_Some_eq)
    ultimately obtain q d2 where rest: "DistributedLog_SetCommittedByPages d1 xids g False = Some (q, d2)"
      "dl_set_post d1 xids g (q, d2)" using by_pages_post by fastforce
    have "dl_set_post d ([xid] @ xids) g (q, d2)"
      by (rule dl_set_post_append [OF one(2) [unfolded Inr] rest(2)]) (use ex in simp)
    with one(1) Inr rest(1) show ?thesis by (simp add: DistributedLog_SetCommittedTree_def)
  qed
qed

text \<open>Recording a commit is what the other processes may do while a lookup or an advance is running.\<close>

lemma commit_hor_step:
  assumes ok: "hor_ok h0 L T B G d"
    and xs: "\<forall>x \<in> set (xid # xids). TransactionIdIsNormal x \<and> xid_pos h0 L \<le> xid_pos h0 x \<and>
      xid_pos h0 (dl_oldestXmin d) \<le> xid_pos h0 x \<and> xid_pos h0 x < xid_pos h0 T \<and> G x = g"
  shows "\<exists>r d'. DistributedLog_SetCommittedTree d False xid xids g False = Some (r, d') \<and>
    hor_step h0 L T B G d d' \<and> (\<forall>e. r = Inl e \<longrightarrow> (\<exists>c. e = DlogIO c))"
proof -
  have inv: "dlog_inv d" using ok by (simp add: hor_ok_def log_ok_def)
  have entry: "\<exists>v. dl_entry d x = Some v \<and> (v = G x \<or> v = 0 \<and> xid_pos h0 L \<le> xid_pos h0 x)"
    if "TransactionIdIsNormal x" "xid_pos h0 (dl_oldestXmin d) \<le> xid_pos h0 x" "xid_pos h0 x < xid_pos h0 T" for x
    using ok that by (simp add: hor_ok_def log_ok_def)
  have ex: "\<forall>x \<in> set (xid # xids). dl_entry d x \<noteq> None" using entry xs by fastforce
  obtain r d' where set: "DistributedLog_SetCommittedTree d False xid xids g False = Some (r, d')"
    and post: "dl_set_post d (xid # xids) g (r, d')"
    using set_tree_post [OF inv ex] by fastforce
  note same = dl_set_postD(1) [OF post] and change = dl_set_postD(2) [OF post]
  have no_conflict: "\<not> dl_conflict d (xid # xids) g"
    unfolding dl_conflict_def using entry xs by fastforce
  have "\<exists>v. dl_entry d' x = Some v \<and> (v = G x \<or> v = 0 \<and> xid_pos h0 L \<le> xid_pos h0 x)"
    if "TransactionIdIsNormal x" "xid_pos h0 (dl_oldestXmin d) \<le> xid_pos h0 x" "xid_pos h0 x < xid_pos h0 T" for x
    using entry [OF that] change xs by (metis (no_types, lifting))
  then have "hor_step h0 L T B G d d'"
    using ok same change by (auto simp: hor_step_def hor_ok_def log_ok_def dl_same_def)
  with set no_conflict dl_set_postD(4) [OF post] show ?thesis by auto
qed



section \<open>Replay of a truncation\<close>

lemma page_start_not_before:
  assumes "xid_pos (of_nat p * 4096) x < xid_window"
  shows "\<not> DistributedLog_PagePrecedes (TransactionIdToPage x) p"
proof -
  have "DistributedLog_PagePrecedes (TransactionIdToPage x) (TransactionIdToPage (of_nat p * 4096)) \<longleftrightarrow>
      DistributedLog_PagePrecedes (TransactionIdToPage x) p"
  proof -
    have "TransactionIdToEntry (of_nat p * 4096) = 0"
    proof -
      have "unat (of_nat (p * 4096) :: 32 word) = p * 4096 mod 2 ^ 32"
        by (simp only: unat_of_nat take_bit_eq_mod) simp
      then show ?thesis by (simp add: TransactionIdToEntry_def ENTRIES_PER_PAGE_def mod_mod_cancel)
    qed
    then show ?thesis using page_of_word [of "of_nat p * 4096"] by (simp add: PagePrecedes_alt)
  qed
  with page_not_before [of "of_nat p * 4096" x] assms show ?thesis by (simp add: xid_window_def)
qed

lemma latest_page_frame:
  "slru_page (s\<lparr>latest_page_number := n\<rparr>) p = slru_page s p"
  "slru_inv (s\<lparr>latest_page_number := n\<rparr>) = slru_inv s"
proof -
  have disk: "disk_page (s\<lparr>latest_page_number := n\<rparr>) q = disk_page s q" for q
    by (simp add: disk_page_def seg_file_def)
  show "slru_page (s\<lparr>latest_page_number := n\<rparr>) p = slru_page s p" by (simp add: slru_page_def disk split: option.split)
  show "slru_inv (s\<lparr>latest_page_number := n\<rparr>) = slru_inv s" by (simp add: slru_inv_def disk)
qed

text \<open>C23. Replaying a truncation of the primary on a hot standby returns and removes no entry at or
  after the standby's own horizon, however far the primary truncated (identifiers being less than
  half of their space apart, as everywhere).  The horizon does not move.\<close>

theorem redo_truncate_keeps_horizon:
  assumes "dlog_inv d" "TransactionIdIsValid (dl_oldestXmin d)"
  shows "\<exists>r d'. DistributedLog_redo d (DISTRIBUTEDLOG_TRUNCATE page) = Some (r, d') \<and> dlog_inv d' \<and>
    dl_oldestXmin d' = dl_oldestXmin d \<and>
    (\<forall>x v. dl_entry d x = Some v \<longrightarrow> xid_pos (dl_oldestXmin d) x < xid_window \<longrightarrow>
       DistributedLog_PagePrecedes (TransactionIdToPage (dl_oldestXmin d)) page \<or>
         xid_pos (of_nat page * 4096) x < xid_window \<longrightarrow>
       dl_entry d' x = Some v)"
proof -
  let ?s = "if DistributedLog_PagePrecedes (latest_page_number (dl_slru d)) page
    then (dl_slru d)\<lparr>latest_page_number := page\<rparr> else dl_slru d"
  let ?c = "redo_cutoff (dl_oldestXmin d) page"
  have inv: "slru_inv ?s" "PagePrecedes ?s = DistributedLog_PagePrecedes"
    and pages: "slru_page ?s p = slru_page (dl_slru d) p" for p
    using assms(1) by (simp_all add: dlog_inv_def latest_page_frame)
  from dpo.truncate_total [OF inv] obtain e t where
    t: "SimpleLruTruncate ?s ?c = Some (e, t)" "truncate_post ?s ?c t" by blast
  have before: "\<not> DistributedLog_PagePrecedes (TransactionIdToPage x) ?c"
    if "xid_pos (dl_oldestXmin d) x < xid_window"
      "DistributedLog_PagePrecedes (TransactionIdToPage (dl_oldestXmin d)) page \<or>
        xid_pos (of_nat page * 4096) x < xid_window" for x
    using that assms(2) page_not_before [of "dl_oldestXmin d" x] page_start_not_before [of page x]
    by (auto simp: redo_cutoff_def xid_window_def)
  have "dl_entry (d\<lparr>dl_slru := t\<rparr>) x = Some v"
    if "dl_entry d x = Some v" "\<not> DistributedLog_PagePrecedes (TransactionIdToPage x) ?c" for x v
    using that t(2) pages inv(2) by (auto simp: dl_entry_def truncate_post_def)
  moreover have "dlog_inv (d\<lparr>dl_slru := t\<rparr>)"
    using t(2) assms(1) by (auto simp: dlog_inv_def truncate_post_def slru_frame_def split: if_splits)
  ultimately show ?thesis using t(1) before by (cases e) (auto simp: Let_def)
qed

text \<open>
  Three pages in one file; the primary truncates before the third segment, the horizon of the
  standby is on the first page.
\<close>

definition ex_standby :: dlog where
  "ex_standby = ex_dlog\<lparr>dl_slru := (dl_slru ex_dlog)\<lparr>seg_files := [(0, [\<lambda>_. 5, \<lambda>_. 6])], latest_page_number := 70\<rparr>,
     dl_oldestXmin := 5000, dl_recovery := True\<rparr>"

lemma ex_standby_inv: "dlog_inv ex_standby"
  by (auto simp: dlog_inv_def slru_inv_def ex_standby_def ex_dlog_def less_Suc_eq)

lemma ex_standby_entry: "dl_entry ex_standby 6000 = Some 6"
  by code_simp

theorem redo_truncate_keeps_horizon_witness:
  "DistributedLog_PagePrecedes (TransactionIdToPage 6000) 64 \<and>
   (\<exists>r d'. DistributedLog_redo ex_standby (DISTRIBUTEDLOG_TRUNCATE 64) = Some (r, d') \<and>
      dl_entry d' 6000 = Some 6)"
proof
  show "DistributedLog_PagePrecedes (TransactionIdToPage 6000) 64" by code_simp
  have h: "TransactionIdIsValid (dl_oldestXmin ex_standby)"
    "DistributedLog_PagePrecedes (TransactionIdToPage (dl_oldestXmin ex_standby)) 64"
    "xid_pos (dl_oldestXmin ex_standby) 6000 < xid_window"
    by code_simp+
  from redo_truncate_keeps_horizon [OF ex_standby_inv h(1), of 64] ex_standby_entry h(2,3)
  show "\<exists>r d'. DistributedLog_redo ex_standby (DISTRIBUTEDLOG_TRUNCATE 64) = Some (r, d') \<and>
      dl_entry d' 6000 = Some 6" by blast
qed

end
