(* ===== verification/Dtx_Cache.thy ===== *)
theory Dtx_Cache
  imports Dlog
begin

text \<open>
  The process-local cache of committed pairs of local and distributed transactions
  (\<open>cdb/cdblocaldistribxact.c\<close>): a hash table with a doubly-linked list of its entries, the most
  recently used one first, and the state of a local transaction that takes part in a distributed
  one.  The hash table is a map, the list is the list of keys.
\<close>

section \<open>State of a participating transaction\<close>

datatype LocalDistribXactState =
    LOCALDISTRIBXACT_STATE_NONE
  | LOCALDISTRIBXACT_STATE_ACTIVE
  | LOCALDISTRIBXACT_STATE_COMMITTED
  | LOCALDISTRIBXACT_STATE_ABORTED
  | LOCALDISTRIBXACT_STATE_PREPARED

text \<open>\<open>None\<close> stands for the PANIC of an unexpected transition.\<close>

fun LocalDistribXact_ChangeState ::
  "LocalDistribXactState \<Rightarrow> LocalDistribXactState \<Rightarrow> LocalDistribXactState option" where
  "LocalDistribXact_ChangeState oldState LOCALDISTRIBXACT_STATE_PREPARED =
     (if oldState \<noteq> LOCALDISTRIBXACT_STATE_ACTIVE then None else Some LOCALDISTRIBXACT_STATE_PREPARED)"
| "LocalDistribXact_ChangeState oldState LOCALDISTRIBXACT_STATE_COMMITTED =
     (if oldState \<noteq> LOCALDISTRIBXACT_STATE_ACTIVE then None else Some LOCALDISTRIBXACT_STATE_COMMITTED)"
| "LocalDistribXact_ChangeState oldState LOCALDISTRIBXACT_STATE_ABORTED =
     (if oldState \<noteq> LOCALDISTRIBXACT_STATE_ACTIVE \<and> oldState \<noteq> LOCALDISTRIBXACT_STATE_ABORTED
      then None else Some LOCALDISTRIBXACT_STATE_ABORTED)"
| "LocalDistribXact_ChangeState oldState LOCALDISTRIBXACT_STATE_ACTIVE = None"
| "LocalDistribXact_ChangeState oldState LOCALDISTRIBXACT_STATE_NONE = None"

section \<open>The cache\<close>

record LocalDistribXactCacheEntry =
  distribXid :: DistributedTransactionId
  visits :: "64 word"

record LocalDistribXactCache =
  cache_created :: bool
  cache_htab :: "TransactionId \<rightharpoonup> LocalDistribXactCacheEntry"
  cache_lru :: "TransactionId list"
  cache_count :: int
  hitCount :: "64 word"
  totalCount :: "64 word"
  addCount :: "64 word"
  removeCount :: "64 word"

datatype cache_error = CacheDuplicate

definition cache_init :: "bool \<Rightarrow> LocalDistribXactCache" where
  "cache_init created = \<lparr>cache_created = created, cache_htab = Map.empty, cache_lru = [], cache_count = 0,
     hitCount = 0, totalCount = 0, addCount = 0, removeCount = 0\<rparr>"

text \<open>\<open>limit\<close> is the setting \<open>gp_max_local_distributed_cache\<close>; zero disables the cache.\<close>

definition LocalDistribXactCache_CommittedFind ::
  "int \<Rightarrow> LocalDistribXactCache \<Rightarrow> TransactionId \<Rightarrow> DistributedTransactionId option \<times> LocalDistribXactCache" where
  "LocalDistribXactCache_CommittedFind limit c localXid =
     (if limit = 0 then (None, c)
      else
        let c1 = (if cache_created c then c else cache_init True) in
        case cache_htab c1 localXid of
          None \<Rightarrow> (None, c1\<lparr>totalCount := totalCount c1 + 1\<rparr>)
        | Some e \<Rightarrow>
            (Some (distribXid e),
             c1\<lparr>cache_htab := (cache_htab c1)(localXid \<mapsto> e\<lparr>visits := visits e + 1\<rparr>),
                cache_lru := localXid # remove1 localXid (cache_lru c1),
                hitCount := hitCount c1 + 1, totalCount := totalCount c1 + 1\<rparr>))"

definition cache_remove_oldest :: "LocalDistribXactCache \<Rightarrow> LocalDistribXactCache" where
  "cache_remove_oldest c =
     (case rev (cache_lru c) of
        [] \<Rightarrow> c
      | x # xs \<Rightarrow> c\<lparr>cache_htab := (cache_htab c)(x := None), cache_lru := rev xs,
                    cache_count := cache_count c - 1, removeCount := removeCount c + 1\<rparr>)"

definition LocalDistribXactCache_AddCommitted ::
  "int \<Rightarrow> LocalDistribXactCache \<Rightarrow> TransactionId \<Rightarrow> DistributedTransactionId
   \<Rightarrow> (cache_error + unit) \<times> LocalDistribXactCache" where
  "LocalDistribXactCache_AddCommitted limit c localXid g =
     (if limit = 0 then (Inr (), c)
      else
        let c1 = (if cache_count c \<ge> limit then cache_remove_oldest c else c) in
        if cache_htab c1 localXid \<noteq> None then (Inl CacheDuplicate, c1)
        else
          (Inr (),
           c1\<lparr>cache_htab := (cache_htab c1)(localXid \<mapsto> \<lparr>distribXid = g, visits = 1\<rparr>),
              cache_lru := localXid # cache_lru c1,
              cache_count := cache_count c1 + 1, addCount := addCount c1 + 1\<rparr>))"

section \<open>Well-formedness\<close>

text \<open>
  The list holds the keys of the table, each once; the counter is their number and within the
  limit; the distributed transactions are valid.
\<close>

definition cache_ok :: "int \<Rightarrow> LocalDistribXactCache \<Rightarrow> bool" where
  "cache_ok limit c \<longleftrightarrow>
     distinct (cache_lru c) \<and> set (cache_lru c) = dom (cache_htab c) \<and>
     cache_count c = int (length (cache_lru c)) \<and> cache_count c \<le> limit \<and>
     (\<forall>e \<in> ran (cache_htab c). distribXid e \<noteq> 0) \<and>
     (\<not> cache_created c \<longrightarrow> cache_lru c = [])"

lemma cache_init_ok: "0 \<le> limit \<Longrightarrow> cache_ok limit (cache_init b)"
  by (simp add: cache_ok_def cache_init_def)

text \<open>What the cache answers for an identifier.\<close>

definition cache_lookup :: "LocalDistribXactCache \<Rightarrow> TransactionId \<Rightarrow> DistributedTransactionId option" where
  "cache_lookup c x = map_option distribXid (cache_htab c x)"

lemma find_ok:
  assumes ok: "cache_ok limit c" and find: "LocalDistribXactCache_CommittedFind limit c x = (r, c')"
  shows "cache_ok limit c'" "cache_lookup c' = cache_lookup c"
    "r = (if limit = 0 then None else cache_lookup c x)"
proof -
  let ?c1 = "if cache_created c then c else cache_init True"
  have lim: "0 \<le> limit" using ok by (auto simp: cache_ok_def)
  have empty: "cache_htab c = Map.empty" if "\<not> cache_created c"
    using ok that by (metis cache_ok_def dom_eq_empty_conv set_empty)
  have ok1: "cache_ok limit ?c1" using ok cache_init_ok [OF lim] by simp
  have same: "cache_htab ?c1 = cache_htab c" using empty by (simp add: cache_init_def)
  have "cache_ok limit c' \<and> cache_lookup c' = cache_lookup c \<and>
      r = (if limit = 0 then None else cache_lookup c x)"
  proof (cases "limit = 0 \<or> cache_htab c x = None")
    case True
    then have "r = None \<and> (c' = c \<or> limit \<noteq> 0 \<and> c' = ?c1\<lparr>totalCount := totalCount ?c1 + 1\<rparr>)"
      using find same by (auto simp: LocalDistribXactCache_CommittedFind_def Let_def split: if_splits)
    moreover have "cache_ok limit (?c1\<lparr>totalCount := n\<rparr>)" for n
      using ok1 by (simp add: cache_ok_def)
    moreover have "cache_lookup (?c1\<lparr>totalCount := n\<rparr>) = cache_lookup c" for n
      using same by (simp add: cache_lookup_def [abs_def])
    ultimately show ?thesis using ok True by (auto simp: cache_lookup_def)
  next
    case False
    then obtain e where e: "cache_htab c x = Some e" "limit \<noteq> 0" by auto
    then have x: "x \<in> set (cache_lru ?c1)" using ok1 same by (auto simp: cache_ok_def)
    have crt: "cache_created c" using empty e(1) by fastforce
    from e find have "r = Some (distribXid e)"
      and c': "c' = c\<lparr>cache_htab := (cache_htab c)(x \<mapsto> e\<lparr>visits := visits e + 1\<rparr>),
        cache_lru := x # remove1 x (cache_lru c), hitCount := hitCount c + 1, totalCount := totalCount c + 1\<rparr>"
      using crt by (simp_all add: LocalDistribXactCache_CommittedFind_def Let_def)
    have "length (x # remove1 x (cache_lru c)) = length (cache_lru c)"
      using x crt by (simp add: length_remove1) (metis Suc_pred length_pos_if_in_set)
    moreover have "distribXid e \<noteq> 0" using ok e(1) by (auto simp: cache_ok_def ran_def)
    ultimately have "cache_ok limit c'"
      using ok x crt unfolding c' cache_ok_def by (auto simp: ran_def split: if_splits)
    with e \<open>r = _\<close> c' show ?thesis by (auto simp: cache_lookup_def fun_eq_iff)
  qed
  then show "cache_ok limit c'" "cache_lookup c' = cache_lookup c"
    "r = (if limit = 0 then None else cache_lookup c x)" by simp_all
qed

lemma remove_oldest_ok:
  assumes ok: "cache_ok limit c" and full: "limit \<le> cache_count c" "limit \<noteq> 0"
  shows "cache_ok (limit - 1) (cache_remove_oldest c)" "cache_created (cache_remove_oldest c)"
    "cache_lru (cache_remove_oldest c) = butlast (cache_lru c)"
    "cache_lookup (cache_remove_oldest c) = (cache_lookup c)(last (cache_lru c) := None)"
proof -
  have ne: "cache_lru c \<noteq> []" using ok full by (auto simp: cache_ok_def)
  then obtain xs x where lru: "cache_lru c = xs @ [x]" by (metis rev_exhaust)
  have rm: "cache_remove_oldest c = c\<lparr>cache_htab := (cache_htab c)(x := None), cache_lru := xs,
      cache_count := cache_count c - 1, removeCount := removeCount c + 1\<rparr>"
    by (simp add: cache_remove_oldest_def lru)
  show "cache_ok (limit - 1) (cache_remove_oldest c)"
    using ok lru unfolding rm cache_ok_def by (auto simp: ran_def split: if_splits)
  show "cache_created (cache_remove_oldest c)" using ok ne rm by (auto simp: cache_ok_def)
  show "cache_lru (cache_remove_oldest c) = butlast (cache_lru c)" by (simp add: rm lru)
  show "cache_lookup (cache_remove_oldest c) = (cache_lookup c)(last (cache_lru c) := None)"
    by (auto simp: rm lru cache_lookup_def fun_eq_iff)
qed

lemma add_ok:
  assumes ok: "cache_ok limit c" and crt: "cache_created c \<or> limit = 0" and new: "cache_lookup c x = None"
    and g: "g \<noteq> 0" and add: "LocalDistribXactCache_AddCommitted limit c x g = (r, c')"
  shows "r = Inr ()" "cache_ok limit c'" "limit \<noteq> 0 \<Longrightarrow> cache_lookup c' x = Some g"
    "y \<noteq> x \<Longrightarrow> cache_lookup c' y = cache_lookup c y \<or>
       cache_lookup c' y = None \<and> int (length (cache_lru c)) = limit \<and> y = last (cache_lru c)"
proof -
  have "r = Inr () \<and> cache_ok limit c' \<and> (limit \<noteq> 0 \<longrightarrow> cache_lookup c' x = Some g) \<and>
    (\<forall>y. y \<noteq> x \<longrightarrow> cache_lookup c' y = cache_lookup c y \<or>
       cache_lookup c' y = None \<and> int (length (cache_lru c)) = limit \<and> y = last (cache_lru c))"
  proof (cases "limit = 0")
    case False
    define c1 where "c1 = (if limit \<le> cache_count c then cache_remove_oldest c else c)"
    have c1: "cache_ok (limit - 1) c1" "cache_created c1"
      using remove_oldest_ok [OF ok _ False] ok crt False by (auto simp: c1_def cache_ok_def)
    have look: "cache_lookup c1 y = cache_lookup c y \<or>
        cache_lookup c1 y = None \<and> int (length (cache_lru c)) = limit \<and> y = last (cache_lru c)" for y
      using remove_oldest_ok(4) [OF ok _ False] ok by (auto simp: c1_def cache_ok_def)
    have none: "cache_htab c1 x = None" using look [of x] new by (auto simp: cache_lookup_def)
    from add False none have r: "r = Inr ()"
      and c': "c' = c1\<lparr>cache_htab := (cache_htab c1)(x \<mapsto> \<lparr>distribXid = g, visits = 1\<rparr>),
        cache_lru := x # cache_lru c1, cache_count := cache_count c1 + 1, addCount := addCount c1 + 1\<rparr>"
      by (simp_all add: LocalDistribXactCache_AddCommitted_def c1_def [symmetric] Let_def)
    have "cache_ok limit c'" using c1 none g unfolding c' cache_ok_def by (auto simp: ran_def split: if_splits)
    with r look show ?thesis by (auto simp: c' cache_lookup_def)
  qed (use add ok in \<open>simp add: LocalDistribXactCache_AddCommitted_def\<close>)
  then show "r = Inr ()" "cache_ok limit c'" "limit \<noteq> 0 \<Longrightarrow> cache_lookup c' x = Some g"
    "y \<noteq> x \<Longrightarrow> cache_lookup c' y = cache_lookup c y \<or>
       cache_lookup c' y = None \<and> int (length (cache_lru c)) = limit \<and> y = last (cache_lru c)" by auto
qed

section \<open>Use of the cache\<close>

text \<open>
  A process looks identifiers up and adds the pairs it did not find, as the visibility test does:
  \<open>found g\<close> is what the distributed log has for an identifier the cache does not hold.
\<close>

definition cache_use ::
  "int \<Rightarrow> (TransactionId \<Rightarrow> DistributedTransactionId option) \<Rightarrow> LocalDistribXactCache \<Rightarrow> TransactionId
   \<Rightarrow> (cache_error + DistributedTransactionId option) \<times> LocalDistribXactCache" where
  "cache_use limit found c x =
     (case LocalDistribXactCache_CommittedFind limit c x of
        (Some g, c1) \<Rightarrow> (Inr (Some g), c1)
      | (None, c1) \<Rightarrow>
          (case found x of
             None \<Rightarrow> (Inr None, c1)
           | Some g \<Rightarrow>
               (case LocalDistribXactCache_AddCommitted limit c1 x g of
                  (Inl e, c2) \<Rightarrow> (Inl e, c2)
                | (Inr _, c2) \<Rightarrow> (Inr (Some g), c2))))"

fun cache_run ::
  "int \<Rightarrow> (TransactionId \<Rightarrow> DistributedTransactionId option) \<Rightarrow> LocalDistribXactCache \<Rightarrow> TransactionId list
   \<Rightarrow> (cache_error + DistributedTransactionId option) list \<times> LocalDistribXactCache" where
  "cache_run limit found c [] = ([], c)"
| "cache_run limit found c (x # xs) =
     (case cache_use limit found c x of
        (r, c1) \<Rightarrow> (case cache_run limit found c1 xs of (rs, c2) \<Rightarrow> (r # rs, c2)))"

definition cache_agrees :: "(TransactionId \<Rightarrow> DistributedTransactionId option) \<Rightarrow> LocalDistribXactCache \<Rightarrow> bool" where
  "cache_agrees found c \<longleftrightarrow> (\<forall>x g. cache_lookup c x = Some g \<longrightarrow> found x = Some g)"

lemma find_created:
  assumes "LocalDistribXactCache_CommittedFind limit c x = (r, c')" "limit \<noteq> 0"
  shows "cache_created c'"
  using assms by (auto simp: LocalDistribXactCache_CommittedFind_def Let_def cache_init_def
      split: option.splits if_splits)

lemma cache_use_ok:
  assumes ok: "cache_ok limit c" and agrees: "cache_agrees found c" and valid: "\<forall>g. found x = Some g \<longrightarrow> g \<noteq> 0"
    and step: "cache_use limit found c x = (r, c')"
  shows "r = Inr (found x)" "cache_ok limit c'" "cache_agrees found c'"
proof -
  obtain q c1 where find: "LocalDistribXactCache_CommittedFind limit c x = (q, c1)" by fastforce
  note f = find_ok [OF ok find]
  have agrees1: "cache_agrees found c1" using agrees f(2) by (simp add: cache_agrees_def)
  have "r = Inr (found x) \<and> cache_ok limit c' \<and> cache_agrees found c'"
  proof (cases "q = None \<and> found x \<noteq> None")
    case False
    then have "r = Inr (if q = None then found x else q) \<and> c' = c1"
      using step find by (cases q) (auto simp: cache_use_def)
    moreover have "q \<noteq> None \<Longrightarrow> found x = q"
      using f(3) agrees by (auto simp: cache_agrees_def split: if_splits)
    ultimately show ?thesis using f(1) agrees1 by auto
  next
    case True
    then obtain g where g: "found x = Some g" "q = None" by auto
    obtain s c2 where add: "LocalDistribXactCache_AddCommitted limit c1 x g = (s, c2)" by fastforce
    show ?thesis
    proof (cases "limit = 0")
      case True
      with step find add g f agrees1 show ?thesis
        by (auto simp: cache_use_def LocalDistribXactCache_AddCommitted_def)
    next
      case False
      then have new: "cache_lookup c1 x = None" using f(2,3) g(2) by simp
      have crt: "cache_created c1 \<or> limit = 0" using find_created [OF find False] by simp
      have "g \<noteq> 0" using valid g(1) by simp
      note a = add_ok [OF f(1) crt new this add]
      have "cache_agrees found c2"
        unfolding cache_agrees_def
      proof (intro allI impI)
        fix y h assume h: "cache_lookup c2 y = Some h"
        show "found y = Some h"
        proof (cases "y = x")
          case True
          with a(3) [OF False] h g(1) show ?thesis by simp
        next
          case False
          then have "cache_lookup c1 y = Some h" using a(4) h by fastforce
          with agrees1 show ?thesis by (simp add: cache_agrees_def)
        qed
      qed
      with step find add g a(1,2) show ?thesis by (simp add: cache_use_def)
    qed
  qed
  then show "r = Inr (found x)" "cache_ok limit c'" "cache_agrees found c'" by auto
qed

text \<open>C22. However a process uses its cache of committed transactions, the cache stays well-formed: the
  list of recent use and the hash table hold the same identifiers, each once, no more of them than
  the limit, the counter is their number, and every cached distributed transaction is valid.  The
  error of a duplicate entry is never raised, and every answer is the one of the distributed
  log.\<close>

theorem cache_well_formed:
  assumes "\<forall>x g. found x = Some g \<longrightarrow> g \<noteq> 0" "cache_ok limit c" "cache_agrees found c"
    "cache_run limit found c xs = (rs, c')"
  shows "cache_ok limit c' \<and> cache_agrees found c' \<and> rs = map (\<lambda>x. Inr (found x)) xs"
  using assms(2-4)
proof (induction xs arbitrary: c rs)
  case (Cons x xs)
  obtain r c1 where step: "cache_use limit found c x = (r, c1)" by fastforce
  obtain qs c2 where rest: "cache_run limit found c1 xs = (qs, c2)" by fastforce
  have valid: "\<forall>g. found x = Some g \<longrightarrow> g \<noteq> 0" using assms(1) by simp
  note u = cache_use_ok [OF Cons.prems(1,2) valid step]
  have "c2 = c'" "rs = r # qs" using Cons.prems(3) step rest by simp_all
  with Cons.IH [OF u(2,3)] rest u(1) show ?case by simp
qed simp

definition ex_found :: "TransactionId \<Rightarrow> DistributedTransactionId option" where
  "ex_found x = (if x = 9 then None else Some 77)"

theorem cache_well_formed_witness:
  "cache_lru (snd (cache_run 2 ex_found (cache_init False) [5, 6, 5, 9, 7])) = [7, 5] \<and>
   cache_ok 2 (snd (cache_run 2 ex_found (cache_init False) [5, 6, 5, 9, 7]))"
proof
  show "cache_lru (snd (cache_run 2 ex_found (cache_init False) [5, 6, 5, 9, 7])) = [7, 5]" by code_simp
  have "\<forall>x g. ex_found x = Some g \<longrightarrow> g \<noteq> 0" by (auto simp: ex_found_def)
  moreover have "cache_ok 2 (cache_init False)" "cache_agrees ex_found (cache_init False)"
    by (rule cache_init_ok, simp) (simp add: cache_agrees_def cache_lookup_def cache_init_def)
  ultimately show "cache_ok 2 (snd (cache_run 2 ex_found (cache_init False) [5, 6, 5, 9, 7]))"
    using cache_well_formed [of ex_found 2 "cache_init False" "[5, 6, 5, 9, 7]"] by (metis prod.collapse)
qed

end
