(* ===== verification/Dtx_Snapshot.thy ===== *)
theory Dtx_Snapshot
  imports Dtx_Cache Dlog_Commit
begin

unbundle bit_operations_syntax

text \<open>
  Distributed snapshots on a segment (\<open>cdb/cdbdistributedsnapshot.c\<close>): their representation, their
  serialized form, and the test whether a local transaction is in progress for a distributed
  snapshot.  The elements of \<open>inProgressXidArray\<close> and of \<open>inProgressMappedLocalXids\<close> that are in
  use are lists; their lengths are the fields \<open>count\<close> and \<open>currentLocalXidsCount\<close>.
\<close>

section \<open>Snapshots\<close>

record DistributedSnapshot =
  xminAllDistributedSnapshots :: DistributedTransactionId
  distribSnapshotId :: "32 word"
  ds_xmin :: DistributedTransactionId
  ds_xmax :: DistributedTransactionId
  inProgressXidArray :: "DistributedTransactionId list"

record DistributedSnapshotWithLocalMapping =
  dslm_ds :: DistributedSnapshot
  minCachedLocalXid :: TransactionId
  maxCachedLocalXid :: TransactionId
  inProgressMappedLocalXids :: "TransactionId list"

datatype DistributedSnapshotCommitted =
    DISTRIBUTEDSNAPSHOT_COMMITTED_NONE
  | DISTRIBUTEDSNAPSHOT_COMMITTED_INPROGRESS
  | DISTRIBUTEDSNAPSHOT_COMMITTED_VISIBLE
  | DISTRIBUTEDSNAPSHOT_COMMITTED_UNKNOWN
  | DISTRIBUTEDSNAPSHOT_COMMITTED_IGNORE

definition DistributedSnapshot_Reset :: "DistributedSnapshot \<Rightarrow> DistributedSnapshot" where
  "DistributedSnapshot_Reset ds =
     ds\<lparr>xminAllDistributedSnapshots := 0, distribSnapshotId := 0, ds_xmin := 0, ds_xmax := 0,
        inProgressXidArray := []\<rparr>"

definition DistributedSnapshot_Copy :: "DistributedSnapshot \<Rightarrow> DistributedSnapshot \<Rightarrow> DistributedSnapshot" where
  "DistributedSnapshot_Copy target source =
     (let target1 = (DistributedSnapshot_Reset target)\<lparr>
            xminAllDistributedSnapshots := xminAllDistributedSnapshots source,
            distribSnapshotId := distribSnapshotId source, ds_xmin := ds_xmin source, ds_xmax := ds_xmax source\<rparr>
      in if length (inProgressXidArray source) = 0 then target1
         else target1\<lparr>inProgressXidArray := inProgressXidArray source\<rparr>)"

section \<open>Serialized form\<close>

text \<open>\<open>memcpy\<close> of an integer to and from a buffer, on a little-endian machine.\<close>

fun put_bytes :: "nat \<Rightarrow> 64 word \<Rightarrow> 8 word list" where
  "put_bytes 0 w = []"
| "put_bytes (Suc n) w = ucast w # put_bytes n (drop_bit 8 w)"

fun get_bytes :: "8 word list \<Rightarrow> 64 word" where
  "get_bytes [] = 0"
| "get_bytes (b # bs) = ucast b + push_bit 8 (get_bytes bs)"

lemma length_put_bytes [simp]: "length (put_bytes n w) = n"
  by (induction n arbitrary: w) simp_all

lemma get_put_bytes: "get_bytes (put_bytes n w) = take_bit (8 * n) w"
proof (induction n arbitrary: w)
  case (Suc n)
  let ?lo = "ucast (ucast w :: 8 word) :: 64 word" and ?hi = "push_bit 8 (take_bit (8 * n) (drop_bit 8 w)) :: 64 word"
  have "?lo AND ?hi = 0" by (rule bit_word_eqI) (auto simp: bit_simps)
  then have "?lo + ?hi = ?lo OR ?hi" by (rule disjunctive_add_eq_or)
  also have "\<dots> = take_bit (8 * Suc n) w" by (rule bit_word_eqI) (auto simp: bit_simps)
  finally show ?case by (simp add: Suc.IH)
qed simp

definition DistributedSnapshot_SerializeSize :: "DistributedSnapshot \<Rightarrow> nat" where
  "DistributedSnapshot_SerializeSize ds = 4 + 3 * 8 + 4 + 8 * length (inProgressXidArray ds)"

definition DistributedSnapshot_Serialize :: "DistributedSnapshot \<Rightarrow> 8 word list" where
  "DistributedSnapshot_Serialize ds =
     put_bytes 8 (xminAllDistributedSnapshots ds) @ put_bytes 4 (ucast (distribSnapshotId ds)) @
     put_bytes 8 (ds_xmin ds) @ put_bytes 8 (ds_xmax ds) @
     put_bytes 4 (of_nat (length (inProgressXidArray ds))) @
     concat (map (put_bytes 8) (inProgressXidArray ds))"

fun get_xids :: "nat \<Rightarrow> 8 word list \<Rightarrow> DistributedTransactionId list" where
  "get_xids 0 p = []"
| "get_xids (Suc n) p = get_bytes (take 8 p) # get_xids n (drop 8 p)"

text \<open>
  The snapshot read and the number of bytes consumed.  An array is read only when the count, a
  signed integer, is positive; the previous contents of the array play no role then.
\<close>

definition DistributedSnapshot_Deserialize :: "8 word list \<Rightarrow> DistributedSnapshot \<times> nat" where
  "DistributedSnapshot_Deserialize buf =
     (let count = (ucast (get_bytes (take 4 (drop 28 buf))) :: 32 word) in
      (\<lparr>xminAllDistributedSnapshots = get_bytes (take 8 buf),
        distribSnapshotId = ucast (get_bytes (take 4 (drop 8 buf))),
        ds_xmin = get_bytes (take 8 (drop 12 buf)),
        ds_xmax = get_bytes (take 8 (drop 20 buf)),
        inProgressXidArray = (if 0 < sint count then get_xids (unat count) (drop 32 buf) else [])\<rparr>,
       if 0 < sint count then 32 + 8 * unat count else 32))"

lemma length_put_xids: "length (concat (map (put_bytes 8) xs)) = 8 * length xs"
  by (induction xs) simp_all

lemma get_xids_concat: "get_xids (length xs) (concat (map (put_bytes 8) xs) @ rest) = xs"
  by (induction xs) (simp_all add: get_put_bytes take_bit_word_eq_self)

text \<open>C39. A segment reads back from the serialized form exactly the distributed snapshot that the
  coordinator wrote, consuming exactly the bytes written, whose number is the advertised size, for
  every snapshot with fewer than \<open>2 ^ 31\<close> transactions in progress.\<close>

theorem snapshot_round_trip:
  assumes "length (inProgressXidArray ds) < 2 ^ 31"
  shows "DistributedSnapshot_Deserialize (DistributedSnapshot_Serialize ds @ rest) =
     (ds, DistributedSnapshot_SerializeSize ds) \<and>
    length (DistributedSnapshot_Serialize ds) = DistributedSnapshot_SerializeSize ds"
proof -
  define n where "n = length (inProgressXidArray ds)"
  define xs where "xs = concat (map (put_bytes 8) (inProgressXidArray ds))"
  have size: "length xs = 8 * n" unfolding xs_def n_def by (rule length_put_xids)
  have count: "ucast (take_bit 32 (of_nat n :: 64 word)) = (of_nat n :: 32 word)"
    by (rule bit_word_eqI) (auto simp: bit_simps)
  have small: "sint (of_nat n :: 32 word) = int n" "unat (of_nat n :: 32 word) = n"
    using assms sint_small_nat [of n] by (simp_all add: n_def unat_of_nat_less)
  have xids: "get_xids n (xs @ rest) = inProgressXidArray ds"
    unfolding n_def xs_def by (rule get_xids_concat)
  have snap: "ucast (take_bit 32 (ucast (distribSnapshotId ds) :: 64 word)) = distribSnapshotId ds"
    by (rule bit_word_eqI) (auto simp: bit_simps)
  show ?thesis
    using xids
    by (simp add: DistributedSnapshot_Deserialize_def DistributedSnapshot_Serialize_def
        DistributedSnapshot_SerializeSize_def xs_def [symmetric] n_def [symmetric] get_put_bytes count small snap
        take_bit_word_eq_self size Let_def) (auto simp: n_def)
qed

definition ex_ds :: DistributedSnapshot where
  "ex_ds = \<lparr>xminAllDistributedSnapshots = 40, distribSnapshotId = 7, ds_xmin = 50, ds_xmax = 300,
     inProgressXidArray = [50, 257]\<rparr>"

theorem snapshot_round_trip_witness:
  "DistributedSnapshot_Deserialize (DistributedSnapshot_Serialize ex_ds) = (ex_ds, 48)"
  using snapshot_round_trip [of ex_ds "[]"] by (simp add: ex_ds_def DistributedSnapshot_SerializeSize_def)

section \<open>The visibility test\<close>

datatype dtx_error = DtxLog dlog_error | DtxCache cache_error

definition dslm_cached :: "DistributedSnapshotWithLocalMapping \<Rightarrow> TransactionId \<Rightarrow> bool" where
  "dslm_cached s localXid \<longleftrightarrow>
     0 < length (inProgressMappedLocalXids s) \<and>
     (localXid = minCachedLocalXid s \<or> localXid = maxCachedLocalXid s \<or>
      TransactionIdFollows localXid (minCachedLocalXid s) \<and> TransactionIdPrecedes localXid (maxCachedLocalXid s) \<and>
      list_ex (\<lambda>x. localXid = x) (inProgressMappedLocalXids s))"

text \<open>The scan of the sorted array, which stops at the first greater element.\<close>

fun in_progress_scan :: "DistributedTransactionId \<Rightarrow> DistributedTransactionId list \<Rightarrow> bool" where
  "in_progress_scan g [] \<longleftrightarrow> False"
| "in_progress_scan g (x # xs) \<longleftrightarrow> (if g = x then True else if g < x then False else in_progress_scan g xs)"

definition dslm_remember ::
  "DistributedSnapshotWithLocalMapping \<Rightarrow> TransactionId \<Rightarrow> DistributedSnapshotWithLocalMapping" where
  "dslm_remember s localXid =
     (if length (inProgressMappedLocalXids s) < length (inProgressXidArray (dslm_ds s))
      then s\<lparr>inProgressMappedLocalXids := inProgressMappedLocalXids s @ [localXid],
             minCachedLocalXid :=
               (if \<not> TransactionIdIsValid (minCachedLocalXid s) \<or>
                   TransactionIdPrecedes localXid (minCachedLocalXid s)
                then localXid else minCachedLocalXid s),
             maxCachedLocalXid :=
               (if \<not> TransactionIdIsValid (maxCachedLocalXid s) \<or>
                   TransactionIdFollows localXid (maxCachedLocalXid s)
                then localXid else maxCachedLocalXid s)\<rparr>
      else s)"

text \<open>The decision once the distributed transaction is known.\<close>

definition decide_committed ::
  "DistributedSnapshotWithLocalMapping \<Rightarrow> TransactionId \<Rightarrow> DistributedTransactionId \<Rightarrow> bool
   \<Rightarrow> DistributedSnapshotCommitted \<times> DistributedSnapshotWithLocalMapping" where
  "decide_committed s localXid g isVacuumCheck =
     (let ds = dslm_ds s in
      if g < xminAllDistributedSnapshots ds then (DISTRIBUTEDSNAPSHOT_COMMITTED_IGNORE, s)
      else if isVacuumCheck then (DISTRIBUTEDSNAPSHOT_COMMITTED_INPROGRESS, s)
      else if g < ds_xmin ds then (DISTRIBUTEDSNAPSHOT_COMMITTED_VISIBLE, s)
      else if ds_xmax ds \<le> g then (DISTRIBUTEDSNAPSHOT_COMMITTED_INPROGRESS, s)
      else if in_progress_scan g (inProgressXidArray ds)
      then (DISTRIBUTEDSNAPSHOT_COMMITTED_INPROGRESS, dslm_remember s localXid)
      else (DISTRIBUTEDSNAPSHOT_COMMITTED_VISIBLE, s))"

text \<open>
  \<open>limit\<close> is the size of the process-local cache, \<open>other\<close> what other processes do to the
  distributed log during the lookup.
\<close>

definition DistributedSnapshotWithLocalMapping_CommittedTest ::
  "int \<Rightarrow> (dlog \<Rightarrow> dlog) \<Rightarrow> DistributedSnapshotWithLocalMapping \<Rightarrow> LocalDistribXactCache \<Rightarrow> dlog
   \<Rightarrow> TransactionId \<Rightarrow> bool
   \<Rightarrow> ((dtx_error + DistributedSnapshotCommitted) \<times> DistributedSnapshotWithLocalMapping
       \<times> LocalDistribXactCache \<times> dlog) option" where
  "DistributedSnapshotWithLocalMapping_CommittedTest limit other s c d localXid isVacuumCheck =
     (if \<not> TransactionIdIsNormal localXid then Some (Inr DISTRIBUTEDSNAPSHOT_COMMITTED_IGNORE, s, c, d)
      else if dslm_cached s localXid then Some (Inr DISTRIBUTEDSNAPSHOT_COMMITTED_INPROGRESS, s, c, d)
      else
        case LocalDistribXactCache_CommittedFind limit c localXid of
          (Some g, c1) \<Rightarrow>
            (case decide_committed s localXid g isVacuumCheck of (r, s1) \<Rightarrow> Some (Inr r, s1, c1, d))
        | (None, c1) \<Rightarrow>
            (case DistributedLog_CommittedCheck d other localXid of
               None \<Rightarrow> None
             | Some (Inl e, d1) \<Rightarrow> Some (Inl (DtxLog e), s, c1, d1)
             | Some (Inr None, d1) \<Rightarrow> Some (Inr DISTRIBUTEDSNAPSHOT_COMMITTED_UNKNOWN, s, c1, d1)
             | Some (Inr (Some g), d1) \<Rightarrow>
                 (case LocalDistribXactCache_AddCommitted limit c1 localXid g of
                    (Inl e, c2) \<Rightarrow> Some (Inl (DtxCache e), s, c2, d1)
                  | (Inr _, c2) \<Rightarrow>
                      (case decide_committed s localXid g isVacuumCheck of
                         (r, s1) \<Rightarrow> Some (Inr r, s1, c2, d1)))))"

section \<open>Exactness\<close>

text \<open>
  A snapshot as the coordinator makes it: the array is sorted and within \<open>xmin\<close>, which is valid,
  and \<open>xmax\<close>.  The
  local transactions remembered in it belong to distributed transactions of the array.
\<close>

definition ds_ok :: "DistributedSnapshot \<Rightarrow> bool" where
  "ds_ok ds \<longleftrightarrow>
     sorted (inProgressXidArray ds) \<and> 0 < ds_xmin ds \<and> xminAllDistributedSnapshots ds \<le> ds_xmin ds \<and> ds_xmin ds \<le> ds_xmax ds \<and>
     (\<forall>g \<in> set (inProgressXidArray ds). ds_xmin ds \<le> g \<and> g < ds_xmax ds)"

definition ds_in_progress :: "DistributedSnapshot \<Rightarrow> DistributedTransactionId \<Rightarrow> bool" where
  "ds_in_progress ds g \<longleftrightarrow> ds_xmax ds \<le> g \<or> g \<in> set (inProgressXidArray ds)"

definition dslm_ok ::
  "(TransactionId \<Rightarrow> DistributedTransactionId) \<Rightarrow> DistributedSnapshotWithLocalMapping \<Rightarrow> bool" where
  "dslm_ok G s \<longleftrightarrow>
     ds_ok (dslm_ds s) \<and>
     (\<forall>x \<in> set (inProgressMappedLocalXids s). G x \<in> set (inProgressXidArray (dslm_ds s)) \<and> TransactionIdIsValid x) \<and>
     (if inProgressMappedLocalXids s = []
      then minCachedLocalXid s = InvalidTransactionId \<and> maxCachedLocalXid s = InvalidTransactionId
      else minCachedLocalXid s \<in> set (inProgressMappedLocalXids s) \<and>
           maxCachedLocalXid s \<in> set (inProgressMappedLocalXids s))"

lemma in_progress_scan_iff: "sorted xs \<Longrightarrow> in_progress_scan g xs \<longleftrightarrow> g \<in> set xs"
  by (induction xs) auto

lemma dslm_cached_in_progress:
  assumes "dslm_ok G s" "dslm_cached s x"
  shows "G x \<in> set (inProgressXidArray (dslm_ds s))"
  using assms by (auto simp: dslm_ok_def dslm_cached_def list_ex_iff split: if_splits)

lemma dslm_remember_ok:
  assumes "dslm_ok G s" "G x \<in> set (inProgressXidArray (dslm_ds s))" "TransactionIdIsValid x"
  shows "dslm_ok G (dslm_remember s x)"
  using assms
  by (auto simp: dslm_ok_def dslm_remember_def TransactionIdIsValid_def split: if_splits)

lemma decide_exact:
  assumes ok: "dslm_ok G s" and x: "TransactionIdIsNormal x" and dec: "decide_committed s x (G x) False = (r, s')"
  shows "r = DISTRIBUTEDSNAPSHOT_COMMITTED_INPROGRESS \<longleftrightarrow> ds_in_progress (dslm_ds s) (G x)"
    "r \<noteq> DISTRIBUTEDSNAPSHOT_COMMITTED_NONE" "dslm_ok G s'" "dslm_ds s' = dslm_ds s"
    "r = DISTRIBUTEDSNAPSHOT_COMMITTED_IGNORE \<Longrightarrow> G x < xminAllDistributedSnapshots (dslm_ds s)"
proof -
  have ds: "ds_ok (dslm_ds s)" using ok by (simp add: dslm_ok_def)
  have scan: "in_progress_scan (G x) (inProgressXidArray (dslm_ds s)) \<longleftrightarrow> G x \<in> set (inProgressXidArray (dslm_ds s))"
    using ds by (simp add: ds_ok_def in_progress_scan_iff)
  have valid: "TransactionIdIsValid x"
    using x by (auto simp: normal_unat TransactionIdIsValid_def InvalidTransactionId_def)
  show "r = DISTRIBUTEDSNAPSHOT_COMMITTED_INPROGRESS \<longleftrightarrow> ds_in_progress (dslm_ds s) (G x)"
    "r \<noteq> DISTRIBUTEDSNAPSHOT_COMMITTED_NONE"
    "r = DISTRIBUTEDSNAPSHOT_COMMITTED_IGNORE \<Longrightarrow> G x < xminAllDistributedSnapshots (dslm_ds s)"
    using dec ds by (auto simp: decide_committed_def Let_def scan ds_in_progress_def ds_ok_def split: if_splits)
  show "dslm_ok G s'" "dslm_ds s' = dslm_ds s"
    using dec ok dslm_remember_ok [OF ok _ valid]
    by (auto simp: decide_committed_def Let_def scan dslm_remember_def split: if_splits)
qed

definition cache_right ::
  "(TransactionId \<Rightarrow> DistributedTransactionId) \<Rightarrow> LocalDistribXactCache \<Rightarrow> bool" where
  "cache_right G c \<longleftrightarrow> (\<forall>x g. cache_lookup c x = Some g \<longrightarrow> g = G x)"

text \<open>The result of the test, and what it keeps.\<close>

definition test_post ::
  "TransactionId \<Rightarrow> TransactionId \<Rightarrow> TransactionId \<Rightarrow> DistributedTransactionId
   \<Rightarrow> (TransactionId \<Rightarrow> DistributedTransactionId) \<Rightarrow> int \<Rightarrow> DistributedSnapshotWithLocalMapping \<Rightarrow> dlog
   \<Rightarrow> TransactionId
   \<Rightarrow> (dtx_error + DistributedSnapshotCommitted) \<times> DistributedSnapshotWithLocalMapping
       \<times> LocalDistribXactCache \<times> dlog \<Rightarrow> bool" where
  "test_post h0 L T B G limit s d x = (\<lambda>(r, s', c', d').
     dslm_ok G s' \<and> dslm_ds s' = dslm_ds s \<and> cache_ok limit c' \<and> cache_right G c' \<and>
     hor_step h0 L T B G d d' \<and>
     (\<forall>e. r = Inl e \<longrightarrow> (\<exists>i. e = DtxLog (DlogIO i))) \<and>
     (r = Inr DISTRIBUTEDSNAPSHOT_COMMITTED_INPROGRESS \<longrightarrow> G x \<noteq> 0 \<and> ds_in_progress (dslm_ds s) (G x)) \<and>
     (r = Inr DISTRIBUTEDSNAPSHOT_COMMITTED_VISIBLE \<longrightarrow> G x \<noteq> 0) \<and>
     (r = Inr DISTRIBUTEDSNAPSHOT_COMMITTED_IGNORE \<longrightarrow> G x < xminAllDistributedSnapshots (dslm_ds s)) \<and>
     r \<noteq> Inr DISTRIBUTEDSNAPSHOT_COMMITTED_NONE \<and>
     (\<forall>v. r = Inr v \<longrightarrow> \<not> (xid_pos h0 L \<le> xid_pos h0 x \<and> dl_entry d x = Some 0) \<longrightarrow>
        (v = DISTRIBUTEDSNAPSHOT_COMMITTED_INPROGRESS \<longleftrightarrow> G x \<noteq> 0 \<and> ds_in_progress (dslm_ds s) (G x))))"

lemma test_post_decide:
  assumes "dslm_ok G s" "TransactionIdIsNormal x" "decide_committed s x (G x) False = (v, s')"
    "cache_ok limit c'" "cache_right G c'" "hor_step h0 L T B G d d'" "G x \<noteq> 0"
  shows "test_post h0 L T B G limit s d x (Inr v, s', c', d')"
  using assms decide_exact [OF assms(1-3)] by (simp add: test_post_def)

lemma test_miss:
  assumes x: "TransactionIdIsNormal x" "xid_pos h0 x < xid_pos h0 T"
    and ok: "hor_ok h0 L T B G d" and rely: "hor_rely h0 L T B G [other]"
    and s: "dslm_ok G s" "B \<le> ds_xmin (dslm_ds s)" and c: "cache_ok limit c1" "cache_right G c1"
    and crt: "cache_created c1 \<or> limit = 0" and new: "limit = 0 \<or> cache_lookup c1 x = None"
    and miss: "\<not> dslm_cached s x" and find: "LocalDistribXactCache_CommittedFind limit c x = (None, c1)"
  shows "\<exists>y. DistributedSnapshotWithLocalMapping_CommittedTest limit other s c d x False = Some y \<and>
    test_post h0 L T B G limit s d x y"
proof -
  obtain r d1 where chk: "DistributedLog_CommittedCheck d other x = Some (r, d1)"
    and post: "check_post h0 L T B G d x (r, d1)"
    using committed_check_total [OF x ok rely] by fastforce
  have ds: "ds_ok (dslm_ds s)" using s(1) by (simp add: dslm_ok_def)
  consider (err) e where "r = Inl e" | (none) "r = Inr None" | (some) g where "r = Inr (Some g)"
    by (metis not_Some_eq obj_sumE)
  then show ?thesis
  proof cases
    case err
    with post s(1) c have "test_post h0 L T B G limit s d x (Inl (DtxLog e), s, c1, d1)"
      by (auto simp: test_post_def check_post_def)
    with err miss x(1) find chk show ?thesis
      by (simp add: DistributedSnapshotWithLocalMapping_CommittedTest_def)
  next
    case none
    have "\<not> ds_in_progress (dslm_ds s) (G x)" if "G x < B"
      using that s(2) ds by (auto simp: ds_in_progress_def ds_ok_def)
    with none post s(1) c have "test_post h0 L T B G limit s d x (Inr DISTRIBUTEDSNAPSHOT_COMMITTED_UNKNOWN, s, c1, d1)"
      by (auto simp: test_post_def check_post_def)
    with none miss x(1) find chk show ?thesis
      by (simp add: DistributedSnapshotWithLocalMapping_CommittedTest_def)
  next
    case some
    then have g: "g = G x" "G x \<noteq> 0" and step: "hor_step h0 L T B G d d1"
      using post by (auto simp: check_post_def)
    obtain q c2 where add: "LocalDistribXactCache_AddCommitted limit c1 x g = (q, c2)" by fastforce
    have a: "q = Inr () \<and> cache_ok limit c2 \<and> cache_right G c2"
    proof (cases "limit = 0")
      case True
      with add c show ?thesis by (simp add: LocalDistribXactCache_AddCommitted_def)
    next
      case False
      with new have "cache_lookup c1 x = None" by simp
      note a = add_ok [OF c(1) crt this _ add]
      have "cache_lookup c2 y = Some h \<Longrightarrow> h = G y" for y h
        using a(3) a(4) [of y] False g c(2) by (cases "y = x") (auto simp: cache_right_def)
      with a(1,2) g show ?thesis by (simp add: cache_right_def)
    qed
    obtain v s' where dec: "decide_committed s x (G x) False = (v, s')" by fastforce
    from some miss x(1) find chk add a dec g test_post_decide [OF s(1) x(1) dec _ _ step g(2)] show ?thesis
      by (simp add: DistributedSnapshotWithLocalMapping_CommittedTest_def)
  qed
qed

lemma committed_test_total:
  assumes x: "TransactionIdIsNormal x" "xid_pos h0 x < xid_pos h0 T"
    and ok: "hor_ok h0 L T B G d" and rely: "hor_rely h0 L T B G [other]"
    and s: "dslm_ok G s" "B \<le> ds_xmin (dslm_ds s)" and c: "cache_ok limit c" "cache_right G c"
  shows "\<exists>y. DistributedSnapshotWithLocalMapping_CommittedTest limit other s c d x False = Some y \<and>
    test_post h0 L T B G limit s d x y"
proof -
  note refl = hor_step_refl [OF ok]
  have ds: "ds_ok (dslm_ds s)" using s(1) by (simp add: dslm_ok_def)
  obtain q c1 where find: "LocalDistribXactCache_CommittedFind limit c x = (q, c1)" by fastforce
  note f = find_ok [OF c(1) find]
  have right1: "cache_right G c1" using c(2) f(2) by (simp add: cache_right_def)
  consider (mapped) "dslm_cached s x" | (hit) g where "\<not> dslm_cached s x" "q = Some g"
    | (miss) "\<not> dslm_cached s x" "q = None" by (cases q) auto
  then show ?thesis
  proof cases
    case mapped
    have "G x \<in> set (inProgressXidArray (dslm_ds s))" by (rule dslm_cached_in_progress [OF s(1) mapped])
    with ds have "G x \<noteq> 0" "ds_in_progress (dslm_ds s) (G x)" by (auto simp: ds_ok_def ds_in_progress_def)
    with mapped x(1) s(1) c refl show ?thesis
      by (simp add: DistributedSnapshotWithLocalMapping_CommittedTest_def test_post_def)
  next
    case hit
    then have "cache_lookup c x = Some g" using f(3) by (simp split: if_splits)
    then have g: "g = G x" "G x \<noteq> 0" using c by (auto simp: cache_right_def cache_ok_def cache_lookup_def ran_def)
    obtain v s' where dec: "decide_committed s x (G x) False = (v, s')" by fastforce
    from hit x(1) find dec g test_post_decide [OF s(1) x(1) dec f(1) right1 refl g(2)] show ?thesis
      by (simp add: DistributedSnapshotWithLocalMapping_CommittedTest_def)
  next
    case miss
    have crt: "cache_created c1 \<or> limit = 0" using find_created [OF find] by blast
    have new: "limit = 0 \<or> cache_lookup c1 x = None" using f(2,3) miss(2) by (simp split: if_splits)
    from test_miss [OF x ok rely s f(1) right1 crt new miss(1)] find miss(2) show ?thesis by simp
  qed
qed

text \<open>C2. The visibility test of a segment decides exactly what the coordinator's snapshot says: for a
  local transaction whose commit is recorded, the answer is \<open>in progress\<close> if and only if the
  distributed transaction it committed as was in progress when the snapshot was taken.  This holds
  whatever the two caches hold, wherever the horizon of the log is, and while other processes
  record commits, advance the horizon and truncate the log.  The test always returns, only a
  failed I/O is an error, and the caches and the log stay right for the next test.\<close>

theorem visibility_exact:
  assumes "TransactionIdIsNormal x" "xid_pos h0 x < xid_pos h0 T"
    "hor_ok h0 L T B G d" "hor_rely h0 L T B G [other]"
    "dslm_ok G s" "B \<le> ds_xmin (dslm_ds s)" "cache_ok limit c" "cache_right G c"
  shows "\<exists>r s' c' d'.
    DistributedSnapshotWithLocalMapping_CommittedTest limit other s c d x False = Some (r, s', c', d') \<and>
    (\<forall>e. r = Inl e \<longrightarrow> (\<exists>i. e = DtxLog (DlogIO i))) \<and>
    (\<forall>v. r = Inr v \<longrightarrow> \<not> (xid_pos h0 L \<le> xid_pos h0 x \<and> dl_entry d x = Some 0) \<longrightarrow>
       (v = DISTRIBUTEDSNAPSHOT_COMMITTED_INPROGRESS \<longleftrightarrow> G x \<noteq> 0 \<and> ds_in_progress (dslm_ds s) (G x))) \<and>
    dslm_ok G s' \<and> dslm_ds s' = dslm_ds s \<and> cache_ok limit c' \<and> cache_right G c' \<and> hor_step h0 L T B G d d'"
proof -
  from committed_test_total [OF assms] obtain y where
    y: "DistributedSnapshotWithLocalMapping_CommittedTest limit other s c d x False = Some y"
      "test_post h0 L T B G limit s d x y" by (elim exE conjE)
  obtain r s' c' d' where eq: "y = (r, s', c', d')" by (cases y)
  note post = y(2) [unfolded eq test_post_def prod.case]
  from y(1) eq post show ?thesis
    by (intro exI [of _ r] exI [of _ s'] exI [of _ c'] exI [of _ d'] conjI) (simp only:, (elim conjE, assumption)+)
qed

definition ex_dslm :: DistributedSnapshotWithLocalMapping where
  "ex_dslm = \<lparr>dslm_ds = \<lparr>xminAllDistributedSnapshots = 50, distribSnapshotId = 1, ds_xmin = 50, ds_xmax = 70,
       inProgressXidArray = [50, 60, 65]\<rparr>,
     minCachedLocalXid = 0, maxCachedLocalXid = 0, inProgressMappedLocalXids = []\<rparr>"

text \<open>Identifier 7 committed as transaction 60, while another process advances the horizon.\<close>

theorem visibility_exact_witness:
  "map_option fst (DistributedSnapshotWithLocalMapping_CommittedTest 2 ex_other ex_dslm (cache_init False) ex_dlog 7 False)
     = Some (Inr DISTRIBUTEDSNAPSHOT_COMMITTED_INPROGRESS) \<and>
   (\<exists>r s' c' d'. DistributedSnapshotWithLocalMapping_CommittedTest 2 ex_other ex_dslm (cache_init False) ex_dlog 7 False
       = Some (r, s', c', d') \<and> dslm_ok ex_gxid s' \<and> hor_step 3 10 20 50 ex_gxid ex_dlog d')"
proof
  show "map_option fst
      (DistributedSnapshotWithLocalMapping_CommittedTest 2 ex_other ex_dslm (cache_init False) ex_dlog 7 False)
     = Some (Inr DISTRIBUTEDSNAPSHOT_COMMITTED_INPROGRESS)" by code_simp
  have L: "TransactionIdIsNormal 10" "xid_pos 3 10 < xid_window"
    by (simp_all add: TransactionIdIsNormal_def FirstNormalTransactionId_def xid_window_def xid_pos_def)
  have rely: "hor_rely 3 10 20 50 ex_gxid [ex_other]"
    using advance_rely [OF L, where X = 45 and B = 50 and T = 20 and G = ex_gxid] by (simp add: ex_other_def [abs_def])
  have x: "TransactionIdIsNormal 7" "xid_pos 3 7 < xid_pos 3 20"
    by (simp_all add: TransactionIdIsNormal_def FirstNormalTransactionId_def xid_pos_def)
  have s: "dslm_ok ex_gxid ex_dslm" "50 \<le> ds_xmin (dslm_ds ex_dslm)"
    by (simp_all add: dslm_ok_def ds_ok_def ex_dslm_def InvalidTransactionId_def)
  have c: "cache_ok 2 (cache_init False)" "cache_right ex_gxid (cache_init False)"
    by (rule cache_init_ok, simp) (simp add: cache_right_def cache_lookup_def cache_init_def)
  from visibility_exact [OF x ex_hor_ok rely s c]
  show "\<exists>r s' c' d'. DistributedSnapshotWithLocalMapping_CommittedTest 2 ex_other ex_dslm (cache_init False) ex_dlog 7 False
       = Some (r, s', c', d') \<and> dslm_ok ex_gxid s' \<and> hor_step 3 10 20 50 ex_gxid ex_dlog d'" by blast
qed

end
