(* ===== verification/Subtrans.thy ===== *)
theory Subtrans
  imports Transam Slru_Client "HOL-Library.Code_Target_Nat"
begin

text \<open>
  The log of subtransaction parents (\<open>access/transam/subtrans.c\<close>), a client of the SLRU buffer
  manager.  Beside the parent, an entry holds the topmost parent, so that a lookup needs one page
  instead of a walk along the parents.

  The property at the end: the stored topmost parent is the end of the chain of parents, for every
  history in which a transaction gets its parent before it becomes the parent of another.
\<close>

section \<open>Model\<close>

datatype SubTransData = SubTransData (sub_parent: TransactionId) (topMostParent: TransactionId)

instantiation SubTransData :: zero
begin

definition zero_SubTransData :: SubTransData where
  "0 = SubTransData 0 0"

instance ..

end

type_synonym 'r subtrans_result = "((SlruErrorCause + 'r) \<times> SubTransData slru) option"

definition SUBTRANS_XACTS_PER_PAGE :: nat where
  "SUBTRANS_XACTS_PER_PAGE = 4096"

definition SubTransToPage :: "TransactionId \<Rightarrow> nat" where
  "SubTransToPage xid = unat xid div SUBTRANS_XACTS_PER_PAGE"

definition SubTransToEntry :: "TransactionId \<Rightarrow> nat" where
  "SubTransToEntry xid = unat xid mod SUBTRANS_XACTS_PER_PAGE"

definition SubTransGetData :: "SubTransData slru \<Rightarrow> TransactionId \<Rightarrow> SubTransData subtrans_result" where
  "SubTransGetData s xid =
     (if \<not> TransactionIdIsNormal xid then Some (Inr (SubTransData InvalidTransactionId xid), s)
      else
        case SimpleLruReadPage_ReadOnly s (SubTransToPage xid) of
          None \<Rightarrow> None
        | Some (Inl e, s') \<Rightarrow> Some (Inl e, s')
        | Some (Inr slotno, s') \<Rightarrow>
            (let ptr = page_buffer (slot_at s' slotno) (SubTransToEntry xid) in
             Some (Inr (SubTransData (sub_parent ptr)
                     (if topMostParent ptr = InvalidTransactionId then xid else topMostParent ptr)), s')))"

definition SubTransSetParent ::
  "SubTransData slru \<Rightarrow> TransactionId \<Rightarrow> TransactionId \<Rightarrow> unit subtrans_result" where
  "SubTransSetParent s xid par =
     (case (if par \<noteq> InvalidTransactionId then SubTransGetData s par
            else Some (Inr (SubTransData InvalidTransactionId InvalidTransactionId), s)) of
        None \<Rightarrow> None
      | Some (Inl e, s1) \<Rightarrow> Some (Inl e, s1)
      | Some (Inr subData, s1) \<Rightarrow>
          (case SimpleLruReadPage s1 (SubTransToPage xid) True of
             None \<Rightarrow> None
           | Some (Inl e, s2) \<Rightarrow> Some (Inl e, s2)
           | Some (Inr slotno, s2) \<Rightarrow>
               (if sub_parent (page_buffer (slot_at s2 slotno) (SubTransToEntry xid)) \<noteq> par
                then Some (Inr (), slru_store s2 slotno (SubTransToEntry xid)
                       (SubTransData par (topMostParent subData)))
                else Some (Inr (), s2))))"

definition SubTransGetParent :: "SubTransData slru \<Rightarrow> TransactionId \<Rightarrow> TransactionId subtrans_result" where
  "SubTransGetParent s xid =
     map_option (\<lambda>(r, s'). (map_sum id sub_parent r, s')) (SubTransGetData s xid)"

definition SubTransGetTopmostTransaction :: "SubTransData slru \<Rightarrow> TransactionId \<Rightarrow> TransactionId subtrans_result" where
  "SubTransGetTopmostTransaction s xid =
     map_option (\<lambda>(r, s'). (map_sum id topMostParent r, s')) (SubTransGetData s xid)"

definition ZeroSUBTRANSPage :: "SubTransData slru \<Rightarrow> nat \<Rightarrow> nat subtrans_result" where
  "ZeroSUBTRANSPage s pageno = SimpleLruZeroPage s pageno"

definition BootStrapSUBTRANS :: "SubTransData slru \<Rightarrow> unit subtrans_result" where
  "BootStrapSUBTRANS s =
     (case ZeroSUBTRANSPage s 0 of
        None \<Rightarrow> None
      | Some (Inl e, s1) \<Rightarrow> Some (Inl e, s1)
      | Some (Inr slotno, s1) \<Rightarrow>
          (case SimpleLruWritePage s1 slotno of
             (Some e, s2) \<Rightarrow> Some (Inl e, s2)
           | (None, s2) \<Rightarrow> Some (Inr (), s2)))"

definition MaxSubTransPage :: nat where
  "MaxSubTransPage = SubTransToPage (- 1)"

partial_function (option) startup_pages :: "SubTransData slru \<Rightarrow> nat \<Rightarrow> nat \<Rightarrow> unit subtrans_result" where
  "startup_pages s startPage endPage =
     (case ZeroSUBTRANSPage s startPage of
        None \<Rightarrow> None
      | Some (r, s1) \<Rightarrow>
          (case r of
             Inl e \<Rightarrow> Some (Inl e, s1)
           | Inr _ \<Rightarrow>
               (if startPage \<noteq> endPage
                then startup_pages s1 (if startPage + 1 > MaxSubTransPage then 0 else startPage + 1) endPage
                else Some (Inr (), s1))))"

definition StartupSUBTRANS :: "SubTransData slru \<Rightarrow> TransactionId \<Rightarrow> TransactionId \<Rightarrow> unit subtrans_result" where
  "StartupSUBTRANS s oldestActiveXID nextXid =
     startup_pages s (SubTransToPage oldestActiveXID) (SubTransToPage nextXid)"

definition ExtendSUBTRANS :: "SubTransData slru \<Rightarrow> TransactionId \<Rightarrow> unit subtrans_result" where
  "ExtendSUBTRANS s newestXact =
     (if SubTransToEntry newestXact \<noteq> 0 \<and> newestXact \<noteq> FirstNormalTransactionId then Some (Inr (), s)
      else map_option (\<lambda>(r, s'). (map_sum id (\<lambda>_. ()) r, s')) (ZeroSUBTRANSPage s (SubTransToPage newestXact)))"

definition SubTransPagePrecedes :: "nat \<Rightarrow> nat \<Rightarrow> bool" where
  "SubTransPagePrecedes page1 page2 =
     (let xid1 = of_nat page1 * of_nat SUBTRANS_XACTS_PER_PAGE + (FirstNormalTransactionId + 1);
          xid2 = of_nat page2 * of_nat SUBTRANS_XACTS_PER_PAGE + (FirstNormalTransactionId + 1)
      in TransactionIdPrecedes xid1 xid2 \<and>
         TransactionIdPrecedes xid1 (xid2 + of_nat SUBTRANS_XACTS_PER_PAGE - 1))"

text \<open>\<open>TransactionIdRetreat\<close> of \<open>access/transam.h\<close>: back by one, skipping the special identifiers.\<close>

definition TransactionIdRetreat :: "TransactionId \<Rightarrow> TransactionId" where
  "TransactionIdRetreat dest =
     (let dest' = dest - 1 in if dest' < FirstNormalTransactionId then - 1 else dest')"

definition TruncateSUBTRANS ::
  "SubTransData slru \<Rightarrow> TransactionId \<Rightarrow> (SlruErrorCause option \<times> SubTransData slru) option" where
  "TruncateSUBTRANS s oldestXact = SimpleLruTruncate s (SubTransToPage (TransactionIdRetreat oldestXact))"

definition SubTransXidRangeSurvivesStartup :: "TransactionId \<Rightarrow> TransactionId \<Rightarrow> bool" where
  "SubTransXidRangeSurvivesStartup xmax oldestActiveXID =
     (let lastPage = SubTransToPage (TransactionIdRetreat xmax);
          zeroedPage = SubTransToPage oldestActiveXID
      in lastPage \<noteq> zeroedPage \<and> SubTransPagePrecedes lastPage zeroedPage)"

section \<open>Entries\<close>

definition sub_entry :: "(nat \<rightharpoonup> SubTransData page) \<Rightarrow> TransactionId \<Rightarrow> SubTransData option" where
  "sub_entry m x = map_option (\<lambda>pg. pg (SubTransToEntry x)) (m (SubTransToPage x))"

lemma sub_page_entry_inj:
  assumes "SubTransToPage x = SubTransToPage y" "SubTransToEntry x = SubTransToEntry y"
  shows "x = y"
proof -
  have "unat x = unat y"
    using assms unfolding SubTransToPage_def SubTransToEntry_def by (metis div_mult_mod_eq)
  then show ?thesis by (simp add: word_unat_eq_iff)
qed

lemma get_data_total:
  assumes rel: "slru_rel s m"
  shows "\<exists>r s'. SubTransGetData s x = Some (r, s') \<and> slru_rel s' m \<and>
    (\<forall>d e. r = Inr d \<longrightarrow> TransactionIdIsNormal x \<longrightarrow> sub_entry m x = Some e \<longrightarrow>
       sub_parent d = sub_parent e \<and> topMostParent d = (if topMostParent e = 0 then x else topMostParent e))"
proof (cases "TransactionIdIsNormal x")
  case False
  with rel show ?thesis by (simp add: SubTransGetData_def)
next
  case True
  obtain r t where rd: "SimpleLruReadPage_ReadOnly s (SubTransToPage x) = Some (r, t)"
    and post: "read_post s (SubTransToPage x) (r, t)"
    using SimpleLruReadPage_ReadOnly_total rel unfolding slru_rel_def may_read_def by fastforce
  have rel': "slru_rel t m" using kept_rel [OF rel] post by (simp add: read_post_def)
  show ?thesis
  proof (cases r)
    case (Inl e)
    with True rd rel' show ?thesis by (simp add: SubTransGetData_def)
  next
    case (Inr i)
    have "page_buffer (slot_at t i) = pg" if "m (SubTransToPage x) = Some pg" for pg
      using read_post_page [OF post [unfolded Inr]] rel that by (simp add: slru_rel_def)
    with True rd rel' Inr show ?thesis
      by (auto simp: SubTransGetData_def Let_def sub_entry_def InvalidTransactionId_def)
  qed
qed

lemma read_store_total:
  assumes rel: "slru_rel s m" and pg: "m p = Some pg"
  shows "\<exists>r t. SimpleLruReadPage s p True = Some (r, t) \<and> slru_rel t m \<and>
    (\<forall>i. r = Inr i \<longrightarrow> page_buffer (slot_at t i) = pg \<and> slru_rel (slru_store t i n v) (m(p \<mapsto> pg(n := v))))"
proof -
  obtain r t where rd: "SimpleLruReadPage s p True = Some (r, t)" and post: "read_post s p (r, t)"
    using SimpleLruReadPage_total rel unfolding slru_rel_def may_read_def by fastforce
  have rel': "slru_rel t m" using kept_rel [OF rel] post by (simp add: read_post_def)
  have "page_buffer (slot_at t i) = pg \<and> slru_rel (slru_store t i n v) (m(p \<mapsto> pg(n := v)))" if "r = Inr i" for i
  proof -
    have i: "i < length (slru_slots t)" "slot_holds (slot_at t i) p" and inv: "slru_inv t"
      using post that by (simp_all add: read_post_def slru_kept_def)
    have eq: "page_buffer (slot_at t i) = pg"
      using rel' pg slru_page_slot [OF inv i] by (auto simp: slru_rel_def)
    with page_set_rel [OF rel' slru_store_set(1) [OF inv i slru_page_slot [OF inv i], of n v]] show ?thesis
      by simp
  qed
  with rd rel' show ?thesis by blast
qed

section \<open>Roots\<close>

text \<open>The end of the chain of parents.\<close>

inductive sub_root :: "(TransactionId \<rightharpoonup> TransactionId) \<Rightarrow> TransactionId \<Rightarrow> TransactionId \<Rightarrow> bool"
  for M where
  top: "M x = None \<Longrightarrow> sub_root M x x"
| up: "M x = Some p \<Longrightarrow> sub_root M p r \<Longrightarrow> sub_root M x r"

inductive_cases sub_rootE: "sub_root M x r"

lemma sub_root_unique: "sub_root M x r \<Longrightarrow> sub_root M x r' \<Longrightarrow> r = r'"
proof (induction arbitrary: r' rule: sub_root.induct)
  case (top x)
  from top.prems top.hyps show ?case by cases simp_all
next
  case (up x p r)
  from up.prems up.hyps(1) have "sub_root M p r'" by cases simp_all
  then show ?case by (rule up.IH)
qed

lemma sub_root_new:
  assumes "sub_root M y r" "M x = None" "x \<notin> ran M" "y \<noteq> x"
  shows "sub_root (M(x \<mapsto> p)) y r"
  using assms(1,4)
proof (induction rule: sub_root.induct)
  case (top y)
  then show ?case by (simp add: sub_root.top)
next
  case (up y q r)
  from up.hyps(1) assms(3) have "q \<noteq> x" by (auto simp: ran_def)
  with up show ?case by (simp add: sub_root.up)
qed

text \<open>The log represents the parents \<open>M\<close>: an entry has the parent, and the root of a child.\<close>

definition sub_repr :: "(nat \<rightharpoonup> SubTransData page) \<Rightarrow> (TransactionId \<rightharpoonup> TransactionId) \<Rightarrow> bool" where
  "sub_repr m M \<longleftrightarrow>
     (\<forall>x e. TransactionIdIsNormal x \<longrightarrow> sub_entry m x = Some e \<longrightarrow>
        (case M x of
           None \<Rightarrow> sub_parent e = 0 \<and> topMostParent e = 0
         | Some p \<Rightarrow> sub_parent e = p \<and> topMostParent e \<noteq> 0 \<and> sub_root M x (topMostParent e)))"

lemma sub_repr_root:
  assumes "sub_repr m M" "TransactionIdIsNormal x" "sub_entry m x = Some e"
  shows "sub_root M x (if topMostParent e = 0 then x else topMostParent e)"
    "(if topMostParent e = 0 then x else topMostParent e) \<noteq> 0"
  using assms by (fastforce simp: sub_repr_def normal_unat intro: sub_root.top split: option.splits)+

lemma sub_repr_set:
  assumes repr: "sub_repr m M" and pg: "m (SubTransToPage x) = Some pg"
    and new: "M x = None" "x \<notin> ran M" "x \<noteq> p" and root: "sub_root M p r" "r \<noteq> 0"
  shows "sub_repr (m(SubTransToPage x \<mapsto> pg(SubTransToEntry x := SubTransData p r))) (M(x \<mapsto> p))"
    (is "sub_repr ?m ?M")
  unfolding sub_repr_def
proof (intro allI impI)
  fix y e assume y: "TransactionIdIsNormal y" "sub_entry ?m y = Some e"
  show "case ?M y of None \<Rightarrow> sub_parent e = 0 \<and> topMostParent e = 0
      | Some q \<Rightarrow> sub_parent e = q \<and> topMostParent e \<noteq> 0 \<and> sub_root ?M y (topMostParent e)"
  proof (cases "y = x")
    case True
    then have "e = SubTransData p r" using y(2) by (simp add: sub_entry_def)
    moreover have "sub_root ?M x r"
      by (rule sub_root.up [where p = p]) (simp_all add: sub_root_new [OF root(1) new(1,2)] new(3) [symmetric])
    ultimately show ?thesis using True root(2) by simp
  next
    case False
    then have "sub_entry m y = Some e"
      using y(2) pg sub_page_entry_inj [of y x] by (auto simp: sub_entry_def split: if_splits)
    with repr y(1) False sub_root_new [OF _ new(1,2) False] show ?thesis
      by (auto simp: sub_repr_def split: option.splits)
  qed
qed

lemma set_parent_total:
  assumes rel: "slru_rel s m" and repr: "sub_repr m M" and norm: "TransactionIdIsNormal x" "TransactionIdIsNormal p"
    and new: "M x = None" "x \<notin> ran M" "x \<noteq> p"
    and pages: "m (SubTransToPage x) \<noteq> None" "m (SubTransToPage p) \<noteq> None"
  shows "\<exists>r s' m'. SubTransSetParent s x p = Some (r, s') \<and> slru_rel s' m' \<and> dom m' = dom m \<and>
    (r = Inr () \<longrightarrow> sub_repr m' (M(x \<mapsto> p))) \<and> (\<forall>e. r = Inl e \<longrightarrow> m' = m)"
proof -
  have p: "p \<noteq> InvalidTransactionId" using norm(2) by (auto simp: normal_unat InvalidTransactionId_def)
  obtain pg where pg: "m (SubTransToPage x) = Some pg" using pages(1) by auto
  obtain ep where ep: "sub_entry m p = Some ep" using pages(2) by (auto simp: sub_entry_def)
  have ex: "sub_entry m x = Some (pg (SubTransToEntry x))" using pg by (simp add: sub_entry_def)
  define root where "root = (if topMostParent ep = 0 then p else topMostParent ep)"
  obtain r1 s1 where get: "SubTransGetData s p = Some (r1, s1)" "slru_rel s1 m"
    "\<And>d. r1 = Inr d \<Longrightarrow> topMostParent d = root"
    using get_data_total [OF rel, of p] norm(2) ep unfolding root_def by blast
  obtain r2 s2 where rd: "SimpleLruReadPage s1 (SubTransToPage x) True = Some (r2, s2)" "slru_rel s2 m"
    "\<And>i. r2 = Inr i \<Longrightarrow> page_buffer (slot_at s2 i) = pg \<and>
      slru_rel (slru_store s2 i (SubTransToEntry x) (SubTransData p root))
        (m(SubTransToPage x \<mapsto> pg(SubTransToEntry x := SubTransData p root)))"
    using read_store_total [OF get(2) pg] by blast
  have zero: "sub_parent (pg (SubTransToEntry x)) = 0" using repr norm(1) ex new(1) by (auto simp: sub_repr_def)
  let ?m = "m(SubTransToPage x \<mapsto> pg(SubTransToEntry x := SubTransData p root))"
  have repr': "sub_repr ?m (M(x \<mapsto> p))"
    using sub_repr_set [OF repr pg new] sub_repr_root [OF repr norm(2) ep] by (simp add: root_def)
  have dom': "dom ?m = dom m" using pg by auto
  show ?thesis
  proof (cases "\<exists>d i. r1 = Inr d \<and> r2 = Inr i")
    case True
    then obtain d i where r: "r1 = Inr d" "r2 = Inr i" by blast
    have "SubTransSetParent s x p = Some (Inr (), slru_store s2 i (SubTransToEntry x) (SubTransData p root))"
      using p get(1,3) rd(1,3) r zero by (simp add: SubTransSetParent_def InvalidTransactionId_def)
    with rd(3) [OF r(2)] repr' dom' show ?thesis by blast
  next
    case False
    with p get rd show ?thesis
      by (cases r1; cases r2) (auto simp: SubTransSetParent_def)
  qed
qed

section \<open>Histories\<close>

text \<open>
  The use of the log by a server, on the pages \<open>P\<close>: lookups, new pages, and parents recorded for
  transactions that have none yet and are not the parent of another.
\<close>

inductive sub_hist :: "nat set \<Rightarrow> SubTransData slru \<Rightarrow> (TransactionId \<rightharpoonup> TransactionId) \<Rightarrow> bool" where
  start: "slru_rel s Map.empty \<Longrightarrow> sub_hist {} s Map.empty"
| zero: "sub_hist P s M \<Longrightarrow> p \<notin> P \<Longrightarrow> ZeroSUBTRANSPage s p = Some (Inr i, s') \<Longrightarrow>
    \<forall>x. SubTransToPage x = p \<longrightarrow> M x = None \<Longrightarrow> sub_hist (insert p P) s' M"
| zero_fails: "sub_hist P s M \<Longrightarrow> ZeroSUBTRANSPage s p = Some (Inl e, s') \<Longrightarrow> sub_hist P s' M"
| set: "sub_hist P s M \<Longrightarrow> TransactionIdIsNormal x \<Longrightarrow> TransactionIdIsNormal p \<Longrightarrow> x \<noteq> p \<Longrightarrow>
    SubTransToPage x \<in> P \<Longrightarrow> SubTransToPage p \<in> P \<Longrightarrow> M x = None \<Longrightarrow> x \<notin> ran M \<Longrightarrow>
    SubTransSetParent s x p = Some (Inr u, s') \<Longrightarrow> sub_hist P s' (M(x \<mapsto> p))"
| set_fails: "sub_hist P s M \<Longrightarrow> TransactionIdIsNormal x \<Longrightarrow> TransactionIdIsNormal p \<Longrightarrow> x \<noteq> p \<Longrightarrow>
    SubTransToPage x \<in> P \<Longrightarrow> SubTransToPage p \<in> P \<Longrightarrow> M x = None \<Longrightarrow> x \<notin> ran M \<Longrightarrow>
    SubTransSetParent s x p = Some (Inl e, s') \<Longrightarrow> sub_hist P s' M"
| get: "sub_hist P s M \<Longrightarrow> SubTransGetData s x = Some (r, s') \<Longrightarrow> sub_hist P s' M"

lemma zero_sub_page:
  assumes rel: "slru_rel s m" and repr: "sub_repr m M" and z: "ZeroSUBTRANSPage s p = Some (r, s')"
  shows "\<exists>m'. slru_rel s' m' \<and> (\<forall>i. r = Inr i \<longrightarrow> m' = m(p \<mapsto> zero_page)) \<and> (\<forall>e. r = Inl e \<longrightarrow> m' = m)"
proof -
  have "zero_post s p (r, s')"
    using SimpleLruZeroPage_total [of s p] rel z unfolding slru_rel_def may_read_def ZeroSUBTRANSPage_def by fastforce
  with rel page_set_rel [OF rel] kept_rel [OF rel] show ?thesis by (cases r) (auto simp: zero_post_def)
qed

lemma sub_repr_zero:
  assumes "sub_repr m M" "\<forall>x. SubTransToPage x = p \<longrightarrow> M x = None"
  shows "sub_repr (m(p \<mapsto> zero_page)) M"
  using assms unfolding sub_repr_def sub_entry_def
  by (auto simp: zero_page_def zero_SubTransData_def split: option.splits)

lemma sub_hist_repr: "sub_hist P s M \<Longrightarrow> \<exists>m. slru_rel s m \<and> dom m = P \<and> sub_repr m M"
proof (induction rule: sub_hist.induct)
  case (start s)
  then show ?case by (intro exI [of _ Map.empty]) (simp add: sub_repr_def sub_entry_def)
next
  case (zero P s M p i s')
  then obtain m where m: "slru_rel s m" "dom m = P" "sub_repr m M" by blast
  from zero_sub_page [OF m(1,3) zero.hyps(3)] sub_repr_zero [OF m(3) zero.hyps(4)] m(2) show ?case by auto
next
  case (zero_fails P s M p e s')
  then obtain m where m: "slru_rel s m" "dom m = P" "sub_repr m M" by blast
  from zero_sub_page [OF m(1,3) zero_fails.hyps(2)] m show ?case by auto
next
  case (set P s M x p u s')
  then obtain m where m: "slru_rel s m" "dom m = P" "sub_repr m M" by blast
  have "m (SubTransToPage x) \<noteq> None" "m (SubTransToPage p) \<noteq> None" using set.hyps(5,6) m(2) by auto
  from set_parent_total [OF m(1,3) set.hyps(2,3,7,8,4) this] obtain m' where
    "slru_rel s' m'" "dom m' = P" "sub_repr m' (M(x \<mapsto> p))" using set.hyps(9) m(2) by auto
  then show ?case by blast
next
  case (set_fails P s M x p e s')
  then obtain m where m: "slru_rel s m" "dom m = P" "sub_repr m M" by blast
  have "m (SubTransToPage x) \<noteq> None" "m (SubTransToPage p) \<noteq> None" using set_fails.hyps(5,6) m(2) by auto
  from set_parent_total [OF m(1,3) set_fails.hyps(2,3,7,8,4) this] set_fails.hyps(9) m show ?case by auto
next
  case (get P s M x r s')
  then obtain m where m: "slru_rel s m" "dom m = P" "sub_repr m M" by blast
  from get_data_total [OF m(1), of x] get.hyps(2) m(2,3) show ?case by auto
qed

lemma topmost_root:
  assumes "sub_hist P s M" "TransactionIdIsNormal x" "SubTransToPage x \<in> P"
  shows "\<exists>r s'. SubTransGetTopmostTransaction s x = Some (r, s') \<and> sub_hist P s' M \<and>
    (\<forall>t. r = Inr t \<longrightarrow> sub_root M x t \<and> (\<forall>t'. sub_root M x t' \<longrightarrow> t' = t))"
proof -
  obtain m where m: "slru_rel s m" "dom m = P" "sub_repr m M" using sub_hist_repr [OF assms(1)] by blast
  obtain e where e: "sub_entry m x = Some e" using assms(3) m(2) by (auto simp: sub_entry_def)
  obtain r s' where get: "SubTransGetData s x = Some (r, s')"
    "\<And>d. r = Inr d \<Longrightarrow> topMostParent d = (if topMostParent e = 0 then x else topMostParent e)"
    using get_data_total [OF m(1), of x] assms(2) e by blast
  have hist: "sub_hist P s' M" by (rule sub_hist.get [OF assms(1) get(1)])
  have "sub_root M x (topMostParent d)" if "r = Inr d" for d
    using sub_repr_root(1) [OF m(3) assms(2) e] get(2) [OF that] by simp
  with get(1) hist sub_root_unique show ?thesis
    by (cases r) (auto simp: SubTransGetTopmostTransaction_def)
qed

text \<open>C19. The topmost transaction of a transaction, which the log keeps in the entry of every
  subtransaction, is the one that following the parents one by one would find: whatever the
  history of recorded parents, of pages evicted from the buffers and read again, and of failed
  I/O.  The lookup always returns, and fails only when an I/O fails.\<close>

theorem topmost_is_root:
  assumes "sub_hist P s M" "TransactionIdIsNormal x" "SubTransToPage x \<in> P"
  shows "\<exists>r s'. SubTransGetTopmostTransaction s x = Some (r, s') \<and> sub_hist P s' M \<and>
    (\<forall>t. r = Inr t \<longrightarrow> sub_root M x t \<and> (\<forall>t'. sub_root M x t' \<longrightarrow> t' = t))"
  by (rule topmost_root [OF assms])

definition ex_sub_slot :: "SubTransData slru_slot" where
  "ex_sub_slot = \<lparr>page_buffer = zero_page, page_status = SLRU_PAGE_EMPTY, page_dirty = False,
     page_number = 0, page_lru_count = 0\<rparr>"

definition ex_sub0 :: "SubTransData slru" where
  "ex_sub0 = \<lparr>slru_slots = [ex_sub_slot, ex_sub_slot], cur_lru_count = 0, latest_page_number = 0,
     seg_files = [], io_faults = [], PagePrecedes = SubTransPagePrecedes, do_fsync = False,
     InRecovery = False\<rparr>"

definition ex_sub1 :: "SubTransData slru" where
  "ex_sub1 = snd (the (ZeroSUBTRANSPage ex_sub0 0))"

definition ex_sub2 :: "SubTransData slru" where
  "ex_sub2 = snd (the (SubTransSetParent ex_sub1 11 10))"

definition ex_sub3 :: "SubTransData slru" where
  "ex_sub3 = snd (the (SubTransSetParent ex_sub2 12 11))"

lemma some_pair: "map_option fst y = Some r \<Longrightarrow> y = Some (r, snd (the y))"
  by (cases y) auto

lemma ex_sub_hist: "sub_hist {0} ex_sub3 [11 \<mapsto> 10, 12 \<mapsto> 11]"
proof -
  have "page_status (slot_at ex_sub0 i) = SLRU_PAGE_EMPTY" if "i < 2" for i
    using that by (cases i) (auto simp: ex_sub0_def ex_sub_slot_def less_Suc_eq numeral_2_eq_2)
  then have "slru_rel ex_sub0 Map.empty" by (auto simp: slru_rel_def slru_inv_def ex_sub0_def)
  then have h0: "sub_hist {} ex_sub0 Map.empty" by (rule sub_hist.start)
  have "map_option fst (ZeroSUBTRANSPage ex_sub0 0) = Some (Inr 0)" by code_simp
  note z = some_pair [OF this, folded ex_sub1_def]
  have h1: "sub_hist {0} ex_sub1 Map.empty" using sub_hist.zero [OF h0 _ z] by simp
  have "map_option fst (SubTransSetParent ex_sub1 11 10) = Some (Inr ())" by code_simp
  note s1 = some_pair [OF this, folded ex_sub2_def]
  have pages: "SubTransToPage 10 = 0" "SubTransToPage 11 = 0" "SubTransToPage 12 = 0"
    "TransactionIdIsNormal 10" "TransactionIdIsNormal 11" "TransactionIdIsNormal 12"
    by (simp_all add: SubTransToPage_def SUBTRANS_XACTS_PER_PAGE_def TransactionIdIsNormal_def FirstNormalTransactionId_def)
  have h2: "sub_hist {0} ex_sub2 [11 \<mapsto> 10]" using sub_hist.set [OF h1 _ _ _ _ _ _ _ s1] pages by simp
  have "map_option fst (SubTransSetParent ex_sub2 12 11) = Some (Inr ())" by code_simp
  note s2 = some_pair [OF this, folded ex_sub3_def]
  show ?thesis using sub_hist.set [OF h2 _ _ _ _ _ _ _ s2] pages by simp
qed

theorem topmost_is_root_witness:
  "map_option fst (SubTransGetTopmostTransaction ex_sub3 12) = Some (Inr 10) \<and>
   (\<exists>r s'. SubTransGetTopmostTransaction ex_sub3 12 = Some (r, s') \<and>
      (\<forall>t. r = Inr t \<longrightarrow> sub_root [11 \<mapsto> 10, 12 \<mapsto> 11] 12 t))"
proof
  show "map_option fst (SubTransGetTopmostTransaction ex_sub3 12) = Some (Inr 10)" by code_simp
  have "TransactionIdIsNormal 12" "SubTransToPage 12 \<in> {0}"
    by (simp_all add: SubTransToPage_def SUBTRANS_XACTS_PER_PAGE_def TransactionIdIsNormal_def FirstNormalTransactionId_def)
  from topmost_is_root [OF ex_sub_hist this]
  show "\<exists>r s'. SubTransGetTopmostTransaction ex_sub3 12 = Some (r, s') \<and>
      (\<forall>t. r = Inr t \<longrightarrow> sub_root [11 \<mapsto> 10, 12 \<mapsto> 11] 12 t)" by blast
qed

end
