(* ===== verification/Mvcc_Snapshot.thy ===== *)
theory Mvcc_Snapshot
  imports Dtx_Snapshot Subtrans
begin

text \<open>
  Is a transaction in progress for a snapshot (\<open>XidInMVCCSnapshot\<close> and
  \<open>XidInMVCCSnapshot_Local\<close> of \<open>utils/time/snapmgr.c\<close>)?  A segment asks the distributed
  snapshot first, and its local snapshot when the distributed log does not know the transaction.
  The elements of the arrays \<open>xip\<close> and \<open>subxip\<close> that are in use are lists.
\<close>

section \<open>Model\<close>

record SnapshotData =
  snap_xmin :: TransactionId
  snap_xmax :: TransactionId
  xip :: "TransactionId list"
  subxip :: "TransactionId list"
  suboverflowed :: bool
  takenDuringRecovery :: bool
  haveDistribSnapshot :: bool
  distribSnapshotWithLocalMapping :: DistributedSnapshotWithLocalMapping

definition XidInMVCCSnapshot_Local ::
  "SubTransData slru \<Rightarrow> TransactionId \<Rightarrow> SnapshotData \<Rightarrow> bool subtrans_result" where
  "XidInMVCCSnapshot_Local s xid snapshot =
     (if TransactionIdPrecedes xid (snap_xmin snapshot) then Some (Inr False, s)
      else if TransactionIdFollowsOrEquals xid (snap_xmax snapshot) then Some (Inr True, s)
      else if \<not> takenDuringRecovery snapshot
      then
        (if \<not> suboverflowed snapshot
         then Some (Inr (list_ex (\<lambda>x. xid = x) (subxip snapshot) \<or> list_ex (\<lambda>x. xid = x) (xip snapshot)), s)
         else
           case SubTransGetTopmostTransaction s xid of
             None \<Rightarrow> None
           | Some (Inl e, s1) \<Rightarrow> Some (Inl e, s1)
           | Some (Inr topxid, s1) \<Rightarrow>
               Some (Inr (if TransactionIdPrecedes topxid (snap_xmin snapshot) then False
                          else list_ex (\<lambda>x. topxid = x) (xip snapshot)), s1))
      else if \<not> suboverflowed snapshot then Some (Inr (list_ex (\<lambda>x. xid = x) (subxip snapshot)), s)
      else
        case SubTransGetTopmostTransaction s xid of
          None \<Rightarrow> None
        | Some (Inl e, s1) \<Rightarrow> Some (Inl e, s1)
        | Some (Inr topxid, s1) \<Rightarrow>
            Some (Inr (if TransactionIdPrecedes topxid (snap_xmin snapshot) then False
                       else list_ex (\<lambda>x. topxid = x) (subxip snapshot)), s1))"

datatype XidInMVCCSnapshotCheckResult = XID_NOT_IN_SNAPSHOT | XID_IN_SNAPSHOT | XID_SURELY_COMMITTED

datatype mvcc_error = MvccDtx dtx_error | MvccSubtrans SlruErrorCause | MvccUnrecognized

text \<open>What the check reads and updates: the logs, the cache of the process, the snapshot's own cache.\<close>

record mvcc_state =
  mv_subtrans :: "SubTransData slru"
  mv_dlog :: dlog
  mv_cache :: LocalDistribXactCache
  mv_snapshot :: SnapshotData

type_synonym mvcc_result = "((mvcc_error + XidInMVCCSnapshotCheckResult \<times> bool) \<times> mvcc_state) option"

definition local_check :: "mvcc_state \<Rightarrow> TransactionId \<Rightarrow> bool \<Rightarrow> mvcc_result" where
  "local_check st xid ignore =
     (case XidInMVCCSnapshot_Local (mv_subtrans st) xid (mv_snapshot st) of
        None \<Rightarrow> None
      | Some (Inl e, s1) \<Rightarrow> Some (Inl (MvccSubtrans e), st\<lparr>mv_subtrans := s1\<rparr>)
      | Some (Inr b, s1) \<Rightarrow>
          Some (Inr (if b then XID_IN_SNAPSHOT else XID_NOT_IN_SNAPSHOT, ignore), st\<lparr>mv_subtrans := s1\<rparr>))"

text \<open>The switch on the answer of the distributed test.\<close>

fun after_distributed_test ::
  "dtx_error + DistributedSnapshotCommitted \<Rightarrow> TransactionId \<Rightarrow> mvcc_state \<Rightarrow> mvcc_result" where
  "after_distributed_test (Inl e) xid st = Some (Inl (MvccDtx e), st)"
| "after_distributed_test (Inr DISTRIBUTEDSNAPSHOT_COMMITTED_INPROGRESS) xid st =
     Some (Inr (XID_IN_SNAPSHOT, False), st)"
| "after_distributed_test (Inr DISTRIBUTEDSNAPSHOT_COMMITTED_VISIBLE) xid st =
     Some (Inr (XID_SURELY_COMMITTED, False), st)"
| "after_distributed_test (Inr DISTRIBUTEDSNAPSHOT_COMMITTED_IGNORE) xid st = local_check st xid True"
| "after_distributed_test (Inr DISTRIBUTEDSNAPSHOT_COMMITTED_UNKNOWN) xid st = local_check st xid False"
| "after_distributed_test (Inr DISTRIBUTEDSNAPSHOT_COMMITTED_NONE) xid st = Some (Inl MvccUnrecognized, st)"

text \<open>
  The result comes with the output argument \<open>setDistributedSnapshotIgnore\<close>.  \<open>is_qd\<close> is
  \<open>IS_QUERY_DISPATCHER()\<close>; \<open>limit\<close> and \<open>other\<close> are those of the distributed test.
\<close>

definition XidInMVCCSnapshot ::
  "bool \<Rightarrow> int \<Rightarrow> (dlog \<Rightarrow> dlog) \<Rightarrow> mvcc_state \<Rightarrow> TransactionId \<Rightarrow> bool \<Rightarrow> mvcc_result" where
  "XidInMVCCSnapshot is_qd limit other st xid distributedSnapshotIgnore =
     (let snapshot = mv_snapshot st in
      if haveDistribSnapshot snapshot \<and> \<not> distributedSnapshotIgnore \<and> \<not> is_qd
      then
        (if \<not> TransactionIdIsNormal xid then Some (Inr (XID_NOT_IN_SNAPSHOT, False), st)
         else if TransactionIdFollowsOrEquals xid (snap_xmax snapshot)
         then Some (Inr (XID_IN_SNAPSHOT, False), st)
         else
           case DistributedSnapshotWithLocalMapping_CommittedTest limit other
                  (distribSnapshotWithLocalMapping snapshot) (mv_cache st) (mv_dlog st) xid False of
             None \<Rightarrow> None
           | Some (r, s1, c1, d1) \<Rightarrow>
               after_distributed_test r xid
                 (st\<lparr>mv_dlog := d1, mv_cache := c1,
                     mv_snapshot := snapshot\<lparr>distribSnapshotWithLocalMapping := s1\<rparr>\<rparr>))
      else local_check st xid False)"

section \<open>Overflowed snapshots\<close>

text \<open>
  \<open>subs_of M R\<close>: the subtransactions of the running transactions \<open>R\<close>.
\<close>

definition subs_of :: "(TransactionId \<rightharpoonup> TransactionId) \<Rightarrow> TransactionId set \<Rightarrow> TransactionId set" where
  "subs_of M R = {x. M x \<noteq> None \<and> (\<exists>r \<in> R. sub_root M x r)}"

lemma sub_root_top: "M x = None \<Longrightarrow> sub_root M x r \<longleftrightarrow> r = x"
  by (auto intro: sub_root.top elim: sub_root.cases)

text \<open>C20. A snapshot that overflowed, so that it does not list the subtransactions of the running
  transactions and the log of parents is asked for the topmost transaction instead, gives the same
  answers as one with the full list, unless an I/O fails.\<close>

theorem overflow_same_answer:
  assumes hist: "sub_hist P s M" and x: "TransactionIdIsNormal x" "SubTransToPage x \<in> P"
    and tops: "\<forall>r \<in> set (xip snap). M r = None \<and> \<not> TransactionIdPrecedes r (snap_xmin snap)"
    and full: "set (subxip snap) = subs_of M (set (xip snap))"
    and snap: "\<not> takenDuringRecovery snap" "\<not> suboverflowed snap"
  shows "\<exists>r s'. XidInMVCCSnapshot_Local s x (snap\<lparr>subxip := sub, suboverflowed := True\<rparr>) = Some (r, s') \<and>
    sub_hist P s' M \<and> (\<forall>b. r = Inr b \<longrightarrow> XidInMVCCSnapshot_Local s x snap = Some (Inr b, s))"
proof -
  obtain r s' where top: "SubTransGetTopmostTransaction s x = Some (r, s')" "sub_hist P s' M"
    and root: "\<And>t. r = Inr t \<Longrightarrow> sub_root M x t"
    using topmost_root [OF hist x] by (elim exE conjE) simp
  have same: "t \<in> set (xip snap) \<longleftrightarrow> x \<in> set (subxip snap) \<or> x \<in> set (xip snap)" if "r = Inr t" for t
  proof (cases "M x")
    case None
    then have "t = x" "x \<notin> set (subxip snap)" using root [OF that] sub_root_top full by (auto simp: subs_of_def)
    then show ?thesis by simp
  next
    case (Some p)
    have "sub_root M x r' \<longleftrightarrow> r' = t" for r' using root [OF that] sub_root_unique by blast
    moreover have "x \<notin> set (xip snap)" using tops Some by auto
    ultimately show ?thesis using Some full by (simp add: subs_of_def)
  qed
  have low: "\<not> TransactionIdPrecedes t (snap_xmin snap)" if "t \<in> set (xip snap)" for t using tops that by blast
  show ?thesis
    using top same low hist snap
    by (cases r) (auto simp: XidInMVCCSnapshot_Local_def list_ex_iff)
qed

definition ex_snapshot :: SnapshotData where
  "ex_snapshot = \<lparr>snap_xmin = 10, snap_xmax = 20, xip = [10], subxip = [11, 12], suboverflowed = False,
     takenDuringRecovery = False, haveDistribSnapshot = True, distribSnapshotWithLocalMapping = ex_dslm\<rparr>"

theorem overflow_same_answer_witness:
  "map_option fst (XidInMVCCSnapshot_Local ex_sub3 12 (ex_snapshot\<lparr>subxip := [], suboverflowed := True\<rparr>)) =
     Some (Inr True) \<and>
   (\<exists>r s'. XidInMVCCSnapshot_Local ex_sub3 12 (ex_snapshot\<lparr>subxip := [], suboverflowed := True\<rparr>) = Some (r, s') \<and>
      (\<forall>b. r = Inr b \<longrightarrow> XidInMVCCSnapshot_Local ex_sub3 12 ex_snapshot = Some (Inr b, ex_sub3)))"
proof
  show "map_option fst (XidInMVCCSnapshot_Local ex_sub3 12 (ex_snapshot\<lparr>subxip := [], suboverflowed := True\<rparr>)) =
     Some (Inr True)" by code_simp
  let ?M = "[11 \<mapsto> 10, 12 \<mapsto> 11] :: TransactionId \<rightharpoonup> TransactionId"
  have r10: "sub_root ?M 10 10" by (rule sub_root.top) simp
  have r11: "sub_root ?M 11 10" by (rule sub_root.up [OF _ r10]) simp
  have r12: "sub_root ?M 12 10" by (rule sub_root.up [OF _ r11]) simp
  have x: "TransactionIdIsNormal 12" "SubTransToPage 12 \<in> {0}"
    by (simp_all add: SubTransToPage_def SUBTRANS_XACTS_PER_PAGE_def TransactionIdIsNormal_def FirstNormalTransactionId_def)
  have tops: "\<forall>r \<in> set (xip ex_snapshot). ?M r = None \<and> \<not> TransactionIdPrecedes r (snap_xmin ex_snapshot)"
    by (simp add: ex_snapshot_def TransactionIdPrecedes_def TransactionIdIsNormal_def FirstNormalTransactionId_def)
  have full: "set (subxip ex_snapshot) = subs_of ?M (set (xip ex_snapshot))"
    using r11 r12 by (auto simp: subs_of_def ex_snapshot_def split: if_splits)
  have "\<not> takenDuringRecovery ex_snapshot" "\<not> suboverflowed ex_snapshot" by (simp_all add: ex_snapshot_def)
  from overflow_same_answer [OF ex_sub_hist x tops full this, of "[]"]
  show "\<exists>r s'. XidInMVCCSnapshot_Local ex_sub3 12 (ex_snapshot\<lparr>subxip := [], suboverflowed := True\<rparr>) = Some (r, s') \<and>
      (\<forall>b. r = Inr b \<longrightarrow> XidInMVCCSnapshot_Local ex_sub3 12 ex_snapshot = Some (Inr b, ex_sub3))" by blast
qed

section \<open>Distributed visibility\<close>

lemma local_total:
  assumes "sub_hist P s M" "TransactionIdIsNormal x" "SubTransToPage x \<in> P"
  shows "\<exists>r s'. XidInMVCCSnapshot_Local s x snap = Some (r, s') \<and> sub_hist P s' M"
proof -
  obtain r s' where top: "SubTransGetTopmostTransaction s x = Some (r, s')" "sub_hist P s' M"
    using topmost_root [OF assms] by (elim exE conjE) simp
  then show ?thesis using assms(1) by (cases r) (auto simp: XidInMVCCSnapshot_Local_def)
qed

lemma local_check_total:
  assumes "sub_hist P (mv_subtrans st) M" "TransactionIdIsNormal x" "SubTransToPage x \<in> P"
  shows "\<exists>r st'. local_check st x ig = Some (r, st') \<and> sub_hist P (mv_subtrans st') M \<and>
    mv_dlog st' = mv_dlog st \<and> mv_cache st' = mv_cache st \<and> mv_snapshot st' = mv_snapshot st \<and>
    (\<forall>v i. r = Inr (v, i) \<longrightarrow> v \<noteq> XID_SURELY_COMMITTED \<and> i = ig) \<and> (\<forall>e. r = Inl e \<longrightarrow> (\<exists>c. e = MvccSubtrans c))"
proof -
  obtain r s' where "XidInMVCCSnapshot_Local (mv_subtrans st) x (mv_snapshot st) = Some (r, s')" "sub_hist P s' M"
    using local_total [OF assms] by blast
  then show ?thesis by (cases r) (auto simp: local_check_def)
qed

definition mvcc_ok ::
  "TransactionId \<Rightarrow> TransactionId \<Rightarrow> TransactionId \<Rightarrow> DistributedTransactionId
   \<Rightarrow> (TransactionId \<Rightarrow> DistributedTransactionId) \<Rightarrow> int \<Rightarrow> nat set \<Rightarrow> (TransactionId \<rightharpoonup> TransactionId)
   \<Rightarrow> mvcc_state \<Rightarrow> bool" where
  "mvcc_ok h0 L T B G limit P M st \<longleftrightarrow>
     hor_ok h0 L T B G (mv_dlog st) \<and> cache_ok limit (mv_cache st) \<and> cache_right G (mv_cache st) \<and>
     dslm_ok G (distribSnapshotWithLocalMapping (mv_snapshot st)) \<and>
     B \<le> ds_xmin (dslm_ds (distribSnapshotWithLocalMapping (mv_snapshot st))) \<and> sub_hist P (mv_subtrans st) M"

abbreviation mv_ds :: "mvcc_state \<Rightarrow> DistributedSnapshot" where
  "mv_ds st \<equiv> dslm_ds (distribSnapshotWithLocalMapping (mv_snapshot st))"

lemma mvcc_ok_after_local:
  assumes "mvcc_ok h0 L T B G limit P M st" "sub_hist P (mv_subtrans st') M"
    "mv_dlog st' = mv_dlog st" "mv_cache st' = mv_cache st" "mv_snapshot st' = mv_snapshot st"
  shows "mvcc_ok h0 L T B G limit P M st'"
  using assms by (simp add: mvcc_ok_def)

text \<open>What the switch yields, for the answer \<open>r\<close> of a test on the snapshot \<open>ds\<close>.\<close>

lemma after_test_post:
  assumes ok: "mvcc_ok h0 L T B G limit P M st" and x: "TransactionIdIsNormal x" "SubTransToPage x \<in> P"
    and exact: "\<And>v. r = Inr v \<longrightarrow> (v = DISTRIBUTEDSNAPSHOT_COMMITTED_INPROGRESS \<longleftrightarrow> G x \<noteq> 0 \<and> ds_in_progress ds (G x))"
    and vis: "r = Inr DISTRIBUTEDSNAPSHOT_COMMITTED_VISIBLE \<longrightarrow> G x \<noteq> 0"
    and ign: "r = Inr DISTRIBUTEDSNAPSHOT_COMMITTED_IGNORE \<longrightarrow> G x < xminAllDistributedSnapshots ds"
  shows "\<exists>q st'. after_distributed_test r x st = Some (q, st') \<and> mvcc_ok h0 L T B G limit P M st' \<and>
    mv_ds st' = mv_ds st \<and>
    (\<forall>v ig. q = Inr (v, ig) \<longrightarrow>
       (G x \<noteq> 0 \<and> ds_in_progress ds (G x) \<longrightarrow> v = XID_IN_SNAPSHOT) \<and>
       (v = XID_SURELY_COMMITTED \<longrightarrow> G x \<noteq> 0 \<and> \<not> ds_in_progress ds (G x)) \<and>
       (ig \<longrightarrow> G x < xminAllDistributedSnapshots ds))"
proof -
  have hist: "sub_hist P (mv_subtrans st) M" using ok by (simp add: mvcc_ok_def)
  have loc: "\<exists>q st'. local_check st x b = Some (q, st') \<and> mvcc_ok h0 L T B G limit P M st' \<and> mv_ds st' = mv_ds st \<and>
      (\<forall>v ig. q = Inr (v, ig) \<longrightarrow> v \<noteq> XID_SURELY_COMMITTED \<and> ig = b)" for b
    using local_check_total [OF hist x, of b] mvcc_ok_after_local [OF ok] by (metis (no_types, lifting))
  consider (err) e where "r = Inl e" | (ip) "r = Inr DISTRIBUTEDSNAPSHOT_COMMITTED_INPROGRESS"
    | (vs) "r = Inr DISTRIBUTEDSNAPSHOT_COMMITTED_VISIBLE" | (ig) "r = Inr DISTRIBUTEDSNAPSHOT_COMMITTED_IGNORE"
    | (un) "r = Inr DISTRIBUTEDSNAPSHOT_COMMITTED_UNKNOWN" | (no) "r = Inr DISTRIBUTEDSNAPSHOT_COMMITTED_NONE"
    by (cases r) (metis DistributedSnapshotCommitted.exhaust)+
  then show ?thesis
  proof cases
    case ig
    with loc [of True] exact ign show ?thesis by fastforce
  next
    case un
    with loc [of False] exact show ?thesis by fastforce
  qed (use ok exact vis in auto)
qed

text \<open>C15. Whatever a segment's local snapshot says, a transaction that committed as a distributed
  transaction which the distributed snapshot sees as in progress is reported as in progress; one
  reported as surely committed belongs to a distributed transaction that is not; and the hint that
  the distributed snapshot may be ignored for it from now on is given only when its distributed
  transaction is older than every distributed snapshot.  The check returns, and keeps its caches
  and logs right, under interference.\<close>

theorem mvcc_respects_snapshot:
  assumes ok: "mvcc_ok h0 L T B G limit P M st" and rely: "hor_rely h0 L T B G [other]"
    and snap: "haveDistribSnapshot (mv_snapshot st)"
    and x: "TransactionIdIsNormal x" "xid_pos h0 x < xid_pos h0 T" "SubTransToPage x \<in> P"
    and recd: "\<not> (xid_pos h0 L \<le> xid_pos h0 x \<and> dl_entry (mv_dlog st) x = Some 0)"
  shows "\<exists>r st'. XidInMVCCSnapshot False limit other st x False = Some (r, st') \<and>
    mvcc_ok h0 L T B G limit P M st' \<and> mv_ds st' = mv_ds st \<and>
    (\<forall>v ig. r = Inr (v, ig) \<longrightarrow>
       (G x \<noteq> 0 \<and> ds_in_progress (mv_ds st) (G x) \<longrightarrow> v = XID_IN_SNAPSHOT) \<and>
       (v = XID_SURELY_COMMITTED \<longrightarrow> G x \<noteq> 0 \<and> \<not> ds_in_progress (mv_ds st) (G x)) \<and>
       (ig \<longrightarrow> G x < xminAllDistributedSnapshots (mv_ds st)))"
proof (cases "TransactionIdFollowsOrEquals x (snap_xmax (mv_snapshot st))")
  case True
  with snap x(1) ok show ?thesis by (simp add: XidInMVCCSnapshot_def Let_def)
next
  case False
  let ?s = "distribSnapshotWithLocalMapping (mv_snapshot st)"
  have o: "hor_ok h0 L T B G (mv_dlog st)" "dslm_ok G ?s" "B \<le> ds_xmin (dslm_ds ?s)" "cache_ok limit (mv_cache st)"
    "cache_right G (mv_cache st)" "sub_hist P (mv_subtrans st) M"
    using ok by (simp_all add: mvcc_ok_def)
  from committed_test_total [OF x(1,2) o(1) rely o(2-5)] obtain y where
    y: "DistributedSnapshotWithLocalMapping_CommittedTest limit other ?s (mv_cache st) (mv_dlog st) x False = Some y"
      "test_post h0 L T B G limit ?s (mv_dlog st) x y" by (elim exE conjE)
  obtain r s1 c1 d1 where eq: "y = (r, s1, c1, d1)" by (cases y)
  note post = y(2) [unfolded eq test_post_def prod.case]
  define st1 where "st1 = st\<lparr>mv_dlog := d1, mv_cache := c1,
    mv_snapshot := (mv_snapshot st)\<lparr>distribSnapshotWithLocalMapping := s1\<rparr>\<rparr>"
  have ok1: "mvcc_ok h0 L T B G limit P M st1" "mv_ds st1 = mv_ds st"
    using post o(3,6) by (simp_all add: mvcc_ok_def st1_def hor_step_def)
  have hist1: "sub_hist P (mv_subtrans st1) M" using ok1(1) by (simp add: mvcc_ok_def)
  have run: "XidInMVCCSnapshot False limit other st x False = after_distributed_test r x st1"
    using snap x(1) False y(1) eq by (simp add: XidInMVCCSnapshot_def Let_def st1_def)
  have "r = Inr v \<longrightarrow> (v = DISTRIBUTEDSNAPSHOT_COMMITTED_INPROGRESS \<longleftrightarrow> G x \<noteq> 0 \<and> ds_in_progress (mv_ds st) (G x))" for v
    using post recd by (elim conjE) blast
  from after_test_post [OF ok1(1) x(1,3) this] post ok1(2) run show ?thesis by auto
qed

definition ex_mvcc :: mvcc_state where
  "ex_mvcc = \<lparr>mv_subtrans = ex_sub3, mv_dlog = ex_dlog, mv_cache = cache_init False, mv_snapshot = ex_snapshot\<rparr>"

theorem mvcc_respects_snapshot_witness:
  "map_option fst (XidInMVCCSnapshot False 2 ex_other ex_mvcc 7 False) = Some (Inr (XID_IN_SNAPSHOT, False)) \<and>
   (\<exists>r st'. XidInMVCCSnapshot False 2 ex_other ex_mvcc 7 False = Some (r, st') \<and>
      mvcc_ok 3 10 20 50 ex_gxid 2 {0} [11 \<mapsto> 10, 12 \<mapsto> 11] st')"
proof
  show "map_option fst (XidInMVCCSnapshot False 2 ex_other ex_mvcc 7 False) = Some (Inr (XID_IN_SNAPSHOT, False))"
    by code_simp
  have L: "TransactionIdIsNormal 10" "xid_pos 3 10 < xid_window"
    by (simp_all add: TransactionIdIsNormal_def FirstNormalTransactionId_def xid_window_def xid_pos_def)
  have rely: "hor_rely 3 10 20 50 ex_gxid [ex_other]"
    using advance_rely [OF L, where X = 45 and B = 50 and T = 20 and G = ex_gxid] by (simp add: ex_other_def [abs_def])
  have x: "TransactionIdIsNormal 7" "xid_pos 3 7 < xid_pos 3 20" "SubTransToPage 7 \<in> {0}"
    "\<not> (xid_pos 3 10 \<le> xid_pos 3 7 \<and> dl_entry (mv_dlog ex_mvcc) 7 = Some 0)"
    by (simp_all add: TransactionIdIsNormal_def FirstNormalTransactionId_def xid_pos_def SubTransToPage_def
        SUBTRANS_XACTS_PER_PAGE_def)
  have c: "cache_ok 2 (cache_init False)" "cache_right ex_gxid (cache_init False)"
    by (rule cache_init_ok, simp) (simp add: cache_right_def cache_lookup_def cache_init_def)
  have "dslm_ok ex_gxid ex_dslm" "50 \<le> ds_xmin (dslm_ds ex_dslm)"
    by (simp_all add: dslm_ok_def ds_ok_def ex_dslm_def InvalidTransactionId_def)
  then have ok: "mvcc_ok 3 10 20 50 ex_gxid 2 {0} [11 \<mapsto> 10, 12 \<mapsto> 11] ex_mvcc"
    using ex_hor_ok c ex_sub_hist by (simp add: mvcc_ok_def ex_mvcc_def ex_snapshot_def)
  have "haveDistribSnapshot (mv_snapshot ex_mvcc)" by (simp add: ex_mvcc_def ex_snapshot_def)
  from mvcc_respects_snapshot [OF ok rely this x]
  show "\<exists>r st'. XidInMVCCSnapshot False 2 ex_other ex_mvcc 7 False = Some (r, st') \<and>
      mvcc_ok 3 10 20 50 ex_gxid 2 {0} [11 \<mapsto> 10, 12 \<mapsto> 11] st'" by blast
qed

end
