(* ===== verification/Dtx_Gxact.thy ===== *)
theory Dtx_Gxact
  imports Dtx_Snapshot
begin

text \<open>
  The coordinator's side of distributed transactions: the distributed transaction identifiers
  (gxids), handed out from a batch whose end is logged in advance (\<open>cdb/cdbtm.c\<close>), their end
  (\<open>storage/ipc/procarray.c\<close>), the creation of distributed snapshots, and what WAL replay and the end
  of recovery do to the counters (\<open>access/transam/xlog.c\<close>, \<open>cdb/cdbdtxrecovery.c\<close>).
\<close>

section \<open>State\<close>

record TMGXACT =
  gxid :: DistributedTransactionId
  xminDistributedSnapshot :: DistributedTransactionId
  includeInCkpt :: bool
  tm_sessionId :: int

definition no_gxact :: TMGXACT where
  "no_gxact = \<lparr>gxid = 0, xminDistributedSnapshot = 0, includeInCkpt = False, tm_sessionId = 0\<rparr>"

text \<open>
  The shared variables.  \<open>bump_logged\<close>: the holder of \<open>GxidBumpLock\<close> has logged a new limit and has
  not added the batch yet.  \<open>dtm_wal\<close> are the records since the last checkpoint's redo pointer that
  concern gxids, \<open>ckpt_nextGxid\<close> is that checkpoint's \<open>nextGxid\<close>.
\<close>

datatype dtm_record =
    XLOG_NEXTGXID DistributedTransactionId
  | XLOG_LATESTCOMPLETED_GXID DistributedTransactionId
  | XLOG_CHECKPOINT_SHUTDOWN DistributedTransactionId
  | XLOG_XACT_DISTRIBUTED_COMMIT DistributedTransactionId
  | XLOG_XACT_DISTRIBUTED_FORGET DistributedTransactionId

record dtm =
  nextGxid :: DistributedTransactionId
  GxidCount :: nat
  latestCompletedGxid :: DistributedTransactionId
  NextSnapshotId :: "32 word"
  committedGxidArray :: "DistributedTransactionId list"
  allTmGxact :: "TMGXACT list"
  pgprocnos :: "nat list"
  bump_logged :: bool
  dtm_wal :: "dtm_record list"
  ckpt_nextGxid :: DistributedTransactionId

datatype dtm_error = GxidLimit | DtmNotRecovered | TooManyGxacts | TooManyClients

definition upd_gxact :: "dtm \<Rightarrow> nat \<Rightarrow> (TMGXACT \<Rightarrow> TMGXACT) \<Rightarrow> dtm" where
  "upd_gxact st p f = st\<lparr>allTmGxact := (allTmGxact st)[p := f (allTmGxact st ! p)]\<rparr>"

section \<open>Handing out gxids\<close>

definition LastDistributedTransactionId :: DistributedTransactionId where
  "LastDistributedTransactionId = 0xffffFFFFffffFFFF"

text \<open>
  \<open>bumpGxid\<close> in its two critical sections, between which other processes take gxids; \<open>num\<close> is
  \<open>gp_gxid_prefetch_num\<close>.  The result \<open>None\<close> of the first is the return when there are enough gxids.
\<close>

definition bumpGxid_log :: "nat \<Rightarrow> dtm \<Rightarrow> (dtm_error + dtm) option" where
  "bumpGxid_log num st =
     (if GxidCount st > num div 2 then None
      else
        let nextCount = GxidCount st + num; nextLimit = nextGxid st + of_nat nextCount in
        if nextLimit \<ge> LastDistributedTransactionId - of_nat num then Some (Inl GxidLimit)
        else Some (Inr (st\<lparr>dtm_wal := dtm_wal st @ [XLOG_NEXTGXID nextLimit], bump_logged := True\<rparr>)))"

definition bumpGxid_add :: "nat \<Rightarrow> dtm \<Rightarrow> dtm" where
  "bumpGxid_add num st = st\<lparr>GxidCount := GxidCount st + num, bump_logged := False\<rparr>"

text \<open>
  The body of the loop of \<open>currentDtxActivate\<close>, under the spinlock: \<open>None\<close> when the batch is used up,
  in which case the loop bumps and tries again.
\<close>

definition take_gxid :: "nat \<Rightarrow> int \<Rightarrow> dtm \<Rightarrow> dtm option" where
  "take_gxid p sess st =
     (if GxidCount st > 0
      then Some (upd_gxact (st\<lparr>nextGxid := nextGxid st + 1, GxidCount := GxidCount st - 1\<rparr>) p
                  (\<lambda>t. t\<lparr>gxid := nextGxid st, tm_sessionId := sess\<rparr>))
      else None)"

definition activate_hot_standby :: "nat \<Rightarrow> int \<Rightarrow> dtm \<Rightarrow> dtm" where
  "activate_hot_standby p sess st = upd_gxact st p (\<lambda>t. t\<lparr>gxid := 0, includeInCkpt := False, tm_sessionId := sess\<rparr>)"

definition ProcArrayEndGxact :: "nat \<Rightarrow> dtm \<Rightarrow> dtm" where
  "ProcArrayEndGxact p st =
     (let g = gxid (allTmGxact st ! p);
          st1 = upd_gxact st p (\<lambda>t. t\<lparr>gxid := 0, xminDistributedSnapshot := 0, includeInCkpt := False, tm_sessionId := 0\<rparr>)
      in if g \<noteq> 0 \<and> latestCompletedGxid st < g then st1\<lparr>latestCompletedGxid := g\<rparr> else st1)"

text \<open>The shared part of \<open>resetTmGxact\<close>, for a transaction that never had a gxid.\<close>

definition resetTmGxact :: "nat \<Rightarrow> dtm \<Rightarrow> dtm" where
  "resetTmGxact p st = upd_gxact st p (\<lambda>t. t\<lparr>xminDistributedSnapshot := 0, includeInCkpt := False, tm_sessionId := 0\<rparr>)"

section \<open>Processes\<close>

text \<open>
  The shared array lists the processes by number in increasing order.  A starting process has its
  entry cleared by \<open>InitProcess\<close>; a process that leaves with a gxid makes it completed.
\<close>

fun insert_procno :: "nat \<Rightarrow> nat list \<Rightarrow> nat list" where
  "insert_procno p [] = [p]"
| "insert_procno p (x # xs) = (if x > p then p # x # xs else x # insert_procno p xs)"

definition ProcArrayAdd :: "nat \<Rightarrow> nat \<Rightarrow> dtm \<Rightarrow> dtm_error + dtm" where
  "ProcArrayAdd maxProcs p st =
     (if length (pgprocnos st) \<ge> maxProcs then Inl TooManyClients
      else Inr (st\<lparr>pgprocnos := insert_procno p (pgprocnos st)\<rparr>))"

definition InitProcess_gxact :: "nat \<Rightarrow> dtm \<Rightarrow> dtm" where
  "InitProcess_gxact p st = resetTmGxact p (upd_gxact st p (\<lambda>t. t\<lparr>gxid := 0\<rparr>))"

definition ProcArrayRemove :: "nat \<Rightarrow> dtm \<Rightarrow> dtm" where
  "ProcArrayRemove p st =
     (let g = gxid (allTmGxact st ! p);
          st1 = (if g \<noteq> 0 \<and> latestCompletedGxid st < g then st\<lparr>latestCompletedGxid := g\<rparr> else st)
      in st1\<lparr>pgprocnos := remove1 p (pgprocnos st1)\<rparr>)"

section \<open>Distributed snapshots\<close>

text \<open>The loop over the committed gxids on a hot standby, and the one over the processes.\<close>

fun add_committed ::
  "DistributedTransactionId \<Rightarrow> DistributedTransactionId list \<Rightarrow> DistributedTransactionId \<times> DistributedTransactionId list
   \<Rightarrow> DistributedTransactionId \<times> DistributedTransactionId list" where
  "add_committed xmax [] (xmin, arr) = (xmin, arr)"
| "add_committed xmax (g # gs) (xmin, arr) =
     (if g = 0 \<or> g \<ge> xmax then add_committed xmax gs (xmin, arr)
      else add_committed xmax gs (if g < xmin then g else xmin, arr @ [g]))"

record snapshot_acc =
  acc_globalXmin :: DistributedTransactionId
  acc_xmin :: DistributedTransactionId
  acc_array :: "DistributedTransactionId list"

definition gather_gxact :: "nat \<Rightarrow> DistributedTransactionId \<Rightarrow> TMGXACT list \<Rightarrow> nat \<Rightarrow> snapshot_acc \<Rightarrow> snapshot_acc" where
  "gather_gxact me xmax gxacts p a =
     (let candidate = gxacts ! p;
          dxid = xminDistributedSnapshot candidate;
          a1 = (if dxid \<noteq> 0 \<and> dxid < acc_globalXmin a then a\<lparr>acc_globalXmin := dxid\<rparr> else a);
          g = gxid candidate
      in if g = 0 \<or> g \<ge> xmax then a1
         else
           let a2 = (if g < acc_xmin a1 then a1\<lparr>acc_xmin := g\<rparr> else a1) in
           if p = me then a2 else a2\<lparr>acc_array := acc_array a2 @ [g]\<rparr>)"

definition CreateDistributedSnapshot :: "bool \<Rightarrow> nat \<Rightarrow> dtm \<Rightarrow> dtm_error + DistributedSnapshot \<times> dtm" where
  "CreateDistributedSnapshot hot_standby me st =
     (if \<not> hot_standby \<and> length (committedGxidArray st) \<noteq> 0 then Inl DtmNotRecovered
      else
        let xmax = latestCompletedGxid st + 1;
            (xmin0, arr0) = (if hot_standby then add_committed xmax (committedGxidArray st) (xmax, []) else (xmax, []));
            a = fold (gather_gxact me xmax (allTmGxact st)) (pgprocnos st)
                  \<lparr>acc_globalXmin = xmax, acc_xmin = xmin0, acc_array = arr0\<rparr>;
            snapid = NextSnapshotId st + 1;
            globalXmin = (if acc_xmin a < acc_globalXmin a then acc_xmin a else acc_globalXmin a);
            st1 = st\<lparr>NextSnapshotId := snapid\<rparr>;
            st2 = (if xminDistributedSnapshot (allTmGxact st ! me) = 0
                   then upd_gxact st1 me (\<lambda>t. t\<lparr>xminDistributedSnapshot := acc_xmin a\<rparr>) else st1)
        in Inr (\<lparr>xminAllDistributedSnapshots = globalXmin, distribSnapshotId = snapid,
                 ds_xmin = acc_xmin a, ds_xmax = xmax, inProgressXidArray = acc_array a\<rparr>, st2))"

text \<open>\<open>GetSnapshotData\<close> sorts the array of more than one element with \<open>qsort\<close> before it is dispatched.\<close>

definition sort_snapshot :: "DistributedSnapshot \<Rightarrow> DistributedSnapshot" where
  "sort_snapshot ds =
     (if length (inProgressXidArray ds) > 1 then ds\<lparr>inProgressXidArray := sort (inProgressXidArray ds)\<rparr> else ds)"

section \<open>Recovery\<close>

text \<open>The redo of commit and forget records on the coordinator; \<open>max_gxacts\<close> is the size of the array.\<close>

definition redoDistributedCommitRecord :: "nat \<Rightarrow> DistributedTransactionId \<Rightarrow> dtm \<Rightarrow> dtm_error + dtm" where
  "redoDistributedCommitRecord max_gxacts g st =
     (if list_ex (\<lambda>x. g = x) (committedGxidArray st) then Inr st
      else if length (committedGxidArray st) \<ge> max_gxacts then Inl TooManyGxacts
      else Inr (st\<lparr>committedGxidArray := committedGxidArray st @ [g]\<rparr>))"

text \<open>The first occurrence is overwritten by the last element.\<close>

fun forget_committed :: "DistributedTransactionId \<Rightarrow> DistributedTransactionId list \<Rightarrow> DistributedTransactionId list option" where
  "forget_committed g [] = None"
| "forget_committed g (x # xs) =
     (if g = x then Some (if xs = [] then [] else last xs # butlast xs)
      else map_option ((#) x) (forget_committed g xs))"

definition redoDistributedForgetCommitRecord :: "bool \<Rightarrow> DistributedTransactionId \<Rightarrow> dtm \<Rightarrow> dtm" where
  "redoDistributedForgetCommitRecord hot_standby g st =
     (case forget_committed g (committedGxidArray st) of
        None \<Rightarrow> st
      | Some xs \<Rightarrow>
          (let st1 = st\<lparr>committedGxidArray := xs\<rparr> in
           if hot_standby \<and> g > latestCompletedGxid st then st1\<lparr>latestCompletedGxid := g\<rparr> else st1))"

fun dtm_redo :: "bool \<Rightarrow> nat \<Rightarrow> dtm_record \<Rightarrow> dtm \<Rightarrow> dtm_error + dtm" where
  "dtm_redo hot_standby max_gxacts (XLOG_NEXTGXID g) st = Inr (st\<lparr>nextGxid := g, GxidCount := 0\<rparr>)"
| "dtm_redo hot_standby max_gxacts (XLOG_LATESTCOMPLETED_GXID g) st = Inr (st\<lparr>latestCompletedGxid := g\<rparr>)"
| "dtm_redo hot_standby max_gxacts (XLOG_CHECKPOINT_SHUTDOWN g) st =
     (let st1 = st\<lparr>nextGxid := g\<rparr> in
      Inr (if latestCompletedGxid st1 < g - 1 then st1\<lparr>latestCompletedGxid := g - 1\<rparr> else st1))"
| "dtm_redo hot_standby max_gxacts (XLOG_XACT_DISTRIBUTED_COMMIT g) st = redoDistributedCommitRecord max_gxacts g st"
| "dtm_redo hot_standby max_gxacts (XLOG_XACT_DISTRIBUTED_FORGET g) st =
     Inr (redoDistributedForgetCommitRecord hot_standby g st)"

fun dtm_replay :: "bool \<Rightarrow> nat \<Rightarrow> dtm_record list \<Rightarrow> dtm \<Rightarrow> dtm_error + dtm" where
  "dtm_replay hot_standby max_gxacts [] st = Inr st"
| "dtm_replay hot_standby max_gxacts (r # rs) st =
     bind_res (dtm_redo hot_standby max_gxacts r st) (dtm_replay hot_standby max_gxacts rs)"

text \<open>
  The \<open>nextGxid\<close> that \<open>CreateCheckPoint\<close> records.
\<close>

definition checkpoint_nextGxid :: "bool \<Rightarrow> dtm \<Rightarrow> DistributedTransactionId" where
  "checkpoint_nextGxid shutdown st = (if shutdown then nextGxid st else nextGxid st + of_nat (GxidCount st))"

text \<open>
  What a restart does to the counters of a coordinator: shared memory is initialized
  (\<open>tmShmemInit\<close>), \<open>StartupXLOG\<close> starts from the checkpoint, replays, and at the end of recovery sets
  \<open>latestCompletedGxid\<close>.
\<close>

definition startup_from_checkpoint :: "bool \<Rightarrow> dtm \<Rightarrow> dtm" where
  "startup_from_checkpoint wasShutdown st =
     st\<lparr>nextGxid := ckpt_nextGxid st, GxidCount := 0,
        latestCompletedGxid := (if wasShutdown then ckpt_nextGxid st - 1 else 0),
        NextSnapshotId := 0, committedGxidArray := [],
        allTmGxact := map (\<lambda>_. no_gxact) (allTmGxact st), pgprocnos := [], bump_logged := False\<rparr>"

definition end_of_recovery :: "dtm \<Rightarrow> dtm" where
  "end_of_recovery st = st\<lparr>latestCompletedGxid := nextGxid st\<rparr>"

section \<open>What a snapshot holds\<close>

definition gathered :: "DistributedTransactionId \<Rightarrow> TMGXACT \<Rightarrow> bool" where
  "gathered xmax t \<longleftrightarrow> gxid t \<noteq> 0 \<and> gxid t < xmax"

lemma gather_step:
  "acc_array (gather_gxact me xmax gx p a) =
     acc_array a @ (if gathered xmax (gx ! p) \<and> p \<noteq> me then [gxid (gx ! p)] else [])"
  "acc_xmin (gather_gxact me xmax gx p a) =
     (if gathered xmax (gx ! p) then min (acc_xmin a) (gxid (gx ! p)) else acc_xmin a)"
  "acc_globalXmin (gather_gxact me xmax gx p a) =
     (if xminDistributedSnapshot (gx ! p) \<noteq> 0 then min (acc_globalXmin a) (xminDistributedSnapshot (gx ! p))
      else acc_globalXmin a)"
  by (auto simp: gather_gxact_def Let_def gathered_def min_def)

lemma gather_array:
  "set (acc_array (fold (gather_gxact me xmax gx) ps a)) =
     set (acc_array a) \<union> {gxid (gx ! p) |p. p \<in> set ps \<and> p \<noteq> me \<and> gathered xmax (gx ! p)}"
  by (induction ps arbitrary: a) (auto simp: gather_step)

lemma gather_xmin_le:
  "acc_xmin (fold (gather_gxact me xmax gx) ps a) \<le> m \<longleftrightarrow>
     acc_xmin a \<le> m \<or> (\<exists>p \<in> set ps. gathered xmax (gx ! p) \<and> gxid (gx ! p) \<le> m)"
  by (induction ps arbitrary: a) (auto simp: gather_step min_le_iff_disj)

lemma gather_global_le:
  "acc_globalXmin (fold (gather_gxact me xmax gx) ps a) \<le> m \<longleftrightarrow>
     acc_globalXmin a \<le> m \<or>
     (\<exists>p \<in> set ps. xminDistributedSnapshot (gx ! p) \<noteq> 0 \<and> xminDistributedSnapshot (gx ! p) \<le> m)"
  by (induction ps arbitrary: a) (auto simp: gather_step min_le_iff_disj)

lemma add_committed_snd:
  "set (snd (add_committed xmax gs (xmin, arr))) = set arr \<union> {g \<in> set gs. g \<noteq> 0 \<and> g < xmax}"
  by (induction gs arbitrary: xmin arr) (auto simp: not_le)

lemma add_committed_fst:
  "fst (add_committed xmax gs (xmin, arr)) \<le> m \<longleftrightarrow> xmin \<le> m \<or> (\<exists>g \<in> set gs. g \<noteq> 0 \<and> g < xmax \<and> g \<le> m)"
  by (induction gs arbitrary: xmin arr) (auto simp: not_le)

text \<open>The transactions in progress: those of a process, and on a hot standby those not forgotten yet.\<close>

definition in_progress_gxids :: "bool \<Rightarrow> dtm \<Rightarrow> DistributedTransactionId set" where
  "in_progress_gxids hot st =
     {gxid (allTmGxact st ! p) |p. p \<in> set (pgprocnos st) \<and> gxid (allTmGxact st ! p) \<noteq> 0} \<union>
     (if hot then {g \<in> set (committedGxidArray st). g \<noteq> 0} else {})"

lemma snapshot_parts:
  assumes "CreateDistributedSnapshot hot me st = Inr (ds, st')"
  shows "ds_xmax ds = latestCompletedGxid st + 1"
    "set (inProgressXidArray ds) = {g. g \<noteq> 0 \<and> g < ds_xmax ds \<and>
       (hot \<and> g \<in> set (committedGxidArray st) \<or> (\<exists>p \<in> set (pgprocnos st). p \<noteq> me \<and> gxid (allTmGxact st ! p) = g))}"
    "ds_xmin ds \<le> m \<longleftrightarrow> ds_xmax ds \<le> m \<or> (\<exists>g \<in> in_progress_gxids hot st. g < ds_xmax ds \<and> g \<le> m)"
    "xminAllDistributedSnapshots ds \<le> m \<longleftrightarrow> ds_xmax ds \<le> m \<or> ds_xmin ds \<le> m \<or>
       (\<exists>p \<in> set (pgprocnos st). xminDistributedSnapshot (allTmGxact st ! p) \<noteq> 0 \<and>
          xminDistributedSnapshot (allTmGxact st ! p) \<le> m)"
    "st' = (let st1 = st\<lparr>NextSnapshotId := NextSnapshotId st + 1\<rparr> in
       if xminDistributedSnapshot (allTmGxact st ! me) = 0
       then upd_gxact st1 me (\<lambda>t. t\<lparr>xminDistributedSnapshot := ds_xmin ds\<rparr>) else st1)"
proof -
  define xmax where "xmax = latestCompletedGxid st + 1"
  define start where "start = (if hot then add_committed xmax (committedGxidArray st) (xmax, []) else (xmax, []))"
  define a where "a = fold (gather_gxact me xmax (allTmGxact st)) (pgprocnos st)
    \<lparr>acc_globalXmin = xmax, acc_xmin = fst start, acc_array = snd start\<rparr>"
  have ds: "ds = \<lparr>xminAllDistributedSnapshots = (if acc_xmin a < acc_globalXmin a then acc_xmin a else acc_globalXmin a),
      distribSnapshotId = NextSnapshotId st + 1, ds_xmin = acc_xmin a, ds_xmax = xmax, inProgressXidArray = acc_array a\<rparr>"
    and st': "st' = (let st1 = st\<lparr>NextSnapshotId := NextSnapshotId st + 1\<rparr> in
       if xminDistributedSnapshot (allTmGxact st ! me) = 0
       then upd_gxact st1 me (\<lambda>t. t\<lparr>xminDistributedSnapshot := acc_xmin a\<rparr>) else st1)"
    using assms by (simp_all add: CreateDistributedSnapshot_def Let_def case_prod_beta xmax_def [symmetric]
        start_def [symmetric] a_def [symmetric] split: if_splits)
  have start_arr: "set (snd start) = (if hot then {g \<in> set (committedGxidArray st). g \<noteq> 0 \<and> g < xmax} else {})"
    and start_min: "fst start \<le> n \<longleftrightarrow> xmax \<le> n \<or> hot \<and> (\<exists>g \<in> set (committedGxidArray st). g \<noteq> 0 \<and> g < xmax \<and> g \<le> n)" for n
    by (auto simp: start_def add_committed_snd add_committed_fst)
  show "ds_xmax ds = latestCompletedGxid st + 1" by (simp add: ds xmax_def)
  show "set (inProgressXidArray ds) = {g. g \<noteq> 0 \<and> g < ds_xmax ds \<and>
       (hot \<and> g \<in> set (committedGxidArray st) \<or> (\<exists>p \<in> set (pgprocnos st). p \<noteq> me \<and> gxid (allTmGxact st ! p) = g))}"
    by (auto simp: ds a_def gather_array start_arr gathered_def split: if_splits)
  show "ds_xmin ds \<le> m \<longleftrightarrow> ds_xmax ds \<le> m \<or> (\<exists>g \<in> in_progress_gxids hot st. g < ds_xmax ds \<and> g \<le> m)"
    by (auto simp: ds a_def gather_xmin_le start_min gathered_def in_progress_gxids_def)
  show "xminAllDistributedSnapshots ds \<le> m \<longleftrightarrow> ds_xmax ds \<le> m \<or> ds_xmin ds \<le> m \<or>
       (\<exists>p \<in> set (pgprocnos st). xminDistributedSnapshot (allTmGxact st ! p) \<noteq> 0 \<and>
          xminDistributedSnapshot (allTmGxact st ! p) \<le> m)"
  proof -
    have "(if acc_xmin a < acc_globalXmin a then acc_xmin a else acc_globalXmin a) \<le> m \<longleftrightarrow>
        acc_globalXmin a \<le> m \<or> acc_xmin a \<le> m" by auto
    then show ?thesis unfolding ds by (auto simp: a_def gather_global_le)
  qed
  show "st' = (let st1 = st\<lparr>NextSnapshotId := NextSnapshotId st + 1\<rparr> in
       if xminDistributedSnapshot (allTmGxact st ! me) = 0
       then upd_gxact st1 me (\<lambda>t. t\<lparr>xminDistributedSnapshot := ds_xmin ds\<rparr>) else st1)" by (simp add: st' ds Let_def)
qed

end
