(* ===== verification/Dtx_History.thy ===== *)
theory Dtx_History
  imports Dtx_Gxact
begin

text \<open>
  The histories of a coordinator: processes start and end, take gxids and snapshots, batches are
  bumped, checkpoints are taken step by step while all of this goes on, the server crashes at any
  point, replays and comes up again.  Here the invariant of the counters: what a restart would recover
  is always the end of the batch that is being handed out.
\<close>

section \<open>Steps\<close>

text \<open>
  A checkpoint fixes its redo pointer (here the number of records before it), reads \<open>nextGxid\<close> under
  \<open>GxidBumpLock\<close>, writes its record, and takes effect with the update of the control file.  The flag
  tells a shutdown checkpoint, which is also the one at the end of recovery.
\<close>

datatype checkpoint_phase =
    NoCheckpoint
  | CkptRedo nat bool
  | CkptRead nat bool DistributedTransactionId
  | CkptWritten nat bool DistributedTransactionId

datatype server_phase = Recovering | Running | ShuttingDown

text \<open>
  The last three fields record history: the gxids handed out, newest first, the snapshots that
  processes have taken in their current transaction, and whether one was taken after the start of the
  server while \<open>latestCompletedGxid\<close> was still \<open>nextGxid\<close>.
\<close>

record dtm_sys =
  sys_dtm :: dtm
  server :: server_phase
  checkpoint :: checkpoint_phase
  wasShutdown :: bool
  assigned :: "DistributedTransactionId list"
  held :: "(nat \<times> DistributedSnapshot) list"
  early :: bool

definition drop_held :: "nat \<Rightarrow> (nat \<times> DistributedSnapshot) list \<Rightarrow> (nat \<times> DistributedSnapshot) list" where
  "drop_held p hs = filter (\<lambda>h. fst h \<noteq> p) hs"

inductive dtm_step :: "nat \<Rightarrow> nat \<Rightarrow> nat \<Rightarrow> dtm_sys \<Rightarrow> dtm_sys \<Rightarrow> bool" for num max_gxacts maxProcs where
  proc_start: "server s = Running \<Longrightarrow> p \<notin> set (pgprocnos (sys_dtm s)) \<Longrightarrow> p < length (allTmGxact (sys_dtm s)) \<Longrightarrow>
     ProcArrayAdd maxProcs p (InitProcess_gxact p (sys_dtm s)) = Inr st' \<Longrightarrow>
     dtm_step num max_gxacts maxProcs s (s\<lparr>sys_dtm := st'\<rparr>)"
| proc_exit: "p \<in> set (pgprocnos (sys_dtm s)) \<Longrightarrow>
     dtm_step num max_gxacts maxProcs s (s\<lparr>sys_dtm := ProcArrayRemove p (sys_dtm s), held := drop_held p (held s)\<rparr>)"
| bump_log: "server s = Running \<Longrightarrow> \<not> bump_logged (sys_dtm s) \<Longrightarrow> bumpGxid_log num (sys_dtm s) = Some (Inr st') \<Longrightarrow>
     dtm_step num max_gxacts maxProcs s (s\<lparr>sys_dtm := st'\<rparr>)"
| bump_add: "server s = Running \<Longrightarrow> bump_logged (sys_dtm s) \<Longrightarrow>
     dtm_step num max_gxacts maxProcs s (s\<lparr>sys_dtm := bumpGxid_add num (sys_dtm s)\<rparr>)"
| activate: "server s = Running \<Longrightarrow> p \<in> set (pgprocnos (sys_dtm s)) \<Longrightarrow> gxid (allTmGxact (sys_dtm s) ! p) = 0 \<Longrightarrow>
     take_gxid p sess (sys_dtm s) = Some st' \<Longrightarrow>
     dtm_step num max_gxacts maxProcs s (s\<lparr>sys_dtm := st', assigned := nextGxid (sys_dtm s) # assigned s\<rparr>)"
| end_gxact: "p \<in> set (pgprocnos (sys_dtm s)) \<Longrightarrow>
     dtm_step num max_gxacts maxProcs s (s\<lparr>sys_dtm := ProcArrayEndGxact p (sys_dtm s), held := drop_held p (held s)\<rparr>)"
| reset_gxact: "p \<in> set (pgprocnos (sys_dtm s)) \<Longrightarrow> gxid (allTmGxact (sys_dtm s) ! p) = 0 \<Longrightarrow>
     dtm_step num max_gxacts maxProcs s (s\<lparr>sys_dtm := resetTmGxact p (sys_dtm s), held := drop_held p (held s)\<rparr>)"
| snapshot: "server s = Running \<Longrightarrow> p \<in> set (pgprocnos (sys_dtm s)) \<Longrightarrow>
     CreateDistributedSnapshot False p (sys_dtm s) = Inr (ds, st') \<Longrightarrow>
     dtm_step num max_gxacts maxProcs s
       (s\<lparr>sys_dtm := st', held := (p, ds) # held s,
          early := early s \<or> latestCompletedGxid (sys_dtm s) \<ge> nextGxid (sys_dtm s)\<rparr>)"
| log_record: "server s = Running \<Longrightarrow>
     r \<in> {XLOG_XACT_DISTRIBUTED_COMMIT g, XLOG_XACT_DISTRIBUTED_FORGET g, XLOG_LATESTCOMPLETED_GXID g} \<Longrightarrow>
     dtm_step num max_gxacts maxProcs s (s\<lparr>sys_dtm := (sys_dtm s)\<lparr>dtm_wal := dtm_wal (sys_dtm s) @ [r]\<rparr>\<rparr>)"
| ckpt_online: "server s = Running \<Longrightarrow> checkpoint s = NoCheckpoint \<Longrightarrow>
     dtm_step num max_gxacts maxProcs s (s\<lparr>checkpoint := CkptRedo (length (dtm_wal (sys_dtm s))) False\<rparr>)"
| ckpt_shutdown: "server s = Running \<Longrightarrow> checkpoint s = NoCheckpoint \<Longrightarrow> \<not> bump_logged (sys_dtm s) \<Longrightarrow>
     dtm_step num max_gxacts maxProcs s
       (s\<lparr>server := ShuttingDown, checkpoint := CkptRedo (length (dtm_wal (sys_dtm s))) True\<rparr>)"
| ckpt_end_of_recovery: "server s = Recovering \<Longrightarrow> checkpoint s = NoCheckpoint \<Longrightarrow>
     dtm_step num max_gxacts maxProcs s (s\<lparr>checkpoint := CkptRedo (length (dtm_wal (sys_dtm s))) True\<rparr>)"
| ckpt_read: "checkpoint s = CkptRedo k shutdown \<Longrightarrow> \<not> bump_logged (sys_dtm s) \<Longrightarrow>
     dtm_step num max_gxacts maxProcs s (s\<lparr>checkpoint := CkptRead k shutdown (checkpoint_nextGxid shutdown (sys_dtm s))\<rparr>)"
| ckpt_write: "checkpoint s = CkptRead k shutdown c \<Longrightarrow>
     dtm_step num max_gxacts maxProcs s
       (s\<lparr>checkpoint := CkptWritten k shutdown c,
          sys_dtm := (sys_dtm s)\<lparr>dtm_wal := dtm_wal (sys_dtm s) @ (if shutdown then [XLOG_CHECKPOINT_SHUTDOWN c] else [])\<rparr>\<rparr>)"
| ckpt_done: "checkpoint s = CkptWritten k shutdown c \<Longrightarrow>
     dtm_step num max_gxacts maxProcs s
       (s\<lparr>checkpoint := NoCheckpoint, wasShutdown := shutdown,
          sys_dtm := (sys_dtm s)\<lparr>ckpt_nextGxid := c,
            dtm_wal := (if shutdown then [] else drop k (dtm_wal (sys_dtm s)))\<rparr>\<rparr>)"
| start: "server s = Recovering \<Longrightarrow> checkpoint s = NoCheckpoint \<Longrightarrow>
     dtm_step num max_gxacts maxProcs s (s\<lparr>server := Running\<rparr>)"
| restart: "dtm_replay False max_gxacts (dtm_wal (sys_dtm s)) (startup_from_checkpoint (wasShutdown s) (sys_dtm s)) = Inr st' \<Longrightarrow>
     dtm_step num max_gxacts maxProcs s
       (s\<lparr>sys_dtm := end_of_recovery st', server := Recovering, checkpoint := NoCheckpoint, held := [], early := False\<rparr>)"

inductive dtm_reach :: "nat \<Rightarrow> nat \<Rightarrow> nat \<Rightarrow> dtm_sys \<Rightarrow> dtm_sys \<Rightarrow> bool" for num max_gxacts maxProcs s0 where
  reach_init: "dtm_reach num max_gxacts maxProcs s0 s0"
| reach_step: "dtm_reach num max_gxacts maxProcs s0 s \<Longrightarrow> dtm_step num max_gxacts maxProcs s s' \<Longrightarrow>
     dtm_reach num max_gxacts maxProcs s0 s'"

section \<open>The limit that a restart would recover\<close>

fun limit_step :: "dtm_record \<Rightarrow> DistributedTransactionId \<Rightarrow> DistributedTransactionId" where
  "limit_step (XLOG_NEXTGXID g) c = g"
| "limit_step (XLOG_CHECKPOINT_SHUTDOWN g) c = g"
| "limit_step r c = c"

abbreviation wal_limit :: "DistributedTransactionId \<Rightarrow> dtm_record list \<Rightarrow> DistributedTransactionId" where
  "wal_limit c w \<equiv> fold limit_step w c"

definition limit :: "dtm \<Rightarrow> DistributedTransactionId" where
  "limit st = wal_limit (ckpt_nextGxid st) (dtm_wal st)"

lemma wal_limit_append: "wal_limit c (w @ [r]) = limit_step r (wal_limit c w)"
  by simp

lemma redo_counters:
  assumes "dtm_redo hot m r st = Inr st'"
  shows "nextGxid st' = limit_step r (nextGxid st) \<and> (GxidCount st = 0 \<longrightarrow> GxidCount st' = 0) \<and>
    bump_logged st' = bump_logged st \<and> ckpt_nextGxid st' = ckpt_nextGxid st \<and> dtm_wal st' = dtm_wal st \<and>
    allTmGxact st' = allTmGxact st \<and> pgprocnos st' = pgprocnos st"
  using assms
  by (cases r) (auto simp: redoDistributedCommitRecord_def redoDistributedForgetCommitRecord_def Let_def
      split: if_splits option.splits)

lemma replay_counters:
  assumes "dtm_replay hot m w st = Inr st'"
  shows "nextGxid st' = wal_limit (nextGxid st) w \<and> (GxidCount st = 0 \<longrightarrow> GxidCount st' = 0) \<and>
    bump_logged st' = bump_logged st \<and> ckpt_nextGxid st' = ckpt_nextGxid st \<and> dtm_wal st' = dtm_wal st \<and>
    allTmGxact st' = allTmGxact st \<and> pgprocnos st' = pgprocnos st"
  using assms
proof (induction w arbitrary: st)
  case (Cons r w)
  then obtain st1 where r: "dtm_redo hot m r st = Inr st1" and w: "dtm_replay hot m w st1 = Inr st'"
    by (cases "dtm_redo hot m r st") auto
  show ?case using Cons.IH [OF w] redo_counters [OF r] by simp
qed simp

section \<open>The counters\<close>

text \<open>What the control file would say once the checkpoint in progress takes effect.\<close>

definition pending_limit :: "nat \<Rightarrow> bool \<Rightarrow> DistributedTransactionId \<Rightarrow> dtm \<Rightarrow> DistributedTransactionId" where
  "pending_limit k shutdown c st = (if shutdown then c else wal_limit c (drop k (dtm_wal st)))"

definition pending_ok :: "nat \<Rightarrow> dtm_sys \<Rightarrow> nat \<Rightarrow> bool \<Rightarrow> DistributedTransactionId \<Rightarrow> bool" where
  "pending_ok num s k shutdown c \<longleftrightarrow>
     k \<le> length (dtm_wal (sys_dtm s)) \<and> (shutdown \<longleftrightarrow> server s \<noteq> Running) \<and>
     nextGxid (sys_dtm s) \<le> pending_limit k shutdown c (sys_dtm s) \<and>
     unat (pending_limit k shutdown c (sys_dtm s)) + num < 2 ^ 64 - 1 \<and>
     (server s \<noteq> ShuttingDown \<longrightarrow> pending_limit k shutdown c (sys_dtm s) = limit (sys_dtm s))"

fun checkpoint_ok :: "nat \<Rightarrow> dtm_sys \<Rightarrow> checkpoint_phase \<Rightarrow> bool" where
  "checkpoint_ok num s NoCheckpoint \<longleftrightarrow> True"
| "checkpoint_ok num s (CkptRedo k shutdown) \<longleftrightarrow> k \<le> length (dtm_wal (sys_dtm s)) \<and> (shutdown \<longleftrightarrow> server s \<noteq> Running)"
| "checkpoint_ok num s (CkptRead k shutdown c) \<longleftrightarrow> pending_ok num s k shutdown c"
| "checkpoint_ok num s (CkptWritten k shutdown c) \<longleftrightarrow>
     pending_ok num s k shutdown c \<and> (shutdown \<longrightarrow> limit (sys_dtm s) = c)"

definition ahead :: "nat \<Rightarrow> dtm \<Rightarrow> nat" where
  "ahead num st = unat (nextGxid st) + GxidCount st + (if bump_logged st then num else 0)"

definition counters_ok :: "nat \<Rightarrow> dtm_sys \<Rightarrow> bool" where
  "counters_ok num s \<longleftrightarrow>
     0 < nextGxid (sys_dtm s) \<and> nextGxid (sys_dtm s) \<le> limit (sys_dtm s) \<and>
     (server s \<noteq> ShuttingDown \<longrightarrow> ahead num (sys_dtm s) = unat (limit (sys_dtm s))) \<and>
     unat (limit (sys_dtm s)) + num < 2 ^ 64 - 1 \<and>
     (server s = Recovering \<longrightarrow> GxidCount (sys_dtm s) = 0) \<and> (server s \<noteq> Running \<longrightarrow> \<not> bump_logged (sys_dtm s)) \<and>
     checkpoint_ok num s (checkpoint s)"

text \<open>A step that touches neither the counters nor the log keeps all of this.\<close>

definition same_counters :: "dtm \<Rightarrow> dtm \<Rightarrow> bool" where
  "same_counters st st' \<longleftrightarrow> nextGxid st' = nextGxid st \<and> GxidCount st' = GxidCount st \<and> bump_logged st' = bump_logged st \<and>
     ckpt_nextGxid st' = ckpt_nextGxid st \<and> dtm_wal st' = dtm_wal st"

lemma same_countersD:
  assumes "same_counters st st'"
  shows "nextGxid st' = nextGxid st" "GxidCount st' = GxidCount st" "bump_logged st' = bump_logged st"
    "dtm_wal st' = dtm_wal st" "limit st' = limit st" "ahead num st' = ahead num st"
    "pending_limit k shutdown c st' = pending_limit k shutdown c st"
  using assms by (simp_all add: same_counters_def limit_def ahead_def pending_limit_def)

lemma counters_ok_same:
  assumes ok: "counters_ok num s" and same: "same_counters (sys_dtm s) (sys_dtm s')"
    and rest: "server s' = server s" "checkpoint s' = checkpoint s"
  shows "counters_ok num s'"
  using ok by (cases "checkpoint s") (simp_all add: counters_ok_def pending_ok_def same_countersD [OF same] rest)

lemma same_counters_ops:
  "same_counters st (InitProcess_gxact p st)" "same_counters st (ProcArrayRemove p st)"
  "same_counters st (ProcArrayEndGxact p st)" "same_counters st (resetTmGxact p st)"
  "ProcArrayAdd m p st = Inr st' \<Longrightarrow> same_counters st st'"
  "CreateDistributedSnapshot hot p st = Inr (ds, st') \<Longrightarrow> same_counters st st'"
proof -
  show "same_counters st st'" if "CreateDistributedSnapshot hot p st = Inr (ds, st')"
    using snapshot_parts(5) [OF that] by (simp add: same_counters_def upd_gxact_def Let_def)
qed (auto simp: same_counters_def InitProcess_gxact_def ProcArrayRemove_def ProcArrayEndGxact_def resetTmGxact_def
    ProcArrayAdd_def upd_gxact_def Let_def split: if_splits)

lemma same_counters_trans: "same_counters a b \<Longrightarrow> same_counters b c \<Longrightarrow> same_counters a c"
  by (simp add: same_counters_def)

lemma limit_append:
  "limit (st\<lparr>dtm_wal := dtm_wal st @ [r]\<rparr>) = limit_step r (limit st)"
  "k \<le> length (dtm_wal st) \<Longrightarrow>
   pending_limit k shutdown c (st\<lparr>dtm_wal := dtm_wal st @ [r]\<rparr>) =
     (if shutdown then c else limit_step r (pending_limit k shutdown c st))"
  by (simp_all add: limit_def pending_limit_def)

lemma counters_ok_log:
  assumes ok: "counters_ok num s" and run: "server s = Running" and r: "\<And>c. limit_step r c = c"
  shows "counters_ok num (s\<lparr>sys_dtm := (sys_dtm s)\<lparr>dtm_wal := dtm_wal (sys_dtm s) @ [r]\<rparr>\<rparr>)"
  using ok run
  by (cases "checkpoint s") (auto simp: counters_ok_def pending_ok_def limit_append r ahead_def)

lemma unat_of_nat_add:
  fixes a :: "64 word"
  assumes "unat a + n < 2 ^ 64"
  shows "unat (a + of_nat n) = unat a + n"
  using assms by (simp add: unat_word_ariths unat_of_nat take_bit_nat_eq_self)

lemma bump_log_limit:
  assumes ok: "counters_ok num s" and run: "server s = Running" and nb: "\<not> bump_logged (sys_dtm s)"
    and bump: "bumpGxid_log num (sys_dtm s) = Some (Inr st')"
  obtains g where "st' = (sys_dtm s)\<lparr>dtm_wal := dtm_wal (sys_dtm s) @ [XLOG_NEXTGXID g], bump_logged := True\<rparr>"
    "unat g = ahead num (sys_dtm s) + num" "unat g + num < 2 ^ 64 - 1"
proof -
  let ?st = "sys_dtm s"
  define g where "g = nextGxid ?st + of_nat (GxidCount ?st + num)"
  have st': "st' = ?st\<lparr>dtm_wal := dtm_wal ?st @ [XLOG_NEXTGXID g], bump_logged := True\<rparr>"
    and g: "g < LastDistributedTransactionId - of_nat num"
    using bump by (auto simp: bumpGxid_log_def Let_def g_def not_le split: if_splits)
  have lim: "unat (nextGxid ?st) + (GxidCount ?st + num) < 2 ^ 64" and num: "num < 2 ^ 64 - 1"
    using ok nb run by (auto simp: counters_ok_def ahead_def)
  have sum: "unat g = unat (nextGxid ?st) + (GxidCount ?st + num)" unfolding g_def by (rule unat_of_nat_add [OF lim])
  have last: "unat LastDistributedTransactionId = 2 ^ 64 - 1" by (simp add: LastDistributedTransactionId_def)
  have "unat (of_nat num :: 64 word) = num" using num by (simp add: unat_of_nat take_bit_nat_eq_self)
  then have "unat (LastDistributedTransactionId - of_nat num) = 2 ^ 64 - 1 - num"
    using num last by (subst unat_sub) (simp_all add: word_le_nat_alt)
  then have "unat g + num < 2 ^ 64 - 1" using g num by (simp add: word_less_nat_alt)
  then show thesis using that [OF st'] sum nb by (simp add: ahead_def)
qed

lemma counters_ok_bump_log:
  assumes ok: "counters_ok num s" and run: "server s = Running" and nb: "\<not> bump_logged (sys_dtm s)"
    and bump: "bumpGxid_log num (sys_dtm s) = Some (Inr st')"
  shows "counters_ok num (s\<lparr>sys_dtm := st'\<rparr>)"
proof -
  obtain g where st': "st' = (sys_dtm s)\<lparr>dtm_wal := dtm_wal (sys_dtm s) @ [XLOG_NEXTGXID g], bump_logged := True\<rparr>"
    and g: "unat g = ahead num (sys_dtm s) + num" "unat g + num < 2 ^ 64 - 1"
    by (rule bump_log_limit [OF ok run nb bump])
  have nx: "nextGxid (sys_dtm s) \<le> g" using g(1) by (simp add: word_le_nat_alt ahead_def)
  have lim: "limit st' = g" by (simp add: st' limit_def)
  have pend: "pending_limit k False c st' = g" if "k \<le> length (dtm_wal (sys_dtm s))" for k c
    using that by (simp add: st' pending_limit_def)
  have parts: "nextGxid st' = nextGxid (sys_dtm s)" "length (dtm_wal st') = Suc (length (dtm_wal (sys_dtm s)))" "bump_logged st'"
    by (simp_all add: st')
  have "ahead num st' = unat g" using g(1) nb by (simp add: st' ahead_def)
  moreover have "checkpoint_ok num (s\<lparr>sys_dtm := st'\<rparr>) (checkpoint s)"
    using ok run nx g(2) by (cases "checkpoint s") (auto simp: counters_ok_def pending_ok_def pend lim parts)
  ultimately show ?thesis using ok run nx g(2) by (simp add: counters_ok_def lim parts)
qed

text \<open>Replaying a suffix once more from the limit reached gives the same limit.\<close>

lemma wal_limit_const: "(\<forall>c. wal_limit c w = c) \<or> (\<exists>g. \<forall>c. wal_limit c w = g)"
proof (induction w rule: rev_induct)
  case (snoc r w)
  then show ?case by (cases r) auto
qed simp

lemma wal_limit_idem: "wal_limit (wal_limit c (u @ v)) v = wal_limit c (u @ v)"
  using wal_limit_const [of v] by auto

text \<open>A step of a running server that moves \<open>nextGxid\<close> within the batch.\<close>

lemma counters_ok_move:
  assumes ok: "counters_ok num s" and run: "server s = Running"
    and parts: "nextGxid (sys_dtm s) \<le> nextGxid st'" "ahead num st' = ahead num (sys_dtm s)"
      "dtm_wal st' = dtm_wal (sys_dtm s)" "ckpt_nextGxid st' = ckpt_nextGxid (sys_dtm s)"
  shows "counters_ok num (s\<lparr>sys_dtm := st', assigned := a\<rparr>)"
proof -
  have lim: "limit st' = limit (sys_dtm s)" and pend: "pending_limit k sh c st' = pending_limit k sh c (sys_dtm s)" for k sh c
    using parts by (simp_all add: limit_def pending_limit_def)
  have "unat (nextGxid st') \<le> unat (limit (sys_dtm s))"
    using ok run parts(2) by (simp add: counters_ok_def ahead_def split: if_splits)
  then have nx: "nextGxid st' \<le> limit (sys_dtm s)" by (simp add: word_le_nat_alt)
  have "checkpoint_ok num (s\<lparr>sys_dtm := st', assigned := a\<rparr>) (checkpoint s)"
    using ok run nx by (cases "checkpoint s") (auto simp: counters_ok_def pending_ok_def pend lim parts)
  then show ?thesis using ok run nx parts(1,2) by (auto simp: counters_ok_def lim)
qed

lemma counters_ok_activate:
  assumes ok: "counters_ok num s" and run: "server s = Running" and tak: "take_gxid p sess (sys_dtm s) = Some st'"
  shows "counters_ok num (s\<lparr>sys_dtm := st', assigned := a\<rparr>)" "unat (nextGxid st') = unat (nextGxid (sys_dtm s)) + 1"
proof -
  let ?st = "sys_dtm s"
  have n: "GxidCount ?st > 0" and st': "st' = upd_gxact (?st\<lparr>nextGxid := nextGxid ?st + 1, GxidCount := GxidCount ?st - 1\<rparr>) p
      (\<lambda>t. t\<lparr>gxid := nextGxid ?st, tm_sessionId := sess\<rparr>)"
    using tak by (auto simp: take_gxid_def split: if_splits)
  have "unat (nextGxid ?st) + 1 < 2 ^ 64"
    using ok run n by (auto simp: counters_ok_def ahead_def split: if_splits)
  then have nx: "unat (nextGxid ?st + 1) = unat (nextGxid ?st) + 1" using unat_of_nat_add [of _ 1] by simp
  then show "unat (nextGxid st') = unat (nextGxid ?st) + 1" by (simp add: st' upd_gxact_def)
  show "counters_ok num (s\<lparr>sys_dtm := st', assigned := a\<rparr>)"
    by (rule counters_ok_move [OF ok run]) (use n nx in \<open>simp_all add: st' upd_gxact_def ahead_def word_le_nat_alt\<close>)
qed

lemma counters_ok_bump_add:
  assumes ok: "counters_ok num s" and run: "server s = Running" and b: "bump_logged (sys_dtm s)"
  shows "counters_ok num (s\<lparr>sys_dtm := bumpGxid_add num (sys_dtm s)\<rparr>)"
  using counters_ok_move [OF ok run, of "bumpGxid_add num (sys_dtm s)" "assigned s"] b
  by (simp add: bumpGxid_add_def ahead_def)

lemma counters_ok_read:
  assumes ok: "counters_ok num s" and c: "checkpoint s = CkptRedo k shutdown" and nb: "\<not> bump_logged (sys_dtm s)"
  shows "counters_ok num (s\<lparr>checkpoint := CkptRead k shutdown (checkpoint_nextGxid shutdown (sys_dtm s))\<rparr>)"
proof (cases shutdown)
  case True
  then show ?thesis using ok c nb
    by (cases "server s") (auto simp: counters_ok_def pending_ok_def pending_limit_def checkpoint_nextGxid_def ahead_def
        word_le_nat_alt word_unat_eq_iff)
next
  case False
  let ?st = "sys_dtm s"
  have run: "server s = Running" using ok c False by (simp add: counters_ok_def)
  have "unat (nextGxid ?st + of_nat (GxidCount ?st)) = unat (limit ?st)"
    using ok run nb by (subst unat_of_nat_add) (auto simp: counters_ok_def ahead_def)
  then have read: "checkpoint_nextGxid False ?st = limit ?st" by (simp add: checkpoint_nextGxid_def word_unat_eq_iff)
  have "wal_limit (limit ?st) (drop k (dtm_wal ?st)) = limit ?st"
    using wal_limit_idem [of "drop k (dtm_wal ?st)" "take k (dtm_wal ?st)" "ckpt_nextGxid ?st"] by (simp add: limit_def)
  then have "pending_limit k False (checkpoint_nextGxid False ?st) ?st = limit ?st" by (simp add: pending_limit_def read)
  then show ?thesis using ok c run False by (auto simp: counters_ok_def pending_ok_def)
qed

lemma counters_ok_log_limit:
  assumes ok: "counters_ok num s" and pend: "pending_ok num s k shutdown c"
    and st': "nextGxid st' = nextGxid (sys_dtm s)" "GxidCount st' = GxidCount (sys_dtm s)"
      "bump_logged st' = bump_logged (sys_dtm s)" "limit st' = pending_limit k shutdown c (sys_dtm s)"
    and s': "sys_dtm s' = st'" "server s' = server s" "checkpoint_ok num s' (checkpoint s')"
  shows "counters_ok num s'"
proof -
  have "ahead num st' = ahead num (sys_dtm s)" by (simp add: ahead_def st')
  then show ?thesis using ok pend s'(3) by (auto simp: counters_ok_def pending_ok_def st' s'(1,2))
qed

lemma counters_ok_write:
  assumes ok: "counters_ok num s" and c: "checkpoint s = CkptRead k shutdown c"
  shows "counters_ok num (s\<lparr>checkpoint := CkptWritten k shutdown c,
     sys_dtm := (sys_dtm s)\<lparr>dtm_wal := dtm_wal (sys_dtm s) @ (if shutdown then [XLOG_CHECKPOINT_SHUTDOWN c] else [])\<rparr>\<rparr>)"
proof (cases shutdown)
  case False
  then have "(sys_dtm s)\<lparr>dtm_wal := dtm_wal (sys_dtm s) @ (if shutdown then [XLOG_CHECKPOINT_SHUTDOWN c] else [])\<rparr> = sys_dtm s" by simp
  then show ?thesis using ok c False by (simp add: counters_ok_def pending_ok_def)
next
  case True
  define st' where "st' = (sys_dtm s)\<lparr>dtm_wal := dtm_wal (sys_dtm s) @ [XLOG_CHECKPOINT_SHUTDOWN c]\<rparr>"
  have pend: "pending_ok num s k True c" using ok c True by (simp add: counters_ok_def)
  have lim: "limit st' = c" "pending_limit k True d st' = d" "pending_limit k True d (sys_dtm s) = d" for d
    by (simp_all add: st'_def limit_def pending_limit_def)
  have eq: "nextGxid st' = nextGxid (sys_dtm s)" "GxidCount st' = GxidCount (sys_dtm s)" "bump_logged st' = bump_logged (sys_dtm s)"
    "length (dtm_wal st') = Suc (length (dtm_wal (sys_dtm s)))" by (simp_all add: st'_def)
  have "counters_ok num (s\<lparr>checkpoint := CkptWritten k True c, sys_dtm := st'\<rparr>)"
    by (rule counters_ok_log_limit [OF ok pend eq(1-3)]) (use pend in \<open>simp_all add: lim eq pending_ok_def\<close>)
  then show ?thesis using True by (simp add: st'_def)
qed

lemma counters_ok_done:
  assumes ok: "counters_ok num s" and c: "checkpoint s = CkptWritten k shutdown c"
  shows "counters_ok num (s\<lparr>checkpoint := NoCheckpoint, wasShutdown := shutdown,
     sys_dtm := (sys_dtm s)\<lparr>ckpt_nextGxid := c, dtm_wal := (if shutdown then [] else drop k (dtm_wal (sys_dtm s)))\<rparr>\<rparr>)"
proof (rule counters_ok_log_limit [OF ok])
  show "pending_ok num s k shutdown c" using ok c by (simp add: counters_ok_def)
qed (simp_all add: limit_def pending_limit_def)

lemma counters_ok_restart:
  assumes ok: "counters_ok num s"
    and replay: "dtm_replay False max_gxacts (dtm_wal (sys_dtm s)) (startup_from_checkpoint ws (sys_dtm s)) = Inr st'"
  shows "counters_ok num (s\<lparr>sys_dtm := end_of_recovery st', server := Recovering, checkpoint := NoCheckpoint, held := [], early := e\<rparr>)"
    "nextGxid st' = limit (sys_dtm s)"
proof -
  have r: "nextGxid st' = limit (sys_dtm s)" "GxidCount st' = 0" "\<not> bump_logged st'" "limit st' = limit (sys_dtm s)"
    using replay_counters [OF replay] by (simp_all add: startup_from_checkpoint_def limit_def)
  then show "nextGxid st' = limit (sys_dtm s)" by simp
  have "limit (end_of_recovery st') = limit st'" by (simp add: limit_def end_of_recovery_def)
  then show "counters_ok num (s\<lparr>sys_dtm := end_of_recovery st', server := Recovering, checkpoint := NoCheckpoint,
      held := [], early := e\<rparr>)"
    using ok r by (auto simp: counters_ok_def end_of_recovery_def ahead_def)
qed

lemma counters_ok_step:
  assumes "dtm_step num max_gxacts maxProcs s s'" and "counters_ok num s"
  shows "counters_ok num s'"
  using assms
proof (induction rule: dtm_step.induct)
  case (proc_start s p st')
  show ?case
    by (rule counters_ok_same [OF proc_start.prems])
      (use same_counters_trans [OF same_counters_ops(1) same_counters_ops(5) [OF proc_start.hyps(4)]] in simp_all)
next
  case (proc_exit p s)
  show ?case by (rule counters_ok_same [OF proc_exit.prems]) (simp_all add: same_counters_ops)
next
  case (bump_log s st')
  show ?case by (rule counters_ok_bump_log [OF bump_log.prems bump_log.hyps])
next
  case (bump_add s)
  show ?case by (rule counters_ok_bump_add [OF bump_add.prems bump_add.hyps])
next
  case (activate s p sess st')
  show ?case by (rule counters_ok_activate(1) [OF activate.prems activate.hyps(1,4)])
next
  case (end_gxact p s)
  show ?case by (rule counters_ok_same [OF end_gxact.prems]) (simp_all add: same_counters_ops)
next
  case (reset_gxact p s)
  show ?case by (rule counters_ok_same [OF reset_gxact.prems]) (simp_all add: same_counters_ops)
next
  case (snapshot s p ds st')
  show ?case by (rule counters_ok_same [OF snapshot.prems]) (simp_all add: same_counters_ops(6) [OF snapshot.hyps(3)])
next
  case (log_record s r g)
  show ?case by (rule counters_ok_log [OF log_record.prems log_record.hyps(1)]) (use log_record.hyps(2) in auto)
next
  case (ckpt_read s k shutdown)
  show ?case by (rule counters_ok_read [OF ckpt_read.prems ckpt_read.hyps])
next
  case (ckpt_write s k shutdown c)
  show ?case by (rule counters_ok_write [OF ckpt_write.prems ckpt_write.hyps])
next
  case (ckpt_done s k shutdown c)
  show ?case by (rule counters_ok_done [OF ckpt_done.prems ckpt_done.hyps])
next
  case (restart s st')
  show ?case by (rule counters_ok_restart(1) [OF restart.prems restart.hyps])
qed (auto simp: counters_ok_def)

section \<open>The gxids handed out\<close>

definition assigned_ok :: "dtm_sys \<Rightarrow> bool" where
  "assigned_ok s \<longleftrightarrow> sorted_wrt (>) (assigned s) \<and> (\<forall>g \<in> set (assigned s). 0 < g \<and> g < nextGxid (sys_dtm s))"

lemma nextGxid_step:
  assumes "dtm_step num max_gxacts maxProcs s s'" and "counters_ok num s"
  shows "nextGxid (sys_dtm s) \<le> nextGxid (sys_dtm s') \<and>
    (assigned s' = assigned s \<or> assigned s' = nextGxid (sys_dtm s) # assigned s \<and> nextGxid (sys_dtm s) < nextGxid (sys_dtm s'))"
  using assms
proof (induction rule: dtm_step.induct)
  case (proc_start s p st')
  show ?case using same_countersD(1) [OF same_counters_trans [OF same_counters_ops(1) same_counters_ops(5) [OF proc_start.hyps(4)]]]
    by simp
next
  case (activate s p sess st')
  show ?case using counters_ok_activate(2) [OF activate.prems activate.hyps(1,4)]
    by (simp add: word_less_nat_alt word_le_nat_alt)
next
  case (bump_log s st')
  then show ?case by (auto simp: bumpGxid_log_def Let_def split: if_splits)
next
  case (snapshot s p ds st')
  then show ?case using same_countersD(1) [OF same_counters_ops(6) [OF snapshot.hyps(3)]] by simp
next
  case (restart s st')
  then show ?case using counters_ok_restart(2) [OF restart.prems restart.hyps] by (simp add: counters_ok_def end_of_recovery_def)
qed (simp_all add: same_countersD(1) [OF same_counters_ops(2)] same_countersD(1) [OF same_counters_ops(3)]
    same_countersD(1) [OF same_counters_ops(4)] bumpGxid_add_def)

lemma assigned_ok_step:
  assumes step: "dtm_step num max_gxacts maxProcs s s'" and ok: "counters_ok num s" "assigned_ok s"
  shows "assigned_ok s'"
proof -
  have "0 < nextGxid (sys_dtm s)" using ok(1) by (simp add: counters_ok_def)
  then show ?thesis using nextGxid_step [OF step ok(1)] ok(2) unfolding assigned_ok_def by (elim conjE disjE) auto
qed

end
