(* ===== verification/Dtx_Running.thy ===== *)
theory Dtx_Running
  imports Dtx_History
begin

text \<open>
  The running transactions in every history of a coordinator, and what its distributed snapshots say
  of them: no gxid is handed out twice, a snapshot sees exactly the running transactions, and no
  snapshot in use is passed by the oldest xmin that later snapshots carry.
\<close>

section \<open>The running transactions\<close>

abbreviation gx :: "dtm \<Rightarrow> nat \<Rightarrow> DistributedTransactionId" where
  "gx st p \<equiv> gxid (allTmGxact st ! p)"

abbreviation gxmin :: "dtm \<Rightarrow> nat \<Rightarrow> DistributedTransactionId" where
  "gxmin st p \<equiv> xminDistributedSnapshot (allTmGxact st ! p)"

definition running :: "dtm \<Rightarrow> DistributedTransactionId set" where
  "running st = {g. g \<noteq> 0 \<and> (\<exists>p \<in> set (pgprocnos st). gx st p = g)}"

text \<open>
  \<open>procs_ok\<close>: gxids in use are below \<open>nextGxid\<close>, and those below it that are not in use are completed;
  \<open>latestCompletedGxid\<close> reaches \<open>nextGxid\<close> only right after a restart.
\<close>

definition procs_ok :: "dtm \<Rightarrow> bool" where
  "procs_ok st \<longleftrightarrow>
     distinct (pgprocnos st) \<and> (\<forall>p \<in> set (pgprocnos st). p < length (allTmGxact st) \<and> gx st p < nextGxid st) \<and>
     (\<forall>g. 0 < g \<and> g < nextGxid st \<and> g \<notin> running st \<longrightarrow> g \<le> latestCompletedGxid st) \<and>
     latestCompletedGxid st \<le> nextGxid st \<and> (latestCompletedGxid st = nextGxid st \<longrightarrow> running st = {})"

text \<open>
  \<open>xmins_ok\<close>: unless a snapshot was taken too early, what a process advertises is at most every running
  gxid and everything to come; \<open>held_ok\<close>: a snapshot in use is not older than what its process
  advertises.
\<close>

definition xmins_ok :: "dtm \<Rightarrow> bool" where
  "xmins_ok st \<longleftrightarrow>
     (\<forall>p \<in> set (pgprocnos st). gxmin st p \<noteq> 0 \<longrightarrow>
        latestCompletedGxid st < nextGxid st \<and> gxmin st p \<le> latestCompletedGxid st + 1 \<and>
        (\<forall>g \<in> running st. gxmin st p \<le> g))"

definition holders_ok :: "dtm_sys \<Rightarrow> bool" where
  "holders_ok s \<longleftrightarrow>
     (\<forall>(p, d) \<in> set (held s). p \<in> set (pgprocnos (sys_dtm s)) \<and> gxmin (sys_dtm s) p \<noteq> 0 \<and> gxmin (sys_dtm s) p \<le> ds_xmin d)"

definition snapshots_ok :: "dtm_sys \<Rightarrow> bool" where
  "snapshots_ok s \<longleftrightarrow> procs_ok (sys_dtm s) \<and> (early s \<or> xmins_ok (sys_dtm s) \<and> holders_ok s)"

lemma set_insert_procno [simp]: "set (insert_procno p ps) = insert p (set ps)"
  by (induction ps) auto

lemma distinct_insert_procno: "p \<notin> set ps \<Longrightarrow> distinct ps \<Longrightarrow> distinct (insert_procno p ps)"
  by (induction ps) auto

lemma gx_upd:
  "p < length (allTmGxact st) \<Longrightarrow>
   allTmGxact (upd_gxact st p f) ! q = (if q = p then f (allTmGxact st ! p) else allTmGxact st ! q)"
  by (simp add: upd_gxact_def)

lemma upd_gxact_simps [simp]:
  "pgprocnos (upd_gxact st p f) = pgprocnos st" "length (allTmGxact (upd_gxact st p f)) = length (allTmGxact st)"
  "nextGxid (upd_gxact st p f) = nextGxid st" "latestCompletedGxid (upd_gxact st p f) = latestCompletedGxid st"
  "committedGxidArray (upd_gxact st p f) = committedGxidArray st"
  by (simp_all add: upd_gxact_def)

text \<open>
  The effect of a step on what these invariants speak of: for one process \<open>p\<close>, the others unchanged.
\<close>

lemma running_upd:
  assumes "p < length (allTmGxact st)" "p \<in> set (pgprocnos st)"
  shows "running (upd_gxact st p f) =
    {g. g \<noteq> 0 \<and> (\<exists>q \<in> set (pgprocnos st). q \<noteq> p \<and> gx st q = g)} \<union> ({gxid (f (allTmGxact st ! p))} - {0})"
  using assms by (auto simp: running_def gx_upd)

lemma running_cong:
  "pgprocnos st' = pgprocnos st \<Longrightarrow> allTmGxact st' = allTmGxact st \<Longrightarrow> running st' = running st"
  by (simp add: running_def)

lemma unat_succ:
  fixes a b :: "64 word"
  assumes "a < b" shows "unat (a + 1) = unat a + 1"
proof -
  have "unat a < unat b" using assms by (simp add: word_less_nat_alt)
  moreover have "unat b < 2 ^ 64" using unsigned_less [of b, where ?'a = nat] by simp
  ultimately show ?thesis using unat_of_nat_add [of a 1] by simp
qed

text \<open>A process that ends its transaction, or leaves.\<close>

definition leaves :: "nat \<Rightarrow> dtm \<Rightarrow> dtm \<Rightarrow> bool" where
  "leaves p st st' \<longleftrightarrow>
     nextGxid st' = nextGxid st \<and> latestCompletedGxid st' = max (latestCompletedGxid st) (gx st p) \<and>
     length (allTmGxact st') = length (allTmGxact st) \<and> distinct (pgprocnos st') \<and>
     set (pgprocnos st') \<subseteq> set (pgprocnos st) \<and> set (pgprocnos st) \<subseteq> insert p (set (pgprocnos st')) \<and>
     (\<forall>q \<in> set (pgprocnos st'). q \<noteq> p \<longrightarrow> allTmGxact st' ! q = allTmGxact st ! q) \<and>
     (p \<in> set (pgprocnos st') \<longrightarrow> gx st' p = 0 \<and> gxmin st' p = 0)"

lemma leaves_running:
  assumes "leaves p st st'" shows "running st' \<subseteq> running st" "running st \<subseteq> insert (gx st p) (running st')"
proof -
  show "running st' \<subseteq> running st"
  proof
    fix g assume "g \<in> running st'"
    then obtain q where q: "q \<in> set (pgprocnos st')" "gx st' q = g" "g \<noteq> 0" by (auto simp: running_def)
    then have "q \<noteq> p" using assms by (auto simp: leaves_def)
    then show "g \<in> running st" using assms q by (auto simp: leaves_def running_def)
  qed
  show "running st \<subseteq> insert (gx st p) (running st')"
  proof
    fix g assume "g \<in> running st"
    then obtain q where q: "q \<in> set (pgprocnos st)" "gx st q = g" "g \<noteq> 0" by (auto simp: running_def)
    show "g \<in> insert (gx st p) (running st')"
    proof (cases "q = p")
      case False
      then have "q \<in> set (pgprocnos st')" "gx st' q = g" using assms q by (auto simp: leaves_def)
      then show ?thesis using q(3) by (auto simp: running_def)
    qed (use q in simp)
  qed
qed

lemma procs_ok_leaves:
  assumes lv: "leaves p st st'" and ok: "procs_ok st" and p: "p \<in> set (pgprocnos st)"
  shows "procs_ok st'"
proof -
  have lc: "latestCompletedGxid st' = max (latestCompletedGxid st) (gx st p)" and nx: "nextGxid st' = nextGxid st"
    using lv by (simp_all add: leaves_def)
  have gp: "gx st p < nextGxid st" using ok p by (simp add: procs_ok_def)
  have "\<forall>q \<in> set (pgprocnos st'). q < length (allTmGxact st') \<and> gx st' q < nextGxid st'"
  proof
    fix q assume "q \<in> set (pgprocnos st')"
    then show "q < length (allTmGxact st') \<and> gx st' q < nextGxid st'"
      using lv ok gp by (cases "q = p") (auto simp: leaves_def procs_ok_def intro: le_less_trans [OF word_zero_le])
  qed
  moreover have "g \<le> latestCompletedGxid st'" if "0 < g" "g < nextGxid st'" "g \<notin> running st'" for g
  proof (cases "g = gx st p")
    case False
    then have "g \<notin> running st" using leaves_running(2) [OF lv] that(3) by blast
    then have "g \<le> latestCompletedGxid st" using ok that(1,2) nx by (auto simp: procs_ok_def)
    then show ?thesis by (simp add: lc le_max_iff_disj)
  qed (simp add: lc)
  moreover have "running st' = {}" if "latestCompletedGxid st' = nextGxid st'"
  proof -
    have "latestCompletedGxid st = nextGxid st" using that gp by (simp add: lc nx max_def split: if_splits)
    then show ?thesis using ok leaves_running(1) [OF lv] by (auto simp: procs_ok_def)
  qed
  ultimately show ?thesis using ok lv gp by (auto simp: procs_ok_def lc nx leaves_def)
qed

lemma xmins_ok_leaves:
  assumes lv: "leaves p st st'" and ok: "procs_ok st" "xmins_ok st" and p: "p \<in> set (pgprocnos st)"
  shows "xmins_ok st'"
  unfolding xmins_ok_def
proof (intro ballI impI)
  fix q assume q: "q \<in> set (pgprocnos st')" "gxmin st' q \<noteq> 0"
  then have "q \<noteq> p" using lv by (auto simp: leaves_def)
  then have eq: "gxmin st' q = gxmin st q" and q': "q \<in> set (pgprocnos st)" using lv q by (auto simp: leaves_def)
  have x: "latestCompletedGxid st < nextGxid st" "gxmin st q \<le> latestCompletedGxid st + 1" "\<forall>g \<in> running st. gxmin st q \<le> g"
    using ok(2) q(2) q' unfolding xmins_ok_def eq by auto
  have gp: "gx st p < nextGxid st" using ok p by (simp add: procs_ok_def)
  then have lt: "latestCompletedGxid st' < nextGxid st'" using lv x(1) by (simp add: leaves_def)
  have "latestCompletedGxid st \<le> latestCompletedGxid st'" using lv by (simp add: leaves_def)
  then have "latestCompletedGxid st + 1 \<le> latestCompletedGxid st' + 1"
    using unat_succ [OF lt] unat_succ [OF x(1)] by (simp add: word_le_nat_alt)
  then show "latestCompletedGxid st' < nextGxid st' \<and> gxmin st' q \<le> latestCompletedGxid st' + 1 \<and>
      (\<forall>g \<in> running st'. gxmin st' q \<le> g)"
    using lt x eq leaves_running(1) [OF lv] by auto
qed

lemma snapshots_ok_leaves:
  assumes lv: "leaves p (sys_dtm s) st'" and ok: "snapshots_ok s" and p: "p \<in> set (pgprocnos (sys_dtm s))"
  shows "snapshots_ok (s\<lparr>sys_dtm := st', held := drop_held p (held s)\<rparr>)"
proof (cases "early s")
  case False
  then have ok': "procs_ok (sys_dtm s)" "xmins_ok (sys_dtm s)" "holders_ok s" using ok by (simp_all add: snapshots_ok_def)
  have "holders_ok (s\<lparr>sys_dtm := st', held := drop_held p (held s)\<rparr>)"
    using ok'(3) lv unfolding holders_ok_def drop_held_def leaves_def by fastforce
  then show ?thesis using procs_ok_leaves [OF lv ok'(1) p] xmins_ok_leaves [OF lv ok'(1,2) p] by (simp add: snapshots_ok_def)
qed (use procs_ok_leaves [OF lv _ p] ok in \<open>simp add: snapshots_ok_def\<close>)

lemma leaves_ops:
  assumes "procs_ok st" "p \<in> set (pgprocnos st)"
  shows "leaves p st (ProcArrayEndGxact p st)" "leaves p st (ProcArrayRemove p st)"
    "gx st p = 0 \<Longrightarrow> leaves p st (resetTmGxact p st)"
proof -
  have p: "p < length (allTmGxact st)" "distinct (pgprocnos st)" using assms by (auto simp: procs_ok_def)
  show "leaves p st (ProcArrayEndGxact p st)"
    using p by (auto simp: leaves_def ProcArrayEndGxact_def Let_def gx_upd upd_gxact_def max_def not_less)
  show "leaves p st (ProcArrayRemove p st)"
    using p by (auto simp: leaves_def ProcArrayRemove_def Let_def max_def not_less)
  show "leaves p st (resetTmGxact p st)" if "gx st p = 0"
    using p that by (auto simp: leaves_def resetTmGxact_def gx_upd)
qed

text \<open>The other steps.\<close>

lemma snapshots_ok_same:
  assumes "snapshots_ok s" "pgprocnos (sys_dtm s') = pgprocnos (sys_dtm s)" "allTmGxact (sys_dtm s') = allTmGxact (sys_dtm s)"
    "nextGxid (sys_dtm s') = nextGxid (sys_dtm s)" "latestCompletedGxid (sys_dtm s') = latestCompletedGxid (sys_dtm s)"
    "held s' = held s" "early s' = early s"
  shows "snapshots_ok s'"
  using assms running_cong [of "sys_dtm s'" "sys_dtm s"] by (simp add: snapshots_ok_def procs_ok_def xmins_ok_def holders_ok_def)

lemma snapshots_ok_activate:
  assumes ok: "snapshots_ok s" and p: "p \<in> set (pgprocnos (sys_dtm s))" and tak: "take_gxid p sess (sys_dtm s) = Some st'"
    and nx: "unat (nextGxid st') = unat (nextGxid (sys_dtm s)) + 1" and pos: "0 < nextGxid (sys_dtm s)" and free: "gx (sys_dtm s) p = 0"
  shows "snapshots_ok (s\<lparr>sys_dtm := st', assigned := a\<rparr>)"
proof -
  let ?st = "sys_dtm s"
  have ok1: "procs_ok ?st" and pl: "p < length (allTmGxact ?st)" using ok p by (auto simp: snapshots_ok_def procs_ok_def)
  define t where "t = ?st\<lparr>nextGxid := nextGxid ?st + 1, GxidCount := GxidCount ?st - 1\<rparr>"
  have st': "st' = upd_gxact t p (\<lambda>t. t\<lparr>gxid := nextGxid ?st, tm_sessionId := sess\<rparr>)"
    using tak by (auto simp: take_gxid_def t_def split: if_splits)
  have g: "gx st' q = (if q = p then nextGxid ?st else gx ?st q)" "gxmin st' q = gxmin ?st q" for q
    using pl by (simp_all add: st' t_def gx_upd)
  have rest: "pgprocnos st' = pgprocnos ?st" "latestCompletedGxid st' = latestCompletedGxid ?st"
    "length (allTmGxact st') = length (allTmGxact ?st)" "nextGxid st' = nextGxid ?st + 1" by (simp_all add: st' t_def)
  have lt: "x < nextGxid st' \<longleftrightarrow> x \<le> nextGxid ?st" for x using nx by (auto simp: word_less_nat_alt word_le_nat_alt)
  have run: "running st' = insert (nextGxid ?st) (running ?st)"
  proof
    show "running st' \<subseteq> insert (nextGxid ?st) (running ?st)" by (auto simp: running_def rest g)
    show "insert (nextGxid ?st) (running ?st) \<subseteq> running st'"
      using p pos free by (auto simp: running_def rest(1) g intro: bexI [of _ p])
  qed
  have up: "nextGxid ?st < nextGxid st'" by (simp add: lt)
  have lc: "latestCompletedGxid ?st \<le> nextGxid ?st" using ok1 by (simp add: procs_ok_def)
  have "procs_ok st'"
    using ok1 by (auto simp: procs_ok_def run rest(1-3) g lt less_imp_neq [OF le_less_trans [OF lc up]] order.order_iff_strict)
  moreover have "xmins_ok st'" if x: "xmins_ok ?st"
    unfolding xmins_ok_def rest(1) g
  proof (intro ballI impI)
    fix q assume q: "q \<in> set (pgprocnos ?st)" "gxmin ?st q \<noteq> 0"
    have c: "latestCompletedGxid ?st < nextGxid ?st" "gxmin ?st q \<le> latestCompletedGxid ?st + 1" "\<forall>g \<in> running ?st. gxmin ?st q \<le> g"
      using x q by (simp_all add: xmins_ok_def)
    have "latestCompletedGxid ?st + 1 \<le> nextGxid ?st"
      using c(1) unat_succ [OF c(1)] by (simp add: word_le_nat_alt word_less_nat_alt)
    then show "latestCompletedGxid st' < nextGxid st' \<and> gxmin ?st q \<le> latestCompletedGxid st' + 1 \<and> (\<forall>g \<in> running st'. gxmin ?st q \<le> g)"
      using c by (auto simp: rest(2) lt run)
  qed
  moreover have "holders_ok (s\<lparr>sys_dtm := st', assigned := a\<rparr>)" if "holders_ok s"
    using that by (simp add: holders_ok_def rest(1) g)
  ultimately show ?thesis using ok by (auto simp: snapshots_ok_def)
qed

lemma snapshots_ok_start:
  assumes ok: "snapshots_ok s" and p: "p \<notin> set (pgprocnos (sys_dtm s))" "p < length (allTmGxact (sys_dtm s))"
    and pos: "0 < nextGxid (sys_dtm s)"
    and add: "ProcArrayAdd m p (InitProcess_gxact p (sys_dtm s)) = Inr st'"
  shows "snapshots_ok (s\<lparr>sys_dtm := st'\<rparr>)"
proof -
  let ?st = "sys_dtm s"
  have st': "st' = (InitProcess_gxact p ?st)\<lparr>pgprocnos := insert_procno p (pgprocnos ?st)\<rparr>"
    using add by (auto simp: ProcArrayAdd_def InitProcess_gxact_def resetTmGxact_def split: if_splits)
  have g: "gx st' q = (if q = p then 0 else gx ?st q)" "gxmin st' q = (if q = p then 0 else gxmin ?st q)" for q
    using p(2) by (simp_all add: st' InitProcess_gxact_def resetTmGxact_def gx_upd)
  have rest: "pgprocnos st' = insert_procno p (pgprocnos ?st)" "latestCompletedGxid st' = latestCompletedGxid ?st"
    "length (allTmGxact st') = length (allTmGxact ?st)" "nextGxid st' = nextGxid ?st"
    by (simp_all add: st' InitProcess_gxact_def resetTmGxact_def)
  have run: "running st' = running ?st" using p(1) by (auto simp: running_def rest(1) g)
  have "procs_ok st'" if "procs_ok ?st"
    using that p pos by (auto simp: procs_ok_def run rest g distinct_insert_procno)
  moreover have "xmins_ok st'" if "xmins_ok ?st" using that p(1) by (auto simp: xmins_ok_def run rest g)
  moreover have "holders_ok (s\<lparr>sys_dtm := st'\<rparr>)" if "holders_ok s" using that p(1) unfolding holders_ok_def
    by (auto simp: rest(1) g split: if_splits dest: bspec)
  ultimately show ?thesis using ok by (auto simp: snapshots_ok_def)
qed

lemma in_progress_running: "in_progress_gxids False st = running st"
  by (auto simp: in_progress_gxids_def running_def)

text \<open>The xmin of a new snapshot is a lower bound of the running transactions, and the greatest one.\<close>

lemma snapshot_xmin:
  assumes snap: "CreateDistributedSnapshot False p st = Inr (ds, st')" and lc: "unat (latestCompletedGxid st) < 2 ^ 64 - 1"
  shows "ds_xmin ds \<noteq> 0" "ds_xmin ds \<le> latestCompletedGxid st + 1" "g \<in> running st \<Longrightarrow> ds_xmin ds \<le> g"
    "x \<le> latestCompletedGxid st + 1 \<Longrightarrow> (\<forall>g \<in> running st. x \<le> g) \<Longrightarrow> x \<le> ds_xmin ds"
proof -
  have iff: "ds_xmin ds \<le> m \<longleftrightarrow> latestCompletedGxid st + 1 \<le> m \<or> (\<exists>g \<in> running st. g < latestCompletedGxid st + 1 \<and> g \<le> m)" for m
    using snapshot_parts(1,3) [OF snap] by (simp add: in_progress_running)
  have "unat (latestCompletedGxid st + 1) = unat (latestCompletedGxid st) + 1"
    using lc unat_of_nat_add [of "latestCompletedGxid st" 1] by simp
  then have "latestCompletedGxid st + 1 \<noteq> 0" by (metis Suc_eq_plus1 nat.distinct(1) unat_0)
  then show "ds_xmin ds \<noteq> 0" using iff [of 0] by (auto simp: running_def)
  show "ds_xmin ds \<le> latestCompletedGxid st + 1" by (simp add: iff)
  show "ds_xmin ds \<le> g" if "g \<in> running st" using that by (auto simp: iff not_less)
  show "x \<le> ds_xmin ds" if "x \<le> latestCompletedGxid st + 1" "\<forall>g \<in> running st. x \<le> g"
    using iff [of "ds_xmin ds"] that by (auto intro: order_trans)
qed

lemma latest_bound:
  assumes "counters_ok num s" "procs_ok (sys_dtm s)"
  shows "unat (latestCompletedGxid (sys_dtm s)) < 2 ^ 64 - 1"
proof -
  have "latestCompletedGxid (sys_dtm s) \<le> limit (sys_dtm s)"
    using assms by (auto simp: counters_ok_def procs_ok_def)
  then show ?thesis using assms(1) by (auto simp: counters_ok_def word_le_nat_alt)
qed

lemma snapshots_ok_snapshot:
  assumes ok: "snapshots_ok s" and p: "p \<in> set (pgprocnos (sys_dtm s))"
    and snap: "CreateDistributedSnapshot False p (sys_dtm s) = Inr (ds, st')"
    and lc: "unat (latestCompletedGxid (sys_dtm s)) < 2 ^ 64 - 1"
  shows "snapshots_ok (s\<lparr>sys_dtm := st', held := (p, ds) # held s,
    early := early s \<or> latestCompletedGxid (sys_dtm s) \<ge> nextGxid (sys_dtm s)\<rparr>)"
proof -
  let ?st = "sys_dtm s"
  have ok1: "procs_ok ?st" and pl: "p < length (allTmGxact ?st)" using ok p by (auto simp: snapshots_ok_def procs_ok_def)
  note st' = snapshot_parts(5) [OF snap]
  have g: "gx st' q = gx ?st q" "gxmin st' q = (if q = p \<and> gxmin ?st p = 0 then ds_xmin ds else gxmin ?st q)" for q
    using pl by (simp_all add: st' Let_def gx_upd)
  have rest: "pgprocnos st' = pgprocnos ?st" "latestCompletedGxid st' = latestCompletedGxid ?st"
    "length (allTmGxact st') = length (allTmGxact ?st)" "nextGxid st' = nextGxid ?st" by (simp_all add: st' Let_def)
  have run: "running st' = running ?st" by (simp add: running_def rest(1) g)
  note x = snapshot_xmin [OF snap lc]
  have procs: "procs_ok st'" using ok1 by (simp add: procs_ok_def run rest g)
  show ?thesis
  proof (cases "early s \<or> latestCompletedGxid ?st \<ge> nextGxid ?st")
    case False
    then have xm: "xmins_ok ?st" and h: "holders_ok s" using ok by (simp_all add: snapshots_ok_def)
    have own: "gxmin st' p \<noteq> 0 \<and> gxmin st' p \<le> ds_xmin ds"
    proof (cases "gxmin ?st p = 0")
      case nz: False
      then show ?thesis using xm p x(4) by (simp add: g xmins_ok_def)
    qed (simp add: g x(1))
    have "xmins_ok st'" unfolding xmins_ok_def rest run
    proof (intro ballI impI)
      fix q assume q: "q \<in> set (pgprocnos ?st)" "gxmin st' q \<noteq> 0"
      show "latestCompletedGxid ?st < nextGxid ?st \<and> gxmin st' q \<le> latestCompletedGxid ?st + 1 \<and> (\<forall>g \<in> running ?st. gxmin st' q \<le> g)"
        using False q xm x(2,3) by (cases "q = p \<and> gxmin ?st p = 0") (auto simp: g xmins_ok_def)
    qed
    moreover have "holders_ok (s\<lparr>sys_dtm := st', held := (p, ds) # held s, early := e\<rparr>)" for e
      using own p h unfolding holders_ok_def by (auto simp: rest(1) g split: if_splits dest: bspec)
    ultimately show ?thesis using procs by (simp add: snapshots_ok_def)
  qed (use procs in \<open>simp add: snapshots_ok_def\<close>)
qed

lemma snapshots_ok_restart:
  assumes replay: "dtm_replay False max_gxacts (dtm_wal (sys_dtm s)) (startup_from_checkpoint ws (sys_dtm s)) = Inr st'"
  shows "snapshots_ok (s\<lparr>sys_dtm := end_of_recovery st', server := v, checkpoint := c, held := [], early := False\<rparr>)"
proof -
  have "pgprocnos (end_of_recovery st') = []"
    using replay_counters [OF replay] by (simp add: startup_from_checkpoint_def end_of_recovery_def)
  moreover have "latestCompletedGxid (end_of_recovery st') = nextGxid (end_of_recovery st')" by (simp add: end_of_recovery_def)
  ultimately show ?thesis by (auto simp: snapshots_ok_def procs_ok_def xmins_ok_def holders_ok_def running_def)
qed

lemma snapshots_ok_step:
  assumes "dtm_step num max_gxacts maxProcs s s'" and "counters_ok num s" "snapshots_ok s"
  shows "snapshots_ok s'"
  using assms
proof (induction rule: dtm_step.induct)
  case (proc_start s p st')
  have "0 < nextGxid (sys_dtm s)" using proc_start.prems(1) by (simp add: counters_ok_def)
  then show ?case by (rule snapshots_ok_start [OF proc_start.prems(2) proc_start.hyps(2,3) _ proc_start.hyps(4)])
next
  case (proc_exit p s)
  then have "procs_ok (sys_dtm s)" by (simp add: snapshots_ok_def)
  then show ?case using proc_exit.hyps by (intro snapshots_ok_leaves leaves_ops(2) proc_exit.prems(2))
next
  case (activate s p sess st')
  have pos: "0 < nextGxid (sys_dtm s)" using activate.prems(1) by (simp add: counters_ok_def)
  show ?case
    by (rule snapshots_ok_activate [OF activate.prems(2) activate.hyps(2,4)
          counters_ok_activate(2) [OF activate.prems(1) activate.hyps(1,4)] pos activate.hyps(3)])
next
  case (bump_log s st')
  show ?case
    by (rule snapshots_ok_same [OF bump_log.prems(2)]) (use bump_log.hyps in \<open>auto simp: bumpGxid_log_def Let_def split: if_splits\<close>)
next
  case (end_gxact p s)
  then have "procs_ok (sys_dtm s)" by (simp add: snapshots_ok_def)
  then show ?case using end_gxact.hyps by (intro snapshots_ok_leaves leaves_ops(1) end_gxact.prems(2))
next
  case (reset_gxact p s)
  then have "procs_ok (sys_dtm s)" by (simp add: snapshots_ok_def)
  then show ?case using reset_gxact.hyps by (intro snapshots_ok_leaves leaves_ops(3) reset_gxact.prems(2))
next
  case (snapshot s p ds st')
  then have "procs_ok (sys_dtm s)" by (simp add: snapshots_ok_def)
  then show ?case
    by (intro snapshots_ok_snapshot [OF snapshot.prems(2) snapshot.hyps(2,3)] latest_bound [OF snapshot.prems(1)])
next
  case (restart s st')
  show ?case by (rule snapshots_ok_restart [OF restart.hyps])
qed (erule snapshots_ok_same; simp add: bumpGxid_add_def)+

section \<open>Every history\<close>

text \<open>A new cluster, up for the first time, with room for \<open>n\<close> processes (\<open>BootStrapXLOG\<close>, \<open>StartupXLOG\<close>).\<close>

definition boot_sys :: "nat \<Rightarrow> dtm_sys" where
  "boot_sys n =
     \<lparr>sys_dtm = \<lparr>nextGxid = 1, GxidCount = 0, latestCompletedGxid = 1, NextSnapshotId = 0, committedGxidArray = [],
        allTmGxact = replicate n no_gxact, pgprocnos = [], bump_logged = False, dtm_wal = [], ckpt_nextGxid = 1\<rparr>,
      server = Recovering, checkpoint = NoCheckpoint, wasShutdown = True, assigned = [], held = [], early = False\<rparr>"

lemma reach_inv:
  assumes "dtm_reach num max_gxacts maxProcs (boot_sys n) s" and "num < 2 ^ 31"
  shows "counters_ok num s \<and> assigned_ok s \<and> snapshots_ok s"
  using assms(1)
proof (induction rule: dtm_reach.induct)
  case reach_init
  have "limit (sys_dtm (boot_sys n)) = 1" by (simp add: limit_def boot_sys_def)
  then show ?case using assms(2)
    by (auto simp: boot_sys_def counters_ok_def ahead_def assigned_ok_def snapshots_ok_def procs_ok_def xmins_ok_def
        holders_ok_def running_def)
next
  case (reach_step s s')
  then show ?case by (auto intro: counters_ok_step assigned_ok_step snapshots_ok_step)
qed

text \<open>C4. No distributed transaction identifier is ever handed out twice: in every history of a
  coordinator, with processes taking identifiers while a batch is being logged, checkpoints at any
  point of it, clean shutdowns, and crashes at any point followed by replay, every identifier handed
  out is greater than all earlier ones, and smaller than the one a restart would begin with.\<close>

theorem gxid_never_reused:
  assumes "dtm_reach num max_gxacts maxProcs (boot_sys n) s" and "num < 2 ^ 31"
  shows "sorted_wrt (>) (assigned s) \<and>
    (\<forall>g \<in> set (assigned s). 0 < g \<and> g < nextGxid (sys_dtm s) \<and>
       (\<forall>ws st'. dtm_replay False max_gxacts (dtm_wal (sys_dtm s)) (startup_from_checkpoint ws (sys_dtm s)) = Inr st' \<longrightarrow>
          g < nextGxid (end_of_recovery st')))"
proof -
  have ok: "counters_ok num s" "assigned_ok s" using reach_inv [OF assms] by auto
  have "nextGxid (sys_dtm s) \<le> nextGxid (end_of_recovery st')"
    if "dtm_replay False max_gxacts (dtm_wal (sys_dtm s)) (startup_from_checkpoint ws (sys_dtm s)) = Inr st'" for ws st'
    using counters_ok_restart(2) [OF ok(1) that] ok(1) by (simp add: counters_ok_def end_of_recovery_def)
  then show ?thesis using ok(2) unfolding assigned_ok_def by (meson less_le_trans)
qed

lemma snapshot_in_progress:
  assumes procs: "procs_ok st" and lt: "latestCompletedGxid st < nextGxid st"
    and snap: "CreateDistributedSnapshot False p st = Inr (ds, st')" and g: "0 < g" "g \<noteq> gx st p"
  shows "ds_in_progress ds g \<longleftrightarrow> nextGxid st \<le> g \<or> g \<in> running st"
proof -
  have xmax: "ds_xmax ds \<le> g \<longleftrightarrow> latestCompletedGxid st < g"
    using unat_succ [OF lt] by (auto simp: snapshot_parts(1) [OF snap] word_le_nat_alt word_less_nat_alt)
  have arr: "g \<in> set (inProgressXidArray ds) \<longleftrightarrow> g \<le> latestCompletedGxid st \<and> g \<in> running st"
    using snapshot_parts(2) [OF snap] xmax g by (auto simp: running_def not_le [symmetric] not_less)
  have "g \<le> latestCompletedGxid st" if "g < nextGxid st" "g \<notin> running st"
    using procs that g(1) by (simp add: procs_ok_def)
  then show ?thesis using lt unfolding ds_in_progress_def xmax arr by (meson le_less_trans not_le)
qed

lemma snapshot_ds_ok:
  assumes procs: "procs_ok st" and snap: "CreateDistributedSnapshot False p st = Inr (ds, st')"
    and lc: "unat (latestCompletedGxid st) < 2 ^ 64 - 1"
  shows "ds_ok (sort_snapshot ds)"
proof -
  note x = snapshot_xmin [OF snap lc]
  have "ds_xmin ds \<le> g \<and> g < ds_xmax ds" if "g \<in> set (inProgressXidArray ds)" for g
    using that x(3) snapshot_parts(2) [OF snap] by (auto simp: running_def)
  moreover have "xminAllDistributedSnapshots ds \<le> ds_xmin ds" using snapshot_parts(4) [OF snap, of "ds_xmin ds"] by simp
  moreover have "ds_xmin ds \<le> ds_xmax ds" using x(2) by (simp add: snapshot_parts(1) [OF snap])
  moreover have "sorted (inProgressXidArray (sort_snapshot ds))"
    by (simp add: sort_snapshot_def sorted01)
  ultimately show ?thesis using x(1) by (auto simp: ds_ok_def sort_snapshot_def word_gt_0)
qed

text \<open>C3. A distributed snapshot sees as in progress exactly the transactions that are: those of the
  other processes, and all whose identifiers are still to be handed out.  This holds in every
  history, from the moment on that an identifier was handed out since the last restart.  The snapshot
  has the form that the segments rely on: sorted, with its bounds in order.\<close>

theorem snapshot_exact:
  assumes reach: "dtm_reach num max_gxacts maxProcs (boot_sys n) s" and num: "num < 2 ^ 31"
    and lt: "latestCompletedGxid (sys_dtm s) < nextGxid (sys_dtm s)"
    and snap: "CreateDistributedSnapshot False p (sys_dtm s) = Inr (ds, st')"
  shows "ds_ok (sort_snapshot ds) \<and>
    (\<forall>g. 0 < g \<and> g \<noteq> gxid (allTmGxact (sys_dtm s) ! p) \<longrightarrow>
       (ds_in_progress (sort_snapshot ds) g \<longleftrightarrow>
          nextGxid (sys_dtm s) \<le> g \<or> (\<exists>q \<in> set (pgprocnos (sys_dtm s)). gxid (allTmGxact (sys_dtm s) ! q) = g)))"
proof -
  have ok: "counters_ok num s" "procs_ok (sys_dtm s)" using reach_inv [OF reach num] by (auto simp: snapshots_ok_def)
  have same: "ds_in_progress (sort_snapshot ds) g = ds_in_progress ds g" for g by (simp add: ds_in_progress_def sort_snapshot_def)
  have run: "g \<in> running (sys_dtm s) \<longleftrightarrow> (\<exists>q \<in> set (pgprocnos (sys_dtm s)). gx (sys_dtm s) q = g)" if "0 < g" for g
    using that by (auto simp: running_def)
  show ?thesis using snapshot_ds_ok [OF ok(2) snap latest_bound [OF ok]] snapshot_in_progress [OF ok(2) lt snap]
    by (simp add: same run)
qed

text \<open>C21. The oldest xmin that a new distributed snapshot carries to the segments, below which they
  may treat distributed transactions as visible to all and truncate their logs, never passes the xmin
  of a snapshot that a process took in a transaction that has not ended, in every history in which no
  snapshot was taken between the last restart and the hand-out of the first identifier.\<close>

theorem snapshots_in_use_protected:
  assumes reach: "dtm_reach num max_gxacts maxProcs (boot_sys n) s" and num: "num < 2 ^ 31"
    and early: "\<not> early s" and held: "(q, d) \<in> set (held s)"
    and snap: "CreateDistributedSnapshot False p (sys_dtm s) = Inr (ds, st')"
  shows "xminAllDistributedSnapshots ds \<le> ds_xmin d"
proof -
  have "holders_ok s" using reach_inv [OF reach num] early by (auto simp: snapshots_ok_def)
  then show ?thesis using held snapshot_parts(4) [OF snap, of "ds_xmin d"] by (auto simp: holders_ok_def)
qed

text \<open>C40. After a restart the first transaction is visible to snapshots taken before it began: the end
  of recovery marks the next identifier to be handed out as completed, so a snapshot that a process
  takes before the first distributed transaction starts does not count that transaction as in
  progress.\<close>

theorem first_gxid_after_restart_visible:
  assumes snap: "CreateDistributedSnapshot False p (end_of_recovery st) = Inr (ds, st1)"
    and idle: "\<forall>q \<in> set (pgprocnos st). gxid (allTmGxact st ! q) = 0"
    and tak: "take_gxid q sess (bumpGxid_add num st1) = Some st2" and q: "q < length (allTmGxact st)"
    and bound: "nextGxid st < LastDistributedTransactionId"
  shows "gxid (allTmGxact st2 ! q) = nextGxid st \<and> \<not> ds_in_progress ds (gxid (allTmGxact st2 ! q))"
proof -
  have eq: "nextGxid st1 = nextGxid st" "length (allTmGxact st1) = length (allTmGxact st)"
    using snapshot_parts(5) [OF snap] by (simp_all add: Let_def end_of_recovery_def)
  have g: "gxid (allTmGxact st2 ! q) = nextGxid st"
    using tak q eq by (auto simp: take_gxid_def bumpGxid_add_def gx_upd split: if_splits)
  have "set (inProgressXidArray ds) = {}" using snapshot_parts(2) [OF snap] idle by (auto simp: end_of_recovery_def)
  moreover have "nextGxid st < ds_xmax ds"
    using unat_succ [OF bound] by (simp add: snapshot_parts(1) [OF snap] end_of_recovery_def word_less_nat_alt)
  ultimately show ?thesis by (simp add: g ds_in_progress_def not_le)
qed

subsection \<open>Examples\<close>

text \<open>
  A history: two processes start, a batch is bumped while a checkpoint runs, the first process takes a
  gxid, and the second takes a snapshot.
\<close>

abbreviation ex_reach :: "dtm_sys \<Rightarrow> bool" where
  "ex_reach \<equiv> dtm_reach 1000 10 10 (boot_sys 2)"

definition ex_started :: dtm_sys where
  "ex_started =
     \<lparr>sys_dtm = \<lparr>nextGxid = 1, GxidCount = 0, latestCompletedGxid = 1, NextSnapshotId = 0, committedGxidArray = [],
        allTmGxact = [no_gxact, no_gxact], pgprocnos = [0, 1], bump_logged = False, dtm_wal = [], ckpt_nextGxid = 1\<rparr>,
      server = Running, checkpoint = NoCheckpoint, wasShutdown = True, assigned = [], held = [], early = False\<rparr>"

definition ex_logged :: dtm_sys where
  "ex_logged = ex_started\<lparr>checkpoint := CkptRedo 0 False,
     sys_dtm := (sys_dtm ex_started)\<lparr>dtm_wal := [XLOG_NEXTGXID 1001], bump_logged := True\<rparr>\<rparr>"

definition ex_active :: dtm_sys where
  "ex_active = ex_started\<lparr>checkpoint := CkptRedo 0 False, assigned := [1],
     sys_dtm := (sys_dtm ex_started)\<lparr>dtm_wal := [XLOG_NEXTGXID 1001], nextGxid := 2, GxidCount := 999,
       allTmGxact := [no_gxact\<lparr>gxid := 1, tm_sessionId := 7\<rparr>, no_gxact]\<rparr>\<rparr>"

definition ex_snap :: DistributedSnapshot where
  "ex_snap = \<lparr>xminAllDistributedSnapshots = 1, distribSnapshotId = 1, ds_xmin = 1, ds_xmax = 2, inProgressXidArray = [1]\<rparr>"

definition ex_snapped :: dtm_sys where
  "ex_snapped = ex_active\<lparr>held := [(1, ex_snap)],
     sys_dtm := (sys_dtm ex_active)\<lparr>NextSnapshotId := 1,
       allTmGxact := [no_gxact\<lparr>gxid := 1, tm_sessionId := 7\<rparr>, no_gxact\<lparr>xminDistributedSnapshot := 1\<rparr>]\<rparr>\<rparr>"

lemma reach_step_eq:
  "dtm_reach num m mp s0 s \<Longrightarrow> dtm_step num m mp s s' \<Longrightarrow> s' = t \<Longrightarrow> dtm_reach num m mp s0 t"
  using reach_step by blast

lemma ex_started_reach: "ex_reach ex_started"
proof -
  define up where "up = (boot_sys 2)\<lparr>server := Running\<rparr>"
  define one where "one = up\<lparr>sys_dtm := (sys_dtm up)\<lparr>pgprocnos := [0]\<rparr>\<rparr>"
  have "ex_reach up"
    unfolding up_def by (rule reach_step [OF reach_init dtm_step.start]) (simp_all add: boot_sys_def)
  then have "ex_reach one"
    unfolding one_def
    by (rule reach_step [OF _ dtm_step.proc_start [where p = 0]])
      (simp_all add: up_def boot_sys_def ProcArrayAdd_def InitProcess_gxact_def resetTmGxact_def upd_gxact_def no_gxact_def numeral_2_eq_2)
  then show ?thesis
    by (rule reach_step_eq [OF _ dtm_step.proc_start [where p = 1]])
      (simp_all add: one_def up_def boot_sys_def ProcArrayAdd_def InitProcess_gxact_def resetTmGxact_def upd_gxact_def
        no_gxact_def numeral_2_eq_2 ex_started_def)
qed

lemma ex_active_reach: "ex_reach ex_active"
proof -
  have "ex_reach (ex_started\<lparr>checkpoint := CkptRedo 0 False\<rparr>)"
    by (rule reach_step_eq [OF ex_started_reach dtm_step.ckpt_online]) (simp_all add: ex_started_def)
  then have "ex_reach ex_logged"
    by (rule reach_step_eq [OF _ dtm_step.bump_log [where st' = "sys_dtm ex_logged"]]) code_simp+
  then have "ex_reach (ex_logged\<lparr>sys_dtm := bumpGxid_add 1000 (sys_dtm ex_logged)\<rparr>)"
    by (rule reach_step [OF _ dtm_step.bump_add]) code_simp+
  then show ?thesis
    by (rule reach_step_eq [OF _ dtm_step.activate [where p = 0 and sess = 7 and st' = "sys_dtm ex_active"]]) code_simp+
qed

lemma ex_snapped_reach: "ex_reach ex_snapped"
  by (rule reach_step_eq [OF ex_active_reach dtm_step.snapshot [where p = 1 and ds = ex_snap and st' = "sys_dtm ex_snapped"]]) code_simp+

definition ex_recovered :: dtm where
  "ex_recovered = projr (dtm_replay False 10 (dtm_wal (sys_dtm ex_snapped)) (startup_from_checkpoint True (sys_dtm ex_snapped)))"

theorem gxid_never_reused_witness:
  "assigned ex_snapped = [1] \<and> (1 :: DistributedTransactionId) < nextGxid (end_of_recovery ex_recovered)"
proof -
  have r: "dtm_replay False 10 (dtm_wal (sys_dtm ex_snapped)) (startup_from_checkpoint True (sys_dtm ex_snapped)) = Inr ex_recovered"
    by code_simp
  have a: "assigned ex_snapped = [1]" by code_simp
  then have "1 \<in> set (assigned ex_snapped)" by simp
  moreover have "(1000 :: nat) < 2 ^ 31" by simp
  ultimately show ?thesis using gxid_never_reused [OF ex_snapped_reach] r a by blast
qed

theorem snapshot_exact_witness:
  "ds_in_progress (sort_snapshot ex_snap) 1 \<and> ds_in_progress (sort_snapshot ex_snap) 2 \<and>
   ds_xmax ex_snap = 2"
proof -
  have "CreateDistributedSnapshot False 1 (sys_dtm ex_active) = Inr (ex_snap, sys_dtm ex_snapped)" by code_simp
  note s = snapshot_exact [OF ex_active_reach _ _ this]
  have "latestCompletedGxid (sys_dtm ex_active) < nextGxid (sys_dtm ex_active)" by code_simp
  then have "0 < g \<and> g \<noteq> gxid (allTmGxact (sys_dtm ex_active) ! 1) \<longrightarrow>
      ds_in_progress (sort_snapshot ex_snap) g =
        (nextGxid (sys_dtm ex_active) \<le> g \<or> (\<exists>q \<in> set (pgprocnos (sys_dtm ex_active)). gxid (allTmGxact (sys_dtm ex_active) ! q) = g))"
    for g using s by simp
  moreover have "gxid (allTmGxact (sys_dtm ex_active) ! 1) = 0" "nextGxid (sys_dtm ex_active) = 2" "ds_xmax ex_snap = 2"
    "0 \<in> set (pgprocnos (sys_dtm ex_active))" "gxid (allTmGxact (sys_dtm ex_active) ! 0) = 1" by code_simp+
  ultimately show ?thesis by auto
qed

definition ex_snap2 :: "DistributedSnapshot \<times> dtm" where
  "ex_snap2 = projr (CreateDistributedSnapshot False 0 (sys_dtm ex_snapped))"

theorem snapshots_in_use_protected_witness:
  "xminAllDistributedSnapshots (fst ex_snap2) \<le> ds_xmin ex_snap \<and> (1, ex_snap) \<in> set (held ex_snapped)"
proof -
  have s: "CreateDistributedSnapshot False 0 (sys_dtm ex_snapped) = Inr (fst ex_snap2, snd ex_snap2)"
    and e: "\<not> early ex_snapped" and h: "(1, ex_snap) \<in> set (held ex_snapped)" and n: "(1000 :: nat) < 2 ^ 31" by code_simp+
  show ?thesis using snapshots_in_use_protected [OF ex_snapped_reach n e h s] h by (rule conjI)
qed

definition ex_early :: "DistributedSnapshot \<times> dtm" where
  "ex_early = projr (CreateDistributedSnapshot False 1 (end_of_recovery (sys_dtm ex_started)))"

theorem first_gxid_after_restart_visible_witness:
  "gxid (allTmGxact (the (take_gxid 0 7 (bumpGxid_add 1000 (snd ex_early)))) ! 0) = 1 \<and> \<not> ds_in_progress (fst ex_early) 1"
proof -
  let ?st = "sys_dtm ex_started"
  have c: "CreateDistributedSnapshot False 1 (end_of_recovery ?st) = Inr (fst ex_early, snd ex_early)"
    "take_gxid 0 7 (bumpGxid_add 1000 (snd ex_early)) = Some (the (take_gxid 0 7 (bumpGxid_add 1000 (snd ex_early))))"
    "0 < length (allTmGxact ?st)" "nextGxid ?st < LastDistributedTransactionId" "nextGxid ?st = 1" by code_simp+
  have "\<forall>q \<in> set (pgprocnos ?st). gxid (allTmGxact ?st ! q) = 0" by code_simp
  then show ?thesis using first_gxid_after_restart_visible [OF c(1) _ c(2-4)] c(5) by metis
qed

end
