(* ===== verification/Dtx_Protocol.thy ===== *)
theory Dtx_Protocol
  imports Prelude
begin

text \<open>
  Two-phase commit, the segments' side (\<open>cdb/cdbtm.c\<close>, \<open>access/transam/twophase.c\<close>): the commands the
  coordinator sends and how the process of a segment performs them on the local part of the distributed
  transaction.
\<close>

section \<open>States, commands, contexts\<close>

datatype DtxState =
    DTX_STATE_NONE
  | DTX_STATE_ACTIVE_DISTRIBUTED
  | DTX_STATE_ONE_PHASE_COMMIT
  | DTX_STATE_NOTIFYING_ONE_PHASE_COMMIT
  | DTX_STATE_PREPARING
  | DTX_STATE_PREPARED
  | DTX_STATE_INSERTING_COMMITTED
  | DTX_STATE_INSERTED_COMMITTED
  | DTX_STATE_NOTIFYING_COMMIT_PREPARED
  | DTX_STATE_INSERTING_FORGET_COMMITTED
  | DTX_STATE_INSERTED_FORGET_COMMITTED
  | DTX_STATE_NOTIFYING_ABORT_NO_PREPARED
  | DTX_STATE_NOTIFYING_ABORT_SOME_PREPARED
  | DTX_STATE_NOTIFYING_ABORT_PREPARED
  | DTX_STATE_RETRY_COMMIT_PREPARED
  | DTX_STATE_RETRY_ABORT_PREPARED

datatype DtxProtocolCommand =
    DTX_PROTOCOL_COMMAND_NONE
  | DTX_PROTOCOL_COMMAND_ABORT_NO_PREPARED
  | DTX_PROTOCOL_COMMAND_PREPARE
  | DTX_PROTOCOL_COMMAND_ABORT_SOME_PREPARED
  | DTX_PROTOCOL_COMMAND_COMMIT_ONEPHASE
  | DTX_PROTOCOL_COMMAND_COMMIT_PREPARED
  | DTX_PROTOCOL_COMMAND_ABORT_PREPARED
  | DTX_PROTOCOL_COMMAND_RETRY_COMMIT_PREPARED
  | DTX_PROTOCOL_COMMAND_RETRY_ABORT_PREPARED
  | DTX_PROTOCOL_COMMAND_RECOVERY_COMMIT_PREPARED
  | DTX_PROTOCOL_COMMAND_RECOVERY_ABORT_PREPARED
  | DTX_PROTOCOL_COMMAND_SUBTRANSACTION_BEGIN_INTERNAL
  | DTX_PROTOCOL_COMMAND_SUBTRANSACTION_ROLLBACK_INTERNAL
  | DTX_PROTOCOL_COMMAND_SUBTRANSACTION_RELEASE_INTERNAL

datatype DtxContext =
    DTX_CONTEXT_LOCAL_ONLY
  | DTX_CONTEXT_QD_DISTRIBUTED_CAPABLE
  | DTX_CONTEXT_QD_RETRY_PHASE_2
  | DTX_CONTEXT_QE_ENTRY_DB_SINGLETON
  | DTX_CONTEXT_QE_AUTO_COMMIT_IMPLICIT
  | DTX_CONTEXT_QE_TWO_PHASE_EXPLICIT_WRITER
  | DTX_CONTEXT_QE_TWO_PHASE_IMPLICIT_WRITER
  | DTX_CONTEXT_QE_READER
  | DTX_CONTEXT_QE_PREPARED
  | DTX_CONTEXT_QE_FINISH_PREPARED

text \<open>
  The local part of one distributed transaction on a segment, and a process of the segment.  A part is
  open in the process that began it, whose nesting level is then positive; a prepared part belongs to
  no process.
\<close>

datatype local_xact = NoXact | OpenXact | PreparedXact | CommittedXact | AbortedXact

record qe =
  DistributedTransactionContext :: DtxContext
  nestLevel :: nat

datatype qe_error = QeERROR | QeFATAL | QePANIC

type_synonym qe_result = "qe_error option \<times> qe \<times> local_xact"

definition idle_qe :: qe where
  "idle_qe = \<lparr>DistributedTransactionContext = DTX_CONTEXT_LOCAL_ONLY, nestLevel = 0\<rparr>"

section \<open>Performing a command\<close>

text \<open>
  Leaving the open transaction, which is also what the processes' main loop does after an error
  (\<open>AbortCurrentTransaction\<close>) and what its exit does.
\<close>

definition AbortOutOfAnyTransaction :: "qe \<Rightarrow> local_xact \<Rightarrow> qe \<times> local_xact" where
  "AbortOutOfAnyTransaction q x = (if nestLevel q = 0 then (q, x) else (idle_qe, if x = OpenXact then AbortedXact else x))"

definition qe_exit :: "qe \<Rightarrow> local_xact \<Rightarrow> qe \<times> local_xact" where
  "qe_exit q x = (idle_qe, snd (AbortOutOfAnyTransaction q x))"

definition qe_raise :: "qe_error \<Rightarrow> qe \<Rightarrow> local_xact \<Rightarrow> qe_result" where
  "qe_raise e q x = (Some e, if e = QeERROR then AbortOutOfAnyTransaction q x else qe_exit q x)"

text \<open>
  \<open>FinishPreparedTransaction\<close>: \<open>ok\<close> tells whether the prepared transaction can be locked and its state
  read.  Without a prepared transaction of that name the result is an error or, if so requested,
  nothing happens.
\<close>

definition FinishPreparedTransaction :: "bool \<Rightarrow> bool \<Rightarrow> bool \<Rightarrow> local_xact \<Rightarrow> bool \<times> local_xact" where
  "FinishPreparedTransaction ok isCommit raiseErrorIfNotFound x =
     (if x = PreparedXact
      then (if ok then (True, if isCommit then CommittedXact else AbortedXact) else (False, x))
      else (\<not> raiseErrorIfNotFound, x))"

definition performDtxProtocolPrepare :: "bool \<Rightarrow> qe \<Rightarrow> local_xact \<Rightarrow> qe_result" where
  "performDtxProtocolPrepare ok q x =
     (if ok \<and> nestLevel q > 0 \<and> x = OpenXact
      then (None, \<lparr>DistributedTransactionContext = DTX_CONTEXT_QE_PREPARED, nestLevel = 0\<rparr>, PreparedXact)
      else qe_raise QeERROR q x)"

definition performDtxProtocolCommitOnePhase :: "bool \<Rightarrow> qe \<Rightarrow> local_xact \<Rightarrow> qe_result" where
  "performDtxProtocolCommitOnePhase ok q x =
     (if ok \<and> nestLevel q > 0 \<and> x = OpenXact then (None, idle_qe, CommittedXact) else qe_raise QeERROR q x)"

text \<open>The two differ only in what \<open>FinishPreparedTransaction\<close> is asked to do; both leave the distributed context.\<close>

definition finish_prepared :: "bool \<Rightarrow> bool \<Rightarrow> bool \<Rightarrow> qe \<Rightarrow> local_xact \<Rightarrow> qe_result" where
  "finish_prepared ok isCommit raiseErrorIfNotFound q x =
     (case FinishPreparedTransaction ok isCommit raiseErrorIfNotFound x of
        (True, x') \<Rightarrow> (None, idle_qe, x')
      | (False, x') \<Rightarrow> (Some QeERROR, idle_qe, x'))"

definition performDtxProtocolCommitPrepared :: "bool \<Rightarrow> bool \<Rightarrow> qe \<Rightarrow> local_xact \<Rightarrow> qe_result" where
  "performDtxProtocolCommitPrepared ok raiseErrorIfNotFound = finish_prepared ok True raiseErrorIfNotFound"

definition performDtxProtocolAbortPrepared :: "bool \<Rightarrow> bool \<Rightarrow> qe \<Rightarrow> local_xact \<Rightarrow> qe_result" where
  "performDtxProtocolAbortPrepared ok raiseErrorIfNotFound = finish_prepared ok False raiseErrorIfNotFound"

definition requireDistributedTransactionContext :: "DtxContext \<Rightarrow> qe \<Rightarrow> local_xact \<Rightarrow> qe_result \<Rightarrow> qe_result" where
  "requireDistributedTransactionContext c q x go = (if DistributedTransactionContext q \<noteq> c then qe_raise QeFATAL q x else go)"

definition setDistributedTransactionContext :: "DtxContext \<Rightarrow> qe \<Rightarrow> qe" where
  "setDistributedTransactionContext c q = q\<lparr>DistributedTransactionContext := c\<rparr>"

text \<open>
  \<open>info_context\<close> is the context that \<open>setupQEDtxContext\<close> chooses from the dispatched information,
  \<open>level\<close> the nesting level in it.
\<close>

definition perform_prepare_or_onephase :: "bool \<Rightarrow> bool \<Rightarrow> qe \<Rightarrow> local_xact \<Rightarrow> qe_result" where
  "perform_prepare_or_onephase ok onephase q x =
     (case DistributedTransactionContext q of
        DTX_CONTEXT_LOCAL_ONLY \<Rightarrow> qe_raise QeERROR q x
      | DTX_CONTEXT_QE_TWO_PHASE_EXPLICIT_WRITER \<Rightarrow>
          (if onephase then performDtxProtocolCommitOnePhase ok q x else performDtxProtocolPrepare ok q x)
      | DTX_CONTEXT_QE_TWO_PHASE_IMPLICIT_WRITER \<Rightarrow>
          (if onephase then performDtxProtocolCommitOnePhase ok q x else performDtxProtocolPrepare ok q x)
      | DTX_CONTEXT_QE_AUTO_COMMIT_IMPLICIT \<Rightarrow> qe_raise QePANIC q x
      | _ \<Rightarrow> qe_raise QeFATAL q x)"

definition perform_abort_some_prepared :: "bool \<Rightarrow> qe \<Rightarrow> local_xact \<Rightarrow> qe_result" where
  "perform_abort_some_prepared ok q x =
     (case DistributedTransactionContext q of
        DTX_CONTEXT_LOCAL_ONLY \<Rightarrow> (None, AbortOutOfAnyTransaction q x)
      | DTX_CONTEXT_QE_TWO_PHASE_EXPLICIT_WRITER \<Rightarrow> (None, AbortOutOfAnyTransaction q x)
      | DTX_CONTEXT_QE_TWO_PHASE_IMPLICIT_WRITER \<Rightarrow> (None, AbortOutOfAnyTransaction q x)
      | DTX_CONTEXT_QE_PREPARED \<Rightarrow>
          performDtxProtocolAbortPrepared ok True (setDistributedTransactionContext DTX_CONTEXT_QE_FINISH_PREPARED q) x
      | _ \<Rightarrow> qe_raise QePANIC q x)"

definition perform_subtransaction_begin :: "DtxContext \<Rightarrow> qe \<Rightarrow> local_xact \<Rightarrow> qe_result" where
  "perform_subtransaction_begin info_context q x =
     (if DistributedTransactionContext q = DTX_CONTEXT_LOCAL_ONLY
      then (None, \<lparr>DistributedTransactionContext = info_context, nestLevel = 2\<rparr>, if x = NoXact then OpenXact else x)
      else (None, q\<lparr>nestLevel := nestLevel q + 1\<rparr>, x))"

definition perform_subtransaction_rollback :: "nat \<Rightarrow> qe \<Rightarrow> local_xact \<Rightarrow> qe_result" where
  "perform_subtransaction_rollback level q x =
     (if level + 1 > nestLevel q then qe_raise QeERROR q x else (None, q\<lparr>nestLevel := level\<rparr>, x))"

fun performDtxProtocolCommand :: "bool \<Rightarrow> DtxContext \<Rightarrow> nat \<Rightarrow> DtxProtocolCommand \<Rightarrow> qe \<Rightarrow> local_xact \<Rightarrow> qe_result" where
  "performDtxProtocolCommand ok info_context level DTX_PROTOCOL_COMMAND_ABORT_NO_PREPARED q x =
     (None, AbortOutOfAnyTransaction q x)"
| "performDtxProtocolCommand ok info_context level DTX_PROTOCOL_COMMAND_PREPARE q x = perform_prepare_or_onephase ok False q x"
| "performDtxProtocolCommand ok info_context level DTX_PROTOCOL_COMMAND_COMMIT_ONEPHASE q x = perform_prepare_or_onephase ok True q x"
| "performDtxProtocolCommand ok info_context level DTX_PROTOCOL_COMMAND_ABORT_SOME_PREPARED q x = perform_abort_some_prepared ok q x"
| "performDtxProtocolCommand ok info_context level DTX_PROTOCOL_COMMAND_COMMIT_PREPARED q x =
     requireDistributedTransactionContext DTX_CONTEXT_QE_PREPARED q x
       (performDtxProtocolCommitPrepared ok True (setDistributedTransactionContext DTX_CONTEXT_QE_FINISH_PREPARED q) x)"
| "performDtxProtocolCommand ok info_context level DTX_PROTOCOL_COMMAND_ABORT_PREPARED q x =
     requireDistributedTransactionContext DTX_CONTEXT_QE_PREPARED q x
       (performDtxProtocolAbortPrepared ok True (setDistributedTransactionContext DTX_CONTEXT_QE_FINISH_PREPARED q) x)"
| "performDtxProtocolCommand ok info_context level DTX_PROTOCOL_COMMAND_RETRY_COMMIT_PREPARED q x =
     requireDistributedTransactionContext DTX_CONTEXT_LOCAL_ONLY q x (performDtxProtocolCommitPrepared ok False q x)"
| "performDtxProtocolCommand ok info_context level DTX_PROTOCOL_COMMAND_RETRY_ABORT_PREPARED q x =
     requireDistributedTransactionContext DTX_CONTEXT_LOCAL_ONLY q x (performDtxProtocolAbortPrepared ok False q x)"
| "performDtxProtocolCommand ok info_context level DTX_PROTOCOL_COMMAND_RECOVERY_COMMIT_PREPARED q x =
     requireDistributedTransactionContext DTX_CONTEXT_LOCAL_ONLY q x (performDtxProtocolCommitPrepared ok False q x)"
| "performDtxProtocolCommand ok info_context level DTX_PROTOCOL_COMMAND_RECOVERY_ABORT_PREPARED q x =
     requireDistributedTransactionContext DTX_CONTEXT_LOCAL_ONLY q x (performDtxProtocolAbortPrepared ok False q x)"
| "performDtxProtocolCommand ok info_context level DTX_PROTOCOL_COMMAND_SUBTRANSACTION_BEGIN_INTERNAL q x =
     perform_subtransaction_begin info_context q x"
| "performDtxProtocolCommand ok info_context level DTX_PROTOCOL_COMMAND_SUBTRANSACTION_RELEASE_INTERNAL q x =
     (None, q\<lparr>nestLevel := nestLevel q - 1\<rparr>, x)"
| "performDtxProtocolCommand ok info_context level DTX_PROTOCOL_COMMAND_SUBTRANSACTION_ROLLBACK_INTERNAL q x =
     perform_subtransaction_rollback level q x"
| "performDtxProtocolCommand ok info_context level DTX_PROTOCOL_COMMAND_NONE q x = qe_raise QeERROR q x"

section \<open>What a command can do to the local part\<close>

definition prepare_command :: "DtxProtocolCommand \<Rightarrow> bool" where
  "prepare_command c \<longleftrightarrow> c = DTX_PROTOCOL_COMMAND_PREPARE"

definition commit_command :: "DtxProtocolCommand \<Rightarrow> bool" where
  "commit_command c \<longleftrightarrow> c \<in> {DTX_PROTOCOL_COMMAND_COMMIT_PREPARED, DTX_PROTOCOL_COMMAND_RETRY_COMMIT_PREPARED,
     DTX_PROTOCOL_COMMAND_RECOVERY_COMMIT_PREPARED}"

definition abort_command :: "DtxProtocolCommand \<Rightarrow> bool" where
  "abort_command c \<longleftrightarrow> c \<in> {DTX_PROTOCOL_COMMAND_ABORT_NO_PREPARED, DTX_PROTOCOL_COMMAND_ABORT_SOME_PREPARED,
     DTX_PROTOCOL_COMMAND_ABORT_PREPARED, DTX_PROTOCOL_COMMAND_RETRY_ABORT_PREPARED, DTX_PROTOCOL_COMMAND_RECOVERY_ABORT_PREPARED}"

lemmas qe_defs = AbortOutOfAnyTransaction_def qe_exit_def qe_raise_def FinishPreparedTransaction_def performDtxProtocolPrepare_def
  performDtxProtocolCommitOnePhase_def finish_prepared_def performDtxProtocolCommitPrepared_def performDtxProtocolAbortPrepared_def
  requireDistributedTransactionContext_def setDistributedTransactionContext_def perform_prepare_or_onephase_def
  perform_abort_some_prepared_def perform_subtransaction_begin_def perform_subtransaction_rollback_def idle_qe_def

text \<open>How a part changes: only an open part is prepared, only a prepared one finished by the second phase.\<close>

inductive part_step :: "DtxProtocolCommand \<Rightarrow> local_xact \<Rightarrow> local_xact \<Rightarrow> bool" where
  same: "part_step c x x"
| give_up: "part_step c OpenXact AbortedXact"
| prepares: "c = DTX_PROTOCOL_COMMAND_PREPARE \<Longrightarrow> part_step c OpenXact PreparedXact"
| one_phase: "c = DTX_PROTOCOL_COMMAND_COMMIT_ONEPHASE \<Longrightarrow> part_step c OpenXact CommittedXact"
| commits: "commit_command c \<Longrightarrow> part_step c PreparedXact CommittedXact"
| aborts: "abort_command c \<Longrightarrow> part_step c PreparedXact AbortedXact"
| begins: "c = DTX_PROTOCOL_COMMAND_SUBTRANSACTION_BEGIN_INTERNAL \<Longrightarrow> part_step c NoXact OpenXact"

lemma perform_part_step:
  assumes "performDtxProtocolCommand ok ic lv c q x = (e, q', x')"
  shows "part_step c x x'"
  using assms
  by (cases c; cases x)
    (auto simp: qe_defs commit_command_def abort_command_def split: DtxContext.splits if_splits prod.splits bool.splits
      intro: part_step.intros)

text \<open>What a success tells the coordinator.\<close>

lemma perform_success:
  assumes "performDtxProtocolCommand ok ic lv c q x = (None, q', x')"
  shows "c = DTX_PROTOCOL_COMMAND_PREPARE \<Longrightarrow> x' = PreparedXact"
    "commit_command c \<Longrightarrow> x' \<noteq> PreparedXact"
    "c = DTX_PROTOCOL_COMMAND_COMMIT_ONEPHASE \<Longrightarrow> x' = CommittedXact"
    "c = DTX_PROTOCOL_COMMAND_RETRY_ABORT_PREPARED \<or> c = DTX_PROTOCOL_COMMAND_RECOVERY_ABORT_PREPARED \<Longrightarrow> x' \<noteq> PreparedXact"
  using assms
  by (auto simp: qe_defs commit_command_def split: DtxContext.splits if_splits prod.splits bool.splits)

end
