(* ===== verification/Dtx_Coordinator.thy ===== *)
theory Dtx_Coordinator
  imports Dtx_Protocol
begin

text \<open>
  Two-phase commit, the coordinator's side (\<open>cdb/cdbtm.c\<close>): the process that runs the distributed
  transaction (the query dispatcher, QD), as functions between the points where it waits for the
  segments.  Each returns the new state and what the process does next.
\<close>

section \<open>State\<close>

record qd =
  dtx_state :: DtxState
  dtxSegments :: "nat list"
  writerGangLost :: bool
  qd_context :: DtxContext

datatype elevel = ERROR | FATAL | PANIC

text \<open>
  What comes next: the function returns; it dispatches a command to segments and waits; the commit has
  been delivered, so the forget record is to be inserted; or an error is raised.  The flag of the first
  two tells that the processes on the segments are released first (\<open>ResetAllGangs\<close>,
  \<open>DisconnectAndDestroyAllGangs\<close>).
\<close>

datatype qd_action =
    QdReturn bool
  | QdDispatch bool DtxProtocolCommand "nat list"
  | QdForget
  | QdRaise elevel

definition isCurrentDtxActivated :: "qd \<Rightarrow> bool" where
  "isCurrentDtxActivated q \<longleftrightarrow> dtx_state q \<noteq> DTX_STATE_NONE"

definition setCurrentDtxState :: "DtxState \<Rightarrow> qd \<Rightarrow> qd" where
  "setCurrentDtxState d q = q\<lparr>dtx_state := d\<rparr>"

definition reset_qd :: "qd \<Rightarrow> qd" where
  "reset_qd q = q\<lparr>dtx_state := DTX_STATE_NONE, dtxSegments := [], writerGangLost := False\<rparr>"

definition currentDtxDispatchProtocolCommand :: "bool \<Rightarrow> DtxProtocolCommand \<Rightarrow> qd \<Rightarrow> qd \<times> qd_action" where
  "currentDtxDispatchProtocolCommand reset c q = (q, QdDispatch reset c (dtxSegments q))"

text \<open>A gang is used: its segments take part, each recorded once; the entry database (\<open>-1\<close>) does not.\<close>

definition addToGxactDtxSegments :: "nat \<Rightarrow> int list \<Rightarrow> qd \<Rightarrow> qd" where
  "addToGxactDtxSegments nseg gang q =
     (if \<not> isCurrentDtxActivated q \<or> length (dtxSegments q) \<ge> nseg then q
      else q\<lparr>dtxSegments := fold (\<lambda>i segs. if i = -1 \<or> nat i \<in> set segs then segs else segs @ [nat i]) gang (dtxSegments q)\<rparr>)"

section \<open>Commit\<close>

definition doNotifyingOnePhaseCommit :: "qd \<Rightarrow> qd \<times> qd_action" where
  "doNotifyingOnePhaseCommit q =
     (if dtxSegments q = [] then (q, QdReturn False)
      else currentDtxDispatchProtocolCommand False DTX_PROTOCOL_COMMAND_COMMIT_ONEPHASE
             (setCurrentDtxState DTX_STATE_NOTIFYING_ONE_PHASE_COMMIT q))"

definition one_phase_end :: "bool \<Rightarrow> qd \<Rightarrow> qd \<times> qd_action" where
  "one_phase_end succeeded q = (q, if succeeded then QdReturn False else QdRaise ERROR)"

definition doPrepareTransaction :: "qd \<Rightarrow> qd \<times> qd_action" where
  "doPrepareTransaction q =
     currentDtxDispatchProtocolCommand False DTX_PROTOCOL_COMMAND_PREPARE (setCurrentDtxState DTX_STATE_PREPARING q)"

definition prepare_end :: "bool \<Rightarrow> qd \<Rightarrow> qd \<times> qd_action" where
  "prepare_end succeeded q =
     (if \<not> succeeded then (q, QdRaise ERROR) else (setCurrentDtxState DTX_STATE_PREPARED q, QdReturn False))"

text \<open>
  \<open>wrote_xlog\<close> is \<open>TopXactExecutorDidWriteXLog()\<close>, \<open>markXidCommitted\<close> tells whether the coordinator has a
  local transaction identifier.
\<close>

definition prepareDtxTransaction :: "bool \<Rightarrow> bool \<Rightarrow> qd \<Rightarrow> qd \<times> qd_action" where
  "prepareDtxTransaction wrote_xlog markXidCommitted q =
     (if qd_context q \<noteq> DTX_CONTEXT_QD_DISTRIBUTED_CAPABLE then (q, QdReturn False)
      else if \<not> isCurrentDtxActivated q then (reset_qd q, QdReturn False)
      else if \<not> wrote_xlog \<or> (\<not> markXidCommitted \<and> length (dtxSegments q) < 2)
      then doNotifyingOnePhaseCommit (setCurrentDtxState DTX_STATE_ONE_PHASE_COMMIT q)
      else doPrepareTransaction q)"

definition isPreparedDtxTransaction :: "qd \<Rightarrow> bool" where
  "isPreparedDtxTransaction q \<longleftrightarrow> dtx_state q = DTX_STATE_PREPARED"

definition insertingDistributedCommitted :: "qd \<Rightarrow> qd" where
  "insertingDistributedCommitted = setCurrentDtxState DTX_STATE_INSERTING_COMMITTED"

definition insertedDistributedCommitted :: "qd \<Rightarrow> qd" where
  "insertedDistributedCommitted = setCurrentDtxState DTX_STATE_INSERTED_COMMITTED"

definition doNotifyingCommitPrepared :: "qd \<Rightarrow> qd \<times> qd_action" where
  "doNotifyingCommitPrepared q =
     currentDtxDispatchProtocolCommand False DTX_PROTOCOL_COMMAND_COMMIT_PREPARED
       (setCurrentDtxState DTX_STATE_NOTIFYING_COMMIT_PREPARED q)"

text \<open>
  After the first broadcast, and after each repetition; \<open>timedout\<close>: the time for repetitions is over
  (at first: no time is configured).
\<close>

definition retry_commit :: "bool \<Rightarrow> qd \<Rightarrow> qd \<times> qd_action" where
  "retry_commit timedout q =
     (if timedout then (q, QdRaise PANIC)
      else currentDtxDispatchProtocolCommand True DTX_PROTOCOL_COMMAND_RETRY_COMMIT_PREPARED q)"

definition commit_prepared_end :: "bool \<Rightarrow> bool \<Rightarrow> qd \<Rightarrow> qd \<times> qd_action" where
  "commit_prepared_end succeeded timedout q =
     (if succeeded then (q, QdForget)
      else retry_commit timedout
             ((setCurrentDtxState DTX_STATE_RETRY_COMMIT_PREPARED q)\<lparr>qd_context := DTX_CONTEXT_QD_RETRY_PHASE_2\<rparr>))"

definition retry_commit_end :: "bool \<Rightarrow> bool \<Rightarrow> qd \<Rightarrow> qd \<times> qd_action" where
  "retry_commit_end succeeded timedout q = (if succeeded then (q, QdForget) else retry_commit timedout q)"

definition notifyCommittedDtxTransactionIsNeeded :: "qd \<Rightarrow> bool" where
  "notifyCommittedDtxTransactionIsNeeded q \<longleftrightarrow>
     qd_context q = DTX_CONTEXT_QD_DISTRIBUTED_CAPABLE \<and> isCurrentDtxActivated q"

definition notifyCommittedDtxTransaction :: "bool \<Rightarrow> qd \<Rightarrow> qd \<times> qd_action" where
  "notifyCommittedDtxTransaction markXidCommitted q =
     (case dtx_state q of
        DTX_STATE_INSERTED_COMMITTED \<Rightarrow> doNotifyingCommitPrepared q
      | DTX_STATE_NOTIFYING_ONE_PHASE_COMMIT \<Rightarrow> (q, QdReturn False)
      | DTX_STATE_ONE_PHASE_COMMIT \<Rightarrow> (q, QdReturn False)
      | _ \<Rightarrow> (q, QdRaise (if markXidCommitted then PANIC else ERROR)))"

section \<open>Rollback\<close>

text \<open>
  \<open>retryAbortPrepared\<close> broadcasts to all segments \<open>all\<close>; when its time is over it leaves the rest to
  the recovery process.
\<close>

definition retryAbortPrepared :: "bool \<Rightarrow> nat list \<Rightarrow> qd \<Rightarrow> qd \<times> qd_action" where
  "retryAbortPrepared timedout all q =
     (if timedout then (q, QdReturn True)
      else currentDtxDispatchProtocolCommand True DTX_PROTOCOL_COMMAND_RETRY_ABORT_PREPARED (q\<lparr>dtxSegments := all\<rparr>))"

definition retry_abort_end :: "bool \<Rightarrow> bool \<Rightarrow> nat list \<Rightarrow> qd \<Rightarrow> qd \<times> qd_action" where
  "retry_abort_end succeeded timedout all q =
     (if succeeded then (q, QdReturn False) else retryAbortPrepared timedout all q)"

definition abort_prepared_end :: "bool \<Rightarrow> bool \<Rightarrow> nat list \<Rightarrow> qd \<Rightarrow> qd \<times> qd_action" where
  "abort_prepared_end succeeded timedout all q =
     (if succeeded then (q, QdReturn False)
      else retryAbortPrepared timedout all
             ((setCurrentDtxState DTX_STATE_RETRY_ABORT_PREPARED q)\<lparr>qd_context := DTX_CONTEXT_QD_RETRY_PHASE_2\<rparr>))"

definition doNotifyingAbort :: "bool \<Rightarrow> nat list \<Rightarrow> qd \<Rightarrow> qd \<times> qd_action" where
  "doNotifyingAbort timedout all q =
     (case dtx_state q of
        DTX_STATE_NOTIFYING_ABORT_NO_PREPARED \<Rightarrow> currentDtxDispatchProtocolCommand False DTX_PROTOCOL_COMMAND_ABORT_NO_PREPARED q
      | DTX_STATE_NOTIFYING_ABORT_SOME_PREPARED \<Rightarrow> currentDtxDispatchProtocolCommand False DTX_PROTOCOL_COMMAND_ABORT_SOME_PREPARED q
      | DTX_STATE_NOTIFYING_ABORT_PREPARED \<Rightarrow> currentDtxDispatchProtocolCommand False DTX_PROTOCOL_COMMAND_ABORT_PREPARED q
      | DTX_STATE_RETRY_ABORT_PREPARED \<Rightarrow> retryAbortPrepared timedout all q
      | _ \<Rightarrow> (q, QdRaise PANIC))"

text \<open>The part of \<open>rollbackDtxTransaction\<close> after the state is set; \<open>exiting\<close> is \<open>proc_exit_inprogress\<close>.\<close>

definition rollback_notify :: "bool \<Rightarrow> bool \<Rightarrow> nat list \<Rightarrow> qd \<Rightarrow> qd \<times> qd_action" where
  "rollback_notify exiting timedout all q =
     (if exiting
      then (if dtx_state q = DTX_STATE_NOTIFYING_ABORT_NO_PREPARED then (q, QdReturn True) else (q, QdRaise FATAL))
      else doNotifyingAbort timedout all q)"

definition rollback_no_prepared :: "bool \<Rightarrow> bool \<Rightarrow> nat list \<Rightarrow> qd \<Rightarrow> qd \<times> qd_action" where
  "rollback_no_prepared exiting timedout all q =
     (if dtxSegments q = [] \<or> writerGangLost q then (q, QdReturn False)
      else rollback_notify exiting timedout all (setCurrentDtxState DTX_STATE_NOTIFYING_ABORT_NO_PREPARED q))"

definition rollbackDtxTransaction :: "bool \<Rightarrow> bool \<Rightarrow> nat list \<Rightarrow> qd \<Rightarrow> qd \<times> qd_action" where
  "rollbackDtxTransaction exiting timedout all q =
     (if qd_context q \<noteq> DTX_CONTEXT_QD_DISTRIBUTED_CAPABLE \<or> \<not> isCurrentDtxActivated q then (q, QdReturn False)
      else
        case dtx_state q of
          DTX_STATE_ACTIVE_DISTRIBUTED \<Rightarrow> rollback_no_prepared exiting timedout all q
        | DTX_STATE_ONE_PHASE_COMMIT \<Rightarrow> rollback_no_prepared exiting timedout all q
        | DTX_STATE_NOTIFYING_ONE_PHASE_COMMIT \<Rightarrow> rollback_no_prepared exiting timedout all q
        | DTX_STATE_PREPARING \<Rightarrow>
            rollback_notify exiting timedout all
              (setCurrentDtxState
                 (if writerGangLost q then DTX_STATE_RETRY_ABORT_PREPARED else DTX_STATE_NOTIFYING_ABORT_SOME_PREPARED) q)
        | DTX_STATE_PREPARED \<Rightarrow>
            rollback_notify exiting timedout all (setCurrentDtxState DTX_STATE_NOTIFYING_ABORT_PREPARED q)
        | DTX_STATE_NOTIFYING_ABORT_NO_PREPARED \<Rightarrow> (q, QdReturn True)
        | DTX_STATE_NOTIFYING_ABORT_SOME_PREPARED \<Rightarrow> (q, QdRaise FATAL)
        | DTX_STATE_NOTIFYING_ABORT_PREPARED \<Rightarrow> (q, QdRaise FATAL)
        | _ \<Rightarrow> (q, QdReturn False))"

section \<open>The answers\<close>

text \<open>The continuation after a dispatch, by the state in which the process waits.\<close>

definition dispatch_end :: "bool \<Rightarrow> bool \<Rightarrow> nat list \<Rightarrow> qd \<Rightarrow> qd \<times> qd_action" where
  "dispatch_end succeeded timedout all q =
     (case dtx_state q of
        DTX_STATE_NOTIFYING_ONE_PHASE_COMMIT \<Rightarrow> one_phase_end succeeded q
      | DTX_STATE_PREPARING \<Rightarrow> prepare_end succeeded q
      | DTX_STATE_NOTIFYING_COMMIT_PREPARED \<Rightarrow> commit_prepared_end succeeded timedout q
      | DTX_STATE_RETRY_COMMIT_PREPARED \<Rightarrow> retry_commit_end succeeded timedout q
      | DTX_STATE_NOTIFYING_ABORT_NO_PREPARED \<Rightarrow> (q, QdReturn (\<not> succeeded))
      | DTX_STATE_NOTIFYING_ABORT_SOME_PREPARED \<Rightarrow> abort_prepared_end succeeded timedout all q
      | DTX_STATE_NOTIFYING_ABORT_PREPARED \<Rightarrow> abort_prepared_end succeeded timedout all q
      | DTX_STATE_RETRY_ABORT_PREPARED \<Rightarrow> retry_abort_end succeeded timedout all q
      | _ \<Rightarrow> (q, QdReturn False))"

text \<open>
  \<open>doDispatchDtxProtocolCommand\<close> on what came back: \<open>None\<close> is a raised error.  \<open>results\<close> are for each
  segment whether the result is not an error, and its command status, of which only a prefix of the
  command's name counts as success.
\<close>

definition doDispatchDtxProtocolCommand ::
  "string \<Rightarrow> bool \<Rightarrow> nat list \<Rightarrow> bool \<Rightarrow> (bool \<times> string) list option \<Rightarrow> bool option" where
  "doDispatchDtxProtocolCommand cmd raiseError segs qeError results =
     (if segs = [] then Some True
      else if qeError \<and> raiseError then None
      else
        case results of
          None \<Rightarrow> Some False
        | Some rs \<Rightarrow> Some (length (filter (\<lambda>(ok, status). \<not> ok \<or> take (length status) cmd \<noteq> status) rs) = 0))"

end
