(* ===== verification/Dtx_TwoPhase.thy ===== *)
theory Dtx_TwoPhase
  imports Dtx_Coordinator
begin

text \<open>
  Two-phase commit as a whole: one distributed transaction, its process on the coordinator, its
  processes on the segments, messages that are delayed, lost or whose answers are lost, processes and
  segments that die, checkpoints of the coordinator, crashes of the coordinator at any point, and the
  recovery process.  Identifiers are never reused, so other transactions do not interfere with it.
\<close>

section \<open>State\<close>

text \<open>Where the process on the coordinator stands.\<close>

datatype qd_pc =
    Executing
  | Waiting nat
  | PreCommit
  | InsertingCommit
  | CommitInserted
  | CommitMarked
  | Notifying
  | Forgetting
  | ForgetInserted
  | Aborting
  | Ending bool
  | Ended bool
  | Crashed

datatype tp_record = DistributedCommit | DistributedForget

text \<open>A checkpoint: redo pointer fixed; looked for processes in their commit section; information collected.\<close>

datatype tp_checkpoint = CkNone | CkRedo nat | CkLooked nat bool | CkCollected nat bool

text \<open>
  Where the recovery process stands: notifying the committed transactions that replay found (and
  waiting for the answers), gathering and aborting the rest; then, started, looking for orphans.
\<close>

datatype recovery_pc =
    RecNotify
  | RecWait nat
  | RecForgot
  | RecGather
  | RecAbort
  | RecStarted
  | OrphanGathered
  | OrphanAbort

text \<open>A message to a segment: the number of the broadcast and the command.\<close>

type_synonym message = "nat \<times> nat \<times> DtxProtocolCommand"

record tp =
  qd_st :: qd
  pc :: qd_pc
  exiting :: bool
  in_progress :: bool
  in_ckpt :: bool
  delayChkpt :: bool
  tp_wal :: "tp_record list"
  flushed :: nat
  ckpt_has :: bool
  tp_ckpt :: tp_checkpoint
  committed_array :: bool
  recovery :: recovery_pc
  bcast :: nat
  acks :: "(nat \<times> nat) list"
  inflight :: "message list"
  parts :: "local_xact list"
  writers :: "qe list"

text \<open>What replay finds: the transaction is in the checkpoint or committed after it, and not forgotten.\<close>

fun tp_redo :: "tp_record \<Rightarrow> bool \<Rightarrow> bool" where
  "tp_redo DistributedCommit b = True"
| "tp_redo DistributedForget b = False"

definition tp_replay :: "bool \<Rightarrow> tp_record list \<Rightarrow> bool" where
  "tp_replay b w = fold tp_redo w b"

section \<open>Steps\<close>

definition send :: "DtxProtocolCommand \<Rightarrow> nat list \<Rightarrow> tp \<Rightarrow> tp" where
  "send c segs s = s\<lparr>bcast := bcast s + 1, inflight := inflight s @ map (\<lambda>i. (i, bcast s + 1, c)) segs\<rparr>"

text \<open>
  The process does what its function says; \<open>ret\<close> is where it goes when the function returns.  An error
  leads to the rollback, \<open>FATAL\<close> ends the process, and \<open>PANIC\<close> the coordinator.
\<close>

fun act :: "qd_pc \<Rightarrow> qd \<times> qd_action \<Rightarrow> tp \<Rightarrow> tp" where
  "act ret (q, QdReturn r) s = s\<lparr>qd_st := q, pc := ret\<rparr>"
| "act ret (q, QdDispatch r c segs) s = (send c segs s)\<lparr>qd_st := q, pc := Waiting (bcast s + 1)\<rparr>"
| "act ret (q, QdForget) s = s\<lparr>qd_st := q, pc := Forgetting\<rparr>"
| "act ret (q, QdRaise ERROR) s = s\<lparr>qd_st := q, pc := Aborting\<rparr>"
| "act ret (q, QdRaise FATAL) s = s\<lparr>qd_st := q, pc := Ending False\<rparr>"
| "act ret (q, QdRaise PANIC) s = s\<lparr>qd_st := q, pc := Crashed\<rparr>"

text \<open>Where a dispatch returns to.\<close>

definition return_pc :: "qd \<Rightarrow> qd_pc" where
  "return_pc q = (if dtx_state q = DTX_STATE_PREPARING \<or> dtx_state q = DTX_STATE_NOTIFYING_ONE_PHASE_COMMIT then PreCommit else Ending False)"

text \<open>The commands of a repetition or of the recovery go to new processes, all others to the transaction's own.\<close>

definition to_new_process :: "DtxProtocolCommand \<Rightarrow> bool" where
  "to_new_process c \<longleftrightarrow> c \<in> {DTX_PROTOCOL_COMMAND_RETRY_COMMIT_PREPARED, DTX_PROTOCOL_COMMAND_RETRY_ABORT_PREPARED,
     DTX_PROTOCOL_COMMAND_RECOVERY_COMMIT_PREPARED, DTX_PROTOCOL_COMMAND_RECOVERY_ABORT_PREPARED}"

text \<open>A segment performs a command; if it succeeds and the answer arrives, it is an acknowledgement.\<close>

definition deliver :: "bool \<Rightarrow> bool \<Rightarrow> message \<Rightarrow> tp \<Rightarrow> tp" where
  "deliver ok answered m s =
     (case m of (i, n, c) \<Rightarrow>
        let q = (if to_new_process c then idle_qe else writers s ! i);
            (e, q', x') = performDtxProtocolCommand ok DTX_CONTEXT_QE_TWO_PHASE_IMPLICIT_WRITER 0 c q (parts s ! i)
        in s\<lparr>inflight := remove1 m (inflight s), parts := (parts s)[i := x'],
             writers := (if to_new_process c then writers s else (writers s)[i := q']),
             acks := (if e = None \<and> answered then (n, i) # acks s else acks s)\<rparr>)"

definition all_segs :: "tp \<Rightarrow> nat list" where
  "all_segs s = [0..<length (parts s)]"

definition acked :: "tp \<Rightarrow> nat \<Rightarrow> nat list \<Rightarrow> bool" where
  "acked s n segs \<longleftrightarrow> (\<forall>i \<in> set segs. (n, i) \<in> set (acks s))"

text \<open>
  The process on the coordinator.  \<open>wrote\<close>: the segments wrote to their logs; \<open>mark\<close>: the coordinator has
  a local transaction identifier.
\<close>

inductive qd_step :: "bool \<Rightarrow> bool \<Rightarrow> tp \<Rightarrow> tp \<Rightarrow> bool" for wrote mark where
  statement: "pc s = Executing \<Longrightarrow> i < length (parts s) \<Longrightarrow> parts s ! i = NoXact \<Longrightarrow> writers s ! i = idle_qe \<Longrightarrow>
     qd_step wrote mark s
       (s\<lparr>qd_st := addToGxactDtxSegments (length (parts s)) [int i] (qd_st s), parts := (parts s)[i := OpenXact],
          writers := (writers s)[i := \<lparr>DistributedTransactionContext = DTX_CONTEXT_QE_TWO_PHASE_IMPLICIT_WRITER, nestLevel = 1\<rparr>]\<rparr>)"
| gang_lost: "pc s \<in> {Executing, Aborting} \<Longrightarrow> qd_step wrote mark s (s\<lparr>qd_st := (qd_st s)\<lparr>writerGangLost := True\<rparr>\<rparr>)"
| commit: "pc s = Executing \<Longrightarrow> qd_step wrote mark s (act PreCommit (prepareDtxTransaction wrote mark (qd_st s)) s)"
| rollback_request: "pc s \<in> {Executing, PreCommit} \<Longrightarrow> qd_step wrote mark s (s\<lparr>pc := Aborting, exiting := e\<rparr>)"
| rollback: "pc s = Aborting \<Longrightarrow>
     qd_step wrote mark s (act (Ending False) (rollbackDtxTransaction (exiting s) timedout (all_segs s) (qd_st s)) s)"
| answered: "pc s = Waiting n \<Longrightarrow> (succeeded \<longrightarrow> acked s n (dtxSegments (qd_st s))) \<Longrightarrow>
     qd_step wrote mark s (act (return_pc (qd_st s)) (dispatch_end succeeded timedout (all_segs s) (qd_st s)) s)"
| enter_commit: "pc s = PreCommit \<Longrightarrow> isPreparedDtxTransaction (qd_st s) \<Longrightarrow>
     qd_step wrote mark s (s\<lparr>pc := InsertingCommit, delayChkpt := True, qd_st := insertingDistributedCommitted (qd_st s)\<rparr>)"
| insert_commit: "pc s = InsertingCommit \<Longrightarrow>
     qd_step wrote mark s (s\<lparr>pc := CommitInserted, tp_wal := tp_wal s @ [DistributedCommit]\<rparr>)"
| mark_commit: "pc s = CommitInserted \<Longrightarrow>
     qd_step wrote mark s (s\<lparr>pc := CommitMarked, qd_st := insertedDistributedCommitted (qd_st s), in_ckpt := True\<rparr>)"
| flush_commit: "pc s = CommitMarked \<Longrightarrow>
     qd_step wrote mark s (s\<lparr>pc := Notifying, flushed := length (tp_wal s), delayChkpt := False\<rparr>)"
| local_commit: "pc s = PreCommit \<Longrightarrow> \<not> isPreparedDtxTransaction (qd_st s) \<Longrightarrow> qd_step wrote mark s (s\<lparr>pc := Notifying\<rparr>)"
| notify: "pc s = Notifying \<Longrightarrow> notifyCommittedDtxTransactionIsNeeded (qd_st s) \<Longrightarrow>
     qd_step wrote mark s (act (Ending True) (notifyCommittedDtxTransaction mark (qd_st s)) s)"
| no_notify: "pc s = Notifying \<Longrightarrow> \<not> notifyCommittedDtxTransactionIsNeeded (qd_st s) \<Longrightarrow>
     qd_step wrote mark s (s\<lparr>pc := Ending True\<rparr>)"
| insert_forget: "pc s = Forgetting \<Longrightarrow>
     qd_step wrote mark s
       (s\<lparr>pc := ForgetInserted, qd_st := setCurrentDtxState DTX_STATE_INSERTING_FORGET_COMMITTED (qd_st s),
          tp_wal := tp_wal s @ [DistributedForget]\<rparr>)"
| clear_ckpt: "pc s = ForgetInserted \<Longrightarrow>
     qd_step wrote mark s
       (s\<lparr>pc := Ending True, qd_st := setCurrentDtxState DTX_STATE_INSERTED_FORGET_COMMITTED (qd_st s), in_ckpt := False\<rparr>)"
| end_transaction: "pc s = Ending b \<Longrightarrow>
     qd_step wrote mark s (s\<lparr>pc := Ended b, in_progress := False, in_ckpt := False, qd_st := (qd_st s)\<lparr>dtx_state := DTX_STATE_NONE\<rparr>\<rparr>)"

text \<open>The segments and the network.\<close>

inductive segment_step :: "tp \<Rightarrow> tp \<Rightarrow> bool" where
  deliver_message: "m \<in> set (inflight s) \<Longrightarrow> fst m < length (parts s) \<Longrightarrow> segment_step s (deliver ok ans m s)"
| lose_message: "m \<in> set (inflight s) \<Longrightarrow> segment_step s (s\<lparr>inflight := remove1 m (inflight s)\<rparr>)"
| writer_exit: "i < length (parts s) \<Longrightarrow> qe_exit (writers s ! i) (parts s ! i) = (q', x') \<Longrightarrow>
     segment_step s (s\<lparr>writers := (writers s)[i := q'], parts := (parts s)[i := x']\<rparr>)"

text \<open>The log of the coordinator and its checkpoints.\<close>

inductive log_step :: "tp \<Rightarrow> tp \<Rightarrow> bool" where
  wal_flush: "flushed s \<le> n \<Longrightarrow> n \<le> length (tp_wal s) \<Longrightarrow> log_step s (s\<lparr>flushed := n\<rparr>)"
| ckpt_redo: "tp_ckpt s = CkNone \<Longrightarrow> pc s \<noteq> Crashed \<Longrightarrow> log_step s (s\<lparr>tp_ckpt := CkRedo (length (tp_wal s))\<rparr>)"
| ckpt_look: "tp_ckpt s = CkRedo k \<Longrightarrow> log_step s (s\<lparr>tp_ckpt := CkLooked k (delayChkpt s)\<rparr>)"
| ckpt_collect: "tp_ckpt s = CkLooked k waits \<Longrightarrow> (waits \<longrightarrow> \<not> delayChkpt s) \<Longrightarrow>
     log_step s (s\<lparr>tp_ckpt := CkCollected k (committed_array s \<or> in_ckpt s)\<rparr>)"
| ckpt_done: "tp_ckpt s = CkCollected k b \<Longrightarrow>
     log_step s (s\<lparr>tp_ckpt := CkNone, ckpt_has := b, tp_wal := drop k (tp_wal s), flushed := length (tp_wal s) - k\<rparr>)"

text \<open>Crash, restart, and the recovery process.\<close>

inductive recovery_step :: "tp \<Rightarrow> tp \<Rightarrow> bool" where
  panic: "pc s \<noteq> Crashed \<Longrightarrow> recovery_step s (s\<lparr>pc := Crashed\<rparr>)"
| restart: "flushed s \<le> n \<Longrightarrow> n \<le> length (tp_wal s) \<Longrightarrow>
     recovery_step s
       (s\<lparr>pc := (case pc s of Ended b \<Rightarrow> Ended b | _ \<Rightarrow> Ended False), qd_st := (qd_st s)\<lparr>dtx_state := DTX_STATE_NONE\<rparr>,
          in_progress := False, in_ckpt := False, delayChkpt := False, tp_wal := take n (tp_wal s), flushed := n, tp_ckpt := CkNone,
          committed_array := tp_replay (ckpt_has s) (take n (tp_wal s)), recovery := RecNotify\<rparr>)"
| recover_commit: "pc s \<noteq> Crashed \<Longrightarrow> recovery s = RecNotify \<Longrightarrow> committed_array s \<Longrightarrow>
     recovery_step s ((send DTX_PROTOCOL_COMMAND_RECOVERY_COMMIT_PREPARED (all_segs s) s)\<lparr>recovery := RecWait (bcast s + 1)\<rparr>)"
| recover_failed: "recovery s = RecWait n \<Longrightarrow> recovery_step s (s\<lparr>recovery := RecNotify\<rparr>)"
| recover_forget: "pc s \<noteq> Crashed \<Longrightarrow> recovery s = RecWait n \<Longrightarrow> acked s n (all_segs s) \<Longrightarrow>
     recovery_step s (s\<lparr>recovery := RecForgot, tp_wal := tp_wal s @ [DistributedForget]\<rparr>)"
| recover_all_notified: "recovery s = RecForgot \<or> recovery s = RecNotify \<and> \<not> committed_array s \<Longrightarrow>
     recovery_step s (s\<lparr>recovery := RecGather, committed_array := False\<rparr>)"
| recover_gather: "recovery s = RecGather \<Longrightarrow> recovery_step s (s\<lparr>recovery := (if found then RecAbort else RecStarted)\<rparr>)"
| recover_abort: "pc s \<noteq> Crashed \<Longrightarrow> recovery s = RecAbort \<Longrightarrow>
     recovery_step s ((send DTX_PROTOCOL_COMMAND_RECOVERY_ABORT_PREPARED (all_segs s) s)\<lparr>recovery := RecStarted\<rparr>)"
| recovery_restarts: "recovery s \<in> {RecNotify, RecForgot, RecGather, RecAbort} \<Longrightarrow> recovery_step s (s\<lparr>recovery := RecNotify\<rparr>)"
| orphan_gather: "recovery s = RecStarted \<Longrightarrow> recovery_step s (s\<lparr>recovery := OrphanGathered\<rparr>)"
| orphan_check: "recovery s = OrphanGathered \<Longrightarrow>
     recovery_step s (s\<lparr>recovery := (if in_progress s then RecStarted else OrphanAbort)\<rparr>)"
| orphan_abort: "pc s \<noteq> Crashed \<Longrightarrow> recovery s = OrphanAbort \<Longrightarrow>
     recovery_step s ((send DTX_PROTOCOL_COMMAND_RECOVERY_ABORT_PREPARED (all_segs s) s)\<lparr>recovery := RecStarted\<rparr>)"

inductive tp_step :: "bool \<Rightarrow> bool \<Rightarrow> tp \<Rightarrow> tp \<Rightarrow> bool" for wrote mark where
  process: "qd_step wrote mark s s' \<Longrightarrow> tp_step wrote mark s s'"
| segments: "segment_step s s' \<Longrightarrow> tp_step wrote mark s s'"
| log: "log_step s s' \<Longrightarrow> tp_step wrote mark s s'"
| recovery: "recovery_step s s' \<Longrightarrow> tp_step wrote mark s s'"

definition tp_init :: "nat \<Rightarrow> tp" where
  "tp_init nseg =
     \<lparr>qd_st = \<lparr>dtx_state = DTX_STATE_ACTIVE_DISTRIBUTED, dtxSegments = [], writerGangLost = False,
        qd_context = DTX_CONTEXT_QD_DISTRIBUTED_CAPABLE\<rparr>,
      pc = Executing, exiting = False, in_progress = True, in_ckpt = False, delayChkpt = False, tp_wal = [], flushed = 0,
      ckpt_has = False, tp_ckpt = CkNone, committed_array = False, recovery = RecStarted, bcast = 0, acks = [],
      inflight = [], parts = replicate nseg NoXact, writers = replicate nseg idle_qe\<rparr>"

inductive tp_reach :: "bool \<Rightarrow> bool \<Rightarrow> nat \<Rightarrow> tp \<Rightarrow> bool" for wrote mark nseg where
  tp_start: "tp_reach wrote mark nseg (tp_init nseg)"
| tp_more: "tp_reach wrote mark nseg s \<Longrightarrow> tp_step wrote mark s s' \<Longrightarrow> tp_reach wrote mark nseg s'"

end
