(* ===== verification/Dtx_Decision.thy ===== *)
theory Dtx_Decision
  imports Dtx_TwoPhase
begin

text \<open>
  The invariant of two-phase commit with all its failures, by what has become of the decision, and
  that the segments and the network keep it.
\<close>

section \<open>What is known of the decision\<close>

abbreviation dtx :: "tp \<Rightarrow> DtxState" where
  "dtx s \<equiv> dtx_state (qd_st s)"

abbreviation participants :: "tp \<Rightarrow> nat set" where
  "participants s \<equiv> set (dtxSegments (qd_st s))"

definition commit_logged :: "tp \<Rightarrow> bool" where
  "commit_logged s \<longleftrightarrow> DistributedCommit \<in> set (tp_wal s) \<or> ckpt_has s"

text \<open>Whatever of the log survives a crash, replay finds the commit.\<close>

definition durable :: "tp \<Rightarrow> bool" where
  "durable s \<longleftrightarrow> (\<forall>n. flushed s \<le> n \<and> n \<le> length (tp_wal s) \<longrightarrow> tp_replay (ckpt_has s) (take n (tp_wal s)))"

definition all_committed :: "tp \<Rightarrow> bool" where
  "all_committed s \<longleftrightarrow> (\<forall>i \<in> participants s. parts s ! i = CommittedXact)"

definition all_prepared :: "tp \<Rightarrow> bool" where
  "all_prepared s \<longleftrightarrow> (\<forall>i \<in> participants s. parts s ! i = PreparedXact)"

definition none_lost :: "tp \<Rightarrow> bool" where
  "none_lost s \<longleftrightarrow> (\<forall>i \<in> participants s. parts s ! i = PreparedXact \<or> parts s ! i = CommittedXact)"

definition none_committed :: "tp \<Rightarrow> bool" where
  "none_committed s \<longleftrightarrow> (\<forall>i < length (parts s). parts s ! i \<noteq> CommittedXact)"

definition sent :: "(DtxProtocolCommand \<Rightarrow> bool) \<Rightarrow> tp \<Rightarrow> bool" where
  "sent P s \<longleftrightarrow> (\<exists>(i, n, c) \<in> set (inflight s). P c)"

definition sent_as :: "nat \<Rightarrow> (DtxProtocolCommand \<Rightarrow> bool) \<Rightarrow> tp \<Rightarrow> bool" where
  "sent_as n P s \<longleftrightarrow> (\<forall>(i, m, c) \<in> set (inflight s). m = n \<longrightarrow> P c)"

definition acks_mean :: "nat \<Rightarrow> (local_xact \<Rightarrow> bool) \<Rightarrow> tp \<Rightarrow> bool" where
  "acks_mean n P s \<longleftrightarrow> (\<forall>(m, i) \<in> set (acks s). m = n \<and> i < length (parts s) \<longrightarrow> P (parts s ! i))"

fun redo_pointer :: "tp_checkpoint \<Rightarrow> nat option" where
  "redo_pointer CkNone = None"
| "redo_pointer (CkRedo k) = Some k"
| "redo_pointer (CkLooked k w) = Some k"
| "redo_pointer (CkCollected k b) = Some k"

definition shape :: "tp \<Rightarrow> bool" where
  "shape s \<longleftrightarrow>
     length (writers s) = length (parts s) \<and> participants s \<subseteq> {..<length (parts s)} \<and> distinct (dtxSegments (qd_st s)) \<and>
     (\<forall>i < length (parts s). i \<notin> participants s \<longrightarrow> parts s ! i = NoXact) \<and>
     (\<forall>(i, n, c) \<in> set (inflight s). n \<le> bcast s \<and>
        (c = DTX_PROTOCOL_COMMAND_PREPARE \<or> c = DTX_PROTOCOL_COMMAND_COMMIT_ONEPHASE \<or> commit_command c \<or> abort_command c)) \<and>
     (\<forall>(n, i) \<in> set (acks s). n \<le> bcast s) \<and> flushed s \<le> length (tp_wal s) \<and>
     (\<forall>k. redo_pointer (tp_ckpt s) = Some k \<longrightarrow> k \<le> length (tp_wal s))"

section \<open>The invariant\<close>

text \<open>The transaction is not decided: its process collects votes, aborts, or is gone.\<close>

fun voting :: "qd_pc \<Rightarrow> DtxState \<Rightarrow> bool" where
  "voting Executing d \<longleftrightarrow> d = DTX_STATE_ACTIVE_DISTRIBUTED"
| "voting (Waiting n) d \<longleftrightarrow> d = DTX_STATE_PREPARING"
| "voting PreCommit d \<longleftrightarrow> d = DTX_STATE_PREPARED"
| "voting InsertingCommit d \<longleftrightarrow> d = DTX_STATE_INSERTING_COMMITTED"
| "voting p d \<longleftrightarrow> False"

fun aborting :: "qd_pc \<Rightarrow> DtxState \<Rightarrow> bool" where
  "aborting Aborting d \<longleftrightarrow> d \<in> {DTX_STATE_ACTIVE_DISTRIBUTED, DTX_STATE_PREPARING, DTX_STATE_PREPARED}"
| "aborting (Waiting n) d \<longleftrightarrow> d \<in> {DTX_STATE_NOTIFYING_ABORT_NO_PREPARED, DTX_STATE_NOTIFYING_ABORT_SOME_PREPARED,
     DTX_STATE_NOTIFYING_ABORT_PREPARED, DTX_STATE_RETRY_ABORT_PREPARED}"
| "aborting (Ending b) d \<longleftrightarrow> \<not> b"
| "aborting (Ended b) d \<longleftrightarrow> \<not> b"
| "aborting Crashed d \<longleftrightarrow> True"
| "aborting p d \<longleftrightarrow> False"

definition no_trace :: "tp \<Rightarrow> bool" where
  "no_trace s \<longleftrightarrow> \<not> commit_logged s \<and> DistributedForget \<notin> set (tp_wal s) \<and> \<not> in_ckpt s \<and> \<not> committed_array s \<and>
     (\<forall>k. tp_ckpt s \<noteq> CkCollected k True) \<and> \<not> sent commit_command s \<and>
     \<not> sent ((=) DTX_PROTOCOL_COMMAND_COMMIT_ONEPHASE) s \<and> none_committed s"

definition votes_ok :: "tp \<Rightarrow> bool" where
  "votes_ok s \<longleftrightarrow>
     in_progress s \<and> \<not> sent abort_command s \<and> recovery s \<in> {RecStarted, OrphanGathered} \<and>
     qd_context (qd_st s) = DTX_CONTEXT_QD_DISTRIBUTED_CAPABLE \<and>
     (pc s = Executing \<longrightarrow> (\<forall>i \<in> participants s. parts s ! i \<noteq> NoXact)) \<and>
     (pc s \<in> {PreCommit, InsertingCommit} \<longrightarrow> all_prepared s) \<and> (delayChkpt s \<longleftrightarrow> pc s = InsertingCommit) \<and>
     (\<forall>n. pc s = Waiting n \<longrightarrow> n \<le> bcast s \<and> sent_as n ((=) DTX_PROTOCOL_COMMAND_PREPARE) s \<and> acks_mean n ((=) PreparedXact) s)"

definition undecided :: "tp \<Rightarrow> bool" where
  "undecided s \<longleftrightarrow>
     no_trace s \<and> (voting (pc s) (dtx s) \<and> votes_ok s \<or> aborting (pc s) (dtx s)) \<and>
     recovery s \<noteq> RecForgot \<and> (\<forall>n. recovery s \<noteq> RecWait n) \<and> (in_progress s \<longrightarrow> recovery s \<in> {RecStarted, OrphanGathered})"

text \<open>The commit is logged, and its process is delivering it, or died with the coordinator.\<close>

fun commit_phase :: "qd_pc \<Rightarrow> DtxState \<Rightarrow> bool" where
  "commit_phase CommitInserted d \<longleftrightarrow> d = DTX_STATE_INSERTING_COMMITTED"
| "commit_phase CommitMarked d \<longleftrightarrow> d = DTX_STATE_INSERTED_COMMITTED"
| "commit_phase Notifying d \<longleftrightarrow> d = DTX_STATE_INSERTED_COMMITTED"
| "commit_phase (Waiting n) d \<longleftrightarrow> d \<in> {DTX_STATE_NOTIFYING_COMMIT_PREPARED, DTX_STATE_RETRY_COMMIT_PREPARED}"
| "commit_phase Crashed d \<longleftrightarrow> True"
| "commit_phase p d \<longleftrightarrow> False"

fun collected_ok :: "tp \<Rightarrow> tp_checkpoint \<Rightarrow> bool" where
  "collected_ok s CkNone \<longleftrightarrow> True"
| "collected_ok s (CkRedo k) \<longleftrightarrow> True"
| "collected_ok s (CkLooked k w) \<longleftrightarrow> w \<or> in_ckpt s \<or> DistributedCommit \<notin> set (take k (tp_wal s)) \<and> \<not> ckpt_has s"
| "collected_ok s (CkCollected k b) \<longleftrightarrow> b \<or> DistributedCommit \<notin> set (take k (tp_wal s)) \<and> \<not> ckpt_has s"

definition committing :: "tp \<Rightarrow> bool" where
  "committing s \<longleftrightarrow>
     commit_phase (pc s) (dtx s) \<and> commit_logged s \<and> DistributedForget \<notin> set (tp_wal s) \<and> none_lost s \<and>
     \<not> sent abort_command s \<and> in_progress s \<and> recovery s \<in> {RecStarted, OrphanGathered} \<and> \<not> committed_array s \<and>
     (in_ckpt s \<or> delayChkpt s) \<and> (pc s \<notin> {CommitInserted, Crashed} \<longrightarrow> in_ckpt s) \<and>
     (pc s \<in> {CommitInserted, CommitMarked, Notifying} \<longrightarrow> qd_context (qd_st s) = DTX_CONTEXT_QD_DISTRIBUTED_CAPABLE) \<and>
     (pc s = Notifying \<or> (\<exists>n. pc s = Waiting n) \<or> sent commit_command s \<or> \<not> none_committed s \<longrightarrow> durable s) \<and>
     \<not> sent ((=) DTX_PROTOCOL_COMMAND_COMMIT_ONEPHASE) s \<and>
     (\<forall>n. pc s = Waiting n \<longrightarrow> n \<le> bcast s \<and> sent_as n commit_command s \<and> acks_mean n (\<lambda>x. x \<noteq> PreparedXact) s) \<and>
     collected_ok s (tp_ckpt s)"

text \<open>The coordinator was restarted and found the commit.\<close>

definition recovering :: "tp \<Rightarrow> bool" where
  "recovering s \<longleftrightarrow>
     pc s \<in> {Ended False, Crashed} \<and> durable s \<and> committed_array s \<and> DistributedForget \<notin> set (tp_wal s) \<and> none_lost s \<and>
     \<not> sent abort_command s \<and> \<not> sent ((=) DTX_PROTOCOL_COMMAND_COMMIT_ONEPHASE) s \<and> \<not> in_progress s \<and>
     (recovery s = RecNotify \<or>
      (\<exists>n. recovery s = RecWait n \<and> n \<le> bcast s \<and> sent_as n commit_command s \<and> acks_mean n (\<lambda>x. x \<noteq> PreparedXact) s)) \<and>
     (\<forall>k. tp_ckpt s \<noteq> CkCollected k False)"

text \<open>All parts are committed.\<close>

definition settled :: "tp \<Rightarrow> bool" where
  "settled s \<longleftrightarrow>
     all_committed s \<and> \<not> sent ((=) DTX_PROTOCOL_COMMAND_COMMIT_ONEPHASE) s \<and>
     (commit_phase (pc s) (dtx s) \<or> pc s \<in> {Forgetting, ForgetInserted, Ending True} \<or> (\<exists>b. pc s = Ended b))"

text \<open>The one-phase commit: there is at most one part.\<close>

fun one_phase_pc :: "qd_pc \<Rightarrow> DtxState \<Rightarrow> bool" where
  "one_phase_pc (Waiting n) d \<longleftrightarrow> d \<in> {DTX_STATE_NOTIFYING_ABORT_NO_PREPARED, DTX_STATE_NOTIFYING_ONE_PHASE_COMMIT}"
| "one_phase_pc PreCommit d \<longleftrightarrow> d \<in> {DTX_STATE_ONE_PHASE_COMMIT, DTX_STATE_NOTIFYING_ONE_PHASE_COMMIT}"
| "one_phase_pc Notifying d \<longleftrightarrow> d \<in> {DTX_STATE_ONE_PHASE_COMMIT, DTX_STATE_NOTIFYING_ONE_PHASE_COMMIT}"
| "one_phase_pc Aborting d \<longleftrightarrow> d \<in> {DTX_STATE_ONE_PHASE_COMMIT, DTX_STATE_NOTIFYING_ONE_PHASE_COMMIT}"
| "one_phase_pc (Ending b) d \<longleftrightarrow> True"
| "one_phase_pc (Ended b) d \<longleftrightarrow> True"
| "one_phase_pc Crashed d \<longleftrightarrow> True"
| "one_phase_pc p d \<longleftrightarrow> False"

definition one_phase :: "tp \<Rightarrow> bool" where
  "one_phase s \<longleftrightarrow>
     length (dtxSegments (qd_st s)) \<le> 1 \<and> one_phase_pc (pc s) (dtx s) \<and>
     \<not> commit_logged s \<and> DistributedForget \<notin> set (tp_wal s) \<and> \<not> in_ckpt s \<and> \<not> committed_array s \<and>
     (\<forall>k. tp_ckpt s \<noteq> CkCollected k True) \<and> recovery s \<noteq> RecForgot \<and> (\<forall>n. recovery s \<noteq> RecWait n) \<and>
     (\<forall>n. pc s = Waiting n \<and> dtx s = DTX_STATE_NOTIFYING_ONE_PHASE_COMMIT \<longrightarrow>
        n \<le> bcast s \<and> sent_as n ((=) DTX_PROTOCOL_COMMAND_COMMIT_ONEPHASE) s \<and> acks_mean n ((=) CommittedXact) s) \<and>
     (pc s \<in> {PreCommit, Notifying, Ending True, Ended True} \<longrightarrow> all_committed s)"

definition tp_inv :: "tp \<Rightarrow> bool" where
  "tp_inv s \<longleftrightarrow> shape s \<and> (undecided s \<or> committing s \<or> recovering s \<or> settled s \<or> one_phase s)"

section \<open>Messages\<close>

lemma sent_mono: "set (inflight s') \<subseteq> set (inflight s) \<Longrightarrow> sent P s' \<Longrightarrow> sent P s"
  by (fastforce simp: sent_def)

lemma sent_as_mono: "set (inflight s') \<subseteq> set (inflight s) \<Longrightarrow> sent_as n P s \<Longrightarrow> sent_as n P s'"
  by (fastforce simp: sent_as_def)

lemma sent_send: "sent P (send c segs s) \<longleftrightarrow> sent P s \<or> segs \<noteq> [] \<and> P c"
  by (cases segs) (auto simp: sent_def send_def)

lemma sent_as_send:
  assumes "shape s"
  shows "sent_as (bcast s + 1) P (send c segs s) \<longleftrightarrow> segs = [] \<or> P c" "n \<le> bcast s \<Longrightarrow> sent_as n P (send c segs s) = sent_as n P s"
proof -
  have old: "(i, m, d) \<in> set (inflight s) \<Longrightarrow> m \<le> bcast s" for i m d using assms by (auto simp: shape_def)
  show "sent_as (bcast s + 1) P (send c segs s) \<longleftrightarrow> segs = [] \<or> P c"
    by (cases segs) (auto simp: sent_as_def send_def dest: old)
  show "n \<le> bcast s \<Longrightarrow> sent_as n P (send c segs s) = sent_as n P s" by (fastforce simp: sent_as_def send_def)
qed

lemma acks_mean_new: "shape s \<Longrightarrow> acks_mean (bcast s + 1) P s"
  by (fastforce simp: shape_def acks_mean_def)

lemma acked_all: "acks_mean n P s \<Longrightarrow> acked s n segs \<Longrightarrow> i \<in> set segs \<Longrightarrow> i < length (parts s) \<Longrightarrow> P (parts s ! i)"
  by (fastforce simp: acks_mean_def acked_def)

lemma acks_mean_cong: "acks s' = acks s \<Longrightarrow> parts s' = parts s \<Longrightarrow> acks_mean n P s' = acks_mean n P s"
  by (simp add: acks_mean_def)

text \<open>What the delivery of a message changes.\<close>

definition delivered :: "message \<Rightarrow> tp \<Rightarrow> tp \<Rightarrow> bool" where
  "delivered m s s' \<longleftrightarrow> (case m of (i, n, c) \<Rightarrow>
     \<exists>x' q' a. s' = s\<lparr>inflight := remove1 m (inflight s), parts := (parts s)[i := x'], writers := (writers s)[i := q'],
                     acks := (if a then (n, i) # acks s else acks s)\<rparr> \<and>
       part_step c (parts s ! i) x' \<and>
       (a \<longrightarrow> (c = DTX_PROTOCOL_COMMAND_PREPARE \<longrightarrow> x' = PreparedXact) \<and> (commit_command c \<longrightarrow> x' \<noteq> PreparedXact) \<and>
          (c = DTX_PROTOCOL_COMMAND_COMMIT_ONEPHASE \<longrightarrow> x' = CommittedXact)))"

lemma deliver_delivered: "delivered m s (deliver ok ans m s)"
proof -
  obtain i n c where m: "m = (i, n, c)" by (cases m)
  let ?q = "if to_new_process c then idle_qe else writers s ! i"
  obtain e q' x' where p: "performDtxProtocolCommand ok DTX_CONTEXT_QE_TWO_PHASE_IMPLICIT_WRITER 0 c ?q (parts s ! i) = (e, q', x')"
    by (cases "performDtxProtocolCommand ok DTX_CONTEXT_QE_TWO_PHASE_IMPLICIT_WRITER 0 c ?q (parts s ! i)")
  have eq: "deliver ok ans m s = s\<lparr>inflight := remove1 m (inflight s), parts := (parts s)[i := x'],
      writers := (writers s)[i := if to_new_process c then writers s ! i else q'],
      acks := (if e = None \<and> ans then (n, i) # acks s else acks s)\<rparr>"
    using p by (simp add: deliver_def m Let_def)
  have "(c = DTX_PROTOCOL_COMMAND_PREPARE \<longrightarrow> x' = PreparedXact) \<and> (commit_command c \<longrightarrow> x' \<noteq> PreparedXact) \<and>
      (c = DTX_PROTOCOL_COMMAND_COMMIT_ONEPHASE \<longrightarrow> x' = CommittedXact)" if "e = None"
    using perform_success [OF p [unfolded that]] by blast
  then show ?thesis unfolding delivered_def m prod.case eq [unfolded m] using perform_part_step [OF p] by blast
qed

section \<open>Steps of the segments and of the network\<close>

text \<open>
  A message delivered or lost, a process gone: at most one part changes, as a command in flight (or no
  command) allows, and a new acknowledgement tells the truth.
\<close>

definition env_move :: "tp \<Rightarrow> tp \<Rightarrow> bool" where
  "env_move s s' \<longleftrightarrow>
     (\<exists>i n c x' q' a fl. s' = s\<lparr>inflight := fl, parts := (parts s)[i := x'], writers := (writers s)[i := q'],
          acks := (if a then (n, i) # acks s else acks s)\<rparr> \<and> set fl \<subseteq> set (inflight s) \<and> part_step c (parts s ! i) x' \<and>
        ((i, n, c) \<in> set (inflight s) \<or> c = DTX_PROTOCOL_COMMAND_NONE \<and> \<not> a) \<and>
        (a \<longrightarrow> (c = DTX_PROTOCOL_COMMAND_PREPARE \<longrightarrow> x' = PreparedXact) \<and> (commit_command c \<longrightarrow> x' \<noteq> PreparedXact) \<and>
          (c = DTX_PROTOCOL_COMMAND_COMMIT_ONEPHASE \<longrightarrow> x' = CommittedXact)))"

lemma env_move_steps:
  "m \<in> set (inflight s) \<Longrightarrow> env_move s (deliver ok ans m s)"
  "env_move s (s\<lparr>inflight := remove1 m (inflight s)\<rparr>)"
  "qe_exit (writers s ! i) (parts s ! i) = (q', x') \<Longrightarrow> env_move s (s\<lparr>writers := (writers s)[i := q'], parts := (parts s)[i := x']\<rparr>)"
proof -
  show "env_move s (deliver ok ans m s)" if "m \<in> set (inflight s)"
  proof -
    obtain i n c where m: "m = (i, n, c)" by (cases m)
    obtain x' q' a where d: "deliver ok ans m s = s\<lparr>inflight := remove1 m (inflight s), parts := (parts s)[i := x'],
        writers := (writers s)[i := q'], acks := (if a then (n, i) # acks s else acks s)\<rparr>" "part_step c (parts s ! i) x'"
      "a \<longrightarrow> (c = DTX_PROTOCOL_COMMAND_PREPARE \<longrightarrow> x' = PreparedXact) \<and> (commit_command c \<longrightarrow> x' \<noteq> PreparedXact) \<and>
          (c = DTX_PROTOCOL_COMMAND_COMMIT_ONEPHASE \<longrightarrow> x' = CommittedXact)"
      using deliver_delivered [of m s ok ans] unfolding delivered_def m prod.case by (elim exE conjE)
    then show ?thesis unfolding env_move_def using that m set_remove1_subset [of m "inflight s"] by blast
  qed
  have "s\<lparr>inflight := remove1 m (inflight s)\<rparr> = s\<lparr>inflight := remove1 m (inflight s), parts := (parts s)[0 := parts s ! 0],
      writers := (writers s)[0 := writers s ! 0], acks := (if False then (0, 0) # acks s else acks s)\<rparr>" by simp
  then show "env_move s (s\<lparr>inflight := remove1 m (inflight s)\<rparr>)"
    unfolding env_move_def using set_remove1_subset [of m "inflight s"] part_step.same by blast
  show "env_move s (s\<lparr>writers := (writers s)[i := q'], parts := (parts s)[i := x']\<rparr>)"
    if q: "qe_exit (writers s ! i) (parts s ! i) = (q', x')"
  proof -
    have "part_step DTX_PROTOCOL_COMMAND_NONE (parts s ! i) x'"
      using q by (auto simp: qe_exit_def AbortOutOfAnyTransaction_def intro: part_step.intros split: if_splits)
    moreover have "s\<lparr>writers := (writers s)[i := q'], parts := (parts s)[i := x']\<rparr> =
        s\<lparr>inflight := inflight s, parts := (parts s)[i := x'], writers := (writers s)[i := q'],
          acks := (if False then (0, i) # acks s else acks s)\<rparr>" by simp
    ultimately show ?thesis unfolding env_move_def by blast
  qed
qed

inductive_cases part_stepE: "part_step c x x'"
inductive_simps part_step_simps: "part_step c NoXact x'" "part_step c OpenXact x'" "part_step c PreparedXact x'"
  "part_step c CommittedXact x'" "part_step c AbortedXact x'"

text \<open>The view of such a step: what stays, and what becomes of the parts.\<close>

lemma env_moveD:
  assumes "env_move s s'"
  shows "pc s' = pc s" "qd_st s' = qd_st s" "in_progress s' = in_progress s" "in_ckpt s' = in_ckpt s" "delayChkpt s' = delayChkpt s"
    "tp_wal s' = tp_wal s" "flushed s' = flushed s" "ckpt_has s' = ckpt_has s" "tp_ckpt s' = tp_ckpt s"
    "committed_array s' = committed_array s" "recovery s' = recovery s" "bcast s' = bcast s"
    "length (parts s') = length (parts s)" "length (writers s') = length (writers s)" "set (inflight s') \<subseteq> set (inflight s)"
  using assms by (auto simp: env_move_def)

lemma env_move_part:
  assumes "env_move s s'" "j < length (parts s)"
  shows "\<exists>c. (sent ((=) c) s \<or> c = DTX_PROTOCOL_COMMAND_NONE) \<and> part_step c (parts s ! j) (parts s' ! j)"
proof -
  obtain i n c x' where m: "parts s' = (parts s)[i := x']" "part_step c (parts s ! i) x'"
    "(i, n, c) \<in> set (inflight s) \<or> c = DTX_PROTOCOL_COMMAND_NONE"
    using assms(1) unfolding env_move_def by (elim exE conjE) auto
  show ?thesis
  proof (cases "j = i")
    case True
    then have "part_step c (parts s ! j) (parts s' ! j)" using m assms(2) by simp
    moreover have "sent ((=) c) s \<or> c = DTX_PROTOCOL_COMMAND_NONE" using m(3) by (auto simp: sent_def)
    ultimately show ?thesis by blast
  qed (use m part_step.same in auto)
qed

lemma env_move_ack:
  assumes "env_move s s'" "(n, j) \<in> set (acks s')"
  shows "(n, j) \<in> set (acks s) \<or> (\<exists>c. (j, n, c) \<in> set (inflight s) \<and> (j < length (parts s) \<longrightarrow>
    (c = DTX_PROTOCOL_COMMAND_PREPARE \<longrightarrow> parts s' ! j = PreparedXact) \<and> (commit_command c \<longrightarrow> parts s' ! j \<noteq> PreparedXact) \<and>
    (c = DTX_PROTOCOL_COMMAND_COMMIT_ONEPHASE \<longrightarrow> parts s' ! j = CommittedXact)))"
proof -
  obtain i m c x' q' a fl where eq: "s' = s\<lparr>inflight := fl, parts := (parts s)[i := x'], writers := (writers s)[i := q'],
        acks := (if a then (m, i) # acks s else acks s)\<rparr>"
    and e: "(i, m, c) \<in> set (inflight s) \<or> c = DTX_PROTOCOL_COMMAND_NONE \<and> \<not> a"
      "a \<longrightarrow> (c = DTX_PROTOCOL_COMMAND_PREPARE \<longrightarrow> x' = PreparedXact) \<and>
      (commit_command c \<longrightarrow> x' \<noteq> PreparedXact) \<and> (c = DTX_PROTOCOL_COMMAND_COMMIT_ONEPHASE \<longrightarrow> x' = CommittedXact)"
    using assms(1) unfolding env_move_def by blast
  show ?thesis
  proof (cases "(n, j) \<in> set (acks s)")
    case False
    then have "a" "n = m" "j = i" using eq assms(2) by (auto split: if_splits)
    then show ?thesis using e eq by auto
  qed simp
qed

text \<open>What can become of a part.\<close>

lemma sent_cases:
  assumes "shape s" "sent ((=) c) s"
  shows "c = DTX_PROTOCOL_COMMAND_PREPARE \<or> c = DTX_PROTOCOL_COMMAND_COMMIT_ONEPHASE \<or> commit_command c \<or> abort_command c"
  using assms by (auto simp: shape_def sent_def)

lemma sent_imp: "sent ((=) c) s \<Longrightarrow> P c \<Longrightarrow> sent P s"
  by (auto simp: sent_def)

lemma env_part_cases:
  assumes e: "env_move s s'" and sh: "shape s" and j: "j < length (parts s)"
  shows "parts s ! j = NoXact \<Longrightarrow> parts s' ! j = NoXact"
    "parts s ! j = CommittedXact \<Longrightarrow> parts s' ! j = CommittedXact"
    "parts s ! j = PreparedXact \<Longrightarrow> parts s' ! j = PreparedXact \<or> parts s' ! j = CommittedXact \<and> sent commit_command s \<or>
       parts s' ! j = AbortedXact \<and> sent abort_command s"
    "parts s' ! j = CommittedXact \<Longrightarrow> parts s ! j = CommittedXact \<or> parts s ! j = PreparedXact \<and> sent commit_command s \<or>
       parts s ! j = OpenXact \<and> sent ((=) DTX_PROTOCOL_COMMAND_COMMIT_ONEPHASE) s"
    "parts s' ! j = PreparedXact \<Longrightarrow> parts s ! j = PreparedXact \<or> parts s ! j = OpenXact"
    "parts s' ! j = NoXact \<Longrightarrow> parts s ! j = NoXact"
proof -
  obtain c where c: "sent ((=) c) s \<or> c = DTX_PROTOCOL_COMMAND_NONE" "part_step c (parts s ! j) (parts s' ! j)"
    using env_move_part [OF e j] by blast
  have none: "\<not> commit_command DTX_PROTOCOL_COMMAND_NONE" "\<not> abort_command DTX_PROTOCOL_COMMAND_NONE"
    by (simp_all add: commit_command_def abort_command_def)
  have nb: "c \<noteq> DTX_PROTOCOL_COMMAND_SUBTRANSACTION_BEGIN_INTERNAL"
    using c(1) sent_cases [OF sh] by (auto simp: commit_command_def abort_command_def)
  have cm: "commit_command c \<Longrightarrow> sent commit_command s" "abort_command c \<Longrightarrow> sent abort_command s"
    "c = DTX_PROTOCOL_COMMAND_COMMIT_ONEPHASE \<Longrightarrow> sent ((=) DTX_PROTOCOL_COMMAND_COMMIT_ONEPHASE) s"
    using c(1) none by (auto intro: sent_imp)
  note p = c(2)
  show "parts s ! j = NoXact \<Longrightarrow> parts s' ! j = NoXact" using p nb by (auto simp: part_step_simps)
  show "parts s ! j = CommittedXact \<Longrightarrow> parts s' ! j = CommittedXact" using p by (auto simp: part_step_simps)
  show "parts s ! j = PreparedXact \<Longrightarrow> parts s' ! j = PreparedXact \<or> parts s' ! j = CommittedXact \<and> sent commit_command s \<or>
       parts s' ! j = AbortedXact \<and> sent abort_command s" using p cm by (auto simp: part_step_simps)
  show "parts s' ! j = CommittedXact \<Longrightarrow> parts s ! j = CommittedXact \<or> parts s ! j = PreparedXact \<and> sent commit_command s \<or>
       parts s ! j = OpenXact \<and> sent ((=) DTX_PROTOCOL_COMMAND_COMMIT_ONEPHASE) s"
    using p cm nb by (auto elim: part_step.cases)
  show "parts s' ! j = PreparedXact \<Longrightarrow> parts s ! j = PreparedXact \<or> parts s ! j = OpenXact" using p by (auto elim: part_step.cases)
  show "parts s' ! j = NoXact \<Longrightarrow> parts s ! j = NoXact" using p by (auto elim: part_step.cases)
qed

lemma env_acks_mean:
  assumes e: "env_move s s'" and am: "acks_mean n P s"
    and keep: "\<And>j. j < length (parts s) \<Longrightarrow> P (parts s ! j) \<Longrightarrow> P (parts s' ! j)"
    and new: "\<And>j c. (j, n, c) \<in> set (inflight s) \<Longrightarrow> (c = DTX_PROTOCOL_COMMAND_PREPARE \<longrightarrow> parts s' ! j = PreparedXact) \<and>
      (commit_command c \<longrightarrow> parts s' ! j \<noteq> PreparedXact) \<and> (c = DTX_PROTOCOL_COMMAND_COMMIT_ONEPHASE \<longrightarrow> parts s' ! j = CommittedXact) \<Longrightarrow>
      P (parts s' ! j)"
  shows "acks_mean n P s'"
  unfolding acks_mean_def
proof (clarify)
  fix m j assume "(n, j) \<in> set (acks s')" "j < length (parts s')"
  then have j: "j < length (parts s)" by (simp add: env_moveD(13) [OF e])
  show "P (parts s' ! j)"
    using env_move_ack [OF e \<open>(n, j) \<in> set (acks s')\<close>]
  proof
    assume "(n, j) \<in> set (acks s)"
    then have "P (parts s ! j)" using am j by (auto simp: acks_mean_def)
    then show ?thesis by (rule keep [OF j])
  qed (use new j in blast)
qed

lemma sent_asD: "sent_as n P s \<Longrightarrow> (j, n, c) \<in> set (inflight s) \<Longrightarrow> P c"
  by (auto simp: sent_as_def)

lemma env_shape:
  assumes e: "env_move s s'" and sh: "shape s"
  shows "shape s'"
proof -
  note d = env_moveD [OF e]
  have old: "n \<le> bcast s" if "(i, n, c) \<in> set (inflight s)" for i n c using sh that by (auto simp: shape_def)
  have acks: "\<forall>(n, i) \<in> set (acks s'). n \<le> bcast s"
  proof (clarify)
    fix n i assume "(n, i) \<in> set (acks s')"
    then show "n \<le> bcast s" using env_move_ack [OF e] old sh by (fastforce simp: shape_def)
  qed
  have "\<forall>i < length (parts s). i \<notin> participants s \<longrightarrow> parts s' ! i = NoXact"
    using sh env_part_cases(1) [OF e sh] by (auto simp: shape_def)
  moreover have "\<forall>(i, n, c) \<in> set (inflight s'). n \<le> bcast s \<and>
        (c = DTX_PROTOCOL_COMMAND_PREPARE \<or> c = DTX_PROTOCOL_COMMAND_COMMIT_ONEPHASE \<or> commit_command c \<or> abort_command c)"
    using sh d(15) by (fastforce simp: shape_def)
  ultimately show ?thesis using sh acks by (simp add: shape_def d)
qed

text \<open>Summary facts that such a step keeps.\<close>

lemma env_keeps:
  assumes e: "env_move s s'" and sh: "shape s"
  shows "all_committed s \<Longrightarrow> all_committed s'"
    "\<not> sent abort_command s \<Longrightarrow> none_lost s \<Longrightarrow> none_lost s'"
    "\<not> sent abort_command s \<Longrightarrow> \<not> sent commit_command s \<Longrightarrow> all_prepared s \<Longrightarrow> all_prepared s'"
    "\<not> sent commit_command s \<Longrightarrow> \<not> sent ((=) DTX_PROTOCOL_COMMAND_COMMIT_ONEPHASE) s \<Longrightarrow> none_committed s \<Longrightarrow> none_committed s'"
    "commit_logged s' = commit_logged s" "durable s' = durable s"
proof -
  note d = env_moveD [OF e]
  have pl: "i < length (parts s)" if "i \<in> participants s" for i using sh that by (auto simp: shape_def)
  note pc = env_part_cases [OF e sh]
  show "all_committed s \<Longrightarrow> all_committed s'" using pl pc(2) by (auto simp: all_committed_def d)
  show "\<not> sent abort_command s \<Longrightarrow> none_lost s \<Longrightarrow> none_lost s'" using pl pc(2,3) by (fastforce simp: none_lost_def d)
  show "\<not> sent abort_command s \<Longrightarrow> \<not> sent commit_command s \<Longrightarrow> all_prepared s \<Longrightarrow> all_prepared s'"
    using pl pc(3) by (fastforce simp: all_prepared_def d)
  show "\<not> sent commit_command s \<Longrightarrow> \<not> sent ((=) DTX_PROTOCOL_COMMAND_COMMIT_ONEPHASE) s \<Longrightarrow> none_committed s \<Longrightarrow> none_committed s'"
    using pc(4) by (auto simp: none_committed_def d)
  show "commit_logged s' = commit_logged s" "durable s' = durable s" by (simp_all add: commit_logged_def durable_def d)
qed

lemma env_sent:
  assumes e: "env_move s s'"
  shows "\<not> sent P s \<Longrightarrow> \<not> sent P s'" "sent_as n P s \<Longrightarrow> sent_as n P s'"
  using env_moveD(15) [OF e] by (auto intro: sent_as_mono dest: sent_mono)

lemma env_undecided:
  assumes e: "env_move s s'" and sh: "shape s" and u: "undecided s"
  shows "undecided s'"
proof -
  note d = env_moveD [OF e]
  note k = env_keeps [OF e sh]
  note x = env_sent [OF e]
  have nt: "no_trace s'" using u k(4,5) x(1) by (simp add: undecided_def no_trace_def d)
  have nc: "\<not> sent commit_command s" using u by (simp add: undecided_def no_trace_def)
  have "votes_ok s'" if v: "votes_ok s"
  proof -
    have na: "\<not> sent abort_command s" using v by (simp add: votes_ok_def)
    have keep: "parts s' ! j = PreparedXact" if "j < length (parts s)" "parts s ! j = PreparedXact" for j
      using env_part_cases(3) [OF e sh that] na nc by blast
    have "acks_mean n ((=) PreparedXact) s'"
      if "sent_as n ((=) DTX_PROTOCOL_COMMAND_PREPARE) s" "acks_mean n ((=) PreparedXact) s" for n
      by (rule env_acks_mean [OF e that(2)]) (use keep sent_asD [OF that(1)] in auto)
    moreover have "\<forall>i \<in> participants s. parts s' ! i \<noteq> NoXact" if "\<forall>i \<in> participants s. parts s ! i \<noteq> NoXact"
      using that env_part_cases(6) [OF e sh] sh by (auto simp: shape_def)
    ultimately show ?thesis using v k(3) [OF na nc] x by (simp add: votes_ok_def d)
  qed
  then show ?thesis using u nt by (auto simp: undecided_def d)
qed

lemma not_open:
  assumes "shape s" "none_lost s" "j < length (parts s)"
  shows "parts s ! j \<noteq> OpenXact"
  using assms by (cases "j \<in> participants s") (auto simp: shape_def none_lost_def)

lemma env_acks_finished:
  assumes e: "env_move s s'" and sh: "shape s" and nl: "none_lost s"
    and as: "sent_as n commit_command s" and am: "acks_mean n (\<lambda>x. x \<noteq> PreparedXact) s"
  shows "acks_mean n (\<lambda>x. x \<noteq> PreparedXact) s'"
proof (rule env_acks_mean [OF e am])
  show "parts s' ! j \<noteq> PreparedXact" if "j < length (parts s)" "parts s ! j \<noteq> PreparedXact" for j
    using env_part_cases(5) [OF e sh that(1)] not_open [OF sh nl that(1)] that(2) by blast
qed (use sent_asD [OF as] in blast)

lemma env_committing:
  assumes e: "env_move s s'" and sh: "shape s" and c: "committing s"
  shows "committing s'"
proof -
  note d = env_moveD [OF e]
  note k = env_keeps [OF e sh]
  note x = env_sent [OF e]
  have nl: "none_lost s" and na: "\<not> sent abort_command s" and no: "\<not> sent ((=) DTX_PROTOCOL_COMMAND_COMMIT_ONEPHASE) s"
    using c by (simp_all add: committing_def)
  have dur: "durable s'" if "sent commit_command s' \<or> \<not> none_committed s'"
    using that k(4,6) x(1) no c by (auto simp: committing_def)
  have col: "collected_ok s' (tp_ckpt s)" using c by (cases "tp_ckpt s") (simp_all add: committing_def d)
  show ?thesis using c dur col k(2) [OF na nl] k(5,6) x env_acks_finished [OF e sh nl] unfolding committing_def d
    by (elim conjE) (intro conjI; blast)
qed

lemma env_recovering:
  assumes e: "env_move s s'" and sh: "shape s" and r: "recovering s"
  shows "recovering s'"
proof -
  note d = env_moveD [OF e]
  have nl: "none_lost s" and na: "\<not> sent abort_command s" using r by (simp_all add: recovering_def)
  show ?thesis
    using r env_keeps(2) [OF e sh na nl] env_keeps(6) [OF e sh] env_sent [OF e] env_acks_finished [OF e sh nl]
    unfolding recovering_def d by (elim conjE) (intro conjI; blast)
qed

lemma env_settled:
  assumes e: "env_move s s'" and sh: "shape s" and t: "settled s"
  shows "settled s'"
  using t env_keeps(1) [OF e sh] env_sent(1) [OF e] by (auto simp: settled_def env_moveD [OF e])

lemma env_one_phase:
  assumes e: "env_move s s'" and sh: "shape s" and o: "one_phase s"
  shows "one_phase s'"
proof -
  note d = env_moveD [OF e]
  have "acks_mean n ((=) CommittedXact) s'"
    if "sent_as n ((=) DTX_PROTOCOL_COMMAND_COMMIT_ONEPHASE) s" "acks_mean n ((=) CommittedXact) s" for n
    by (rule env_acks_mean [OF e that(2)]) (use env_part_cases(2) [OF e sh] sent_asD [OF that(1)] in auto)
  then show ?thesis using o env_keeps(1,5) [OF e sh] env_sent(2) [OF e] unfolding one_phase_def d
    by (elim conjE) (intro conjI; blast)
qed

lemma segment_env_move: "segment_step s s' \<Longrightarrow> env_move s s'"
  by (auto elim!: segment_step.cases intro: env_move_steps)

lemma env_inv:
  assumes "env_move s s'" "tp_inv s"
  shows "tp_inv s'"
  using assms env_shape env_undecided env_committing env_recovering env_settled env_one_phase by (auto simp: tp_inv_def)

end
