(* ===== verification/Dtx_Atomic.thy ===== *)
theory Dtx_Atomic
  imports Dtx_Decision
begin

text \<open>
  Two-phase commit is atomic: the coordinator's steps keep the invariant, so in every reachable state
  all participants that have finished have finished the same way, and a commit that was reported has
  been performed everywhere.
\<close>

section \<open>The process on the coordinator\<close>

lemma send_simps [simp]:
  "pc (send c segs s) = pc s" "qd_st (send c segs s) = qd_st s" "in_progress (send c segs s) = in_progress s"
  "in_ckpt (send c segs s) = in_ckpt s" "delayChkpt (send c segs s) = delayChkpt s" "tp_wal (send c segs s) = tp_wal s"
  "flushed (send c segs s) = flushed s" "ckpt_has (send c segs s) = ckpt_has s" "tp_ckpt (send c segs s) = tp_ckpt s"
  "committed_array (send c segs s) = committed_array s" "recovery (send c segs s) = recovery s" "bcast (send c segs s) = bcast s + 1"
  "acks (send c segs s) = acks s" "parts (send c segs s) = parts s" "writers (send c segs s) = writers s"
  by (simp_all add: send_def)

text \<open>The invariant's predicates do not read the other fields.\<close>

lemma sent_upd [simp]:
  "sent P (s\<lparr>pc := p\<rparr>) = sent P s" "sent P (s\<lparr>qd_st := q\<rparr>) = sent P s" "sent P (s\<lparr>exiting := e\<rparr>) = sent P s"
  "sent P (s\<lparr>in_progress := b\<rparr>) = sent P s" "sent P (s\<lparr>in_ckpt := b\<rparr>) = sent P s"
  "sent P (s\<lparr>delayChkpt := b\<rparr>) = sent P s" "sent P (s\<lparr>tp_wal := w\<rparr>) = sent P s"
  "sent P (s\<lparr>flushed := k\<rparr>) = sent P s" "sent P (s\<lparr>ckpt_has := b\<rparr>) = sent P s"
  "sent P (s\<lparr>tp_ckpt := c\<rparr>) = sent P s" "sent P (s\<lparr>committed_array := b\<rparr>) = sent P s"
  "sent P (s\<lparr>recovery := r\<rparr>) = sent P s"
  by (simp_all add: sent_def)

lemma sent_as_upd [simp]:
  "sent_as n P (s\<lparr>pc := p\<rparr>) = sent_as n P s" "sent_as n P (s\<lparr>qd_st := q\<rparr>) = sent_as n P s"
  "sent_as n P (s\<lparr>exiting := e\<rparr>) = sent_as n P s" "sent_as n P (s\<lparr>in_progress := b\<rparr>) = sent_as n P s"
  "sent_as n P (s\<lparr>in_ckpt := b\<rparr>) = sent_as n P s" "sent_as n P (s\<lparr>delayChkpt := b\<rparr>) = sent_as n P s"
  "sent_as n P (s\<lparr>tp_wal := w\<rparr>) = sent_as n P s" "sent_as n P (s\<lparr>flushed := k\<rparr>) = sent_as n P s"
  "sent_as n P (s\<lparr>ckpt_has := b\<rparr>) = sent_as n P s" "sent_as n P (s\<lparr>tp_ckpt := c\<rparr>) = sent_as n P s"
  "sent_as n P (s\<lparr>committed_array := b\<rparr>) = sent_as n P s" "sent_as n P (s\<lparr>recovery := r\<rparr>) = sent_as n P s"
  by (simp_all add: sent_as_def)

lemma acks_mean_upd [simp]:
  "acks_mean n P (s\<lparr>pc := p\<rparr>) = acks_mean n P s" "acks_mean n P (s\<lparr>qd_st := q\<rparr>) = acks_mean n P s"
  "acks_mean n P (s\<lparr>exiting := e\<rparr>) = acks_mean n P s" "acks_mean n P (s\<lparr>in_progress := b\<rparr>) = acks_mean n P s"
  "acks_mean n P (s\<lparr>in_ckpt := b\<rparr>) = acks_mean n P s" "acks_mean n P (s\<lparr>delayChkpt := b\<rparr>) = acks_mean n P s"
  "acks_mean n P (s\<lparr>tp_wal := w\<rparr>) = acks_mean n P s" "acks_mean n P (s\<lparr>flushed := k\<rparr>) = acks_mean n P s"
  "acks_mean n P (s\<lparr>ckpt_has := b\<rparr>) = acks_mean n P s" "acks_mean n P (s\<lparr>tp_ckpt := c\<rparr>) = acks_mean n P s"
  "acks_mean n P (s\<lparr>committed_array := b\<rparr>) = acks_mean n P s" "acks_mean n P (s\<lparr>recovery := r\<rparr>) = acks_mean n P s"
  by (simp_all add: acks_mean_def)

lemma none_committed_upd [simp]:
  "none_committed (s\<lparr>pc := p\<rparr>) = none_committed s" "none_committed (s\<lparr>qd_st := q\<rparr>) = none_committed s"
  "none_committed (s\<lparr>exiting := e\<rparr>) = none_committed s" "none_committed (s\<lparr>in_progress := b\<rparr>) = none_committed s"
  "none_committed (s\<lparr>in_ckpt := b\<rparr>) = none_committed s" "none_committed (s\<lparr>delayChkpt := b\<rparr>) = none_committed s"
  "none_committed (s\<lparr>tp_wal := w\<rparr>) = none_committed s" "none_committed (s\<lparr>flushed := k\<rparr>) = none_committed s"
  "none_committed (s\<lparr>ckpt_has := b\<rparr>) = none_committed s" "none_committed (s\<lparr>tp_ckpt := c\<rparr>) = none_committed s"
  "none_committed (s\<lparr>committed_array := b\<rparr>) = none_committed s" "none_committed (s\<lparr>recovery := r\<rparr>) = none_committed s"
  by (simp_all add: none_committed_def)

lemma all_committed_upd [simp]:
  "all_committed (s\<lparr>pc := p\<rparr>) = all_committed s" "all_committed (s\<lparr>exiting := e\<rparr>) = all_committed s"
  "all_committed (s\<lparr>in_progress := b\<rparr>) = all_committed s" "all_committed (s\<lparr>in_ckpt := b\<rparr>) = all_committed s"
  "all_committed (s\<lparr>delayChkpt := b\<rparr>) = all_committed s" "all_committed (s\<lparr>tp_wal := w\<rparr>) = all_committed s"
  "all_committed (s\<lparr>flushed := k\<rparr>) = all_committed s" "all_committed (s\<lparr>ckpt_has := b\<rparr>) = all_committed s"
  "all_committed (s\<lparr>tp_ckpt := c\<rparr>) = all_committed s" "all_committed (s\<lparr>committed_array := b\<rparr>) = all_committed s"
  "all_committed (s\<lparr>recovery := r\<rparr>) = all_committed s"
  by (simp_all add: all_committed_def)

lemma all_prepared_upd [simp]:
  "all_prepared (s\<lparr>pc := p\<rparr>) = all_prepared s" "all_prepared (s\<lparr>exiting := e\<rparr>) = all_prepared s"
  "all_prepared (s\<lparr>in_progress := b\<rparr>) = all_prepared s" "all_prepared (s\<lparr>in_ckpt := b\<rparr>) = all_prepared s"
  "all_prepared (s\<lparr>delayChkpt := b\<rparr>) = all_prepared s" "all_prepared (s\<lparr>tp_wal := w\<rparr>) = all_prepared s"
  "all_prepared (s\<lparr>flushed := k\<rparr>) = all_prepared s" "all_prepared (s\<lparr>ckpt_has := b\<rparr>) = all_prepared s"
  "all_prepared (s\<lparr>tp_ckpt := c\<rparr>) = all_prepared s" "all_prepared (s\<lparr>committed_array := b\<rparr>) = all_prepared s"
  "all_prepared (s\<lparr>recovery := r\<rparr>) = all_prepared s"
  by (simp_all add: all_prepared_def)

lemma none_lost_upd [simp]:
  "none_lost (s\<lparr>pc := p\<rparr>) = none_lost s" "none_lost (s\<lparr>exiting := e\<rparr>) = none_lost s"
  "none_lost (s\<lparr>in_progress := b\<rparr>) = none_lost s" "none_lost (s\<lparr>in_ckpt := b\<rparr>) = none_lost s"
  "none_lost (s\<lparr>delayChkpt := b\<rparr>) = none_lost s" "none_lost (s\<lparr>tp_wal := w\<rparr>) = none_lost s"
  "none_lost (s\<lparr>flushed := k\<rparr>) = none_lost s" "none_lost (s\<lparr>ckpt_has := b\<rparr>) = none_lost s"
  "none_lost (s\<lparr>tp_ckpt := c\<rparr>) = none_lost s" "none_lost (s\<lparr>committed_array := b\<rparr>) = none_lost s"
  "none_lost (s\<lparr>recovery := r\<rparr>) = none_lost s"
  by (simp_all add: none_lost_def)

lemma commit_logged_upd [simp]:
  "commit_logged (s\<lparr>pc := p\<rparr>) = commit_logged s" "commit_logged (s\<lparr>qd_st := q\<rparr>) = commit_logged s"
  "commit_logged (s\<lparr>exiting := e\<rparr>) = commit_logged s" "commit_logged (s\<lparr>in_progress := b\<rparr>) = commit_logged s"
  "commit_logged (s\<lparr>in_ckpt := b\<rparr>) = commit_logged s" "commit_logged (s\<lparr>delayChkpt := b\<rparr>) = commit_logged s"
  "commit_logged (s\<lparr>flushed := k\<rparr>) = commit_logged s" "commit_logged (s\<lparr>tp_ckpt := c\<rparr>) = commit_logged s"
  "commit_logged (s\<lparr>committed_array := b\<rparr>) = commit_logged s" "commit_logged (s\<lparr>recovery := r\<rparr>) = commit_logged s"
  by (simp_all add: commit_logged_def)

lemma durable_upd [simp]:
  "durable (s\<lparr>pc := p\<rparr>) = durable s" "durable (s\<lparr>qd_st := q\<rparr>) = durable s"
  "durable (s\<lparr>exiting := e\<rparr>) = durable s" "durable (s\<lparr>in_progress := b\<rparr>) = durable s"
  "durable (s\<lparr>in_ckpt := b\<rparr>) = durable s" "durable (s\<lparr>delayChkpt := b\<rparr>) = durable s"
  "durable (s\<lparr>tp_ckpt := c\<rparr>) = durable s" "durable (s\<lparr>committed_array := b\<rparr>) = durable s"
  "durable (s\<lparr>recovery := r\<rparr>) = durable s"
  by (simp_all add: durable_def)

lemma send_preds [simp]:
  "acks_mean n P (send c segs s) = acks_mean n P s" "none_committed (send c segs s) = none_committed s"
  "all_committed (send c segs s) = all_committed s" "all_prepared (send c segs s) = all_prepared s"
  "none_lost (send c segs s) = none_lost s" "commit_logged (send c segs s) = commit_logged s" "durable (send c segs s) = durable s"
  by (simp_all add: acks_mean_def none_committed_def all_committed_def all_prepared_def none_lost_def commit_logged_def durable_def)

text \<open>Another state of the process with the same participants.\<close>

lemma participants_upd:
  assumes "dtxSegments q = dtxSegments (qd_st s)"
  shows "all_committed (s\<lparr>qd_st := q\<rparr>) = all_committed s" "all_prepared (s\<lparr>qd_st := q\<rparr>) = all_prepared s"
    "none_lost (s\<lparr>qd_st := q\<rparr>) = none_lost s"
  using assms by (simp_all add: all_committed_def all_prepared_def none_lost_def)

section \<open>The shape of a state\<close>

text \<open>What the process may do next: keep its participants or take all segments, and send a command of the protocol.\<close>

fun proper :: "nat list \<Rightarrow> nat list \<Rightarrow> qd \<times> qd_action \<Rightarrow> bool" where
  "proper segs all (q, QdDispatch r c to) \<longleftrightarrow>
     (dtxSegments q = segs \<or> dtxSegments q = all) \<and>
     (c = DTX_PROTOCOL_COMMAND_PREPARE \<or> c = DTX_PROTOCOL_COMMAND_COMMIT_ONEPHASE \<or> commit_command c \<or> abort_command c)"
| "proper segs all (q, a) \<longleftrightarrow> dtxSegments q = segs \<or> dtxSegments q = all"

lemmas coordinator_defs = isCurrentDtxActivated_def setCurrentDtxState_def currentDtxDispatchProtocolCommand_def
  doNotifyingOnePhaseCommit_def one_phase_end_def doPrepareTransaction_def prepare_end_def prepareDtxTransaction_def
  isPreparedDtxTransaction_def insertingDistributedCommitted_def insertedDistributedCommitted_def doNotifyingCommitPrepared_def
  retry_commit_def commit_prepared_end_def retry_commit_end_def notifyCommittedDtxTransactionIsNeeded_def
  notifyCommittedDtxTransaction_def

lemmas rollback_defs = retryAbortPrepared_def retry_abort_end_def abort_prepared_end_def doNotifyingAbort_def rollback_notify_def
  rollback_no_prepared_def rollbackDtxTransaction_def

lemma proper_steps:
  "isCurrentDtxActivated q \<Longrightarrow> proper (dtxSegments q) all (prepareDtxTransaction w m q)"
  "proper (dtxSegments q) all (rollbackDtxTransaction e t all q)"
  "proper (dtxSegments q) all (dispatch_end ok t all q)"
  "proper (dtxSegments q) all (notifyCommittedDtxTransaction m q)"
proof -
  show "proper (dtxSegments q) all (prepareDtxTransaction w m q)" if "isCurrentDtxActivated q"
    using that by (simp add: coordinator_defs)
  show "proper (dtxSegments q) all (rollbackDtxTransaction e t all q)"
    by (simp add: coordinator_defs rollback_defs abort_command_def split: DtxState.split)
  show "proper (dtxSegments q) all (dispatch_end ok t all q)"
    by (simp add: dispatch_end_def coordinator_defs rollback_defs abort_command_def commit_command_def split: DtxState.split)
  show "proper (dtxSegments q) all (notifyCommittedDtxTransaction m q)"
    by (simp add: coordinator_defs commit_command_def split: DtxState.split)
qed

lemma shape_upd [simp]:
  "shape (s\<lparr>pc := p\<rparr>) = shape s" "shape (s\<lparr>exiting := e\<rparr>) = shape s" "shape (s\<lparr>in_progress := b\<rparr>) = shape s"
  "shape (s\<lparr>in_ckpt := b\<rparr>) = shape s" "shape (s\<lparr>delayChkpt := b\<rparr>) = shape s" "shape (s\<lparr>ckpt_has := b\<rparr>) = shape s"
  "shape (s\<lparr>committed_array := b\<rparr>) = shape s" "shape (s\<lparr>recovery := r\<rparr>) = shape s"
  "dtxSegments q = dtxSegments (qd_st s) \<Longrightarrow> shape (s\<lparr>qd_st := q\<rparr>) = shape s"
  by (simp_all add: shape_def)

lemma shape_all: "shape s \<Longrightarrow> dtxSegments q = all_segs s \<Longrightarrow> shape (s\<lparr>qd_st := q\<rparr>)"
  by (auto simp: shape_def all_segs_def)

lemma shape_send:
  assumes sh: "shape s" and c: "c = DTX_PROTOCOL_COMMAND_PREPARE \<or> c = DTX_PROTOCOL_COMMAND_COMMIT_ONEPHASE \<or> commit_command c \<or> abort_command c"
  shows "shape (send c segs s)"
proof -
  have "\<forall>(i, n, d) \<in> set (inflight (send c segs s)). n \<le> bcast s + 1 \<and>
      (d = DTX_PROTOCOL_COMMAND_PREPARE \<or> d = DTX_PROTOCOL_COMMAND_COMMIT_ONEPHASE \<or> commit_command d \<or> abort_command d)"
    using sh c by (fastforce simp: shape_def send_def)
  moreover have "\<forall>(n, i) \<in> set (acks s). n \<le> bcast s + 1" using sh by (fastforce simp: shape_def)
  ultimately show ?thesis using sh by (simp add: shape_def)
qed

lemma shape_qd: "shape s \<Longrightarrow> dtxSegments q = dtxSegments (qd_st s) \<or> dtxSegments q = all_segs s \<Longrightarrow> shape (s\<lparr>qd_st := q\<rparr>)"
  using shape_all by auto

lemma shape_act:
  assumes sh: "shape s" and p: "proper (dtxSegments (qd_st s)) (all_segs s) r"
  shows "shape (act ret r s)"
proof -
  obtain q a where r: "r = (q, a)" by (cases r)
  show ?thesis
  proof (cases a)
    case (QdDispatch f c to)
    then have "shape (send c to s)" "dtxSegments q = dtxSegments (qd_st s) \<or> dtxSegments q = all_segs s"
      using p r shape_send [OF sh] by simp_all
    then have "shape ((send c to s)\<lparr>qd_st := q\<rparr>)" using shape_qd [of "send c to s"] by (simp add: all_segs_def)
    then show ?thesis using r QdDispatch by simp
  next
    case (QdRaise l)
    then show ?thesis using p r shape_qd [OF sh] by (cases l) simp_all
  qed (use p r shape_qd [OF sh] in simp_all)
qed

lemma shape_frame:
  assumes "shape s" "parts s' = parts s" "writers s' = writers s" "dtxSegments (qd_st s') = dtxSegments (qd_st s)"
    "inflight s' = inflight s" "acks s' = acks s" "bcast s' = bcast s" "flushed s' \<le> length (tp_wal s')"
    "\<forall>k. redo_pointer (tp_ckpt s') = Some k \<longrightarrow> k \<le> length (tp_wal s')"
  shows "shape s'"
  using assms by (simp add: shape_def)

lemma shape_log: "shape s \<Longrightarrow> flushed s \<le> length (tp_wal s)"
  "shape s \<Longrightarrow> redo_pointer (tp_ckpt s) = Some k \<Longrightarrow> k \<le> length (tp_wal s)"
  by (simp_all add: shape_def)

lemma executing_undecided:
  assumes "tp_inv s" "pc s = Executing"
  shows "undecided s" "dtx s = DTX_STATE_ACTIVE_DISTRIBUTED" "votes_ok s"
  using assms by (auto simp: tp_inv_def committing_def recovering_def settled_def one_phase_def undecided_def)

text \<open>A statement on a segment that had none adds it to the participants.\<close>

lemma new_participant:
  assumes sh: "shape s" and v: "votes_ok s" "pc s = Executing" "dtx s = DTX_STATE_ACTIVE_DISTRIBUTED"
    and i: "i < length (parts s)" "parts s ! i = NoXact"
  shows "i \<notin> participants s"
    "addToGxactDtxSegments (length (parts s)) [int i] (qd_st s) = (qd_st s)\<lparr>dtxSegments := dtxSegments (qd_st s) @ [i]\<rparr>"
proof -
  show n: "i \<notin> participants s" using v i by (auto simp: votes_ok_def)
  have "participants s \<subset> {..<length (parts s)}" using sh n i(1) by (auto simp: shape_def)
  then have "card (participants s) < card {..<length (parts s)}" by (intro psubset_card_mono) auto
  moreover have "card (participants s) = length (dtxSegments (qd_st s))" using sh by (simp add: shape_def distinct_card)
  ultimately show "addToGxactDtxSegments (length (parts s)) [int i] (qd_st s) = (qd_st s)\<lparr>dtxSegments := dtxSegments (qd_st s) @ [i]\<rparr>"
    using n v(3) by (simp add: addToGxactDtxSegments_def isCurrentDtxActivated_def)
qed

lemma shape_statement:
  assumes sh: "shape s" and n: "i \<notin> participants s" "i < length (parts s)"
    and q: "dtxSegments q = dtxSegments (qd_st s) @ [i]"
  shows "shape (s\<lparr>qd_st := q, parts := (parts s)[i := x], writers := (writers s)[i := w]\<rparr>)"
  using sh n q by (auto simp: shape_def nth_list_update)

lemma shape_log_step:
  assumes sh: "shape s" and st: "log_step s s'"
  shows "shape s'"
  using st shape_log [OF sh] by cases (auto intro: shape_frame [OF sh])

lemma shape_recovery_step:
  assumes sh: "shape s" and st: "recovery_step s s'"
  shows "shape s'"
  using st shape_log [OF sh] shape_send [OF sh, of DTX_PROTOCOL_COMMAND_RECOVERY_ABORT_PREPARED "all_segs s"]
    shape_send [OF sh, of DTX_PROTOCOL_COMMAND_RECOVERY_COMMIT_PREPARED "all_segs s"]
  by cases (auto simp: commit_command_def abort_command_def intro: shape_frame [OF sh] sh)

lemma shape_qd_step:
  assumes st: "qd_step True mark s s'" and inv: "tp_inv s"
  shows "shape s'"
proof -
  have sh: "shape s" using inv by (simp add: tp_inv_def)
  from st show ?thesis
  proof cases
    case (statement i)
    note u = executing_undecided [OF inv statement(2)]
    note n = new_participant [OF sh u(3) statement(2) u(2) statement(3,4)]
    show ?thesis using shape_statement [OF sh n(1) statement(3)] by (simp add: statement(1) n(2))
  next
    case commit
    have "isCurrentDtxActivated (qd_st s)"
      using executing_undecided(2) [OF inv commit(2)] by (simp add: isCurrentDtxActivated_def)
    then show ?thesis using shape_act [OF sh proper_steps(1)] by (simp add: commit(1))
  next
    case rollback
    then show ?thesis using shape_act [OF sh proper_steps(2)] by simp
  next
    case answered
    then show ?thesis using shape_act [OF sh proper_steps(3)] by simp
  next
    case notify
    then show ?thesis using shape_act [OF sh proper_steps(4)] by simp
  qed (use shape_log [OF sh] in \<open>auto simp: setCurrentDtxState_def insertingDistributedCommitted_def
    insertedDistributedCommitted_def intro: shape_frame [OF sh] sh\<close>)
qed

section \<open>Once all parts are committed\<close>

lemma commit_phase_notify:
  "commit_phase Notifying (dtx_state q) \<Longrightarrow> notifyCommittedDtxTransaction m q = doNotifyingCommitPrepared q"
  by (simp add: notifyCommittedDtxTransaction_def)

lemma commit_phase_answered:
  assumes "commit_phase (Waiting n) (dtx_state q)"
  obtains (ok) "ok" "dispatch_end ok t all q = (q, QdForget)"
  | (panic) q' where "dtxSegments q' = dtxSegments q" "dispatch_end ok t all q = (q', QdRaise PANIC)"
  | (retry) q' where "dtxSegments q' = dtxSegments q" "dtx_state q' = DTX_STATE_RETRY_COMMIT_PREPARED"
      "dispatch_end ok t all q = (q', QdDispatch True DTX_PROTOCOL_COMMAND_RETRY_COMMIT_PREPARED (dtxSegments q))"
proof -
  let ?q = "if dtx_state q = DTX_STATE_RETRY_COMMIT_PREPARED then q
    else q\<lparr>dtx_state := DTX_STATE_RETRY_COMMIT_PREPARED, qd_context := DTX_CONTEXT_QD_RETRY_PHASE_2\<rparr>"
  have "dispatch_end ok t all q = (if ok then (q, QdForget) else if t then (?q, QdRaise PANIC)
      else (?q, QdDispatch True DTX_PROTOCOL_COMMAND_RETRY_COMMIT_PREPARED (dtxSegments q)))"
    using assms by (auto simp: dispatch_end_def commit_prepared_end_def retry_commit_end_def retry_commit_def
      currentDtxDispatchProtocolCommand_def setCurrentDtxState_def)
  then show ?thesis using that(1) that(2) [of ?q] that(3) [of ?q] by (cases ok; cases t) simp_all
qed

lemma settled_step:
  assumes t: "settled s"
  shows "qd_step True mark s s' \<Longrightarrow> settled s'" "log_step s s' \<Longrightarrow> settled s'" "recovery_step s s' \<Longrightarrow> settled s'"
proof -
  show "settled s'" if "qd_step True mark s s'"
    using that
  proof cases
    case (answered n ok t')
    have p: "commit_phase (Waiting n) (dtx s)" using t answered(2) by (auto simp: settled_def)
    show ?thesis
      by (rule commit_phase_answered [OF p, of ok t' "all_segs s"])
        (use t in \<open>auto simp: answered(1) settled_def sent_send participants_upd\<close>)
  next
    case notify
    have p: "commit_phase Notifying (dtx s)" using t notify(2) by (auto simp: settled_def)
    show ?thesis using t unfolding notify(1) commit_phase_notify [OF p]
      by (auto simp: settled_def coordinator_defs sent_send participants_upd)
  qed (use t in \<open>auto simp: settled_def participants_upd setCurrentDtxState_def insertedDistributedCommitted_def\<close>)
  show "settled s'" if "log_step s s'" using that t by cases (auto simp: settled_def)
  show "settled s'" if "recovery_step s s'"
    using that t by cases (auto simp: settled_def sent_send participants_upd split: qd_pc.splits)
qed

section \<open>The log and its replay\<close>

lemma replay_no_forget:
  assumes "DistributedForget \<notin> set w"
  shows "tp_replay b w \<longleftrightarrow> b \<or> DistributedCommit \<in> set w"
proof -
  have "fold tp_redo w b \<longleftrightarrow> b \<or> DistributedCommit \<in> set w"
    using assms
  proof (induction w arbitrary: b)
    case (Cons r w)
    then show ?case by (cases r) auto
  qed simp
  then show ?thesis by (simp add: tp_replay_def)
qed

lemma durable_flush: "durable s \<Longrightarrow> flushed s \<le> n \<Longrightarrow> durable (s\<lparr>flushed := n\<rparr>)"
  by (auto simp: durable_def)

text \<open>A log that is flushed as a whole.\<close>

lemma durable_full:
  assumes "flushed s = length (tp_wal s)" "DistributedForget \<notin> set (tp_wal s)" "commit_logged s"
  shows "durable s"
  using assms replay_no_forget [of "tp_wal s" "ckpt_has s"] by (auto simp: durable_def commit_logged_def)

lemma durable_restart:
  assumes "flushed s' = n" "tp_wal s' = take n w" "n \<le> length w" "tp_replay (ckpt_has s') (take n w)"
  shows "durable s'"
  using assms by (auto simp: durable_def)

section \<open>After a restart that found the commit\<close>

lemma recovered_settled:
  assumes sh: "shape s" and r: "recovering s" and n: "recovery s = RecWait n" "acked s n (all_segs s)"
  shows "all_committed s"
  unfolding all_committed_def
proof
  fix i assume i: "i \<in> participants s"
  then have l: "i < length (parts s)" using sh by (auto simp: shape_def)
  have "acks_mean n (\<lambda>x. x \<noteq> PreparedXact) s" using r n(1) by (auto simp: recovering_def)
  then have "parts s ! i \<noteq> PreparedXact" using acked_all [OF _ n(2)] l by (simp add: all_segs_def)
  then show "parts s ! i = CommittedXact" using r i by (auto simp: recovering_def none_lost_def)
qed

lemma recovering_log_step:
  assumes r: "recovering s" and st: "log_step s s'"
  shows "recovering s'"
  using st
proof cases
  case (wal_flush n)
  show ?thesis using r durable_flush [OF _ wal_flush(2)] unfolding wal_flush(1) by (auto simp: recovering_def)
next
  case (ckpt_done k b)
  have "b" using r ckpt_done(2) by (cases b) (auto simp: recovering_def)
  then have "durable s'" "DistributedForget \<notin> set (tp_wal s')"
    using r unfolding ckpt_done(1) by (auto intro!: durable_full simp: commit_logged_def recovering_def dest: in_set_dropD)
  then show ?thesis using r unfolding ckpt_done(1) by (auto simp: recovering_def)
qed (use r in \<open>auto simp: recovering_def\<close>)

lemma recovering_recovery_step:
  assumes sh: "shape s" and r: "recovering s" and st: "recovery_step s s'"
  shows "recovering s' \<or> settled s'"
  using st
proof cases
  case (recover_forget n)
  have "settled s'" unfolding recover_forget(1)
    using recovered_settled [OF sh r recover_forget(3,4)] r recover_forget(2) by (auto simp: settled_def recovering_def)
  then show ?thesis ..
next
  case recover_commit
  have "recovering s'"
    using r sent_as_send(1) [OF sh] acks_mean_new [OF sh] unfolding recover_commit(1)
    by (auto simp: recovering_def sent_send commit_command_def abort_command_def)
  then show ?thesis ..
next
  case (restart n)
  have "tp_replay (ckpt_has s) (take n (tp_wal s))" using r restart(2,3) by (auto simp: recovering_def durable_def)
  then have "durable s'" unfolding restart(1) by (intro durable_restart) (use restart(3) in simp_all)
  then have "recovering s'"
    using r \<open>tp_replay (ckpt_has s) (take n (tp_wal s))\<close> unfolding restart(1)
    by (auto simp: recovering_def participants_upd dest: in_set_takeD)
  then show ?thesis ..
qed (use r in \<open>auto simp: recovering_def\<close>)

lemma recovering_qd_step: "recovering s \<Longrightarrow> \<not> qd_step True mark s s'"
  by (auto simp: recovering_def elim!: qd_step.cases)

section \<open>While the commit is delivered\<close>

lemma committingD:
  assumes "committing s"
  shows "commit_phase (pc s) (dtx s)" "commit_logged s" "DistributedForget \<notin> set (tp_wal s)" "none_lost s" "\<not> sent abort_command s"
    "in_progress s" "recovery s = RecStarted \<or> recovery s = OrphanGathered" "\<not> committed_array s" "in_ckpt s \<or> delayChkpt s"
    "pc s \<notin> {CommitInserted, Crashed} \<Longrightarrow> in_ckpt s"
    "pc s \<in> {CommitInserted, CommitMarked, Notifying} \<Longrightarrow> qd_context (qd_st s) = DTX_CONTEXT_QD_DISTRIBUTED_CAPABLE"
    "pc s = Notifying \<or> (\<exists>n. pc s = Waiting n) \<or> sent commit_command s \<or> \<not> none_committed s \<Longrightarrow> durable s"
    "\<not> sent ((=) DTX_PROTOCOL_COMMAND_COMMIT_ONEPHASE) s"
    "pc s = Waiting n \<Longrightarrow> n \<le> bcast s \<and> sent_as n commit_command s \<and> acks_mean n (\<lambda>x. x \<noteq> PreparedXact) s"
    "collected_ok s (tp_ckpt s)"
  using assms unfolding committing_def by blast+

lemma committing_ack:
  assumes sh: "shape s" and c: "committing s" and n: "pc s = Waiting n" "acked s n (dtxSegments (qd_st s))"
  shows "all_committed s"
  unfolding all_committed_def
proof
  fix i assume i: "i \<in> participants s"
  then have l: "i < length (parts s)" using sh by (auto simp: shape_def)
  have am: "acks_mean n (\<lambda>x. x \<noteq> PreparedXact) s" using committingD(14) [OF c n(1)] by blast
  have "parts s ! i \<noteq> PreparedXact" by (rule acked_all [OF am n(2) i l])
  then show "parts s ! i = CommittedXact" using committingD(4) [OF c] i by (auto simp: none_lost_def)
qed

text \<open>A command of the second phase is sent.\<close>

lemma committing_send:
  assumes sh: "shape s" and c: "committing s" and d: "durable s" "in_ckpt s"
    and q: "dtxSegments q = dtxSegments (qd_st s)" "dtx_state q \<in> {DTX_STATE_NOTIFYING_COMMIT_PREPARED, DTX_STATE_RETRY_COMMIT_PREPARED}"
    and cmd: "commit_command cmd"
  shows "committing ((send cmd segs s)\<lparr>qd_st := q, pc := Waiting (bcast s + 1)\<rparr>)" (is "committing ?s")
proof -
  have "cmd \<noteq> DTX_PROTOCOL_COMMAND_COMMIT_ONEPHASE" "\<not> abort_command cmd"
    using cmd by (auto simp: commit_command_def abort_command_def)
  then have "\<not> sent abort_command ?s" "\<not> sent ((=) DTX_PROTOCOL_COMMAND_COMMIT_ONEPHASE) ?s"
    using committingD(5,13) [OF c] by (auto simp: sent_send)
  moreover have "sent_as (bcast s + 1) commit_command ?s" "acks_mean (bcast s + 1) (\<lambda>x. x \<noteq> PreparedXact) ?s"
    using sent_as_send(1) [OF sh] cmd acks_mean_new [OF sh] by simp_all
  moreover have "none_lost ?s" using committingD(4) [OF c] participants_upd(3) [of q "send cmd segs s"] q(1) by simp
  moreover have "collected_ok ?s (tp_ckpt s)" using committingD(15) [OF c] by (cases "tp_ckpt s") simp_all
  ultimately show ?thesis using c d q(2) unfolding committing_def by (elim conjE) (intro conjI; simp)
qed

lemma committing_checkpoint:
  assumes c: "committing s"
  shows "collected_ok s (CkLooked k (delayChkpt s))"
    "tp_ckpt s = CkLooked k w \<Longrightarrow> (w \<longrightarrow> \<not> delayChkpt s) \<Longrightarrow> collected_ok s (CkCollected k (committed_array s \<or> in_ckpt s))"
    "tp_ckpt s = CkCollected k b \<Longrightarrow> b \<or> DistributedCommit \<in> set (drop k (tp_wal s))"
proof -
  show "collected_ok s (CkLooked k (delayChkpt s))" using committingD(9) [OF c] by auto
  show "collected_ok s (CkCollected k (committed_array s \<or> in_ckpt s))" if "tp_ckpt s = CkLooked k w" "w \<longrightarrow> \<not> delayChkpt s"
    using committingD(9,15) [OF c] that by auto
  show "b \<or> DistributedCommit \<in> set (drop k (tp_wal s))" if t: "tp_ckpt s = CkCollected k b"
  proof (cases b)
    case False
    then have n: "DistributedCommit \<notin> set (take k (tp_wal s))" "\<not> ckpt_has s" using committingD(15) [OF c] t by auto
    then have "DistributedCommit \<in> set (take k (tp_wal s) @ drop k (tp_wal s))" using committingD(2) [OF c] by (simp add: commit_logged_def)
    then show ?thesis using n unfolding set_append by blast
  qed simp
qed

lemma committing_ckpt_done:
  assumes c: "committing s" and t: "tp_ckpt s = CkCollected k b"
  shows "committing (s\<lparr>tp_ckpt := CkNone, ckpt_has := b, tp_wal := drop k (tp_wal s), flushed := length (tp_wal s) - k\<rparr>)" (is "committing ?s")
proof -
  have "DistributedForget \<notin> set (tp_wal s)" by (rule committingD(3) [OF c])
  then have f: "DistributedForget \<notin> set (tp_wal ?s)" by (auto dest: in_set_dropD)
  have l: "commit_logged ?s" using committing_checkpoint(3) [OF c t] by (auto simp: commit_logged_def)
  have d: "durable ?s" by (rule durable_full) (use f l in simp_all)
  show ?thesis using c f l d unfolding committing_def by (elim conjE) (intro conjI; simp)
qed

text \<open>A restart finds the commit, or nobody has heard of it.\<close>

lemma committing_restart:
  assumes c: "committing s" and n: "flushed s \<le> n" "n \<le> length (tp_wal s)"
    and s': "s' = s\<lparr>pc := Ended False, qd_st := (qd_st s)\<lparr>dtx_state := DTX_STATE_NONE\<rparr>, in_progress := False, in_ckpt := False,
          delayChkpt := False, tp_wal := take n (tp_wal s), flushed := n, tp_ckpt := CkNone,
          committed_array := tp_replay (ckpt_has s) (take n (tp_wal s)), recovery := RecNotify\<rparr>"
  shows "recovering s' \<or> undecided s'"
proof -
  have f: "DistributedForget \<notin> set (take n (tp_wal s))" using committingD(3) [OF c] by (auto dest: in_set_takeD)
  show ?thesis
  proof (cases "tp_replay (ckpt_has s) (take n (tp_wal s))")
    case True
    then have "durable s'" unfolding s' by (intro durable_restart) (use n in simp_all)
    then have "recovering s'" using committingD(4,5,13) [OF c] True f unfolding s' by (simp add: recovering_def participants_upd)
    then show ?thesis ..
  next
    case False
    then have "\<not> durable s" using n by (auto simp: durable_def)
    then have "\<not> sent commit_command s" "none_committed s" using committingD(12) [OF c] by blast+
    then have "undecided s'" using committingD(13) [OF c] False f unfolding s' replay_no_forget [OF f]
      by (simp add: undecided_def no_trace_def commit_logged_def)
    then show ?thesis ..
  qed
qed

text \<open>Steps that change neither participants nor log nor messages.\<close>

lemma committing_frame:
  assumes c: "committing s" and e: "committing s \<Longrightarrow> dtxSegments (qd_st s') = dtxSegments (qd_st s)"
    "parts s' = parts s" "tp_wal s' = tp_wal s" "ckpt_has s' = ckpt_has s" "inflight s' = inflight s" "acks s' = acks s" "bcast s' = bcast s"
    "in_progress s'" "committed_array s' = committed_array s" "recovery s' = RecStarted \<or> recovery s' = OrphanGathered"
    and p: "commit_phase (pc s') (dtx s')" "in_ckpt s' \<or> delayChkpt s'" "pc s' \<notin> {CommitInserted, Crashed} \<longrightarrow> in_ckpt s'"
    "pc s' \<in> {CommitInserted, CommitMarked, Notifying} \<longrightarrow> qd_context (qd_st s') = DTX_CONTEXT_QD_DISTRIBUTED_CAPABLE"
    "\<forall>n. pc s' = Waiting n \<longrightarrow> pc s = Waiting n" "collected_ok s' (tp_ckpt s')"
    and d: "durable s \<Longrightarrow> durable s'" "pc s' = Notifying \<longrightarrow> durable s'"
  shows "committing s'"
proof -
  note k = committingD [OF c]
  have se: "sent P s' = sent P s" "sent_as n P s' = sent_as n P s" "none_committed s' = none_committed s"
      "acks_mean n A s' = acks_mean n A s" for P n A
    using e by (simp_all add: sent_def sent_as_def none_committed_def acks_mean_def)
  have x: "none_lost s'" "commit_logged s'" "DistributedForget \<notin> set (tp_wal s')" "\<not> sent abort_command s'" "\<not> committed_array s'"
    "\<not> sent ((=) DTX_PROTOCOL_COMMAND_COMMIT_ONEPHASE) s'" "recovery s' \<in> {RecStarted, OrphanGathered}"
    using k(2,3,4,5,8,13) e(1) [OF c] e(2,3,4,9,10) by (simp_all add: none_lost_def commit_logged_def se)
  have "pc s' = Notifying \<or> (\<exists>n. pc s' = Waiting n) \<or> sent commit_command s' \<or> \<not> none_committed s' \<longrightarrow> durable s'"
    using k(12) d p(5) se by blast
  moreover have "\<forall>n. pc s' = Waiting n \<longrightarrow> n \<le> bcast s' \<and> sent_as n commit_command s' \<and> acks_mean n (\<lambda>x. x \<noteq> PreparedXact) s'"
    using k(14) p(5) by (simp add: se e(7))
  ultimately show ?thesis unfolding committing_def using x e(8) p by (intro conjI; blast)
qed

lemma committing_wal_flush:
  assumes "committing s" "flushed s \<le> n"
  shows "committing (s\<lparr>flushed := n\<rparr>)"
proof (rule committing_frame [OF assms(1)])
  show "durable s \<Longrightarrow> durable (s\<lparr>flushed := n\<rparr>)" by (rule durable_flush [OF _ assms(2)])
  show "pc (s\<lparr>flushed := n\<rparr>) = Notifying \<longrightarrow> durable (s\<lparr>flushed := n\<rparr>)"
    using committingD(12) [OF assms(1)] durable_flush [OF _ assms(2)] by simp
  show "collected_ok (s\<lparr>flushed := n\<rparr>) (tp_ckpt (s\<lparr>flushed := n\<rparr>))" using committingD(15) [OF assms(1)] by (cases "tp_ckpt s") simp_all
qed (use committingD(1,6,7,9,10,11) [OF assms(1)] in simp_all)

lemma collected_cong:
  "tp_wal s' = tp_wal s \<Longrightarrow> ckpt_has s' = ckpt_has s \<Longrightarrow> in_ckpt s' = in_ckpt s \<or> in_ckpt s' \<Longrightarrow> collected_ok s c \<Longrightarrow> collected_ok s' c"
  by (cases c) auto

lemma committing_flush_commit:
  assumes c: "committing s" and p: "pc s = CommitMarked"
  shows "committing (s\<lparr>pc := Notifying, flushed := length (tp_wal s), delayChkpt := False\<rparr>)" (is "committing ?s")
proof -
  note k = committingD [OF c]
  have d: "durable ?s" by (rule durable_full) (use k(2,3) in simp_all)
  show ?thesis
  proof (rule committing_frame [OF c])
    show "collected_ok ?s (tp_ckpt ?s)" using k(15) by (simp add: collected_cong [of ?s s])
    show "durable ?s" "pc ?s = Notifying \<longrightarrow> durable ?s" using d by simp_all
  qed (use k(1,6,7,10,11) p in simp_all)
qed

text \<open>A crash, a step of a checkpoint or of the recovery process.\<close>

lemma committing_other:
  assumes c: "committing s"
  shows "committing (s\<lparr>pc := Crashed\<rparr>)" "committing (s\<lparr>tp_ckpt := CkRedo k\<rparr>)" "committing (s\<lparr>tp_ckpt := CkLooked k (delayChkpt s)\<rparr>)"
    "tp_ckpt s = CkLooked k w \<Longrightarrow> (w \<longrightarrow> \<not> delayChkpt s) \<Longrightarrow> committing (s\<lparr>tp_ckpt := CkCollected k (committed_array s \<or> in_ckpt s)\<rparr>)"
    "r = RecStarted \<or> r = OrphanGathered \<Longrightarrow> committing (s\<lparr>recovery := r\<rparr>)"
proof -
  note k = committingD(1,6,7,9,10,11,12,15) [OF c]
  note cc = committing_checkpoint [OF c]
  have "collected_ok (s\<lparr>pc := Crashed\<rparr>) (tp_ckpt s)" by (rule collected_cong [OF _ _ _ k(8)]) simp_all
  then show "committing (s\<lparr>pc := Crashed\<rparr>)" by (intro committing_frame [OF c]) (use k in simp_all)
  show "committing (s\<lparr>tp_ckpt := CkRedo k\<rparr>)" by (intro committing_frame [OF c]) (use k in simp_all)
  have "collected_ok (s\<lparr>tp_ckpt := CkLooked k (delayChkpt s)\<rparr>) (CkLooked k (delayChkpt s))"
    by (rule collected_cong [OF _ _ _ cc(1)]) simp_all
  then show "committing (s\<lparr>tp_ckpt := CkLooked k (delayChkpt s)\<rparr>)" by (intro committing_frame [OF c]) (use k in simp_all)
  show "committing (s\<lparr>tp_ckpt := CkCollected k (committed_array s \<or> in_ckpt s)\<rparr>)" if w: "tp_ckpt s = CkLooked k w" "w \<longrightarrow> \<not> delayChkpt s"
  proof -
    let ?c = "CkCollected k (committed_array s \<or> in_ckpt s)"
    have "collected_ok (s\<lparr>tp_ckpt := ?c\<rparr>) ?c" by (rule collected_cong [OF _ _ _ cc(2) [OF w]]) simp_all
    then show ?thesis by (intro committing_frame [OF c]) (use k in simp_all)
  qed
  have "collected_ok (s\<lparr>recovery := r\<rparr>) (tp_ckpt s)" by (rule collected_cong [OF _ _ _ k(8)]) simp_all
  then show "committing (s\<lparr>recovery := r\<rparr>)" if "r = RecStarted \<or> r = OrphanGathered"
    by (intro committing_frame [OF c]) (use k that in simp_all)
qed

lemma committing_qd:
  assumes c: "committing s"
  shows "dtxSegments q = dtxSegments (qd_st s) \<Longrightarrow> committing (s\<lparr>qd_st := q, pc := Crashed\<rparr>)"
    "pc s = CommitInserted \<Longrightarrow>
     committing (s\<lparr>pc := CommitMarked, qd_st := (qd_st s)\<lparr>dtx_state := DTX_STATE_INSERTED_COMMITTED\<rparr>, in_ckpt := True\<rparr>)"
proof -
  note k = committingD(1,6,7,9,10,11,12,15) [OF c]
  have "collected_ok (s\<lparr>qd_st := q, pc := Crashed\<rparr>) (tp_ckpt s)" by (rule collected_cong [OF _ _ _ k(8)]) simp_all
  then show "committing (s\<lparr>qd_st := q, pc := Crashed\<rparr>)" if "dtxSegments q = dtxSegments (qd_st s)"
    by (intro committing_frame [OF c]) (use k that in simp_all)
  let ?s = "s\<lparr>pc := CommitMarked, qd_st := (qd_st s)\<lparr>dtx_state := DTX_STATE_INSERTED_COMMITTED\<rparr>, in_ckpt := True\<rparr>"
  have "collected_ok ?s (tp_ckpt s)" by (rule collected_cong [OF _ _ _ k(8)]) simp_all
  then show "committing ?s" if "pc s = CommitInserted" by (intro committing_frame [OF c]) (use k that in simp_all)
qed

lemma committing_answered:
  assumes sh: "shape s" and c: "committing s" and n: "pc s = Waiting n" "ok \<longrightarrow> acked s n (dtxSegments (qd_st s))"
  shows "committing (act ret (dispatch_end ok t all (qd_st s)) s) \<or> settled (act ret (dispatch_end ok t all (qd_st s)) s)"
proof -
  note k = committingD [OF c]
  have p: "commit_phase (Waiting n) (dtx s)" using k(1) n(1) by simp
  have d: "durable s" "in_ckpt s" using k(10,12) n(1) by simp_all
  show ?thesis
  proof (rule commit_phase_answered [OF p, of ok t all])
    assume "ok" "dispatch_end ok t all (qd_st s) = (qd_st s, QdForget)"
    then have "settled (act ret (dispatch_end ok t all (qd_st s)) s)" using committing_ack [OF sh c n(1)] n(2) k(13) by (simp add: settled_def)
    then show ?thesis ..
  next
    fix q' assume "dtxSegments q' = dtxSegments (qd_st s)" "dispatch_end ok t all (qd_st s) = (q', QdRaise PANIC)"
    then show ?thesis using committing_qd(1) [OF c] by simp
  next
    fix q' assume "dtxSegments q' = dtxSegments (qd_st s)" "dtx_state q' = DTX_STATE_RETRY_COMMIT_PREPARED"
      "dispatch_end ok t all (qd_st s) = (q', QdDispatch True DTX_PROTOCOL_COMMAND_RETRY_COMMIT_PREPARED (dtxSegments (qd_st s)))"
    then show ?thesis using committing_send [OF sh c d, of q'] by (simp add: commit_command_def)
  qed
qed

lemma committing_qd_step:
  assumes sh: "shape s" and c: "committing s" and st: "qd_step True mark s s'"
  shows "committing s' \<or> settled s'"
proof -
  note k = committingD(1,10,11,12) [OF c]
  from st show ?thesis
  proof cases
    case answered
    show ?thesis unfolding answered(1) by (rule committing_answered [OF sh c answered(2,3)])
  next
    case notify
    have p: "commit_phase Notifying (dtx s)" using k(1) notify(2) by simp
    have d: "durable s" "in_ckpt s" using k(2,4) notify(2) by simp_all
    show ?thesis unfolding notify(1) commit_phase_notify [OF p]
      using committing_send [OF sh c d] by (simp add: coordinator_defs commit_command_def)
  next
    case mark_commit
    then show ?thesis using committing_qd(2) [OF c] by (simp add: insertedDistributedCommitted_def setCurrentDtxState_def)
  next
    case flush_commit
    then show ?thesis using committing_flush_commit [OF c] by blast
  next
    case no_notify
    then show ?thesis using k(1,3) by (simp add: notifyCommittedDtxTransactionIsNeeded_def isCurrentDtxActivated_def)
  qed (use k(1) in auto)
qed

lemma committing_log_step:
  assumes c: "committing s" and st: "log_step s s'"
  shows "committing s'"
  using st committing_wal_flush [OF c] committing_ckpt_done [OF c] committing_other(2-4) [OF c] by cases blast+

lemma committing_recovery_step:
  assumes c: "committing s" and st: "recovery_step s s'"
  shows "undecided s' \<or> committing s' \<or> recovering s'"
proof -
  note k = committingD(1,6,7) [OF c]
  from st show ?thesis
  proof cases
    case panic
    then show ?thesis using committing_other(1) [OF c] by blast
  next
    case (restart n)
    have e: "(case pc s of Ended b \<Rightarrow> Ended b | _ \<Rightarrow> Ended False) = Ended False" using k(1) by (cases "pc s") simp_all
    show ?thesis using committing_restart [OF c restart(2,3) restart(1) [unfolded e]] by blast
  next
    case orphan_check
    then show ?thesis using committing_other(5) [OF c] k(2) by simp
  next
    case orphan_gather
    then show ?thesis using committing_other(5) [OF c] by blast
  qed (use k(3) in auto)
qed

section \<open>Before the decision\<close>

lemma undecidedD:
  assumes "undecided s"
  shows "no_trace s" "voting (pc s) (dtx s) \<and> votes_ok s \<or> aborting (pc s) (dtx s)" "recovery s \<noteq> RecForgot" "recovery s \<noteq> RecWait n"
    "in_progress s \<Longrightarrow> recovery s = RecStarted \<or> recovery s = OrphanGathered"
    "\<not> commit_logged s" "DistributedForget \<notin> set (tp_wal s)" "\<not> in_ckpt s" "\<not> committed_array s" "tp_ckpt s \<noteq> CkCollected k True"
    "\<not> sent commit_command s" "\<not> sent ((=) DTX_PROTOCOL_COMMAND_COMMIT_ONEPHASE) s" "none_committed s"
  using assms unfolding undecided_def no_trace_def by blast+

lemma votes_okD:
  assumes "votes_ok s"
  shows "in_progress s" "\<not> sent abort_command s" "recovery s = RecStarted \<or> recovery s = OrphanGathered"
    "qd_context (qd_st s) = DTX_CONTEXT_QD_DISTRIBUTED_CAPABLE" "pc s = Executing \<Longrightarrow> i \<in> participants s \<Longrightarrow> parts s ! i \<noteq> NoXact"
    "pc s = PreCommit \<or> pc s = InsertingCommit \<Longrightarrow> all_prepared s" "delayChkpt s \<longleftrightarrow> pc s = InsertingCommit"
    "pc s = Waiting n \<Longrightarrow> n \<le> bcast s \<and> sent_as n ((=) DTX_PROTOCOL_COMMAND_PREPARE) s \<and> acks_mean n ((=) PreparedXact) s"
  using assms unfolding votes_ok_def by blast+

text \<open>An abort, whatever is sent for it.\<close>

lemma undecided_abort:
  assumes u: "undecided s" and a: "aborting (pc s') (dtx s')"
    and e: "parts s' = parts s" "tp_wal s' = tp_wal s" "ckpt_has s' = ckpt_has s" "in_ckpt s' = in_ckpt s" "tp_ckpt s' = tp_ckpt s"
    "committed_array s' = committed_array s" "recovery s' = recovery s" "in_progress s' \<longrightarrow> in_progress s"
    and m: "\<not> sent commit_command s'" "\<not> sent ((=) DTX_PROTOCOL_COMMAND_COMMIT_ONEPHASE) s'"
  shows "undecided s'"
proof -
  note k = undecidedD [OF u]
  have "\<not> commit_logged s'" "none_committed s'" using k(6,13) e by (simp_all add: commit_logged_def none_committed_def)
  then show ?thesis unfolding undecided_def no_trace_def e(2,4,5,6,7) using k(3,4,5,7-10) a e(8) m by blast
qed

text \<open>What the process does for an abort.\<close>

fun abort_action :: "DtxState \<Rightarrow> qd_action \<Rightarrow> bool" where
  "abort_action d (QdReturn b) \<longleftrightarrow> True"
| "abort_action d (QdDispatch b c segs) \<longleftrightarrow> abort_command c \<and> aborting (Waiting 0) d"
| "abort_action d (QdRaise FATAL) \<longleftrightarrow> True"
| "abort_action d a \<longleftrightarrow> False"

lemma undecided_abort_act:
  assumes u: "undecided s" and r: "r = (q, a)"
    and a: "abort_action (dtx_state q) a"
  shows "undecided (act (Ending False) r s)"
proof -
  note k = undecidedD(11,12) [OF u]
  have c: "\<not> commit_command c" "c \<noteq> DTX_PROTOCOL_COMMAND_COMMIT_ONEPHASE" if "abort_command c" for c
    using that by (auto simp: commit_command_def abort_command_def)
  show ?thesis
  proof (cases a)
    case (QdReturn b)
    show ?thesis unfolding r QdReturn by (rule undecided_abort [OF u]) (use k in simp_all)
  next
    case (QdRaise l)
    have l: "l = FATAL" using a unfolding QdRaise by (cases l) simp_all
    show ?thesis unfolding r QdRaise l by (rule undecided_abort [OF u]) (use k in simp_all)
  next
    case (QdDispatch b x segs)
    show ?thesis unfolding r QdDispatch
      by (rule undecided_abort [OF u]) (use k c [of x] a QdDispatch in \<open>simp_all add: sent_send\<close>)
  qed (use a in simp)
qed

lemma rollback_action:
  assumes "aborting Aborting (dtx_state q)" "rollbackDtxTransaction e t all q = (q', a)"
  shows "abort_action (dtx_state q') a"
  using assms by (auto simp: rollback_defs setCurrentDtxState_def currentDtxDispatchProtocolCommand_def abort_command_def split: if_splits)

lemma abort_answer_action:
  assumes "aborting (Waiting n) (dtx_state q)" "dispatch_end ok t all q = (q', a)"
  shows "abort_action (dtx_state q') a"
    "return_pc q = Ending False"
  using assms by (auto simp: dispatch_end_def return_pc_def rollback_defs setCurrentDtxState_def currentDtxDispatchProtocolCommand_def
    abort_command_def split: if_splits)

text \<open>Steps of the vote.\<close>

lemma voting_frame:
  assumes u: "undecided s" and v: "votes_ok s" and e: "parts s' = parts s" "tp_wal s' = tp_wal s" "ckpt_has s' = ckpt_has s" "in_ckpt s' = in_ckpt s"
    "committed_array s' = committed_array s" "in_progress s' = in_progress s" "inflight s' = inflight s" "bcast s' = bcast s" "acks s' = acks s"
    "dtxSegments (qd_st s') = dtxSegments (qd_st s)" "qd_context (qd_st s') = qd_context (qd_st s)"
    and c: "\<forall>k. tp_ckpt s' \<noteq> CkCollected k True" "recovery s' = RecStarted \<or> recovery s' = OrphanGathered"
    and p: "voting (pc s') (dtx s')" "pc s' = Executing \<longrightarrow> pc s = Executing" "\<forall>n. pc s' = Waiting n \<longrightarrow> pc s = Waiting n"
    "pc s' \<in> {PreCommit, InsertingCommit} \<longrightarrow> all_prepared s" "delayChkpt s' \<longleftrightarrow> pc s' = InsertingCommit"
  shows "undecided s'"
proof -
  note k = undecidedD [OF u] votes_okD [OF v]
  have se: "sent P s' = sent P s" "sent_as n P s' = sent_as n P s" "acks_mean n A s' = acks_mean n A s" "all_prepared s' = all_prepared s"
      "commit_logged s' = commit_logged s" "none_committed s' = none_committed s" for P n A
    using e by (simp_all add: sent_def sent_as_def acks_mean_def all_prepared_def commit_logged_def none_committed_def)
  have "votes_ok s'" unfolding votes_ok_def se e
    using k(14-21) p c(2) by (intro conjI) blast+
  moreover have "no_trace s'" unfolding no_trace_def se e using k(6-13) c(1) by blast
  ultimately show ?thesis unfolding undecided_def using p(1) c(2) by auto
qed

lemma prepared_all:
  assumes sh: "shape s" and v: "votes_ok s" "pc s = Waiting n" and a: "acked s n (dtxSegments (qd_st s))"
  shows "all_prepared s"
  unfolding all_prepared_def
proof
  fix i assume i: "i \<in> participants s"
  then have l: "i < length (parts s)" using sh by (auto simp: shape_def)
  have "acks_mean n ((=) PreparedXact) s" using votes_okD(8) [OF v] by blast
  then show "parts s ! i = PreparedXact" using acked_all [OF _ a i l, of "(=) PreparedXact"] by simp
qed

lemma undecided_answered:
  assumes sh: "shape s" and u: "undecided s" and n: "pc s = Waiting n" "ok \<longrightarrow> acked s n (dtxSegments (qd_st s))"
  shows "undecided (act (return_pc (qd_st s)) (dispatch_end ok t (all_segs s) (qd_st s)) s)"
proof (cases "voting (pc s) (dtx s) \<and> votes_ok s")
  case True
  then have d: "dtx s = DTX_STATE_PREPARING" and v: "votes_ok s" using n(1) by simp_all
  note k = undecidedD [OF u] votes_okD [OF v]
  show ?thesis
  proof (cases ok)
    case True
    have a: "all_prepared s" using prepared_all [OF sh v n(1)] n(2) True by blast
    have "undecided (s\<lparr>qd_st := (qd_st s)\<lparr>dtx_state := DTX_STATE_PREPARED\<rparr>, pc := PreCommit\<rparr>)"
      by (rule voting_frame [OF u v]) (use k(10,16,20) a n(1) in simp_all)
    then show ?thesis by (simp add: d dispatch_end_def prepare_end_def True setCurrentDtxState_def return_pc_def)
  next
    case False
    have "undecided (s\<lparr>qd_st := qd_st s, pc := Aborting\<rparr>)" by (rule undecided_abort [OF u]) (use k(11,12) d in simp_all)
    then show ?thesis using False by (simp add: d dispatch_end_def prepare_end_def)
  qed
next
  case False
  then have a: "aborting (Waiting n) (dtx s)" using undecidedD(2) [OF u] n(1) by metis
  obtain q' x where r: "dispatch_end ok t (all_segs s) (qd_st s) = (q', x)" by (cases "dispatch_end ok t (all_segs s) (qd_st s)")
  show ?thesis
    using undecided_abort_act [OF u r abort_answer_action(1) [OF a r]] abort_answer_action(2) [OF a r] r by simp
qed

text \<open>The commit begins: one phase, or the vote.\<close>

lemma undecided_commit:
  assumes sh: "shape s" and u: "undecided s" and p: "pc s = Executing"
  shows "undecided (act PreCommit (prepareDtxTransaction True mark (qd_st s)) s) \<or>
    one_phase (act PreCommit (prepareDtxTransaction True mark (qd_st s)) s)"
proof -
  have v: "votes_ok s" and d: "dtx s = DTX_STATE_ACTIVE_DISTRIBUTED" using undecidedD(2) [OF u] p by simp_all
  note k = undecidedD [OF u] votes_okD [OF v]
  let ?one = "s\<lparr>qd_st := (qd_st s)\<lparr>dtx_state := DTX_STATE_ONE_PHASE_COMMIT\<rparr>, pc := PreCommit\<rparr>"
  let ?wait = "\<lambda>d c. (send c (dtxSegments (qd_st s)) s)\<lparr>qd_st := (qd_st s)\<lparr>dtx_state := d\<rparr>, pc := Waiting (bcast s + 1)\<rparr>"
  have "one_phase ?one" if "dtxSegments (qd_st s) = []"
    using k(3,4,6-10) that unfolding one_phase_def by (intro conjI) (simp_all add: all_committed_def)
  moreover have "one_phase (?wait DTX_STATE_NOTIFYING_ONE_PHASE_COMMIT DTX_PROTOCOL_COMMAND_COMMIT_ONEPHASE)"
    if "length (dtxSegments (qd_st s)) < 2"
    using k(3,4,6-10) that sent_as_send(1) [OF sh] acks_mean_new [OF sh] unfolding one_phase_def by (intro conjI) simp_all
  moreover have "undecided (?wait DTX_STATE_PREPARING DTX_PROTOCOL_COMMAND_PREPARE)" (is "undecided ?s")
  proof -
    have "no_trace ?s" using k(6-13) unfolding no_trace_def by (intro conjI) (simp_all add: sent_send commit_command_def)
    moreover have "votes_ok ?s" using k(14-17,20) sent_as_send(1) [OF sh] acks_mean_new [OF sh] p unfolding votes_ok_def
      by (intro conjI) (simp_all add: sent_send abort_command_def)
    ultimately show ?thesis using k(3,4,16) unfolding undecided_def by (intro conjI) simp_all
  qed
  ultimately show ?thesis using d k(17) by (auto simp: coordinator_defs)
qed

lemma undecided_statement:
  assumes sh: "shape s" and u: "undecided s" and p: "pc s = Executing" and i: "i < length (parts s)" "parts s ! i = NoXact"
  shows "undecided (s\<lparr>qd_st := addToGxactDtxSegments (length (parts s)) [int i] (qd_st s), parts := (parts s)[i := OpenXact],
    writers := w\<rparr>)" (is "undecided ?s")
proof -
  have v: "votes_ok s" and d: "dtx s = DTX_STATE_ACTIVE_DISTRIBUTED" using undecidedD(2) [OF u] p by simp_all
  note k = undecidedD [OF u] votes_okD [OF v]
  note n = new_participant [OF sh v p d i]
  have "none_committed ?s" using k(13) i by (simp add: none_committed_def nth_list_update)
  then have "no_trace ?s" using k(6-12) by (simp add: no_trace_def commit_logged_def sent_def)
  moreover have "\<forall>j \<in> participants ?s. parts ?s ! j \<noteq> NoXact" using k(18) [OF p] i n by (auto simp: nth_list_update)
  then have "votes_ok ?s" using k(14-17,20) p n(2) by (simp add: votes_ok_def sent_def)
  ultimately show ?thesis using k(3,4,16) p d n(2) by (simp add: undecided_def)
qed

lemma undecided_insert:
  assumes sh: "shape s" and u: "undecided s" and p: "pc s = InsertingCommit"
  shows "committing (s\<lparr>pc := CommitInserted, tp_wal := tp_wal s @ [DistributedCommit]\<rparr>)" (is "committing ?s")
proof -
  have v: "votes_ok s" and d: "dtx s = DTX_STATE_INSERTING_COMMITTED" using undecidedD(2) [OF u] p by simp_all
  note k = undecidedD [OF u] votes_okD [OF v]
  have l: "commit_logged ?s" by (simp add: commit_logged_def)
  have nl: "none_lost ?s" using k(19) p by (simp add: none_lost_def all_prepared_def)
  have w: "DistributedCommit \<notin> set (tp_wal s)" "\<not> ckpt_has s" using k(6) by (simp_all add: commit_logged_def)
  have "DistributedCommit \<notin> set (take m (tp_wal ?s))" if "m \<le> length (tp_wal s)" for m
    using w that by (auto dest: in_set_takeD)
  then have "collected_ok ?s (tp_ckpt s)" using shape_log(2) [OF sh] w by (cases "tp_ckpt s") simp_all
  then show ?thesis using k(7,9,11-17,20) p d l nl unfolding committing_def by (intro conjI) simp_all
qed

text \<open>Checkpoints, crashes and the recovery process of a transaction without a trace.\<close>

lemma undecided_frame:
  assumes u: "undecided s" and e: "parts s' = parts s" "tp_wal s' = tp_wal s" "ckpt_has s' = ckpt_has s" "in_ckpt s' = in_ckpt s"
    "committed_array s' = committed_array s" "in_progress s' = in_progress s" "inflight s' = inflight s" "bcast s' = bcast s" "acks s' = acks s"
    "qd_st s' = qd_st s" "pc s' = pc s" "recovery s' = recovery s" "delayChkpt s' = delayChkpt s"
    and c: "\<forall>k. tp_ckpt s' \<noteq> CkCollected k True"
  shows "undecided s'"
proof (cases "voting (pc s) (dtx s) \<and> votes_ok s")
  case True
  then have v: "votes_ok s" by blast
  show ?thesis by (rule voting_frame [OF u v]) (use True e c votes_okD(3,6,7) [OF v] in auto)
next
  case False
  then have "aborting (pc s) (dtx s)" using undecidedD(2) [OF u] by blast
  moreover have "no_trace s'" using undecidedD(6-13) [OF u] e c by (simp add: no_trace_def commit_logged_def none_committed_def sent_def)
  ultimately show ?thesis using undecidedD(3-5) [OF u] e by (simp add: undecided_def)
qed

lemma undecided_recovery:
  assumes u: "undecided s" and n: "\<not> in_progress s" and r: "r \<noteq> RecForgot" "\<forall>n. r \<noteq> RecWait n"
  shows "undecided (s\<lparr>recovery := r, committed_array := False\<rparr>)" "undecided (s\<lparr>recovery := r\<rparr>)"
    "undecided ((send DTX_PROTOCOL_COMMAND_RECOVERY_ABORT_PREPARED segs s)\<lparr>recovery := r\<rparr>)"
proof -
  have a: "aborting (pc s) (dtx s)" using undecidedD(2) [OF u] n votes_okD(1) by blast
  note k = undecidedD(6-13) [OF u]
  show "undecided (s\<lparr>recovery := r, committed_array := False\<rparr>)" using a n r k by (simp add: undecided_def no_trace_def)
  show "undecided (s\<lparr>recovery := r\<rparr>)" using a n r k by (simp add: undecided_def no_trace_def)
  show "undecided ((send DTX_PROTOCOL_COMMAND_RECOVERY_ABORT_PREPARED segs s)\<lparr>recovery := r\<rparr>)"
    using a n r k by (simp add: undecided_def no_trace_def sent_send commit_command_def)
qed

lemma undecided_orphan:
  assumes u: "undecided s" and r: "r = RecStarted \<or> r = OrphanGathered"
  shows "undecided (s\<lparr>recovery := r\<rparr>)"
proof (cases "voting (pc s) (dtx s) \<and> votes_ok s")
  case True
  then have v: "votes_ok s" by blast
  show ?thesis by (rule voting_frame [OF u v]) (use True r undecidedD(10) [OF u] votes_okD(6,7) [OF v] in auto)
next
  case False
  then have "aborting (pc s) (dtx s)" using undecidedD(2) [OF u] by blast
  then show ?thesis using undecidedD(6-13) [OF u] r by (auto simp: undecided_def no_trace_def)
qed

lemma undecided_log:
  assumes u: "undecided s" and w: "set w \<subseteq> set (tp_wal s)" and c: "\<forall>k. c \<noteq> CkCollected k True"
  shows "undecided (s\<lparr>tp_ckpt := c, ckpt_has := False, tp_wal := w, flushed := n\<rparr>)"
    "undecided (s\<lparr>pc := Ended False, qd_st := q, in_progress := False, in_ckpt := False, delayChkpt := False, tp_wal := w, flushed := n,
       tp_ckpt := CkNone, committed_array := False, recovery := RecNotify\<rparr>)"
proof -
  note k = undecidedD [OF u]
  have l: "DistributedCommit \<notin> set w" "DistributedForget \<notin> set w" "\<not> ckpt_has s" using k(6,7) w by (auto simp: commit_logged_def)
  let ?s = "s\<lparr>tp_ckpt := c, ckpt_has := False, tp_wal := w, flushed := n\<rparr>"
  have "no_trace ?s" using k(8,9,11-13) l c by (simp add: no_trace_def commit_logged_def)
  moreover have "votes_ok ?s = votes_ok s" by (simp add: votes_ok_def)
  ultimately show "undecided ?s" using k(2-5) by (simp add: undecided_def)
  show "undecided (s\<lparr>pc := Ended False, qd_st := q, in_progress := False, in_ckpt := False, delayChkpt := False, tp_wal := w, flushed := n,
       tp_ckpt := CkNone, committed_array := False, recovery := RecNotify\<rparr>)"
    using k(11-13) l by (simp add: undecided_def no_trace_def commit_logged_def)
qed

lemma undecided_pc:
  assumes u: "undecided s"
  shows "pc s \<noteq> CommitInserted" "pc s \<noteq> CommitMarked" "pc s \<noteq> Notifying" "pc s \<noteq> Forgetting" "pc s \<noteq> ForgetInserted" "pc s \<noteq> Ending True"
    "pc s \<noteq> Ended True" "pc s = PreCommit \<Longrightarrow> isPreparedDtxTransaction (qd_st s)"
    "pc s = PreCommit \<Longrightarrow> votes_ok s \<and> dtx s = DTX_STATE_PREPARED" "pc s = Executing \<Longrightarrow> votes_ok s \<and> dtx s = DTX_STATE_ACTIVE_DISTRIBUTED"
    "pc s = Aborting \<Longrightarrow> aborting Aborting (dtx s)"
  using undecidedD(2) [OF u] by (auto simp: isPreparedDtxTransaction_def)

lemma undecided_rollback:
  assumes u: "undecided s" and p: "pc s = Aborting"
  shows "undecided (act (Ending False) (rollbackDtxTransaction e t (all_segs s) (qd_st s)) s)"
proof -
  obtain q' x where r: "rollbackDtxTransaction e t (all_segs s) (qd_st s) = (q', x)"
    by (cases "rollbackDtxTransaction e t (all_segs s) (qd_st s)")
  show ?thesis using undecided_abort_act [OF u r rollback_action [OF undecided_pc(11) [OF u p] r]] by (simp add: r)
qed

lemma undecided_qd:
  assumes u: "undecided s"
  shows "pc s \<in> {Executing, Aborting} \<Longrightarrow> undecided (s\<lparr>qd_st := (qd_st s)\<lparr>writerGangLost := True\<rparr>\<rparr>)"
    "pc s \<in> {Executing, PreCommit} \<Longrightarrow> undecided (s\<lparr>pc := Aborting, exiting := e\<rparr>)"
    "pc s = PreCommit \<Longrightarrow> undecided (s\<lparr>pc := InsertingCommit, delayChkpt := True, qd_st := insertingDistributedCommitted (qd_st s)\<rparr>)"
    "pc s = Ending b \<Longrightarrow>
     undecided (s\<lparr>pc := Ended b, in_progress := False, in_ckpt := False, qd_st := (qd_st s)\<lparr>dtx_state := DTX_STATE_NONE\<rparr>\<rparr>)"
    "undecided (s\<lparr>pc := Crashed\<rparr>)"
proof -
  note k = undecidedD [OF u]
  note p = undecided_pc [OF u]
  show "undecided (s\<lparr>qd_st := (qd_st s)\<lparr>writerGangLost := True\<rparr>\<rparr>)" if a: "pc s \<in> {Executing, Aborting}"
  proof (cases "pc s = Executing")
    case True
    then have v: "votes_ok s" and d: "dtx s = DTX_STATE_ACTIVE_DISTRIBUTED" using p(10) by blast+
    show ?thesis by (rule voting_frame [OF u v]) (use True d k(10) votes_okD(3,7) [OF v] in simp_all)
  next
    case False
    show ?thesis by (rule undecided_abort [OF u]) (use False a p(11) k(11,12) in simp_all)
  qed
  show "undecided (s\<lparr>pc := Aborting, exiting := e\<rparr>)" if "pc s \<in> {Executing, PreCommit}"
    by (rule undecided_abort [OF u]) (use that p(9,10) k(11,12) in auto)
  show "undecided (s\<lparr>pc := InsertingCommit, delayChkpt := True, qd_st := insertingDistributedCommitted (qd_st s)\<rparr>)" if a: "pc s = PreCommit"
  proof -
    have v: "votes_ok s" using p(9) [OF a] by blast
    show ?thesis by (rule voting_frame [OF u v])
        (use a k(10) votes_okD(3,6) [OF v] in \<open>simp_all add: insertingDistributedCommitted_def setCurrentDtxState_def\<close>)
  qed
  show "undecided (s\<lparr>pc := Ended b, in_progress := False, in_ckpt := False, qd_st := (qd_st s)\<lparr>dtx_state := DTX_STATE_NONE\<rparr>\<rparr>)"
    if a: "pc s = Ending b"
  proof -
    have "\<not> b" using a p(6) by (cases b) simp_all
    then show ?thesis by (intro undecided_abort [OF u]) (use k(8,11,12) in simp_all)
  qed
  show "undecided (s\<lparr>pc := Crashed\<rparr>)" by (rule undecided_abort [OF u]) (use k(11,12) in simp_all)
qed

lemma undecided_recovering:
  assumes u: "undecided s"
  shows "recovery s \<in> {RecNotify, RecGather, RecAbort, OrphanAbort} \<Longrightarrow> \<not> in_progress s"
    "recovery s = OrphanGathered \<Longrightarrow> undecided (s\<lparr>recovery := (if in_progress s then RecStarted else OrphanAbort)\<rparr>)"
  using undecidedD(5) [OF u] undecided_orphan [OF u] undecided_recovery(2) [OF u] by auto

lemma undecided_qd_step:
  assumes sh: "shape s" and u: "undecided s" and st: "qd_step True mark s s'"
  shows "undecided s' \<or> committing s' \<or> one_phase s'"
proof -
  note p = undecided_pc [OF u] and q = undecided_qd [OF u]
  from st show ?thesis
  proof cases
    case (statement i)
    show ?thesis using undecided_statement [OF sh u statement(2-4)] by (simp add: statement(1))
  next
    case commit
    show ?thesis using undecided_commit [OF sh u commit(2)] unfolding commit(1) by blast
  next
    case rollback
    show ?thesis unfolding rollback(1) using undecided_rollback [OF u rollback(2)] ..
  next
    case answered
    show ?thesis unfolding answered(1) using undecided_answered [OF sh u answered(2,3)] ..
  next
    case insert_commit
    show ?thesis unfolding insert_commit(1) using undecided_insert [OF sh u insert_commit(2)] by blast
  next
    case gang_lost
    show ?thesis unfolding gang_lost(1) using q(1) [OF gang_lost(2)] ..
  next
    case rollback_request
    show ?thesis unfolding rollback_request(1) using q(2) [OF rollback_request(2)] ..
  next
    case enter_commit
    show ?thesis unfolding enter_commit(1) using q(3) [OF enter_commit(2)] ..
  next
    case end_transaction
    show ?thesis unfolding end_transaction(1) using q(4) [OF end_transaction(2)] ..
  qed (use p(1-5,8) in simp_all)
qed

lemma undecided_log_step:
  assumes u: "undecided s" and st: "log_step s s'"
  shows "undecided s'"
  using st
proof cases
  case (ckpt_collect c w)
  have "undecided (s\<lparr>tp_ckpt := CkCollected c False\<rparr>)" by (rule undecided_frame [OF u]) simp_all
  then show ?thesis using undecidedD(8,9) [OF u] by (simp add: ckpt_collect(1))
next
  case (ckpt_done c b)
  then have "\<not> b" using undecidedD(10) [OF u] by (cases b) simp_all
  then show ?thesis using undecided_log(1) [OF u set_drop_subset, where c = CkNone] by (simp add: ckpt_done(1))
next
  case wal_flush
  show ?thesis unfolding wal_flush(1) by (rule undecided_frame [OF u]) (use undecidedD(10) [OF u] in simp_all)
next
  case ckpt_redo
  show ?thesis unfolding ckpt_redo(1) by (rule undecided_frame [OF u]) simp_all
next
  case ckpt_look
  show ?thesis unfolding ckpt_look(1) by (rule undecided_frame [OF u]) simp_all
qed

lemma undecided_restart:
  assumes u: "undecided s"
  shows "undecided (s\<lparr>pc := (case pc s of Ended b \<Rightarrow> Ended b | _ \<Rightarrow> Ended False), qd_st := q, in_progress := False, in_ckpt := False,
    delayChkpt := False, tp_wal := take n (tp_wal s), flushed := n, tp_ckpt := CkNone,
    committed_array := tp_replay (ckpt_has s) (take n (tp_wal s)), recovery := RecNotify\<rparr>)"
proof -
  have e: "(case pc s of Ended b \<Rightarrow> Ended b | _ \<Rightarrow> Ended False) = Ended False" using undecided_pc(7) [OF u] by (cases "pc s") simp_all
  have "\<not> tp_replay (ckpt_has s) (take n (tp_wal s))"
    using undecidedD(6,7) [OF u] replay_no_forget [of "take n (tp_wal s)"] by (auto simp: commit_logged_def dest: in_set_takeD)
  then show ?thesis using undecided_log(2) [OF u set_take_subset, where c = CkNone] by (simp add: e)
qed

lemma undecided_recovery_step:
  assumes u: "undecided s" and st: "recovery_step s s'"
  shows "undecided s'"
proof -
  note k = undecidedD(3,4,9) [OF u] and r = undecided_recovery [OF u] and rs = undecided_recovering [OF u]
  from st show ?thesis
  proof cases
    case restart
    show ?thesis unfolding restart(1) by (rule undecided_restart [OF u])
  next
    case recovery_restarts
    then show ?thesis using r(2) [of RecNotify] rs(1) k(1) by auto
  next
    case recover_all_notified
    then show ?thesis using r(1) [of RecGather] rs(1) k(1) by auto
  next
    case recover_gather
    then show ?thesis using r(2) rs(1) by auto
  next
    case recover_abort
    then show ?thesis using r(3) rs(1) by auto
  next
    case orphan_abort
    then show ?thesis using r(3) rs(1) by auto
  next
    case orphan_gather
    then show ?thesis using undecided_orphan [OF u] by auto
  next
    case orphan_check
    then show ?thesis using rs(2) by auto
  qed (use k undecided_qd(5) [OF u] in simp_all)
qed

section \<open>The one-phase commit\<close>

lemma one_phaseD:
  assumes "one_phase s"
  shows "length (dtxSegments (qd_st s)) \<le> 1" "one_phase_pc (pc s) (dtx s)" "\<not> commit_logged s" "DistributedForget \<notin> set (tp_wal s)"
    "\<not> in_ckpt s" "\<not> committed_array s" "tp_ckpt s \<noteq> CkCollected k True" "recovery s \<noteq> RecForgot" "recovery s \<noteq> RecWait m"
    "pc s = Waiting n \<Longrightarrow> dtx s = DTX_STATE_NOTIFYING_ONE_PHASE_COMMIT \<Longrightarrow> acks_mean n ((=) CommittedXact) s"
    "pc s \<in> {PreCommit, Notifying, Ending True, Ended True} \<Longrightarrow> all_committed s"
  using assms unfolding one_phase_def by blast+

lemma one_phase_frame:
  assumes o: "one_phase s" and e: "parts s' = parts s" "dtxSegments (qd_st s') = dtxSegments (qd_st s)"
    and l: "set (tp_wal s') \<subseteq> set (tp_wal s)" "ckpt_has s' \<longrightarrow> ckpt_has s" "\<not> in_ckpt s'" "\<not> committed_array s'"
      "\<forall>k. tp_ckpt s' \<noteq> CkCollected k True" "recovery s' \<noteq> RecForgot" "\<forall>n. recovery s' \<noteq> RecWait n"
    and p: "one_phase_pc (pc s') (dtx s')" "pc s' \<in> {PreCommit, Notifying, Ending True, Ended True} \<longrightarrow> all_committed s"
      "\<forall>n. pc s' = Waiting n \<and> dtx s' = DTX_STATE_NOTIFYING_ONE_PHASE_COMMIT \<longrightarrow>
         pc s = pc s' \<and> dtx s = dtx s' \<and> acks s' = acks s \<and>
         n \<le> bcast s' \<and> sent_as n ((=) DTX_PROTOCOL_COMMAND_COMMIT_ONEPHASE) s'"
  shows "one_phase s'"
proof -
  have "\<not> commit_logged s'" "DistributedForget \<notin> set (tp_wal s')" using one_phaseD(3,4) [OF o] l by (auto simp: commit_logged_def)
  moreover have "all_committed s' = all_committed s" using e by (simp add: all_committed_def)
  moreover have "acks_mean n ((=) CommittedXact) s'" if "pc s' = Waiting n" "dtx s' = DTX_STATE_NOTIFYING_ONE_PHASE_COMMIT" for n
    using one_phaseD(10) [OF o] p(3) that e(1) acks_mean_cong [of s' s n] by metis
  moreover have "length (dtxSegments (qd_st s')) \<le> 1" using one_phaseD(1) [OF o] e(2) by simp
  ultimately show ?thesis unfolding one_phase_def using l(3-) p by (intro conjI; blast)
qed

lemma one_phase_wait: "one_phase s \<Longrightarrow> pc s = Waiting n \<Longrightarrow> dtx s = DTX_STATE_NOTIFYING_ONE_PHASE_COMMIT \<Longrightarrow>
  n \<le> bcast s \<and> sent_as n ((=) DTX_PROTOCOL_COMMAND_COMMIT_ONEPHASE) s"
  unfolding one_phase_def by blast

text \<open>The process moves without sending anything.\<close>

lemma one_phase_move:
  assumes o: "one_phase s" and q: "dtxSegments q = dtxSegments (qd_st s)" and w: "\<forall>n. p \<noteq> Waiting n"
    and p: "one_phase_pc p (dtx_state q)" "p \<in> {PreCommit, Notifying, Ending True, Ended True} \<longrightarrow> all_committed s"
  shows "one_phase (s\<lparr>qd_st := q, pc := p\<rparr>)"
  by (rule one_phase_frame [OF o]) (use q w p one_phaseD(5-9) [OF o] in simp_all)

lemma one_phase_answered:
  assumes sh: "shape s" and o: "one_phase s" and n: "pc s = Waiting n" "ok \<longrightarrow> acked s n (dtxSegments (qd_st s))"
  shows "one_phase (act (return_pc (qd_st s)) (dispatch_end ok t all (qd_st s)) s)"
proof (cases "dtx s = DTX_STATE_NOTIFYING_ONE_PHASE_COMMIT")
  case True
  have a: "all_committed s" if "ok"
    unfolding all_committed_def
  proof
    fix i assume i: "i \<in> participants s"
    then have l: "i < length (parts s)" using sh by (auto simp: shape_def)
    show "parts s ! i = CommittedXact"
      using acked_all [OF one_phaseD(10) [OF o n(1) True] _ i l] n(2) that by simp
  qed
  show ?thesis
    using one_phase_move [OF o, of "qd_st s" PreCommit] one_phase_move [OF o, of "qd_st s" Aborting] True a
    by (auto simp: dispatch_end_def one_phase_end_def return_pc_def)
next
  case False
  then have d: "dtx s = DTX_STATE_NOTIFYING_ABORT_NO_PREPARED" using one_phaseD(2) [OF o] n(1) by simp
  show ?thesis using one_phase_move [OF o, of "qd_st s" "Ending False"] by (simp add: d dispatch_end_def return_pc_def)
qed

lemma one_phase_rollback:
  assumes o: "one_phase s" and p: "pc s = Aborting"
  shows "one_phase (act (Ending False) (rollbackDtxTransaction e t all (qd_st s)) s)"
proof -
  have d: "dtx s = DTX_STATE_ONE_PHASE_COMMIT \<or> dtx s = DTX_STATE_NOTIFYING_ONE_PHASE_COMMIT" using one_phaseD(2) [OF o] p by simp
  let ?q = "(qd_st s)\<lparr>dtx_state := DTX_STATE_NOTIFYING_ABORT_NO_PREPARED\<rparr>"
  have "one_phase (act (Ending False) (?q, QdDispatch False DTX_PROTOCOL_COMMAND_ABORT_NO_PREPARED (dtxSegments (qd_st s))) s)"
    unfolding act.simps by (rule one_phase_frame [OF o]) (use one_phaseD(5-9) [OF o] in simp_all)
  then show ?thesis
    using d one_phase_move [OF o, of "qd_st s" "Ending False"] one_phase_move [OF o, of ?q "Ending False"]
    by (auto simp: rollback_defs setCurrentDtxState_def currentDtxDispatchProtocolCommand_def)
qed

lemma one_phase_notify:
  assumes o: "one_phase s" and p: "pc s = Notifying"
  shows "one_phase (act (Ending True) (notifyCommittedDtxTransaction mark (qd_st s)) s)"
  using one_phase_move [OF o, of "qd_st s" "Ending True"] one_phaseD(2,11) [OF o] p
  by (auto simp: notifyCommittedDtxTransaction_def)

lemma one_phase_other:
  assumes o: "one_phase s" and e: "parts t = parts s" "qd_st t = qd_st s" "pc t = pc s" "acks t = acks s" "bcast s \<le> bcast t"
    "tp_wal t = tp_wal s" "ckpt_has t \<longrightarrow> ckpt_has s" "\<not> in_ckpt t" "\<not> committed_array t" "\<forall>k. tp_ckpt t \<noteq> CkCollected k True"
    "recovery t \<noteq> RecForgot" "\<forall>n. recovery t \<noteq> RecWait n" "\<And>n P. n \<le> bcast s \<Longrightarrow> sent_as n P s \<Longrightarrow> sent_as n P t"
  shows "one_phase t"
  by (rule one_phase_frame [OF o]) (use e one_phase_wait [OF o] one_phaseD(2,11) [OF o] in auto)

lemma one_phase_qd_step:
  assumes sh: "shape s" and o: "one_phase s" and st: "qd_step True mark s s'"
  shows "one_phase s'"
proof -
  note k = one_phaseD [OF o]
  from st show ?thesis
  proof cases
    case answered
    show ?thesis unfolding answered(1) by (rule one_phase_answered [OF sh o answered(2,3)])
  next
    case rollback
    show ?thesis unfolding rollback(1) by (rule one_phase_rollback [OF o rollback(2)])
  next
    case notify
    show ?thesis unfolding notify(1) by (rule one_phase_notify [OF o notify(2)])
  next
    case gang_lost
    then show ?thesis unfolding gang_lost(1) by (intro one_phase_frame [OF o]) (use k(2,5-9) in auto)
  next
    case rollback_request
    then show ?thesis unfolding rollback_request(1) by (intro one_phase_frame [OF o]) (use k(2,5-9) in auto)
  next
    case enter_commit
    then show ?thesis using k(2) by (auto simp: isPreparedDtxTransaction_def)
  next
    case local_commit
    then show ?thesis unfolding local_commit(1) by (intro one_phase_frame [OF o]) (use k(2,5-9,11) in auto)
  next
    case no_notify
    then show ?thesis unfolding no_notify(1) by (intro one_phase_frame [OF o]) (use k(5-9,11) in auto)
  next
    case (end_transaction b)
    then show ?thesis unfolding end_transaction(1) by (intro one_phase_frame [OF o]) (use k(6-9,11) in auto)
  qed (use k(2) in simp_all)
qed

lemma one_phase_log_step:
  assumes o: "one_phase s" and st: "log_step s s'"
  shows "one_phase s'"
proof -
  note k = one_phaseD(2,5-9,11) [OF o] and w = one_phase_wait [OF o]
  have g: "one_phase (s\<lparr>flushed := n\<rparr>)" "one_phase (s\<lparr>tp_ckpt := CkRedo n\<rparr>)" "one_phase (s\<lparr>tp_ckpt := CkLooked n b\<rparr>)"
    "one_phase (s\<lparr>tp_ckpt := CkCollected n False\<rparr>)" for n b
    by (rule one_phase_other [OF o]; use k in simp)+
  from st show ?thesis
  proof cases
    case (ckpt_done c b)
    then have "\<not> b" using k(4) by (cases b) simp_all
    then show ?thesis unfolding ckpt_done(1) by (intro one_phase_frame [OF o]) (use k w in \<open>auto dest: in_set_dropD\<close>)
  qed (use g k(2,3) in simp_all)
qed

lemma one_phase_recovery_step:
  assumes sh: "shape s" and o: "one_phase s" and st: "recovery_step s s'"
  shows "one_phase s'"
proof -
  note k = one_phaseD(5-9) [OF o]
  have r: "one_phase (s\<lparr>recovery := r\<rparr>)" "one_phase (s\<lparr>recovery := r, committed_array := False\<rparr>)"
    "one_phase ((send DTX_PROTOCOL_COMMAND_RECOVERY_ABORT_PREPARED segs s)\<lparr>recovery := r\<rparr>)"
    if "r \<noteq> RecForgot" "\<forall>n. r \<noteq> RecWait n" for r segs
    by (rule one_phase_other [OF o]; use that k sent_as_send(2) [OF sh] in simp)+
  from st show ?thesis
  proof cases
    case panic
    show ?thesis unfolding panic(1) by (rule one_phase_frame [OF o]) (use k in simp_all)
  next
    case (restart n)
    have "\<not> tp_replay (ckpt_has s) (take n (tp_wal s))"
      using one_phaseD(3,4) [OF o] replay_no_forget [of "take n (tp_wal s)"] by (auto simp: commit_logged_def dest: in_set_takeD)
    then show ?thesis unfolding restart(1) by (intro one_phase_frame [OF o])
        (use one_phaseD(11) [OF o] in \<open>auto split: qd_pc.split dest: in_set_takeD\<close>)
  next
    case recover_all_notified
    show ?thesis unfolding recover_all_notified(1) by (rule r) simp_all
  next
    case recovery_restarts
    show ?thesis unfolding recovery_restarts(1) by (rule r) simp_all
  qed (use k(2,5) r in simp_all)
qed

section \<open>Every reachable state\<close>

lemma tp_inv_step:
  assumes st: "tp_step True mark s s'" and inv: "tp_inv s"
  shows "tp_inv s'"
proof -
  have sh: "shape s" using inv by (simp add: tp_inv_def)
  from st show ?thesis
  proof cases
    case process
    then show ?thesis
      using inv shape_qd_step [OF process inv] undecided_qd_step [OF sh _ process] committing_qd_step [OF sh _ process]
        recovering_qd_step [of s mark s'] settled_step(1) [OF _ process] one_phase_qd_step [OF sh _ process]
      unfolding tp_inv_def by blast
  next
    case segments
    then show ?thesis using env_inv [OF segment_env_move inv] by blast
  next
    case log
    then show ?thesis
      using inv shape_log_step [OF sh log] undecided_log_step [OF _ log] committing_log_step [OF _ log] recovering_log_step [OF _ log]
        settled_step(2) [OF _ log] one_phase_log_step [OF _ log]
      unfolding tp_inv_def by blast
  next
    case recovery
    then show ?thesis
      using inv shape_recovery_step [OF sh recovery] undecided_recovery_step [OF _ recovery] committing_recovery_step [OF _ recovery]
        recovering_recovery_step [OF sh _ recovery] settled_step(3) [OF _ recovery] one_phase_recovery_step [OF sh _ recovery]
      unfolding tp_inv_def by blast
  qed
qed

lemma tp_inv_init: "tp_inv (tp_init nseg)"
proof -
  have "shape (tp_init nseg)" by (simp add: shape_def tp_init_def)
  moreover have "undecided (tp_init nseg)"
    by (simp add: undecided_def no_trace_def votes_ok_def commit_logged_def none_committed_def sent_def tp_init_def)
  ultimately show ?thesis by (simp add: tp_inv_def)
qed

lemma tp_reach_inv: "tp_reach True mark nseg s \<Longrightarrow> tp_inv s"
  by (induction rule: tp_reach.induct) (auto intro: tp_inv_init tp_inv_step)

section \<open>Properties\<close>

lemma outcome_cases:
  assumes "tp_reach True mark nseg s" "i < length (parts s)"
  shows "none_committed s \<or> parts s ! i \<in> {NoXact, PreparedXact, CommittedXact} \<or> length (dtxSegments (qd_st s)) \<le> 1"
    "commit_logged s \<Longrightarrow> parts s ! i \<in> {NoXact, PreparedXact, CommittedXact}"
    "pc s = Ended True \<Longrightarrow> parts s ! i \<in> {NoXact, CommittedXact}"
proof -
  have inv: "tp_inv s" by (rule tp_reach_inv [OF assms(1)])
  then have n: "i \<notin> participants s \<Longrightarrow> parts s ! i = NoXact" using assms(2) by (simp add: tp_inv_def shape_def)
  have u: "undecided s \<Longrightarrow> none_committed s \<and> \<not> commit_logged s \<and> pc s \<noteq> Ended True" using undecidedD(6,13) undecided_pc(7) by blast
  have l: "none_lost s \<Longrightarrow> parts s ! i \<in> {NoXact, PreparedXact, CommittedXact}" using n by (auto simp: none_lost_def)
  have a: "all_committed s \<Longrightarrow> parts s ! i \<in> {NoXact, CommittedXact}" using n by (auto simp: all_committed_def)
  have c: "committing s \<Longrightarrow> none_lost s \<and> pc s \<noteq> Ended True" using committingD(1,4) by force
  have r: "recovering s \<Longrightarrow> none_lost s \<and> pc s \<noteq> Ended True" unfolding recovering_def by fastforce
  have t: "settled s \<Longrightarrow> all_committed s" by (simp add: settled_def)
  have o: "one_phase s \<Longrightarrow> length (dtxSegments (qd_st s)) \<le> 1 \<and> \<not> commit_logged s \<and> (pc s = Ended True \<longrightarrow> all_committed s)"
    using one_phaseD(1,3,11) by blast
  have al: "parts s ! i \<in> {NoXact, CommittedXact} \<Longrightarrow> parts s ! i \<in> {NoXact, PreparedXact, CommittedXact}" by blast
  show "none_committed s \<or> parts s ! i \<in> {NoXact, PreparedXact, CommittedXact} \<or> length (dtxSegments (qd_st s)) \<le> 1"
    using inv u c r t o l a al unfolding tp_inv_def by blast
  show "commit_logged s \<Longrightarrow> parts s ! i \<in> {NoXact, PreparedXact, CommittedXact}"
    using inv u c r t o l a al unfolding tp_inv_def by blast
  show "pc s = Ended True \<Longrightarrow> parts s ! i \<in> {NoXact, CommittedXact}"
    using inv u c r t o l a unfolding tp_inv_def by blast
qed

lemma few_participants:
  assumes "tp_reach True mark nseg s" "length (dtxSegments (qd_st s)) \<le> 1" "i < length (parts s)" "j < length (parts s)"
    "parts s ! i \<noteq> NoXact" "parts s ! j \<noteq> NoXact"
  shows "i = j"
proof -
  have "i \<in> participants s" "j \<in> participants s"
    using tp_reach_inv [OF assms(1)] assms(3-) by (auto simp: tp_inv_def shape_def)
  then show ?thesis using assms(2) by (cases "dtxSegments (qd_st s)") auto
qed

text \<open>C1. Two-phase commit is atomic: whatever messages are delayed or lost, whichever processes of the
  segments die, wherever the coordinator crashes between two of its steps, however its checkpoints
  interleave, and whatever the recovery process and the search for orphans do, no segment has committed
  its part of a writing transaction while another has aborted its own.
\<close>

theorem two_phase_atomic:
  assumes "tp_reach True mark nseg s" "i < length (parts s)" "j < length (parts s)" "parts s ! i = CommittedXact"
  shows "parts s ! j \<noteq> AbortedXact"
proof
  assume a: "parts s ! j = AbortedXact"
  have "\<not> none_committed s" using assms(2,4) by (auto simp: none_committed_def)
  then have "length (dtxSegments (qd_st s)) \<le> 1" using outcome_cases(1) [OF assms(1,3)] a by auto
  then have "i = j" using few_participants [OF assms(1) _ assms(2,3)] assms(4) a by simp
  then show False using assms(4) a by simp
qed

text \<open>C12. The commit record is the decision: while the log or the last checkpoint of the coordinator has
  it, every part of the transaction is prepared or committed, none is open or aborted.
\<close>

theorem commit_record_binding:
  assumes "tp_reach True mark nseg s" "DistributedCommit \<in> set (tp_wal s) \<or> ckpt_has s" "i < length (parts s)"
  shows "parts s ! i \<in> {NoXact, PreparedXact, CommittedXact}"
  using outcome_cases(2) [OF assms(1,3)] assms(2) by (simp add: commit_logged_def)

text \<open>C11. A commit that was reported to the client has been performed: when the process on the coordinator
  has ended with success, every segment that took part has committed.
\<close>

theorem commit_report_true:
  assumes "tp_reach True mark nseg s" "pc s = Ended True" "i < length (parts s)"
  shows "parts s ! i = NoXact \<or> parts s ! i = CommittedXact"
  using outcome_cases(3) [OF assms(1,3,2)] by blast

section \<open>A run\<close>

text \<open>Two segments, a coordinator with a local transaction identifier, no failures until the end.\<close>

definition ex_tp :: "qd_pc \<Rightarrow> DtxState \<Rightarrow> nat list \<Rightarrow> bool \<Rightarrow> bool \<Rightarrow> tp_record list \<Rightarrow> nat \<Rightarrow> nat \<Rightarrow> (nat \<times> nat) list \<Rightarrow>
    message list \<Rightarrow> local_xact list \<Rightarrow> qe list \<Rightarrow> tp" where
  "ex_tp p d segs ck delay w f n as ms xs ws =
     \<lparr>qd_st = \<lparr>dtx_state = d, dtxSegments = segs, writerGangLost = False, qd_context = DTX_CONTEXT_QD_DISTRIBUTED_CAPABLE\<rparr>,
      pc = p, exiting = False, in_progress = True, in_ckpt = ck, delayChkpt = delay, tp_wal = w, flushed = f,
      ckpt_has = False, tp_ckpt = CkNone, committed_array = False, recovery = RecStarted, bcast = n, acks = as,
      inflight = ms, parts = xs, writers = ws\<rparr>"

definition ex_writer :: qe where
  "ex_writer = \<lparr>DistributedTransactionContext = DTX_CONTEXT_QE_TWO_PHASE_IMPLICIT_WRITER, nestLevel = 1\<rparr>"

definition ex_prepared :: qe where
  "ex_prepared = \<lparr>DistributedTransactionContext = DTX_CONTEXT_QE_PREPARED, nestLevel = 0\<rparr>"

lemma tp_next: "tp_reach w m n s \<Longrightarrow> tp_step w m s t \<Longrightarrow> t = u \<Longrightarrow> tp_reach w m n u"
  by (blast intro: tp_more)

lemmas ex_defs = ex_tp_def ex_writer_def ex_prepared_def idle_qe_def

lemma ex_started:
  "tp_reach True True 2 (ex_tp Executing DTX_STATE_ACTIVE_DISTRIBUTED [0, 1] False False [] 0 0 [] [] [OpenXact, OpenXact] [ex_writer, ex_writer])"
proof -
  have 0: "tp_reach True True 2 (ex_tp Executing DTX_STATE_ACTIVE_DISTRIBUTED [] False False [] 0 0 [] [] [NoXact, NoXact] [idle_qe, idle_qe])"
    using tp_start [of True True 2] by (simp add: tp_init_def ex_tp_def numeral_2_eq_2)
  have 1: "tp_reach True True 2 (ex_tp Executing DTX_STATE_ACTIVE_DISTRIBUTED [0] False False [] 0 0 [] [] [OpenXact, NoXact] [ex_writer, idle_qe])"
    by (rule tp_next [OF 0 tp_step.process [OF qd_step.statement [of _ 0]]]) (simp_all add: ex_defs addToGxactDtxSegments_def isCurrentDtxActivated_def)
  show ?thesis
    by (rule tp_next [OF 1 tp_step.process [OF qd_step.statement [of _ 1]]]) (simp_all add: ex_defs addToGxactDtxSegments_def isCurrentDtxActivated_def)
qed

lemma ex_voted:
  "tp_reach True True 2 (ex_tp PreCommit DTX_STATE_PREPARED [0, 1] False False [] 0 1 [(1, 1), (1, 0)] [] [PreparedXact, PreparedXact]
     [ex_prepared, ex_prepared])"
proof -
  let ?m = "\<lambda>i. (i, 1, DTX_PROTOCOL_COMMAND_PREPARE)"
  have 1: "tp_reach True True 2 (ex_tp (Waiting 1) DTX_STATE_PREPARING [0, 1] False False [] 0 1 [] [?m 0, ?m 1] [OpenXact, OpenXact]
      [ex_writer, ex_writer])"
    by (rule tp_next [OF ex_started tp_step.process [OF qd_step.commit]]) (simp_all add: ex_defs coordinator_defs send_def)
  have 2: "tp_reach True True 2 (ex_tp (Waiting 1) DTX_STATE_PREPARING [0, 1] False False [] 0 1 [(1, 0)] [?m 1] [PreparedXact, OpenXact]
      [ex_prepared, ex_writer])"
    by (rule tp_next [OF 1 tp_step.segments [OF segment_step.deliver_message [of "?m 0" _ True True]]])
      (simp_all add: ex_defs deliver_def to_new_process_def qe_defs)
  have 3: "tp_reach True True 2 (ex_tp (Waiting 1) DTX_STATE_PREPARING [0, 1] False False [] 0 1 [(1, 1), (1, 0)] [] [PreparedXact, PreparedXact]
      [ex_prepared, ex_prepared])"
    by (rule tp_next [OF 2 tp_step.segments [OF segment_step.deliver_message [of "?m 1" _ True True]]])
      (simp_all add: ex_defs deliver_def to_new_process_def qe_defs)
  show ?thesis
    by (rule tp_next [OF 3 tp_step.process [OF qd_step.answered [of _ 1 True _ _ False]]])
      (simp_all add: ex_defs acked_def dispatch_end_def coordinator_defs return_pc_def)
qed

text \<open>The state in which one segment has committed and the other has not heard of the decision.\<close>

lemma ex_half:
  "tp_reach True True 2 (ex_tp (Waiting 2) DTX_STATE_NOTIFYING_COMMIT_PREPARED [0, 1] True False [DistributedCommit] 1 2
     [(2, 0), (1, 1), (1, 0)] [(1, 2, DTX_PROTOCOL_COMMAND_COMMIT_PREPARED)] [CommittedXact, PreparedXact] [idle_qe, ex_prepared])"
proof -
  let ?m = "\<lambda>i. (i, 2, DTX_PROTOCOL_COMMAND_COMMIT_PREPARED)"
  let ?s = "\<lambda>p d ck delay w f. ex_tp p d [0, 1] ck delay w f 1 [(1, 1), (1, 0)] [] [PreparedXact, PreparedXact] [ex_prepared, ex_prepared]"
  have 1: "tp_reach True True 2 (?s InsertingCommit DTX_STATE_INSERTING_COMMITTED False True [] 0)"
    by (rule tp_next [OF ex_voted tp_step.process [OF qd_step.enter_commit]]) (simp_all add: ex_defs coordinator_defs)
  have 2: "tp_reach True True 2 (?s CommitInserted DTX_STATE_INSERTING_COMMITTED False True [DistributedCommit] 0)"
    by (rule tp_next [OF 1 tp_step.process [OF qd_step.insert_commit]]) (simp_all add: ex_defs)
  have 3: "tp_reach True True 2 (?s CommitMarked DTX_STATE_INSERTED_COMMITTED True True [DistributedCommit] 0)"
    by (rule tp_next [OF 2 tp_step.process [OF qd_step.mark_commit]]) (simp_all add: ex_defs coordinator_defs)
  have 4: "tp_reach True True 2 (?s Notifying DTX_STATE_INSERTED_COMMITTED True False [DistributedCommit] 1)"
    by (rule tp_next [OF 3 tp_step.process [OF qd_step.flush_commit]]) (simp_all add: ex_defs)
  have 5: "tp_reach True True 2 (ex_tp (Waiting 2) DTX_STATE_NOTIFYING_COMMIT_PREPARED [0, 1] True False [DistributedCommit] 1 2
      [(1, 1), (1, 0)] [?m 0, ?m 1] [PreparedXact, PreparedXact] [ex_prepared, ex_prepared])"
    by (rule tp_next [OF 4 tp_step.process [OF qd_step.notify]]) (simp_all add: ex_defs coordinator_defs send_def)
  show ?thesis
    by (rule tp_next [OF 5 tp_step.segments [OF segment_step.deliver_message [of "?m 0" _ True True]]])
      (simp_all add: ex_defs deliver_def to_new_process_def qe_defs)
qed

lemma ex_done:
  "tp_reach True True 2 ((ex_tp (Ended True) DTX_STATE_NONE [0, 1] False False [DistributedCommit, DistributedForget] 1 2
     [(2, 1), (2, 0), (1, 1), (1, 0)] [] [CommittedXact, CommittedXact] [idle_qe, idle_qe])\<lparr>in_progress := False\<rparr>)"
proof -
  let ?s = "\<lambda>p d ck w. ex_tp p d [0, 1] ck False w 1 2 [(2, 1), (2, 0), (1, 1), (1, 0)] [] [CommittedXact, CommittedXact] [idle_qe, idle_qe]"
  have 1: "tp_reach True True 2 (?s (Waiting 2) DTX_STATE_NOTIFYING_COMMIT_PREPARED True [DistributedCommit])"
    by (rule tp_next [OF ex_half tp_step.segments [OF segment_step.deliver_message [of "(1, 2, DTX_PROTOCOL_COMMAND_COMMIT_PREPARED)" _ True True]]])
      (simp_all add: ex_defs deliver_def to_new_process_def qe_defs)
  have 2: "tp_reach True True 2 (?s Forgetting DTX_STATE_NOTIFYING_COMMIT_PREPARED True [DistributedCommit])"
    by (rule tp_next [OF 1 tp_step.process [OF qd_step.answered [of _ 2 True _ _ False]]])
      (simp_all add: ex_defs acked_def dispatch_end_def coordinator_defs)
  have 3: "tp_reach True True 2 (?s ForgetInserted DTX_STATE_INSERTING_FORGET_COMMITTED True [DistributedCommit, DistributedForget])"
    by (rule tp_next [OF 2 tp_step.process [OF qd_step.insert_forget]]) (simp_all add: ex_defs coordinator_defs)
  have 4: "tp_reach True True 2 (?s (Ending True) DTX_STATE_INSERTED_FORGET_COMMITTED False [DistributedCommit, DistributedForget])"
    by (rule tp_next [OF 3 tp_step.process [OF qd_step.clear_ckpt]]) (simp_all add: ex_defs coordinator_defs)
  show ?thesis by (rule tp_next [OF 4 tp_step.process [OF qd_step.end_transaction]]) (simp_all add: ex_defs)
qed

text \<open>One segment has committed, the other is prepared: it cannot abort any more.\<close>

theorem two_phase_atomic_witness:
  "parts (ex_tp (Waiting 2) DTX_STATE_NOTIFYING_COMMIT_PREPARED [0, 1] True False [DistributedCommit] 1 2 [(2, 0), (1, 1), (1, 0)]
     [(1, 2, DTX_PROTOCOL_COMMAND_COMMIT_PREPARED)] [CommittedXact, PreparedXact] [idle_qe, ex_prepared]) ! 1 \<noteq> AbortedXact"
  by (rule two_phase_atomic [OF ex_half, of 0]) (simp_all add: ex_tp_def)

theorem commit_record_binding_witness:
  "parts (ex_tp (Waiting 2) DTX_STATE_NOTIFYING_COMMIT_PREPARED [0, 1] True False [DistributedCommit] 1 2 [(2, 0), (1, 1), (1, 0)]
     [(1, 2, DTX_PROTOCOL_COMMAND_COMMIT_PREPARED)] [CommittedXact, PreparedXact] [idle_qe, ex_prepared]) ! 1
     \<in> {NoXact, PreparedXact, CommittedXact}"
  by (rule commit_record_binding [OF ex_half]) (simp_all add: ex_tp_def)

theorem commit_report_true_witness:
  "let s = (ex_tp (Ended True) DTX_STATE_NONE [0, 1] False False [DistributedCommit, DistributedForget] 1 2
     [(2, 1), (2, 0), (1, 1), (1, 0)] [] [CommittedXact, CommittedXact] [idle_qe, idle_qe])\<lparr>in_progress := False\<rparr>
   in parts s ! 1 = NoXact \<or> parts s ! 1 = CommittedXact"
  unfolding Let_def by (rule commit_report_true [OF ex_done]) (simp_all add: ex_tp_def)

section \<open>Transactions in doubt\<close>







end
