(* ===== verification/Dtx_Recovery.thy ===== *)
theory Dtx_Recovery
  imports Dtx_Gxact Dtx_TwoPhase
begin

text \<open>
  The recovery of distributed transactions (\<open>cdb/cdbdtxrecovery.c\<close>, \<open>cdb/cdbtmutils.c\<close>): the array of
  committed transactions that replay builds, the start-up recovery that finishes every transaction the
  segments have prepared, and the periodic search for orphaned prepared transactions.
\<close>

section \<open>Names of distributed transactions\<close>

definition TMGIDSIZE :: nat where
  "TMGIDSIZE = 21"

definition dtxFormGid :: "DistributedTransactionId \<Rightarrow> string" where
  "dtxFormGid g = print_nat (unat g)"

datatype recovery_error = BadGid string | CommitBroadcastFailed string | GatherFailed | RedoFailed dtm_error

text \<open>Any leading number will do; in utility mode (\<open>utility\<close>) other names are accepted as well.\<close>

definition dtxDeformGid :: "bool \<Rightarrow> string \<Rightarrow> recovery_error + DistributedTransactionId" where
  "dtxDeformGid utility gid =
     (case scan_int gid of
        Some (n, r) \<Rightarrow> Inr (of_int n)
      | None \<Rightarrow> if utility then Inr 0 else Inl (BadGid gid))"

section \<open>Committed transactions found by replay\<close>

fun redo_committed :: "nat \<Rightarrow> DistributedTransactionId list \<Rightarrow> dtm \<Rightarrow> dtm_error + dtm" where
  "redo_committed max_gxacts [] st = Inr st"
| "redo_committed max_gxacts (g # gs) st = bind_res (redoDistributedCommitRecord max_gxacts g st) (redo_committed max_gxacts gs)"

definition redoDtxCheckPoint :: "nat \<Rightarrow> DistributedTransactionId list \<Rightarrow> dtm \<Rightarrow> dtm_error + dtm" where
  "redoDtxCheckPoint max_gxacts committed st = redo_committed max_gxacts committed st"

section \<open>Segments\<close>

text \<open>
  The local parts of distributed transactions on a segment, by name, with the time since they were
  prepared (in microseconds).
\<close>

record part =
  part_gid :: string
  part_age :: nat
  part_state :: local_xact

text \<open>A process new to the transaction performs a command for the transaction named \<open>gid\<close>.\<close>

definition perform_on :: "bool \<Rightarrow> DtxProtocolCommand \<Rightarrow> string \<Rightarrow> part list \<Rightarrow> bool \<times> part list" where
  "perform_on ok c gid seg =
     (let x = (case find (\<lambda>p. part_gid p = gid) seg of Some p \<Rightarrow> part_state p | None \<Rightarrow> NoXact) in
      case performDtxProtocolCommand ok DTX_CONTEXT_LOCAL_ONLY 0 c idle_qe x of
        (e, q, x') \<Rightarrow> (e = None, map (\<lambda>p. if part_gid p = gid then p\<lparr>part_state := x'\<rparr> else p) seg))"

text \<open>What a segment does with a command: nothing reaches it, or it performs it and may answer.\<close>

datatype reply = Unreachable | Performs bool bool

fun deliver_reply :: "reply \<Rightarrow> DtxProtocolCommand \<Rightarrow> string \<Rightarrow> part list \<Rightarrow> bool \<times> part list" where
  "deliver_reply Unreachable c gid seg = (False, seg)"
| "deliver_reply (Performs ok answers) c gid seg = (case perform_on ok c gid seg of (r, seg') \<Rightarrow> (r \<and> answers, seg'))"

definition broadcast :: "(nat \<Rightarrow> reply) \<Rightarrow> DtxProtocolCommand \<Rightarrow> string \<Rightarrow> part list list \<Rightarrow> bool \<times> part list list" where
  "broadcast env c gid segs =
     (let rs = map (\<lambda>i. deliver_reply (env i) c gid (segs ! i)) [0..<length segs]
      in (list_all fst rs, map snd rs))"

section \<open>Start-up recovery\<close>

text \<open>
  \<open>env k i\<close> is what segment \<open>i\<close> does at the \<open>k\<close>-th broadcast.  A failed commit ends the process
  (\<open>FATAL\<close>); the effects on the segments remain.
\<close>

record recovery_state =
  rsegs :: "part list list"
  forgotten :: "DistributedTransactionId list"
  numCommitted :: "DistributedTransactionId list"
  dtmStarted :: bool

definition doNotifyCommittedInDoubt ::
  "(nat \<Rightarrow> reply) \<Rightarrow> string \<Rightarrow> recovery_state \<Rightarrow> recovery_error option \<times> recovery_state" where
  "doNotifyCommittedInDoubt env gid st =
     (case broadcast env DTX_PROTOCOL_COMMAND_RECOVERY_COMMIT_PREPARED gid (rsegs st) of
        (ok, segs) \<Rightarrow> (if ok then None else Some (CommitBroadcastFailed gid), st\<lparr>rsegs := segs\<rparr>))"

definition doAbortInDoubt :: "(nat \<Rightarrow> reply) \<Rightarrow> string \<Rightarrow> recovery_state \<Rightarrow> recovery_state" where
  "doAbortInDoubt env gid st = st\<lparr>rsegs := snd (broadcast env DTX_PROTOCOL_COMMAND_RECOVERY_ABORT_PREPARED gid (rsegs st))\<rparr>"

definition RecordDistributedForgetCommitted :: "DistributedTransactionId \<Rightarrow> recovery_state \<Rightarrow> recovery_state" where
  "RecordDistributedForgetCommitted g st = st\<lparr>forgotten := forgotten st @ [g]\<rparr>"

fun recover_committed ::
  "(nat \<Rightarrow> nat \<Rightarrow> reply) \<Rightarrow> DistributedTransactionId list \<Rightarrow> recovery_state \<Rightarrow> recovery_error option \<times> recovery_state" where
  "recover_committed env [] st = (None, st)"
| "recover_committed env (g # gs) st =
     (case doNotifyCommittedInDoubt (env (length gs)) (dtxFormGid g) st of
        (Some e, st1) \<Rightarrow> (Some e, st1)
      | (None, st1) \<Rightarrow> recover_committed env gs (RecordDistributedForgetCommitted g st1))"

text \<open>
  The names of the transactions prepared for longer than \<open>prepared_seconds\<close>, each once; \<open>None\<close> stands
  for a dispatch that failed.
\<close>

definition prepared_gids :: "nat \<Rightarrow> part list \<Rightarrow> string list" where
  "prepared_gids prepared_seconds seg =
     map part_gid (filter (\<lambda>p. part_state p = PreparedXact \<and> prepared_seconds * 1000000 < part_age p) seg)"

definition hash_enter :: "string \<Rightarrow> string list \<Rightarrow> string list" where
  "hash_enter gid htab = (if gid \<in> set htab then htab else htab @ [gid])"

definition gatherRMInDoubtTransactions :: "nat \<Rightarrow> bool \<Rightarrow> bool \<Rightarrow> part list list \<Rightarrow> recovery_error + string list" where
  "gatherRMInDoubtTransactions prepared_seconds raiseError dispatch_ok segs =
     (if dispatch_ok then Inr (fold (\<lambda>seg. fold hash_enter (prepared_gids prepared_seconds seg)) segs [])
      else if raiseError then Inl GatherFailed else Inr [])"

fun abortRMInDoubtTransactions :: "(nat \<Rightarrow> nat \<Rightarrow> reply) \<Rightarrow> string list \<Rightarrow> recovery_state \<Rightarrow> recovery_state" where
  "abortRMInDoubtTransactions env [] st = st"
| "abortRMInDoubtTransactions env (gid # gids) st =
     abortRMInDoubtTransactions env gids (doAbortInDoubt (env (length gids)) gid st)"

text \<open>\<open>env\<close> and \<open>env2\<close>: the segments at the commits and at the aborts.\<close>

definition recoverInDoubtTransactions ::
  "(nat \<Rightarrow> nat \<Rightarrow> reply) \<Rightarrow> bool \<Rightarrow> (nat \<Rightarrow> nat \<Rightarrow> reply) \<Rightarrow> recovery_state \<Rightarrow> recovery_error option \<times> recovery_state" where
  "recoverInDoubtTransactions env gather_ok env2 st =
     (case recover_committed env (numCommitted st) st of
        (Some e, st1) \<Rightarrow> (Some e, st1)
      | (None, st1) \<Rightarrow>
          (let st2 = st1\<lparr>numCommitted := []\<rparr> in
           case gatherRMInDoubtTransactions 0 True gather_ok (rsegs st2) of
             Inl e \<Rightarrow> (Some e, st2)
           | Inr htab \<Rightarrow> (None, abortRMInDoubtTransactions env2 htab st2)))"

definition recoverTM ::
  "(nat \<Rightarrow> nat \<Rightarrow> reply) \<Rightarrow> bool \<Rightarrow> (nat \<Rightarrow> nat \<Rightarrow> reply) \<Rightarrow> recovery_state \<Rightarrow> recovery_error option \<times> recovery_state" where
  "recoverTM env gather_ok env2 st =
     (case recoverInDoubtTransactions env gather_ok env2 st of
        (Some e, st1) \<Rightarrow> (Some e, st1)
      | (None, st1) \<Rightarrow> (None, st1\<lparr>dtmStarted := True\<rparr>))"

section \<open>Orphaned transactions\<close>

definition IsDtxInProgress :: "DistributedTransactionId \<Rightarrow> dtm \<Rightarrow> bool" where
  "IsDtxInProgress g dt \<longleftrightarrow> list_ex (\<lambda>p. gxid (allTmGxact dt ! p) = g) (pgprocnos dt)"

text \<open>The process array may change between two transactions: \<open>dt k\<close> is it at the \<open>k\<close>-th test.\<close>

fun abortOrphanedTransactions ::
  "(nat \<Rightarrow> nat \<Rightarrow> reply) \<Rightarrow> (nat \<Rightarrow> dtm) \<Rightarrow> string list \<Rightarrow> recovery_state \<Rightarrow> recovery_error option \<times> recovery_state" where
  "abortOrphanedTransactions env dt [] st = (None, st)"
| "abortOrphanedTransactions env dt (gid # gids) st =
     (case dtxDeformGid False gid of
        Inl e \<Rightarrow> (Some e, st)
      | Inr g \<Rightarrow>
          abortOrphanedTransactions env dt gids
            (if IsDtxInProgress g (dt (length gids)) then st else doAbortInDoubt (env (length gids)) gid st))"

definition AbortOrphanedPreparedTransactions ::
  "nat \<Rightarrow> bool \<Rightarrow> (nat \<Rightarrow> nat \<Rightarrow> reply) \<Rightarrow> (nat \<Rightarrow> dtm) \<Rightarrow> recovery_state \<Rightarrow> recovery_error option \<times> recovery_state" where
  "AbortOrphanedPreparedTransactions prepared_period gather_ok env dt st =
     (case gatherRMInDoubtTransactions prepared_period False gather_ok (rsegs st) of
        Inl e \<Rightarrow> (Some e, st)
      | Inr htab \<Rightarrow> abortOrphanedTransactions env dt htab st)"

section \<open>Names and their numbers\<close>

lemma gid_round_trip: "dtxDeformGid utility (dtxFormGid g) = Inr g" "length (dtxFormGid g) < TMGIDSIZE"
proof -
  have "scan_int (print_int (uint g) @ []) = Some (uint g, [])" by (rule scan_print_int) simp
  moreover have "print_int (uint g) = dtxFormGid g" by (simp add: print_int_def dtxFormGid_def)
  ultimately show "dtxDeformGid utility (dtxFormGid g) = Inr g" by (simp add: dtxDeformGid_def)
  have "unat g < 2 ^ 64" using unsigned_less [of g, where ?'a = nat] by simp
  moreover have "(2::nat) ^ 64 \<le> 10 ^ Suc 19" by simp
  ultimately have "length (print_nat (unat g)) \<le> Suc 19" by (intro print_nat_length) (rule less_le_trans)
  then show "length (dtxFormGid g) < TMGIDSIZE" by (simp add: dtxFormGid_def TMGIDSIZE_def)
qed

lemma dtxFormGid_inj: "inj dtxFormGid"
proof (rule injI)
  fix g h assume "dtxFormGid g = dtxFormGid h"
  then have "dtxDeformGid False (dtxFormGid g) = dtxDeformGid False (dtxFormGid h)" by (rule arg_cong)
  then show "g = h" unfolding gid_round_trip(1) by simp
qed

section \<open>Replay finds exactly the transactions to be committed\<close>

text \<open>The records of one transaction.\<close>

fun records_of :: "DistributedTransactionId \<Rightarrow> dtm_record list \<Rightarrow> tp_record list" where
  "records_of g [] = []"
| "records_of g (XLOG_XACT_DISTRIBUTED_COMMIT h # rs) = (if h = g then DistributedCommit # records_of g rs else records_of g rs)"
| "records_of g (XLOG_XACT_DISTRIBUTED_FORGET h # rs) = (if h = g then DistributedForget # records_of g rs else records_of g rs)"
| "records_of g (r # rs) = records_of g rs"

lemma last_first:
  assumes "xs \<noteq> []" "distinct xs"
  shows "set (last xs # butlast xs) = set xs" "distinct (last xs # butlast xs)"
proof -
  obtain ys y where xs: "xs = ys @ [y]" using assms(1) by (cases xs rule: rev_cases) auto
  show "set (last xs # butlast xs) = set xs" "distinct (last xs # butlast xs)" using assms(2) by (auto simp: xs)
qed

lemma forget_committed_None: "forget_committed g xs = None \<Longrightarrow> g \<notin> set xs"
proof (induction xs)
  case (Cons x xs)
  then show ?case by (cases "g = x") simp_all
qed simp

lemma forget_committed_Some:
  "forget_committed g xs = Some ys \<Longrightarrow> distinct xs \<Longrightarrow> distinct ys \<and> set ys = set xs - {g}"
proof (induction xs arbitrary: ys)
  case (Cons x xs)
  show ?case
  proof (cases "g = x")
    case True
    show ?thesis
    proof (cases "xs = []")
      case False
      then have "ys = last xs # butlast xs" using Cons.prems(1) True by simp
      then show ?thesis using last_first [OF False] Cons.prems(2) True by simp
    qed (use Cons.prems True in simp)
  next
    case False
    then obtain zs where z: "forget_committed g xs = Some zs" "ys = x # zs" using Cons.prems(1) by auto
    then show ?thesis using Cons.IH [OF z(1)] Cons.prems(2) False by auto
  qed
qed simp

lemma redo_array:
  assumes r: "dtm_redo hot n r st = Inr st'" and d: "distinct (committedGxidArray st)"
  shows "distinct (committedGxidArray st')"
    "g \<in> set (committedGxidArray st') \<longleftrightarrow> tp_replay (g \<in> set (committedGxidArray st)) (records_of g [r])"
proof -
  have "distinct (committedGxidArray st') \<and>
    (g \<in> set (committedGxidArray st') \<longleftrightarrow> tp_replay (g \<in> set (committedGxidArray st)) (records_of g [r]))"
  proof (cases r)
    case (XLOG_XACT_DISTRIBUTED_COMMIT h)
    then show ?thesis using r d by (auto simp: redoDistributedCommitRecord_def list_ex_iff tp_replay_def split: if_splits)
  next
    case (XLOG_XACT_DISTRIBUTED_FORGET h)
    show ?thesis
    proof (cases "forget_committed h (committedGxidArray st)")
      case None
      then have "st' = st" using r XLOG_XACT_DISTRIBUTED_FORGET by (simp add: redoDistributedForgetCommitRecord_def)
      then show ?thesis using d forget_committed_None [OF None] XLOG_XACT_DISTRIBUTED_FORGET by (auto simp: tp_replay_def)
    next
      case (Some ys)
      then have "committedGxidArray st' = ys"
        using r XLOG_XACT_DISTRIBUTED_FORGET by (auto simp: redoDistributedForgetCommitRecord_def Let_def)
      then show ?thesis using forget_committed_Some [OF Some d] XLOG_XACT_DISTRIBUTED_FORGET by (auto simp: tp_replay_def)
    qed
  qed (use r d in \<open>auto simp: Let_def tp_replay_def split: if_splits\<close>)
  then show "distinct (committedGxidArray st')"
    "g \<in> set (committedGxidArray st') \<longleftrightarrow> tp_replay (g \<in> set (committedGxidArray st)) (records_of g [r])" by blast+
qed

lemma records_of_Cons: "records_of g (r # rs) = records_of g [r] @ records_of g rs"
  by (cases r) simp_all

lemma replay_array:
  assumes "dtm_replay hot n rs st = Inr st'" "distinct (committedGxidArray st)"
  shows "distinct (committedGxidArray st') \<and>
    (g \<in> set (committedGxidArray st') \<longleftrightarrow> tp_replay (g \<in> set (committedGxidArray st)) (records_of g rs))"
  using assms
proof (induction rs arbitrary: st)
  case (Cons r rs)
  then obtain st1 where 1: "dtm_redo hot n r st = Inr st1" "dtm_replay hot n rs st1 = Inr st'" by (auto simp: bind_res_Inr_iff)
  note a = redo_array [OF 1(1) Cons.prems(2)]
  show ?case using Cons.IH [OF 1(2) a(1)] a(2) [of g] records_of_Cons [of g r rs] by (simp add: tp_replay_def)
qed (simp add: tp_replay_def)

lemma checkpoint_array:
  assumes "redo_committed n gs st = Inr st'" "distinct (committedGxidArray st)"
  shows "distinct (committedGxidArray st') \<and> set (committedGxidArray st') = set gs \<union> set (committedGxidArray st)"
  using assms
proof (induction gs arbitrary: st)
  case (Cons g gs)
  then obtain st1 where 1: "redoDistributedCommitRecord n g st = Inr st1" "redo_committed n gs st1 = Inr st'"
    by (auto simp: bind_res_Inr_iff)
  then have "distinct (committedGxidArray st1) \<and> set (committedGxidArray st1) = insert g (set (committedGxidArray st))"
    using Cons.prems(2) by (auto simp: redoDistributedCommitRecord_def list_ex_iff split: if_splits)
  then show ?case using Cons.IH [OF 1(2)] by auto
qed simp

text \<open>C14. Replay on a restarted coordinator, from the list of the checkpoint and the records after it,
  leaves in the array each transaction once, and exactly those whose commit is in the checkpoint or
  the log and was not followed by a forget record: what the abstract replay of two-phase commit says of
  each transaction by itself.
\<close>

theorem replay_array_exact:
  assumes "redoDtxCheckPoint n committed (startup_from_checkpoint wasShutdown st) = Inr st1" "dtm_replay hot n rs st1 = Inr st2"
  shows "distinct (committedGxidArray st2) \<and>
    (\<forall>g. g \<in> set (committedGxidArray st2) \<longleftrightarrow> tp_replay (g \<in> set committed) (records_of g rs))"
proof -
  have "distinct (committedGxidArray st1) \<and> set (committedGxidArray st1) = set committed"
    using checkpoint_array [OF assms(1) [unfolded redoDtxCheckPoint_def]] by (simp add: startup_from_checkpoint_def)
  then show ?thesis using replay_array [OF assms(2)] by simp
qed

section \<open>What becomes of the prepared parts\<close>

definition segs_ok :: "part list list \<Rightarrow> bool" where
  "segs_ok segs \<longleftrightarrow> (\<forall>seg \<in> set segs. distinct (map part_gid seg))"

text \<open>A part is left alone, or it was prepared and gets the outcome of its name.\<close>

definition fate :: "(string \<Rightarrow> local_xact) \<Rightarrow> part \<Rightarrow> part \<Rightarrow> bool" where
  "fate f p p' \<longleftrightarrow> p' = p \<or> part_state p = PreparedXact \<and> p' = p\<lparr>part_state := f (part_gid p)\<rparr>"

abbreviation fates :: "(string \<Rightarrow> local_xact) \<Rightarrow> part list list \<Rightarrow> part list list \<Rightarrow> bool" where
  "fates f \<equiv> list_all2 (list_all2 (fate f))"

definition settles :: "(string \<Rightarrow> local_xact) \<Rightarrow> bool" where
  "settles f \<longleftrightarrow> (\<forall>g. f g \<noteq> PreparedXact)"

lemma fate_trans: "settles f \<Longrightarrow> fate f p q \<Longrightarrow> fate f q r \<Longrightarrow> fate f p r"
  by (auto simp: fate_def settles_def)

lemma fates_trans:
  assumes "settles f" "fates f xs ys" "fates f ys zs"
  shows "fates f xs zs"
proof -
  have "list_all2 (fate f) a c" if "list_all2 (fate f) a b" "list_all2 (fate f) b c" for a b c
    using list_all2_trans [of "fate f" "fate f" "fate f" a b c] fate_trans [OF assms(1)] that by blast
  then show ?thesis using list_all2_trans [of "list_all2 (fate f)" "list_all2 (fate f)" "list_all2 (fate f)" xs ys zs] assms(2,3) by blast
qed

lemma fates_refl [simp]: "fates f xs xs"
  by (simp add: list_all2_same fate_def)

lemma fate_gid: "fate f p q \<Longrightarrow> part_gid q = part_gid p"
  by (auto simp: fate_def)

lemma fates_ok:
  assumes "fates f xs ys" "segs_ok xs"
  shows "segs_ok ys"
proof -
  have m: "list_all2 (fate f) x y \<Longrightarrow> map part_gid y = map part_gid x" for x y
    by (induction rule: list_all2_induct) (simp_all add: fate_gid)
  from assms show ?thesis
  proof (induction rule: list_all2_induct)
    case (Cons x xs y ys)
    then show ?case using m [OF Cons.hyps(1)] by (simp add: segs_ok_def)
  qed simp
qed

text \<open>No part of that name is prepared.\<close>

definition finished :: "string \<Rightarrow> part list list \<Rightarrow> bool" where
  "finished gid segs \<longleftrightarrow> (\<forall>seg \<in> set segs. \<forall>p \<in> set seg. part_gid p = gid \<longrightarrow> part_state p \<noteq> PreparedXact)"

lemma finished_fates:
  assumes "settles f" "fates f xs ys" "finished gid xs"
  shows "finished gid ys"
  using assms(2,3)
proof (induction rule: list_all2_induct)
  case (Cons x xs y ys)
  from Cons.hyps(1) have "\<forall>p \<in> set x. part_gid p = gid \<longrightarrow> part_state p \<noteq> PreparedXact \<Longrightarrow>
      \<forall>p \<in> set y. part_gid p = gid \<longrightarrow> part_state p \<noteq> PreparedXact"
    by (induction rule: list_all2_induct) (use assms(1) in \<open>auto simp: fate_def settles_def\<close>)
  then show ?case using Cons by (auto simp: finished_def)
qed (simp add: finished_def)

definition recovery_command :: "DtxProtocolCommand \<Rightarrow> local_xact \<Rightarrow> bool" where
  "recovery_command c x \<longleftrightarrow>
     c = DTX_PROTOCOL_COMMAND_RECOVERY_COMMIT_PREPARED \<and> x = CommittedXact \<or>
     c = DTX_PROTOCOL_COMMAND_RECOVERY_ABORT_PREPARED \<and> x = AbortedXact"

lemma perform_recovery:
  assumes "recovery_command c o'" "performDtxProtocolCommand ok DTX_CONTEXT_LOCAL_ONLY 0 c idle_qe x = (e, q, x')"
  shows "x' = x \<or> x = PreparedXact \<and> x' = o'" "e = None \<or> ok \<Longrightarrow> x' \<noteq> PreparedXact" "ok \<Longrightarrow> e = None"
  using assms by (auto simp: recovery_command_def qe_defs split: if_splits)

lemma find_distinct: "distinct (map part_gid seg) \<Longrightarrow> p \<in> set seg \<Longrightarrow> find (\<lambda>q. part_gid q = part_gid p) seg = Some p"
  by (induction seg) (auto simp: rev_image_eqI)

lemma perform_on_fate:
  assumes d: "distinct (map part_gid seg)" and c: "recovery_command c (f gid)" and p: "perform_on ok c gid seg = (r, seg')"
  shows "list_all2 (fate f) seg seg'" "r \<or> ok \<Longrightarrow> \<forall>p \<in> set seg'. part_gid p = gid \<longrightarrow> part_state p \<noteq> PreparedXact"
proof -
  define x where "x = (case find (\<lambda>p. part_gid p = gid) seg of Some p \<Rightarrow> part_state p | None \<Rightarrow> NoXact)"
  obtain e q x' where e: "performDtxProtocolCommand ok DTX_CONTEXT_LOCAL_ONLY 0 c idle_qe x = (e, q, x')"
    by (cases "performDtxProtocolCommand ok DTX_CONTEXT_LOCAL_ONLY 0 c idle_qe x")
  have s: "seg' = map (\<lambda>p. if part_gid p = gid then p\<lparr>part_state := x'\<rparr> else p) seg" "r \<longleftrightarrow> e = None"
    using p unfolding perform_on_def Let_def x_def [symmetric] e by simp_all
  note pr = perform_recovery [OF c e]
  have fp: "fate f p (if part_gid p = gid then p\<lparr>part_state := x'\<rparr> else p)" if m: "p \<in> set seg" for p
  proof (cases "part_gid p = gid")
    case True
    have "part_state p = x" using find_distinct [OF d m] True by (simp add: x_def)
    then show ?thesis using pr(1) True by (auto simp: fate_def)
  qed (simp add: fate_def)
  show "list_all2 (fate f) seg seg'" unfolding s(1) list_all2_map2 list_all2_same using fp by blast
  show "\<forall>p \<in> set seg'. part_gid p = gid \<longrightarrow> part_state p \<noteq> PreparedXact" if "r \<or> ok"
  proof -
    have "x' \<noteq> PreparedXact" using pr(2) that s(2) by blast
    then show ?thesis unfolding s(1) set_map ball_simps(9) by simp
  qed
qed

lemma deliver_reply_fate:
  assumes d: "distinct (map part_gid seg)" and c: "recovery_command c (f gid)" and p: "deliver_reply rep c gid seg = (r, seg')"
  shows "list_all2 (fate f) seg seg'"
    "r \<or> (\<exists>a. rep = Performs True a) \<Longrightarrow> \<forall>p \<in> set seg'. part_gid p = gid \<longrightarrow> part_state p \<noteq> PreparedXact"
proof -
  have "list_all2 (fate f) seg seg' \<and>
    (r \<or> (\<exists>a. rep = Performs True a) \<longrightarrow> (\<forall>p \<in> set seg'. part_gid p = gid \<longrightarrow> part_state p \<noteq> PreparedXact))"
  proof (cases rep)
    case Unreachable
    then show ?thesis using p by (auto simp: list_all2_same fate_def)
  next
    case (Performs ok a)
    then show ?thesis using p perform_on_fate [OF d, of c f gid ok] c by (auto split: prod.splits)
  qed
  then show "list_all2 (fate f) seg seg'"
    "r \<or> (\<exists>a. rep = Performs True a) \<Longrightarrow> \<forall>p \<in> set seg'. part_gid p = gid \<longrightarrow> part_state p \<noteq> PreparedXact" by blast+
qed

lemma broadcast_fates:
  assumes ok: "segs_ok segs" and c: "recovery_command c (f gid)" and b: "broadcast env c gid segs = (r, segs')"
  shows "fates f segs segs'" "r \<or> (\<forall>i. \<exists>a. env i = Performs True a) \<Longrightarrow> finished gid segs'"
proof -
  let ?d = "\<lambda>i. deliver_reply (env i) c gid (segs ! i)"
  have b': "segs' = map (\<lambda>i. snd (?d i)) [0..<length segs]" "r \<longleftrightarrow> (\<forall>i < length segs. fst (?d i))"
    using b by (auto simp: broadcast_def Let_def list_all_iff)
  have l: "length segs' = length segs" and n: "\<And>i. i < length segs \<Longrightarrow> segs' ! i = snd (?d i)" by (simp_all add: b'(1))
  have d: "distinct (map part_gid (segs ! i))" if "i < length segs" for i using ok that by (simp add: segs_ok_def)
  have e: "?d i = (fst (?d i), snd (?d i))" for i by simp
  show "fates f segs segs'"
    by (rule list_all2_all_nthI) (use l n deliver_reply_fate(1) [OF d _ e, of _ f] c in auto)
  show "finished gid segs'" if "r \<or> (\<forall>i. \<exists>a. env i = Performs True a)"
  proof -
    have "\<forall>p \<in> set (segs' ! i). part_gid p = gid \<longrightarrow> part_state p \<noteq> PreparedXact" if i: "i < length segs" for i
      using deliver_reply_fate(2) [OF d [OF i] _ e [of i], of f] c \<open>r \<or> _\<close> b'(2) i n [OF i] by auto
    then show ?thesis unfolding finished_def by (metis in_set_conv_nth l)
  qed
qed

text \<open>The outcome of a name at the start-up recovery.\<close>

definition outcome :: "DistributedTransactionId list \<Rightarrow> string \<Rightarrow> local_xact" where
  "outcome committed gid = (if gid \<in> dtxFormGid ` set committed then CommittedXact else AbortedXact)"

lemma outcome_settles: "settles (outcome committed)"
  by (simp add: settles_def outcome_def)

definition all_forgotten_finished :: "recovery_state \<Rightarrow> bool" where
  "all_forgotten_finished st \<longleftrightarrow> (\<forall>g \<in> set (forgotten st). finished (dtxFormGid g) (rsegs st))"

lemma notify_committed:
  assumes ok: "segs_ok (rsegs st)" and f: "settles f" "f gid = CommittedXact" and n: "doNotifyCommittedInDoubt env gid st = (e, st1)"
  shows "fates f (rsegs st) (rsegs st1)" "segs_ok (rsegs st1)" "e = None \<Longrightarrow> finished gid (rsegs st1)"
    "all_forgotten_finished st \<Longrightarrow> all_forgotten_finished st1" "forgotten st1 = forgotten st" "dtmStarted st1 = dtmStarted st"
proof -
  let ?c = "DTX_PROTOCOL_COMMAND_RECOVERY_COMMIT_PREPARED"
  have c: "recovery_command ?c (f gid)" by (simp add: recovery_command_def f(2))
  obtain r segs' where b: "broadcast env ?c gid (rsegs st) = (r, segs')" by (cases "broadcast env ?c gid (rsegs st)")
  have s: "st1 = st\<lparr>rsegs := segs'\<rparr>" "e = (if r then None else Some (CommitBroadcastFailed gid))"
    using n b by (simp_all add: doNotifyCommittedInDoubt_def)
  note bf = broadcast_fates [where f = f, OF ok c b]
  show fs: "fates f (rsegs st) (rsegs st1)" using bf(1) by (simp add: s)
  show "segs_ok (rsegs st1)" by (rule fates_ok [OF fs ok])
  show "e = None \<Longrightarrow> finished gid (rsegs st1)" using bf(2) by (simp add: s split: if_splits)
  show "all_forgotten_finished st \<Longrightarrow> all_forgotten_finished st1"
    using finished_fates [OF f(1) fs] by (simp add: all_forgotten_finished_def s)
  show "forgotten st1 = forgotten st" "dtmStarted st1 = dtmStarted st" by (simp_all add: s)
qed

lemma recover_committed_spec:
  assumes "segs_ok (rsegs st)" "settles f" "\<forall>g \<in> set gs. f (dtxFormGid g) = CommittedXact" "recover_committed env gs st = (e, st')"
    "all_forgotten_finished st"
  shows "fates f (rsegs st) (rsegs st') \<and> all_forgotten_finished st' \<and> dtmStarted st' = dtmStarted st \<and>
    (e = None \<longrightarrow> forgotten st' = forgotten st @ gs)"
  using assms
proof (induction gs arbitrary: st)
  case (Cons g gs)
  obtain e1 st1 where n: "doNotifyCommittedInDoubt (env (length gs)) (dtxFormGid g) st = (e1, st1)"
    by (cases "doNotifyCommittedInDoubt (env (length gs)) (dtxFormGid g) st")
  note k = notify_committed [OF Cons.prems(1,2) _ n]
  have fg: "f (dtxFormGid g) = CommittedXact" using Cons.prems(3) by simp
  show ?case
  proof (cases e1)
    case None
    let ?st = "RecordDistributedForgetCommitted g st1"
    have st: "rsegs ?st = rsegs st1" "forgotten ?st = forgotten st @ [g]" "dtmStarted ?st = dtmStarted st"
      using k(5,6) [OF fg] by (simp_all add: RecordDistributedForgetCommitted_def)
    have "all_forgotten_finished ?st"
      using k(3,4,5) [OF fg] None Cons.prems(5) by (auto simp: all_forgotten_finished_def RecordDistributedForgetCommitted_def)
    moreover have "recover_committed env gs ?st = (e, st')" using Cons.prems(4) n None by simp
    ultimately have "fates f (rsegs ?st) (rsegs st') \<and> all_forgotten_finished st' \<and> dtmStarted st' = dtmStarted ?st \<and>
        (e = None \<longrightarrow> forgotten st' = forgotten ?st @ gs)"
      using Cons.IH [of ?st] Cons.prems(2,3) k(2) [OF fg] st(1) by simp
    then show ?thesis using fates_trans [OF Cons.prems(2) k(1) [OF fg]] by (simp add: st)
  next
    case (Some x)
    then show ?thesis using Cons.prems(4,5) n k(1,4,6) [OF fg] by auto
  qed
qed simp


section \<open>Gathering and aborting\<close>

lemma hash_enter_set: "set (fold hash_enter gids htab) = set gids \<union> set htab"
  by (induction gids arbitrary: htab) (auto simp: hash_enter_def)

lemma gathered_set:
  "set (fold (\<lambda>seg. fold hash_enter (prepared_gids n seg)) segs htab) = (\<Union>seg \<in> set segs. set (prepared_gids n seg)) \<union> set htab"
  by (induction segs arbitrary: htab) (auto simp: hash_enter_set)

lemma prepared_gids_iff: "gid \<in> set (prepared_gids n seg) \<longleftrightarrow>
    (\<exists>p \<in> set seg. part_gid p = gid \<and> part_state p = PreparedXact \<and> n * 1000000 < part_age p)"
  by (auto simp: prepared_gids_def)

lemma gather_names:
  assumes "gatherRMInDoubtTransactions n re ok segs = Inr htab" "gid \<in> set htab"
  shows "\<exists>seg \<in> set segs. \<exists>p \<in> set seg. part_gid p = gid \<and> part_state p = PreparedXact \<and> n * 1000000 < part_age p"
  using assms by (auto simp: gatherRMInDoubtTransactions_def gathered_set prepared_gids_iff split: if_splits)


lemma abort_in_doubt:
  assumes "segs_ok (rsegs st)" "settles f" "f gid = AbortedXact"
  shows "fates f (rsegs st) (rsegs (doAbortInDoubt env gid st))"
    "\<forall>i. \<exists>a. env i = Performs True a \<Longrightarrow> finished gid (rsegs (doAbortInDoubt env gid st))"
    "segs_ok (rsegs (doAbortInDoubt env gid st))"
    "all_forgotten_finished st \<Longrightarrow> all_forgotten_finished (doAbortInDoubt env gid st)"
    "doAbortInDoubt env gid st = st\<lparr>rsegs := rsegs (doAbortInDoubt env gid st)\<rparr>"
proof -
  let ?c = "DTX_PROTOCOL_COMMAND_RECOVERY_ABORT_PREPARED"
  have c: "recovery_command ?c (f gid)" by (simp add: recovery_command_def assms(3))
  obtain r segs' where b: "broadcast env ?c gid (rsegs st) = (r, segs')" by (cases "broadcast env ?c gid (rsegs st)")
  have s: "doAbortInDoubt env gid st = st\<lparr>rsegs := segs'\<rparr>" using b by (simp add: doAbortInDoubt_def)
  note bf = broadcast_fates [where f = f, OF assms(1) c b]
  show fs: "fates f (rsegs st) (rsegs (doAbortInDoubt env gid st))" using bf(1) by (simp add: s)
  show "\<forall>i. \<exists>a. env i = Performs True a \<Longrightarrow> finished gid (rsegs (doAbortInDoubt env gid st))" using bf(2) by (simp add: s)
  show "segs_ok (rsegs (doAbortInDoubt env gid st))" by (rule fates_ok [OF fs assms(1)])
  show "all_forgotten_finished st \<Longrightarrow> all_forgotten_finished (doAbortInDoubt env gid st)"
    using finished_fates [OF assms(2) fs] by (simp add: all_forgotten_finished_def s)
  show "doAbortInDoubt env gid st = st\<lparr>rsegs := rsegs (doAbortInDoubt env gid st)\<rparr>" by (simp add: s)
qed

lemma abort_all:
  assumes "segs_ok (rsegs st)" "settles f" "\<forall>gid \<in> set gids. f gid = AbortedXact" "all_forgotten_finished st"
  shows "fates f (rsegs st) (rsegs (abortRMInDoubtTransactions env gids st)) \<and>
    all_forgotten_finished (abortRMInDoubtTransactions env gids st) \<and>
    abortRMInDoubtTransactions env gids st = st\<lparr>rsegs := rsegs (abortRMInDoubtTransactions env gids st)\<rparr> \<and>
    ((\<forall>k i. \<exists>a. env k i = Performs True a) \<longrightarrow> (\<forall>gid \<in> set gids. finished gid (rsegs (abortRMInDoubtTransactions env gids st))))"
  using assms(1,3,4)
proof (induction gids arbitrary: st)
  case (Cons gid gids)
  let ?st = "doAbortInDoubt (env (length gids)) gid st"
  have g: "f gid = AbortedXact" using Cons.prems(2) by simp
  note k = abort_in_doubt [OF Cons.prems(1) assms(2) g, of "env (length gids)"]
  note ih = Cons.IH [OF k(3) _ k(4) [OF Cons.prems(3)]]
  have fs: "fates f (rsegs ?st) (rsegs (abortRMInDoubtTransactions env gids ?st))" using ih Cons.prems(2) by simp
  have "finished gid (rsegs (abortRMInDoubtTransactions env gids ?st))" if "\<forall>k i. \<exists>a. env k i = Performs True a"
    using finished_fates [OF assms(2) fs k(2)] that by blast
  moreover have "fates f (rsegs st) (rsegs (abortRMInDoubtTransactions env gids ?st))" by (rule fates_trans [OF assms(2) k(1) fs])
  moreover have "abortRMInDoubtTransactions env gids ?st = st\<lparr>rsegs := rsegs (abortRMInDoubtTransactions env gids ?st)\<rparr>"
    using ih Cons.prems(2) k(5) by (metis (no_types, lifting) list.set_intros(2) recovery_state.update_convs(1) recovery_state.surjective recovery_state.simps(1-4))
  ultimately show ?case using ih Cons.prems(2) by simp
qed simp

text \<open>After the commits only transactions to be aborted are left prepared.\<close>

lemma gathered_aborted:
  assumes a: "all_forgotten_finished st1" "set committed \<subseteq> set (forgotten st1)"
    and h: "gatherRMInDoubtTransactions n re ok (rsegs (st1\<lparr>numCommitted := c\<rparr>)) = Inr htab"
  shows "\<forall>gid \<in> set htab. outcome committed gid = AbortedXact"
proof (rule ballI, rule ccontr)
  fix gid assume m: "gid \<in> set htab" and "outcome committed gid \<noteq> AbortedXact"
  then obtain g where "g \<in> set committed" "gid = dtxFormGid g" by (auto simp: outcome_def split: if_splits)
  then have "finished gid (rsegs st1)" using a by (auto simp: all_forgotten_finished_def)
  then show False using gather_names [OF h m] by (auto simp: finished_def)
qed

section \<open>Properties of the recovery\<close>

text \<open>C6. The start-up recovery is safe whatever the segments do: a prepared part is committed only if
  its transaction is one of those replay found, and aborted only if it is not; parts that were not
  prepared are left alone; when it fails, nothing has been aborted and the system is not opened; and a
  forget record is written only when no part of the transaction is prepared any more.
\<close>

theorem recovery_safe:
  assumes ok: "segs_ok (rsegs st)" and f: "forgotten st = []" and r: "recoverTM env gok env2 st = (e, st')"
  shows "fates (outcome (numCommitted st)) (rsegs st) (rsegs st') \<and>
    (e \<noteq> None \<longrightarrow> fates (\<lambda>_. CommittedXact) (rsegs st) (rsegs st') \<and> dtmStarted st' = dtmStarted st) \<and>
    (\<forall>g \<in> set (forgotten st'). finished (dtxFormGid g) (rsegs st'))"
proof -
  let ?f = "outcome (numCommitted st)"
  obtain e1 st1 where rc: "recover_committed env (numCommitted st) st = (e1, st1)" by (cases "recover_committed env (numCommitted st) st")
  have a: "all_forgotten_finished st" by (simp add: all_forgotten_finished_def f)
  have s1: "fates ?f (rsegs st) (rsegs st1) \<and> all_forgotten_finished st1 \<and> dtmStarted st1 = dtmStarted st \<and>
      (e1 = None \<longrightarrow> forgotten st1 = forgotten st @ numCommitted st)"
    by (rule recover_committed_spec [OF ok outcome_settles _ rc a]) (simp add: outcome_def)
  have s2: "fates (\<lambda>_. CommittedXact) (rsegs st) (rsegs st1)"
    using recover_committed_spec [OF ok _ _ rc a, of "\<lambda>_. CommittedXact"] by (simp add: settles_def)
  show ?thesis
  proof (cases "e1 = None \<and> gok")
    case True
    let ?st = "st1\<lparr>numCommitted := []\<rparr>"
    obtain htab where h: "gatherRMInDoubtTransactions 0 True gok (rsegs ?st) = Inr htab" using True by (simp add: gatherRMInDoubtTransactions_def)
    have st': "e = None" "st' = (abortRMInDoubtTransactions env2 htab ?st)\<lparr>dtmStarted := True\<rparr>"
      using r rc h True by (simp_all add: recoverTM_def recoverInDoubtTransactions_def Let_def)
    have "\<forall>gid \<in> set htab. ?f gid = AbortedXact"
      using gathered_aborted [OF _ _ h, of "numCommitted st"] s1 True f by auto
    then have "fates ?f (rsegs ?st) (rsegs st') \<and> all_forgotten_finished st'"
      using abort_all [of ?st ?f htab env2] outcome_settles fates_ok [of ?f "rsegs st" "rsegs st1"] s1 ok
      by (simp add: st' all_forgotten_finished_def)
    then show ?thesis using fates_trans [OF outcome_settles] s1 st'(1) by (auto simp: all_forgotten_finished_def)
  next
    case False
    then have "e \<noteq> None \<and> rsegs st' = rsegs st1 \<and> forgotten st' = forgotten st1 \<and> dtmStarted st' = dtmStarted st1"
      using r rc by (auto simp: recoverTM_def recoverInDoubtTransactions_def Let_def gatherRMInDoubtTransactions_def split: option.splits)
    then show ?thesis using s1 s2 by (simp add: all_forgotten_finished_def)
  qed
qed





section \<open>Orphans\<close>

text \<open>
  Only parts of transactions that some test found not in progress are touched: whatever outcomes are
  imagined for the others, the effect is theirs.
\<close>

definition orphan :: "(nat \<Rightarrow> dtm) \<Rightarrow> string \<Rightarrow> bool" where
  "orphan dt gid \<longleftrightarrow> (\<exists>k g. dtxDeformGid False gid = Inr g \<and> \<not> IsDtxInProgress g (dt k))"

lemma orphans_fates:
  assumes "segs_ok (rsegs st)" "settles f" "\<And>gid. orphan dt gid \<Longrightarrow> f gid = AbortedXact"
    "abortOrphanedTransactions env dt gids st = (e, st')"
  shows "fates f (rsegs st) (rsegs st')"
  using assms(1,4)
proof (induction gids arbitrary: st)
  case (Cons gid gids)
  show ?case
  proof (cases "dtxDeformGid False gid")
    case (Inr g)
    show ?thesis
    proof (cases "IsDtxInProgress g (dt (length gids))")
      case True
      then show ?thesis using Cons Inr by simp
    next
      case False
      then have "f gid = AbortedXact" using assms(3) Inr by (auto simp: orphan_def)
      note k = abort_in_doubt [OF Cons.prems(1) assms(2) this, of "env (length gids)"]
      have "fates f (rsegs (doAbortInDoubt (env (length gids)) gid st)) (rsegs st')"
        using Cons.IH [OF k(3)] Cons.prems(2) Inr False by simp
      then show ?thesis by (rule fates_trans [OF assms(2) k(1)])
    qed
  qed (use Cons.prems in simp)
qed simp

text \<open>C24. The periodic search for orphans aborts, of all prepared parts, only those whose transaction was
  found not in progress on the coordinator; every other part keeps its state, whatever the segments do
  and however the process array changes meanwhile.
\<close>

theorem orphans_only:
  assumes ok: "segs_ok (rsegs st)" and r: "AbortOrphanedPreparedTransactions period gok env dt st = (e, st')"
  shows "list_all2 (list_all2 (\<lambda>p p'. p' = p \<or>
    part_state p = PreparedXact \<and> p' = p\<lparr>part_state := AbortedXact\<rparr> \<and>
    (\<exists>k g. dtxDeformGid False (part_gid p) = Inr g \<and> \<not> IsDtxInProgress g (dt k)))) (rsegs st) (rsegs st')"
proof -
  obtain htab where h: "abortOrphanedTransactions env dt htab st = (e, st')"
    using r by (cases gok) (simp_all add: AbortOrphanedPreparedTransactions_def gatherRMInDoubtTransactions_def del: abortOrphanedTransactions.simps)
  let ?f = "\<lambda>x gid. if orphan dt gid then AbortedXact else x"
  have f: "fates (?f x) (rsegs st) (rsegs st')" if "x \<noteq> PreparedXact" for x
    by (rule orphans_fates [OF ok _ _ h]) (use that in \<open>simp_all add: settles_def\<close>)
  have l: "length (rsegs st) = length (rsegs st')" using list_all2_lengthD [OF f [of NoXact]] by simp
  show ?thesis
  proof (rule list_all2_all_nthI [OF l])
    fix i assume i: "i < length (rsegs st)"
    have s: "list_all2 (fate (?f x)) (rsegs st ! i) (rsegs st' ! i)" if "x \<noteq> PreparedXact" for x by (rule list_all2_nthD [OF f [OF that] i])
    show "list_all2 (\<lambda>p p'. p' = p \<or> part_state p = PreparedXact \<and> p' = p\<lparr>part_state := AbortedXact\<rparr> \<and>
      (\<exists>k g. dtxDeformGid False (part_gid p) = Inr g \<and> \<not> IsDtxInProgress g (dt k))) (rsegs st ! i) (rsegs st' ! i)"
    proof (rule list_all2_all_nthI)
      show "length (rsegs st ! i) = length (rsegs st' ! i)" using list_all2_lengthD [OF s [of NoXact]] by simp
      fix j assume j: "j < length (rsegs st ! i)"
      let ?p = "rsegs st ! i ! j" and ?q = "rsegs st' ! i ! j"
      have c: "fate (?f CommittedXact) ?p ?q" "fate (?f NoXact) ?p ?q" by (rule list_all2_nthD [OF s j]; simp)+
      show "?q = ?p \<or> part_state ?p = PreparedXact \<and> ?q = ?p\<lparr>part_state := AbortedXact\<rparr> \<and>
        (\<exists>k g. dtxDeformGid False (part_gid ?p) = Inr g \<and> \<not> IsDtxInProgress g (dt k))"
      proof (cases "orphan dt (part_gid ?p)")
        case True
        then show ?thesis using c(1) by (auto simp: fate_def orphan_def)
      next
        case False
        then have "?q = ?p \<or> part_state ?q = CommittedXact" using c(1) by (auto simp: fate_def)
        moreover have "?q = ?p \<or> part_state ?q = NoXact" using c(2) False by (auto simp: fate_def)
        ultimately show ?thesis by auto
      qed
    qed
  qed
qed

section \<open>An example\<close>

text \<open>Two segments, three transactions: one to be committed, one to be aborted, one that has ended.\<close>

definition ex_part :: "string \<Rightarrow> local_xact \<Rightarrow> part" where
  "ex_part gid x = \<lparr>part_gid = gid, part_age = 5000000, part_state = x\<rparr>"

definition ex_recovery :: recovery_state where
  "ex_recovery =
     \<lparr>rsegs = [[ex_part ''7'' PreparedXact, ex_part ''9'' PreparedXact], [ex_part ''7'' CommittedXact, ex_part ''8'' AbortedXact]],
      forgotten = [], numCommitted = [7], dtmStarted = False\<rparr>"

lemma ex_gids: "dtxFormGid 7 = ''7''"
  by code_simp

lemma ex_recovery_ok: "segs_ok (rsegs ex_recovery)" "forgotten ex_recovery = []"
  by (simp_all add: segs_ok_def ex_recovery_def ex_part_def)


text \<open>The second segment cannot be reached: the recovery fails, having committed the first part only.\<close>

theorem recovery_safe_witness:
  "let st' = ex_recovery\<lparr>rsegs := [[ex_part ''7'' CommittedXact, ex_part ''9'' PreparedXact],
        [ex_part ''7'' CommittedXact, ex_part ''8'' AbortedXact]]\<rparr>
   in recoverTM (\<lambda>_ i. if i = 0 then Performs True True else Unreachable) True (\<lambda>_ _. Unreachable) ex_recovery =
        (Some (CommitBroadcastFailed ''7''), st') \<and>
      fates (outcome [7]) (rsegs ex_recovery) (rsegs st') \<and> fates (\<lambda>_. CommittedXact) (rsegs ex_recovery) (rsegs st')"
proof -
  let ?env = "\<lambda>_ i. if i = 0 then Performs True True else Unreachable"
  let ?st = "ex_recovery\<lparr>rsegs := [[ex_part ''7'' CommittedXact, ex_part ''9'' PreparedXact],
        [ex_part ''7'' CommittedXact, ex_part ''8'' AbortedXact]]\<rparr>"
  have "upt 0 (length (rsegs ex_recovery)) = [0, 1]" by (simp add: ex_recovery_def)
  then have r: "recoverTM ?env True (\<lambda>_ _. Unreachable) ex_recovery = (Some (CommitBroadcastFailed ''7''), ?st)"
    by (simp add: recoverTM_def recoverInDoubtTransactions_def doNotifyCommittedInDoubt_def broadcast_def Let_def ex_recovery_def ex_gids
        perform_on_def ex_part_def qe_defs)
  have n: "numCommitted ex_recovery = [7]" by (simp add: ex_recovery_def)
  show ?thesis unfolding Let_def using r recovery_safe [OF ex_recovery_ok r] by (simp add: n)
qed

text \<open>A coordinator with one process, which runs transaction 9: the search leaves its part alone and aborts that of 7.\<close>

definition ex_procs :: dtm where
  "ex_procs = \<lparr>nextGxid = 10, GxidCount = 0, latestCompletedGxid = 8, NextSnapshotId = 0, committedGxidArray = [],
     allTmGxact = [no_gxact\<lparr>gxid := 9\<rparr>], pgprocnos = [0], bump_logged = False, dtm_wal = [], ckpt_nextGxid = 1\<rparr>"

theorem orphans_only_witness:
  "let st' = ex_recovery\<lparr>rsegs := [[ex_part ''7'' AbortedXact, ex_part ''9'' PreparedXact],
        [ex_part ''7'' CommittedXact, ex_part ''8'' AbortedXact]]\<rparr>
   in AbortOrphanedPreparedTransactions 1 True (\<lambda>_ _. Performs True True) (\<lambda>_. ex_procs) ex_recovery = (None, st') \<and>
     list_all2 (list_all2 (\<lambda>p p'. p' = p \<or>
       part_state p = PreparedXact \<and> p' = p\<lparr>part_state := AbortedXact\<rparr> \<and>
       (\<exists>k g. dtxDeformGid False (part_gid p) = Inr g \<and> \<not> IsDtxInProgress g ((\<lambda>_::nat. ex_procs) k)))) (rsegs ex_recovery) (rsegs st')"
proof -
  let ?st = "ex_recovery\<lparr>rsegs := [[ex_part ''7'' AbortedXact, ex_part ''9'' PreparedXact],
        [ex_part ''7'' CommittedXact, ex_part ''8'' AbortedXact]]\<rparr>"
  have r: "AbortOrphanedPreparedTransactions 1 True (\<lambda>_ _. Performs True True) (\<lambda>_. ex_procs) ex_recovery = (None, ?st)"
    by code_simp
  show ?thesis unfolding Let_def using r orphans_only [OF ex_recovery_ok(1) r] by blast
qed

text \<open>A checkpoint with transactions 3 and 4, then 4 forgotten, 5 committed, 3 committed again by an overlapping record.\<close>

theorem replay_array_exact_witness:
  "\<exists>st1 st2. redoDtxCheckPoint 10 [3, 4] (startup_from_checkpoint False ex_procs) = Inr st1 \<and>
     dtm_replay False 10 [XLOG_XACT_DISTRIBUTED_FORGET 4, XLOG_XACT_DISTRIBUTED_COMMIT 5, XLOG_XACT_DISTRIBUTED_COMMIT 3] st1 = Inr st2 \<and>
     committedGxidArray st2 = [3, 5] \<and> distinct (committedGxidArray st2) \<and>
     (\<forall>g. g \<in> set (committedGxidArray st2) \<longleftrightarrow> tp_replay (g \<in> set [3, 4])
        (records_of g [XLOG_XACT_DISTRIBUTED_FORGET 4, XLOG_XACT_DISTRIBUTED_COMMIT 5, XLOG_XACT_DISTRIBUTED_COMMIT 3]))"
proof -
  let ?rs = "[XLOG_XACT_DISTRIBUTED_FORGET 4, XLOG_XACT_DISTRIBUTED_COMMIT 5, XLOG_XACT_DISTRIBUTED_COMMIT 3]"
  let ?st = "startup_from_checkpoint False ex_procs"
  have 1: "redoDtxCheckPoint 10 [3, 4] ?st = Inr (?st\<lparr>committedGxidArray := [3, 4]\<rparr>)"
    by (simp add: redoDtxCheckPoint_def redoDistributedCommitRecord_def startup_from_checkpoint_def)
  have 2: "dtm_replay False 10 ?rs (?st\<lparr>committedGxidArray := [3, 4]\<rparr>) = Inr (?st\<lparr>committedGxidArray := [3, 5]\<rparr>)"
    by (simp add: redoDistributedCommitRecord_def redoDistributedForgetCommitRecord_def)
  show ?thesis using 1 2 replay_array_exact [OF 1 2] by auto
qed

end
