(* ===== verification/Spec2Isabelle.thy ===== *)
theory Spec2Isabelle
  imports Fts_Liveness Fts_Handler Fts_Loop Gdd_Deadlock Slru_Client Dlog_Commit Mvcc_Snapshot Dtx_Running Dtx_Atomic Dtx_Recovery
begin

text \<open>
  WarehousePG runs one database over a coordinator and many segments, each segment a primary with a
  mirror.  This development models the parts that make the instances act as one system and proves them
  correct: who is the primary of each segment, how global deadlocks are broken, which transactions a
  query sees on every segment, and that a transaction commits everywhere or nowhere.  File names below
  are relative to \<open>src/src/backend\<close>.

  \<^bold>\<open>How the parts interact.\<close>  The coordinator hands out distributed transaction identifiers (gxids) and
  creates distributed snapshots; it sends both to the segments with each statement.  A segment maps its
  local transactions to gxids in the distributed log, and decides visibility with the distributed
  snapshot first and its local snapshot second.  At the end of a transaction the coordinator runs
  two-phase commit; its log and its recovery process finish what a crash interrupts.  The fault
  tolerance service (FTS) probes the primaries, promotes mirrors, and publishes the configuration.  The
  deadlock detector gathers the waits of all segments.

  \<^bold>\<open>Conventions.\<close>  Structures are records, enumerations datatypes, C integers words where wrap-around
  matters and \<open>nat\<close> or \<open>int\<close> where the code keeps them in range.  An \<open>ereport\<close> of level error or above is
  an \<open>Inl\<close> value or an option, with the state that remains.  What other processes, the kernel, libpq or
  the clock do is an argument of the definition that depends on it.  Loops are recursive functions;
  those that need not end are \<open>partial_function (option)\<close> or bounded by an explicit number of
  iterations, and a theorem says when they end.  Concurrency is a step relation whose steps are the
  critical sections of the code.  Asserts, fault injection and debug output are not modelled.

  \<^bold>\<open>Prelude.\<close>  \<open>Prelude\<close> has the result type, loops over arrays, the scanning and printing of numbers, and
  lemmas on lists and words.

  \<^bold>\<open>Fault tolerance service.\<close>
  \<^item> \<open>Fts_Config\<close>: the configuration rows, the shared status array, messages and responses
    (\<open>cdb/cdbfts.c\<close>, \<open>fts/fts.c\<close>, \<open>include/postmaster/fts.h\<close>).
  \<^item> \<open>Fts_Probe\<close>: one probe cycle of \<open>fts/ftsprobe.c\<close>, a function of the events of each iteration.
    \<open>Fts_Probe_Inv\<close>: the invariant of a pair between two iterations, phase by phase.
  \<^item> \<open>Fts_Catalog\<close>: the catalog as an interface (locale \<open>segment_catalog\<close>, interpreted on
    \<open>probeWalRepUpdateConfig\<close>); a cycle keeps exactly one primary per content, promotes only when the
    mirror is in sync, and raises no internal error.
  \<^item> \<open>Fts_Liveness\<close>: bounds on state changes, the end of a cycle, and the case in which it does not end:
    a response that stays incomplete.
  \<^item> \<open>Fts_Replication\<close>: the table of mirror states of \<open>replication/gp_replication.c\<close> (locale
    \<open>status_table\<close>).  \<open>Fts_Handler\<close>: the messages on a segment (\<open>fts/ftsmessagehandler.c\<close>), composed with
    the wire protocol into a whole exchange.
  \<^item> \<open>Pq_Protocol\<close>, \<open>Pq_Client\<close>: \<open>libpq/pqformat.c\<close>, \<open>libpq/pqcomm.c\<close> and the result parser of
    \<open>interfaces/libpq\<close>; readers of both ends are instances of the locale \<open>byte_reader\<close>, and a result
    written by a backend is read back unchanged.
  \<^item> \<open>Fts_Loop\<close>: a pass of the main loop, the dump file, and the wait of a backend for a fresh probe
    cycle as interleaved steps with wrapping 32-bit counters.

  \<^bold>\<open>Global deadlock detector.\<close>  \<open>Gdd_Detector\<close> is \<open>utils/gdd/gdddetector.c\<close> and one round of
  \<open>utils/gdd/gddbackend.c\<close>; \<open>Gdd_Deadlock\<close> shows that the reduction computes the largest irreducible
  graph, that a deadlock is reported exactly when the waits cannot all be released, and that cancelling
  the victims releases all others.

  \<^bold>\<open>Transactions on a segment.\<close>
  \<^item> \<open>Slru\<close>, \<open>Slru_Pages\<close>, \<open>Slru_Client\<close>: the page buffers of \<open>access/transam/slru.c\<close> with their I/O
    failures, refining a plain store of pages; truncation rests on the locale \<open>page_order\<close>.
  \<^item> \<open>Transam\<close>: circular comparison of 32-bit identifiers.  \<open>Dlog\<close>, \<open>Dlog_Safety\<close>, \<open>Dlog_Horizon\<close>,
    \<open>Dlog_Commit\<close>: \<open>access/transam/distributedlog.c\<close>; a recorded commit is found, the horizon passes only
    what no snapshot needs, and truncation and its replay keep the rest.  A page of 32 kB has 4096
    entries.
  \<^item> \<open>Dtx_Cache\<close>, \<open>Dtx_Snapshot\<close>: \<open>cdb/cdblocaldistribxact.c\<close> and \<open>cdb/cdbdistributedsnapshot.c\<close>; the
    optimised visibility test decides what the snapshot says, and the wire format round-trips.
  \<^item> \<open>Subtrans\<close>, \<open>Mvcc_Snapshot\<close>: \<open>access/transam/subtrans.c\<close> and the test of
    \<open>utils/time/snapmgr.c\<close>.  The local cache is assumed not to outlive a wrap-around of the local
    identifiers, as the code assumes.

  \<^bold>\<open>Transactions on the coordinator.\<close>
  \<^item> \<open>Dtx_Gxact\<close>: gxids, their end and snapshot creation (\<open>cdb/cdbtm.c\<close>, \<open>storage/ipc/procarray.c\<close>), and
    what checkpoint, replay and end of recovery do to the counters (\<open>access/transam/xlog.c\<close>).
    \<open>Dtx_History\<close> is the step relation of a coordinator's history with crashes between any two steps;
    \<open>Dtx_Running\<close> shows that no gxid is reused, that a snapshot sees exactly the running transactions,
    and that snapshots in use are protected; the exception is a snapshot taken before the first
    gxid after a restart.  The batch size \<open>gp_gxid_prefetch_num\<close> is below \<open>2\<^sup>3\<^sup>1\<close>, its limit in the code.
  \<^item> \<open>Dtx_Protocol\<close> (commands on a segment), \<open>Dtx_Coordinator\<close> (the coordinator's process between two
    waits; \<open>cdb/cdbtm.c\<close>, \<open>access/transam/twophase.c\<close>) and \<open>Dtx_TwoPhase\<close>, which composes them for one
    transaction: the relations \<open>qd_step\<close> (\<open>RecordTransactionCommit\<close> of \<open>access/transam/xact.c\<close> and its
    callers), \<open>segment_step\<close>, \<open>log_step\<close> (\<open>CreateCheckPoint\<close>) and \<open>recovery_step\<close>.  Following one
    transaction is enough because gxids are never reused.  \<open>Dtx_Decision\<close> has the invariant, a case
    distinction on what has become of the decision; \<open>Dtx_Atomic\<close> shows that all steps keep it, that
    commit is atomic and reported truthfully, and that every transaction in doubt can be resolved.  The
    theorems are about transactions that wrote on the segments (the flag \<open>wrote\<close>, which is
    \<open>TopXactExecutorDidWriteXLog\<close>); one that only read is committed in one phase everywhere.
  \<^item> \<open>Dtx_Recovery\<close>: \<open>cdb/cdbdtxrecovery.c\<close> on the list of all transactions; replay refines the abstract
    replay of \<open>Dtx_TwoPhase\<close>, start-up recovery is safe under any failure and complete when the segments
    answer, and the search for orphans touches only transactions that are not in progress.

  \<^bold>\<open>Not modelled.\<close>  The write-ahead log beyond the records named above, the dispatcher and the
  interconnect (network and process plumbing), the management of active and exported snapshots and
  anchor snapshots (files), the rest of the process array, the two-phase state files, storage and access
  methods, planner and executor (they need a semantics of SQL), resource groups (operating system
  facilities), catalog and commands, client programs and extensions.  Within modelled files: shared
  memory sizing, signal handlers and latches, the choice of the segment context from dispatched
  information (an argument of the model), error, COPY and notice messages of libpq (handed back
  unparsed), and the conversion of numbers out of range by \<open>sscanf\<close>, which is undefined in C.
\<close>

end
